(* ===== verification/Prelude.thy ===== *)
theory Prelude
  imports "HOL-Library.Word" "HOL-Library.List_Lexorder"
begin

text \<open>
  Shared vocabulary of the development: the machine types of the Rust sources, failure as a value
  (an error result or a panic), checked slices, little-endian byte codecs, hash maps as partial
  functions, and the generic facts the component theories rest on.

  Arithmetic on machine integers is written at its width. Where the source subtracts or adds on
  \<open>usize\<close> and the result depends on the build profile, the definitions take a flag \<open>oc\<close>
  (overflow checks): with it the operation panics, without it the value wraps modulo \<open>2 ^ 64\<close>.
\<close>

section \<open>Machine types and failure values\<close>

type_synonym byte = "8 word"
type_synonym u16 = "16 word"
type_synonym u32 = "32 word"
type_synonym u64 = "64 word"
type_synonym bytes = "byte list"

text \<open>An \<open>anyhow::Error\<close> carries a message; a panic unwinds the caller.\<close>

datatype rust_error = Panic | Error string

type_synonym 'a res = "rust_error + 'a"

abbreviation Ok :: "'a \<Rightarrow> 'a res" where
  "Ok x \<equiv> Inr x"

abbreviation Err :: "string \<Rightarrow> 'a res" where
  "Err m \<equiv> Inl (Error m)"

abbreviation panic :: "'a res" where
  "panic \<equiv> Inl Panic"

text \<open>The question mark operator: stop at the first failure, otherwise go on with the value.\<close>

definition and_then :: "'a res \<Rightarrow> ('a \<Rightarrow> 'b res) \<Rightarrow> 'b res" where
  "and_then m f = (case m of Inl e \<Rightarrow> Inl e | Inr x \<Rightarrow> f x)"

definition is_ok :: "'a res \<Rightarrow> bool" where
  "is_ok m = (case m of Inl _ \<Rightarrow> False | Inr _ \<Rightarrow> True)"

lemma and_then_simps [simp]:
  "and_then (Inl e) f = Inl e"
  "and_then (Inr x) f = f x"
  by (simp_all add: and_then_def)

lemma is_ok_simps [simp]:
  "\<not> is_ok (Inl e)"
  "is_ok (Inr x)"
  by (simp_all add: is_ok_def)

lemma is_ok_iff: "is_ok m \<longleftrightarrow> (\<exists>x. m = Inr x)"
  by (cases m) auto

lemma and_then_eq_Inr:
  "and_then m f = Inr y \<longleftrightarrow> (\<exists>x. m = Inr x \<and> f x = Inr y)"
  by (cases m) auto

lemma and_then_assoc [simp]:
  "and_then (and_then m f) g = and_then m (\<lambda>x. and_then (f x) g)"
  by (cases m) auto

text \<open>Code that changes a state and may fail; a failure keeps the changes made so far.\<close>

type_synonym ('s, 'a) act = "'s \<Rightarrow> 's \<times> 'a res"

definition ret :: "'a \<Rightarrow> ('s, 'a) act" where
  "ret x = (\<lambda>s. (s, Ok x))"

definition lift_res :: "'a res \<Rightarrow> ('s, 'a) act" where
  "lift_res r = (\<lambda>s. (s, r))"

definition act_then :: "('s, 'a) act \<Rightarrow> ('a \<Rightarrow> ('s, 'b) act) \<Rightarrow> ('s, 'b) act" where
  "act_then m f = (\<lambda>s. case m s of (s', Inl e) \<Rightarrow> (s', Inl e) | (s', Inr x) \<Rightarrow> f x s')"

lemma act_simps [simp]:
  "ret x s = (s, Ok x)"
  "lift_res r s = (s, r)"
  "m s = (s', Inr x) \<Longrightarrow> act_then m f s = f x s'"
  "m s = (s', Inl e) \<Longrightarrow> act_then m f s = (s', Inl e)"
  "act_then (ret x) f s = f x s"
  "act_then (lift_res (Inr x)) f s = f x s"
  "act_then (lift_res (Inl e)) f s = (s, Inl e)"
  by (simp_all add: ret_def lift_res_def act_then_def)

lemma act_then_Ok:
  "act_then m f s = (s'', Inr y) \<longleftrightarrow> (\<exists>s' x. m s = (s', Inr x) \<and> f x s' = (s'', Inr y))"
  by (auto simp: act_then_def split: prod.splits sum.splits)

lemma unat_lt2p: "unat (w :: 'a::len word) < 2 ^ LENGTH('a)"
  by (rule unsigned_less)

section \<open>Arithmetic on \<open>usize\<close>\<close>

definition usize_sub :: "bool \<Rightarrow> nat \<Rightarrow> nat \<Rightarrow> nat res" where
  "usize_sub oc a b =
     (if b \<le> a then Ok (a - b) else if oc then panic else Ok (2 ^ 64 + a - b))"

lemma usize_sub_le [simp]: "b \<le> a \<Longrightarrow> usize_sub oc a b = Ok (a - b)"
  by (simp add: usize_sub_def)

lemma usize_sub_checked: "usize_sub True a b = (if b \<le> a then Ok (a - b) else panic)"
  by (simp add: usize_sub_def)

text \<open>Addition on a machine word.\<close>

definition word_add :: "bool \<Rightarrow> 'a::len word \<Rightarrow> 'a word \<Rightarrow> 'a word res" where
  "word_add oc a b = (if oc \<and> unat a + unat b \<ge> 2 ^ LENGTH('a) then panic else Ok (a + b))"

lemma word_add_ok [simp]:
  fixes a b :: "'a::len word"
  shows "unat a + unat b < 2 ^ LENGTH('a) \<Longrightarrow> word_add oc a b = Ok (a + b)"
  by (simp add: word_add_def)

lemma unat_add_ok:
  fixes a b :: "'a::len word"
  shows "unat a + unat b < 2 ^ LENGTH('a) \<Longrightarrow> unat (a + b) = unat a + unat b"
  by (simp add: unat_word_ariths)

text \<open>The index of the first element with a property.\<close>

fun position :: "('a \<Rightarrow> bool) \<Rightarrow> 'a list \<Rightarrow> nat option" where
  "position p [] = None"
| "position p (x # xs) = (if p x then Some 0 else map_option Suc (position p xs))"

lemma position_Some:
  "position p xs = Some i \<longleftrightarrow> i < length xs \<and> p (xs ! i) \<and> (\<forall>j < i. \<not> p (xs ! j))"
proof (induction xs arbitrary: i)
  case Nil
  then show ?case by simp
next
  case (Cons x xs)
  show ?case
    by (cases i) (auto simp: Cons.IH less_Suc_eq_0_disj)
qed

lemma position_None: "position p xs = None \<longleftrightarrow> (\<forall>x \<in> set xs. \<not> p x)"
  by (induction xs) auto

text \<open>\<open>u32::div_ceil\<close> and \<open>usize::div_ceil\<close>.\<close>

definition div_ceil :: "nat \<Rightarrow> nat \<Rightarrow> nat" where
  "div_ceil a b = (if a mod b = 0 then a div b else a div b + 1)"

lemma div_ceil_le_iff:
  assumes "0 < b"
  shows "div_ceil a b \<le> i \<longleftrightarrow> a \<le> i * b"
proof -
  have eq: "a = a div b * b + a mod b" by simp
  have lt: "a mod b < b" using assms by simp
  show ?thesis
  proof (cases "a mod b = 0")
    case True
    then have "a = a div b * b" using eq by simp
    then show ?thesis
      using assms True by (metis div_ceil_def mult_le_cancel2)
  next
    case False
    have "a div b < i \<longleftrightarrow> a < i * b" using assms by (simp add: div_less_iff_less_mult)
    moreover have "a \<noteq> i * b" using False by auto
    ultimately show ?thesis using False by (auto simp: div_ceil_def)
  qed
qed

lemma less_div_ceil_iff: "0 < b \<Longrightarrow> i < div_ceil a b \<longleftrightarrow> i * b < a"
  using div_ceil_le_iff [of b a i] by linarith

section \<open>Checked slices\<close>

text \<open>\<open>data[a..b]\<close>, and \<open>data[off..off + n].copy_from_slice(bs)\<close> for an \<open>n\<close>-byte \<open>bs\<close>.\<close>

definition slice :: "nat \<Rightarrow> nat \<Rightarrow> 'a list \<Rightarrow> 'a list res" where
  "slice a b xs = (if a \<le> b \<and> b \<le> length xs then Ok (take (b - a) (drop a xs)) else panic)"

definition put_slice :: "nat \<Rightarrow> 'a list \<Rightarrow> 'a list \<Rightarrow> 'a list res" where
  "put_slice off bs xs =
     (if off + length bs \<le> length xs
      then Ok (take off xs @ bs @ drop (off + length bs) xs) else panic)"

lemma slice_ok [simp]:
  "a \<le> b \<Longrightarrow> b \<le> length xs \<Longrightarrow> slice a b xs = Ok (take (b - a) (drop a xs))"
  by (simp add: slice_def)

lemma put_slice_ok [simp]:
  "off + length bs \<le> length xs \<Longrightarrow>
     put_slice off bs xs = Ok (take off xs @ bs @ drop (off + length bs) xs)"
  by (simp add: put_slice_def)

text \<open>The sub-list \<open>[off, off + n)\<close>, the total companion of \<open>slice\<close> used in specifications.\<close>

definition sub :: "nat \<Rightarrow> nat \<Rightarrow> 'a list \<Rightarrow> 'a list" where
  "sub off n xs = take n (drop off xs)"

definition put_at :: "nat \<Rightarrow> 'a list \<Rightarrow> 'a list \<Rightarrow> 'a list" where
  "put_at off bs xs = take off xs @ bs @ drop (off + length bs) xs"

lemma length_put_at [simp]:
  "off + length bs \<le> length xs \<Longrightarrow> length (put_at off bs xs) = length xs"
  by (simp add: put_at_def)

lemma length_sub [simp]: "off + n \<le> length xs \<Longrightarrow> length (sub off n xs) = n"
  by (simp add: sub_def)

lemma sub_put_at_same [simp]:
  "off + length bs \<le> length xs \<Longrightarrow> n = length bs \<Longrightarrow> sub off n (put_at off bs xs) = bs"
  by (simp add: sub_def put_at_def)

lemma sub_put_at_before [simp]:
  "off' + n \<le> off \<Longrightarrow> off + length bs \<le> length xs \<Longrightarrow>
     sub off' n (put_at off bs xs) = sub off' n xs"
  by (rule nth_equalityI) (auto simp: sub_def put_at_def nth_append)

lemma sub_put_at_after [simp]:
  "off + length bs \<le> off' \<Longrightarrow> off + length bs \<le> length xs \<Longrightarrow>
     sub off' n (put_at off bs xs) = sub off' n xs"
  by (simp add: sub_def put_at_def min_def)

lemma put_slice_put_at:
  "put_slice off bs xs = (if off + length bs \<le> length xs then Ok (put_at off bs xs) else panic)"
  by (simp add: put_slice_def put_at_def)

lemma drop_after: "drop off data = xs @ ys \<Longrightarrow> drop (off + length xs) data = ys"
proof -
  assume "drop off data = xs @ ys"
  then have "drop (length xs) (drop off data) = ys" by simp
  then show ?thesis by (simp add: add.commute)
qed

lemma drop_eq_mono: "drop m xs = drop m ys \<Longrightarrow> m \<le> n \<Longrightarrow> drop n xs = drop n ys"
proof -
  assume eq: "drop m xs = drop m ys" and "m \<le> n"
  then obtain k where "n = k + m" using le_Suc_ex by (metis add.commute)
  then show ?thesis using eq by (simp flip: drop_drop)
qed

section \<open>Little-endian bytes\<close>

fun nat_le :: "nat \<Rightarrow> nat \<Rightarrow> bytes" where
  "nat_le 0 x = []"
| "nat_le (Suc n) x = word_of_nat (x mod 256) # nat_le n (x div 256)"

fun le_nat :: "bytes \<Rightarrow> nat" where
  "le_nat [] = 0"
| "le_nat (b # bs) = unat b + 256 * le_nat bs"

text \<open>\<open>to_le_bytes\<close> for a type of \<open>n\<close> bytes, and \<open>from_le_bytes\<close>.\<close>

definition to_le :: "nat \<Rightarrow> 'a::len word \<Rightarrow> bytes" where
  "to_le n w = nat_le n (unat w)"

definition from_le :: "bytes \<Rightarrow> 'a::len word" where
  "from_le bs = word_of_nat (le_nat bs)"

lemma length_nat_le [simp]: "length (nat_le n x) = n"
  by (induction n arbitrary: x) auto

lemma length_to_le [simp]: "length (to_le n w) = n"
  by (simp add: to_le_def)

lemma le_nat_nat_le: "le_nat (nat_le n x) = x mod 256 ^ n"
proof (induction n arbitrary: x)
  case 0
  then show ?case by simp
next
  case (Suc n)
  have b: "unat (word_of_nat (x mod 256) :: byte) = x mod 256"
    by (simp add: unat_of_nat)
  have "x mod 256 ^ Suc n = x mod 256 + 256 * (x div 256 mod 256 ^ n)"
    by (simp add: mod_mult2_eq)
  then show ?case using Suc b by simp
qed

lemma le_nat_bound: "le_nat bs < 256 ^ length bs"
proof (induction bs)
  case Nil
  then show ?case by simp
next
  case (Cons b bs)
  have "unat b < 256" using unat_lt2p [of b] by simp
  then have "unat b + 256 * le_nat bs < 256 * (le_nat bs + 1)" by simp
  also have "\<dots> \<le> 256 * 256 ^ length bs" using Cons by (simp del: mult_Suc_right)
  finally show ?case by simp
qed

lemma nat_le_le_nat [simp]: "nat_le (length bs) (le_nat bs) = bs"
proof (induction bs)
  case Nil
  then show ?case by simp
next
  case (Cons b bs)
  have b: "unat b < 256" using unat_lt2p [of b] by simp
  then have "(unat b + 256 * le_nat bs) mod 256 = unat b"
    and "(unat b + 256 * le_nat bs) div 256 = le_nat bs" by simp_all
  then show ?case using Cons by simp
qed

text \<open>Writing a value in its own width and reading it back is the identity, both ways.\<close>

lemma from_le_to_le [simp]:
  fixes w :: "'a::len word"
  assumes "LENGTH('a) \<le> 8 * n"
  shows "from_le (to_le n w) = w"
proof -
  have "(2::nat) ^ LENGTH('a) \<le> 2 ^ (8 * n)" using assms by (simp add: power_increasing)
  also have "\<dots> = 256 ^ n" by (simp add: power_mult)
  finally have "unat w < 256 ^ n" by (rule less_le_trans [OF unat_lt2p])
  then show ?thesis by (simp add: from_le_def to_le_def le_nat_nat_le)
qed

lemma to_le_from_le [simp]:
  assumes "length bs = n" and "8 * n \<le> LENGTH('a)"
  shows "to_le n (from_le bs :: 'a::len word) = bs"
proof -
  have "(256::nat) ^ n = 2 ^ (8 * n)" by (simp add: power_mult)
  also have "\<dots> \<le> 2 ^ LENGTH('a)" using assms(2) by (simp add: power_increasing)
  finally have "le_nat bs < 2 ^ LENGTH('a)" using le_nat_bound [of bs] assms(1) by simp
  then have "unat (from_le bs :: 'a word) = le_nat bs"
    by (simp add: from_le_def unat_of_nat)
  then show ?thesis using assms(1) by (auto simp: to_le_def)
qed

text \<open>The field of \<open>n\<close> bytes at offset \<open>off\<close> of a serialised struct.\<close>

definition field_le :: "nat \<Rightarrow> nat \<Rightarrow> bytes \<Rightarrow> 'a::len word" where
  "field_le off n data = from_le (sub off n data)"

lemma field_le_0 [simp]:
  "length bs = n \<Longrightarrow> field_le 0 n (bs @ rest) = from_le bs"
  by (simp add: field_le_def sub_def)

lemma field_le_skip:
  "length bs \<le> off \<Longrightarrow> field_le off n (bs @ rest) = field_le (off - length bs) n rest"
  by (simp add: field_le_def sub_def)

lemma field_le_whole [simp]: "length bs = n \<Longrightarrow> field_le 0 n bs = from_le bs"
  by (simp add: field_le_def sub_def)

section \<open>Words as naturals\<close>

lemma unat_word_of_nat16 [simp]:
  "n < 65536 \<Longrightarrow> unat (word_of_nat n :: u16) = n"
  by (simp add: unat_of_nat)

lemma unat_word_of_nat32 [simp]:
  "n < 4294967296 \<Longrightarrow> unat (word_of_nat n :: u32) = n"
  by (simp add: unat_of_nat)

lemma unat16_less: "unat (w :: u16) < 65536"
  using unat_lt2p [of w] by simp

lemma unat32_less: "unat (w :: u32) < 4294967296"
  using unat_lt2p [of w] by simp

lemma unat64_less: "unat (w :: u64) < 2 ^ 64"
  using unat_lt2p [of w] by simp

lemma unat_Suc32:
  "unat (w :: u32) < 4294967295 \<Longrightarrow> unat (w + 1) = Suc (unat w)"
  by (simp add: unat_word_ariths)

section \<open>Hash maps\<close>

text \<open>
  A \<open>HashMap\<close> is a partial function. Its iteration order is not specified by the language, so an
  operation that iterates takes the order as an argument, and the facts about it hold for every
  order that enumerates the keys.
\<close>

definition enumerates :: "'k list \<Rightarrow> ('k \<rightharpoonup> 'v) \<Rightarrow> bool" where
  "enumerates ks m \<longleftrightarrow> distinct ks \<and> set ks = dom m"

text \<open>\<open>entry(k).or_default()\<close> on a map of vectors, \<open>get(k).cloned().unwrap_or_default()\<close>.\<close>

definition vec_at :: "('k \<rightharpoonup> 'v list) \<Rightarrow> 'k \<Rightarrow> 'v list" where
  "vec_at m k = (case m k of None \<Rightarrow> [] | Some vs \<Rightarrow> vs)"

definition vec_push :: "('k \<rightharpoonup> 'v list) \<Rightarrow> 'k \<Rightarrow> 'v \<Rightarrow> ('k \<rightharpoonup> 'v list)" where
  "vec_push m k v = m(k \<mapsto> vec_at m k @ [v])"

text \<open>Store a vector under a key, or drop the key when the vector is empty.\<close>

definition vec_put :: "('k \<rightharpoonup> 'v list) \<Rightarrow> 'k \<Rightarrow> 'v list \<Rightarrow> ('k \<rightharpoonup> 'v list)" where
  "vec_put m k vs = (if vs = [] then m(k := None) else m(k \<mapsto> vs))"

text \<open>Filter every vector of the map and drop the keys left with an empty one.\<close>

definition vec_retain :: "('v \<Rightarrow> bool) \<Rightarrow> ('k \<rightharpoonup> 'v list) \<Rightarrow> ('k \<rightharpoonup> 'v list)" where
  "vec_retain p m = (\<lambda>k. case m k of None \<Rightarrow> None
     | Some vs \<Rightarrow> (if filter p vs = [] then None else Some (filter p vs)))"

definition no_empty_vec :: "('k \<rightharpoonup> 'v list) \<Rightarrow> bool" where
  "no_empty_vec m \<longleftrightarrow> (\<forall>k. m k \<noteq> Some [])"

lemma vec_at_empty [simp]: "vec_at Map.empty k = []"
  by (simp add: vec_at_def)

lemma vec_at_push [simp]:
  "vec_at (vec_push m k v) k' = (if k' = k then vec_at m k @ [v] else vec_at m k')"
  by (simp add: vec_at_def vec_push_def)

lemma vec_at_put [simp]: "vec_at (vec_put m k vs) k' = (if k' = k then vs else vec_at m k')"
  by (simp add: vec_at_def vec_put_def)

lemma vec_at_retain [simp]: "vec_at (vec_retain p m) k = filter p (vec_at m k)"
  by (simp add: vec_at_def vec_retain_def split: option.splits)

lemma no_empty_vec_ops [simp]:
  "no_empty_vec Map.empty"
  "no_empty_vec m \<Longrightarrow> no_empty_vec (vec_push m k v)"
  "no_empty_vec m \<Longrightarrow> no_empty_vec (vec_put m k vs)"
  "no_empty_vec (vec_retain p m)"
  by (auto simp: no_empty_vec_def vec_push_def vec_put_def vec_retain_def split: option.splits)

text \<open>\<open>iter().position(p)\<close> followed by \<open>Vec::remove\<close>.\<close>

fun remove_first :: "('a \<Rightarrow> bool) \<Rightarrow> 'a list \<Rightarrow> 'a list" where
  "remove_first p [] = []"
| "remove_first p (x # xs) = (if p x then xs else x # remove_first p xs)"

lemma remove_first_none: "\<not> list_ex p xs \<Longrightarrow> remove_first p xs = xs"
  by (induction xs) auto

lemma set_remove_first_subset: "set (remove_first p xs) \<subseteq> set xs"
  by (induction xs) auto

lemma length_remove_first:
  "length (remove_first p xs) = (if list_ex p xs then length xs - 1 else length xs)"
proof (induction xs)
  case (Cons x xs)
  then show ?case by (cases xs) auto
qed simp

lemma filter_remove_first:
  "(\<And>x. q x \<Longrightarrow> \<not> p x) \<Longrightarrow> filter q (remove_first p xs) = filter q xs"
  by (induction xs) auto

section \<open>Ends of a sorted list\<close>

lemma sort_ends:
  fixes xs :: "'a::linorder list"
  assumes "xs \<noteq> []"
  obtains v vs w ws where "sort xs = v # vs" "v = Min (set xs)" "rev (sort xs) = w # ws" "w = Max (set xs)"
proof -
  have srt: "sorted (sort xs)" and st: "set (sort xs) = set xs" by simp_all
  have ne: "sort xs \<noteq> []" using assms st by (metis set_empty)
  obtain v vs where s: "sort xs = v # vs" using ne by (cases "sort xs") auto
  obtain w ws where r: "rev (sort xs) = w # ws" using ne by (cases "rev (sort xs)") auto
  then have l: "sort xs = rev ws @ [w]" by (metis rev.simps(2) rev_rev_ident)
  have "v \<in> set xs" "\<forall>x \<in> set xs. v \<le> x" using srt st by (auto simp: s)
  then have "v = Min (set xs)" by (intro Min_eqI [symmetric]) auto
  moreover have "w \<in> set xs" "\<forall>x \<in> set xs. x \<le> w"
    using srt st by (auto simp: l sorted_append)
  then have "w = Max (set xs)" by (intro Max_eqI [symmetric]) auto
  ultimately show thesis using s r that by blast
qed

end
