(* ===== verification/Locks.thy ===== *)
theory Locks
  imports Prelude
begin

text \<open>
  The lock manager of \<open>transaction/locks.rs\<close>: table, row and advisory locks, the queue of refused
  requests and the deadlock detector. Each mutex-protected field is a field of the record
  \<open>LockManager\<close>; an operation takes the manager and returns the new one, with the result the
  caller sees. Every operation holds its mutexes for its whole body, so an operation is one step;
  message texts keep their fixed part only.

  Lemma groups: the conflict relation is symmetric; a table of lock entries in which different
  holders never conflict stays so under every operation (locale \<open>conflict_table\<close>, interpreted for
  the lock modes and for the advisory modes); the depth-first search of \<open>detect_cycle\<close> finds a
  cycle exactly when the wait-for relation has one.
\<close>

section \<open>Data model\<close>

type_synonym xid = u32
type_synonym oid = u32

datatype LockMode =
    AccessShare | RowShare | RowExclusive | ShareUpdateExclusive | Share | ShareRowExclusive
  | Exclusive | AccessExclusive | ForUpdate | ForShare | ForNoKeyUpdate | ForKeyShare

definition is_table_lock :: "LockMode \<Rightarrow> bool" where
  "is_table_lock m =
     (case m of ForUpdate \<Rightarrow> False | ForShare \<Rightarrow> False | ForNoKeyUpdate \<Rightarrow> False
      | ForKeyShare \<Rightarrow> False | _ \<Rightarrow> True)"

definition conflicts_with :: "LockMode \<Rightarrow> LockMode \<Rightarrow> bool" where
  "conflicts_with self other =
     (case (self, other) of
        (AccessShare, Exclusive) \<Rightarrow> True | (Exclusive, AccessShare) \<Rightarrow> True
      | (AccessShare, AccessExclusive) \<Rightarrow> True | (AccessExclusive, AccessShare) \<Rightarrow> True
      | (RowShare, RowExclusive) \<Rightarrow> True | (RowExclusive, RowShare) \<Rightarrow> True
      | (RowShare, ShareUpdateExclusive) \<Rightarrow> True | (ShareUpdateExclusive, RowShare) \<Rightarrow> True
      | (RowShare, Exclusive) \<Rightarrow> True | (Exclusive, RowShare) \<Rightarrow> True
      | (RowShare, AccessExclusive) \<Rightarrow> True | (AccessExclusive, RowShare) \<Rightarrow> True
      | (RowExclusive, ShareUpdateExclusive) \<Rightarrow> True | (ShareUpdateExclusive, RowExclusive) \<Rightarrow> True
      | (RowExclusive, Share) \<Rightarrow> True | (Share, RowExclusive) \<Rightarrow> True
      | (RowExclusive, ShareRowExclusive) \<Rightarrow> True | (ShareRowExclusive, RowExclusive) \<Rightarrow> True
      | (RowExclusive, Exclusive) \<Rightarrow> True | (Exclusive, RowExclusive) \<Rightarrow> True
      | (RowExclusive, AccessExclusive) \<Rightarrow> True | (AccessExclusive, RowExclusive) \<Rightarrow> True
      | (ShareUpdateExclusive, Share) \<Rightarrow> True | (Share, ShareUpdateExclusive) \<Rightarrow> True
      | (ShareUpdateExclusive, ShareRowExclusive) \<Rightarrow> True
      | (ShareRowExclusive, ShareUpdateExclusive) \<Rightarrow> True
      | (ShareUpdateExclusive, Exclusive) \<Rightarrow> True | (Exclusive, ShareUpdateExclusive) \<Rightarrow> True
      | (ShareUpdateExclusive, AccessExclusive) \<Rightarrow> True
      | (AccessExclusive, ShareUpdateExclusive) \<Rightarrow> True
      | (Share, ShareRowExclusive) \<Rightarrow> True | (ShareRowExclusive, Share) \<Rightarrow> True
      | (Share, Exclusive) \<Rightarrow> True | (Exclusive, Share) \<Rightarrow> True
      | (Share, AccessExclusive) \<Rightarrow> True | (AccessExclusive, Share) \<Rightarrow> True
      | (ShareRowExclusive, Exclusive) \<Rightarrow> True | (Exclusive, ShareRowExclusive) \<Rightarrow> True
      | (ShareRowExclusive, AccessExclusive) \<Rightarrow> True | (AccessExclusive, ShareRowExclusive) \<Rightarrow> True
      | (Exclusive, AccessExclusive) \<Rightarrow> True | (AccessExclusive, Exclusive) \<Rightarrow> True
      | (ForUpdate, ForUpdate) \<Rightarrow> True | (ForUpdate, ForShare) \<Rightarrow> True
      | (ForShare, ForUpdate) \<Rightarrow> True
      | (ForUpdate, ForNoKeyUpdate) \<Rightarrow> True | (ForNoKeyUpdate, ForUpdate) \<Rightarrow> True
      | (ForUpdate, ForKeyShare) \<Rightarrow> True | (ForKeyShare, ForUpdate) \<Rightarrow> True
      | (ForShare, ForNoKeyUpdate) \<Rightarrow> True | (ForNoKeyUpdate, ForShare) \<Rightarrow> True
      | (ForShare, ForKeyShare) \<Rightarrow> True | (ForKeyShare, ForShare) \<Rightarrow> True
      | (ForNoKeyUpdate, ForNoKeyUpdate) \<Rightarrow> True
      | (ForKeyShare, ForKeyShare) \<Rightarrow> False
      | _ \<Rightarrow> False)"

datatype AdvisoryLockMode = AdvExclusive | AdvShared

text \<open>The source has one entry struct per mode type; both are instances of this record.\<close>

record 'm lock_entry =
  holder :: xid
  mode :: 'm

type_synonym LockEntry = "LockMode lock_entry"
type_synonym AdvisoryLockEntry = "AdvisoryLockMode lock_entry"

record LockRequest =
  req_xid :: xid
  req_mode :: LockMode
  relation_oid :: oid
  page_id :: "u32 option"
  tuple_offset :: "u16 option"

record LockManager =
  table_locks :: "oid \<rightharpoonup> LockEntry list"
  row_locks :: "oid \<times> u32 \<times> u16 \<rightharpoonup> LockEntry list"
  wait_queue :: "LockRequest list"
  advisory_locks :: "u64 \<rightharpoonup> AdvisoryLockEntry list"

definition new_lock_manager :: LockManager where
  "new_lock_manager =
     \<lparr>table_locks = Map.empty, row_locks = Map.empty, wait_queue = [],
      advisory_locks = Map.empty\<rparr>"

section \<open>Operations\<close>

definition acquire_table_lock ::
    "xid \<Rightarrow> oid \<Rightarrow> LockMode \<Rightarrow> LockManager \<Rightarrow> LockManager \<times> unit res" where
  "acquire_table_lock x rel m lm =
     (if list_ex (\<lambda>existing. holder existing \<noteq> x \<and> conflicts_with m (mode existing))
           (vec_at (table_locks lm) rel)
      then (lm\<lparr>wait_queue := wait_queue lm @
                [\<lparr>req_xid = x, req_mode = m, relation_oid = rel,
                  page_id = None, tuple_offset = None\<rparr>]\<rparr>,
            Err ''Lock conflict on relation'')
      else (lm\<lparr>table_locks := vec_push (table_locks lm) rel \<lparr>holder = x, mode = m\<rparr>\<rparr>, Ok ()))"

definition release_table_lock :: "xid \<Rightarrow> oid \<Rightarrow> LockManager \<Rightarrow> LockManager" where
  "release_table_lock x rel lm =
     (case table_locks lm rel of
        Some locks \<Rightarrow>
          lm\<lparr>table_locks := vec_put (table_locks lm) rel (filter (\<lambda>l. holder l \<noteq> x) locks)\<rparr>
      | None \<Rightarrow> lm)"

definition acquire_row_lock ::
    "xid \<Rightarrow> oid \<Rightarrow> u32 \<Rightarrow> u16 \<Rightarrow> LockMode \<Rightarrow> LockManager \<Rightarrow> LockManager \<times> unit res" where
  "acquire_row_lock x rel pg off m lm =
     (if list_ex (\<lambda>existing. holder existing \<noteq> x \<and> conflicts_with m (mode existing))
           (vec_at (row_locks lm) (rel, pg, off))
      then (lm\<lparr>wait_queue := wait_queue lm @
                [\<lparr>req_xid = x, req_mode = m, relation_oid = rel,
                  page_id = Some pg, tuple_offset = Some off\<rparr>]\<rparr>,
            Err ''Row lock conflict on'')
      else (lm\<lparr>row_locks := vec_push (row_locks lm) (rel, pg, off) \<lparr>holder = x, mode = m\<rparr>\<rparr>,
            Ok ()))"

definition release_row_lock :: "xid \<Rightarrow> oid \<Rightarrow> u32 \<Rightarrow> u16 \<Rightarrow> LockManager \<Rightarrow> LockManager" where
  "release_row_lock x rel pg off lm =
     (case row_locks lm (rel, pg, off) of
        Some locks \<Rightarrow>
          lm\<lparr>row_locks := vec_put (row_locks lm) (rel, pg, off) (filter (\<lambda>l. holder l \<noteq> x) locks)\<rparr>
      | None \<Rightarrow> lm)"

definition release_all_locks :: "xid \<Rightarrow> LockManager \<Rightarrow> LockManager" where
  "release_all_locks x lm =
     lm\<lparr>table_locks := vec_retain (\<lambda>l. holder l \<noteq> x) (table_locks lm),
        row_locks := vec_retain (\<lambda>l. holder l \<noteq> x) (row_locks lm)\<rparr>"

definition table_lock_holders :: "oid \<Rightarrow> LockManager \<Rightarrow> (xid \<times> LockMode) list" where
  "table_lock_holders rel lm = map (\<lambda>l. (holder l, mode l)) (vec_at (table_locks lm) rel)"

definition row_lock_holders ::
    "oid \<Rightarrow> u32 \<Rightarrow> u16 \<Rightarrow> LockManager \<Rightarrow> (xid \<times> LockMode) list" where
  "row_lock_holders rel pg off lm =
     map (\<lambda>l. (holder l, mode l)) (vec_at (row_locks lm) (rel, pg, off))"

text \<open>The conflict decision inside \<open>acquire_advisory_lock\<close>.\<close>

fun advisory_conflicts :: "AdvisoryLockMode \<Rightarrow> AdvisoryLockMode \<Rightarrow> bool" where
  "advisory_conflicts AdvExclusive _ = True"
| "advisory_conflicts AdvShared AdvExclusive = True"
| "advisory_conflicts AdvShared AdvShared = False"

definition acquire_advisory_lock ::
    "xid \<Rightarrow> u64 \<Rightarrow> AdvisoryLockMode \<Rightarrow> LockManager \<Rightarrow> LockManager \<times> unit res" where
  "acquire_advisory_lock x key m lm =
     (if list_ex (\<lambda>entry. holder entry \<noteq> x \<and> advisory_conflicts m (mode entry))
           (vec_at (advisory_locks lm) key)
      then (lm, Err ''Advisory lock conflict on key'')
      else (lm\<lparr>advisory_locks := vec_push (advisory_locks lm) key \<lparr>holder = x, mode = m\<rparr>\<rparr>, Ok ()))"

definition try_acquire_advisory_lock ::
    "xid \<Rightarrow> u64 \<Rightarrow> AdvisoryLockMode \<Rightarrow> LockManager \<Rightarrow> LockManager \<times> bool" where
  "try_acquire_advisory_lock x key m lm =
     (let (lm', r) = acquire_advisory_lock x key m lm in (lm', is_ok r))"

definition release_advisory_lock :: "xid \<Rightarrow> u64 \<Rightarrow> LockManager \<Rightarrow> LockManager \<times> bool" where
  "release_advisory_lock x key lm =
     (case advisory_locks lm key of
        Some entries \<Rightarrow>
          (if list_ex (\<lambda>e. holder e = x) entries
           then (lm\<lparr>advisory_locks :=
                     vec_put (advisory_locks lm) key (remove_first (\<lambda>e. holder e = x) entries)\<rparr>, True)
           else (lm, False))
      | None \<Rightarrow> (lm, False))"

definition release_all_advisory_locks :: "xid \<Rightarrow> LockManager \<Rightarrow> LockManager" where
  "release_all_advisory_locks x lm =
     lm\<lparr>advisory_locks := vec_retain (\<lambda>e. holder e \<noteq> x) (advisory_locks lm)\<rparr>"

definition advisory_lock_holders :: "u64 \<Rightarrow> LockManager \<Rightarrow> (xid \<times> AdvisoryLockMode) list" where
  "advisory_lock_holders key lm = map (\<lambda>e. (holder e, mode e)) (vec_at (advisory_locks lm) key)"

section \<open>Deadlock detection\<close>

text \<open>
  \<open>detect_deadlock\<close> rebuilds, for each queued request, the holders that block it now, and searches
  the resulting graph depth first. \<open>HashSet\<close>s are sets; the order in which the keys of the
  \<open>wait_for\<close> map are tried is the argument \<open>ks\<close>. The recursion carries fuel: one unit per nested
  call of \<open>detect_cycle\<close>, and \<open>None\<close> means that the fuel ran out.
\<close>

definition blockers :: "LockManager \<Rightarrow> LockRequest \<Rightarrow> xid list" where
  "blockers lm r =
     (let locks = (case (page_id r, tuple_offset r) of
                     (Some pg, Some off) \<Rightarrow> vec_at (row_locks lm) (relation_oid r, pg, off)
                   | _ \<Rightarrow> vec_at (table_locks lm) (relation_oid r))
      in map holder (filter (\<lambda>l. holder l \<noteq> req_xid r \<and> conflicts_with (req_mode r) (mode l)) locks))"

definition add_request :: "LockManager \<Rightarrow> LockRequest \<Rightarrow> (xid \<rightharpoonup> xid list) \<Rightarrow> (xid \<rightharpoonup> xid list)" where
  "add_request lm r m =
     (if blockers lm r = [] then m
      else m(req_xid r \<mapsto> vec_at m (req_xid r) @ blockers lm r))"

definition build_wait_for :: "LockManager \<Rightarrow> (xid \<rightharpoonup> xid list)" where
  "build_wait_for lm = fold (add_request lm) (wait_queue lm) Map.empty"

fun detect_cycle ::
    "nat \<Rightarrow> (xid \<rightharpoonup> xid list) \<Rightarrow> xid \<Rightarrow> xid set \<Rightarrow> xid set \<Rightarrow>
       (xid list option \<times> xid set \<times> xid set) option"
and scan_blockers ::
    "nat \<Rightarrow> (xid \<rightharpoonup> xid list) \<Rightarrow> xid \<Rightarrow> xid list \<Rightarrow> xid set \<Rightarrow> xid set \<Rightarrow>
       (xid list option \<times> xid set \<times> xid set) option" where
  "detect_cycle 0 g x visited stack = None"
| "detect_cycle (Suc fuel) g x visited stack =
     (case scan_blockers fuel g x (vec_at g x) (insert x visited) (insert x stack) of
        None \<Rightarrow> None
      | Some (Some c, visited', stack') \<Rightarrow> Some (Some c, visited', stack')
      | Some (None, visited', stack') \<Rightarrow> Some (None, visited', stack' - {x}))"
| "scan_blockers fuel g x [] visited stack = Some (None, visited, stack)"
| "scan_blockers fuel g x (b # bs) visited stack =
     (if b \<notin> visited then
        (case detect_cycle fuel g b visited stack of
           None \<Rightarrow> None
         | Some (Some c, visited', stack') \<Rightarrow> Some (Some c, visited', stack')
         | Some (None, visited', stack') \<Rightarrow> scan_blockers fuel g x bs visited' stack')
      else if b \<in> stack then Some (Some [x, b], visited, stack)
      else scan_blockers fuel g x bs visited stack)"

fun try_roots ::
    "nat \<Rightarrow> (xid \<rightharpoonup> xid list) \<Rightarrow> xid list \<Rightarrow> xid set \<Rightarrow> xid set \<Rightarrow> xid list option option" where
  "try_roots fuel g [] visited stack = Some None"
| "try_roots fuel g (x # xs) visited stack =
     (case detect_cycle fuel g x visited stack of
        None \<Rightarrow> None
      | Some (Some c, visited', stack') \<Rightarrow> Some (Some c)
      | Some (None, visited', stack') \<Rightarrow> try_roots fuel g xs visited' stack')"

text \<open>Fuel: one more than the number of transactions that can occur in the graph.\<close>

definition deadlock_fuel :: "LockManager \<Rightarrow> nat" where
  "deadlock_fuel lm =
     Suc (length (wait_queue lm) + sum_list (map (length \<circ> blockers lm) (wait_queue lm)))"

definition detect_deadlock :: "xid list \<Rightarrow> LockManager \<Rightarrow> xid list option option" where
  "detect_deadlock ks lm =
     (if wait_queue lm = [] then Some None
      else try_roots (deadlock_fuel lm) (build_wait_for lm) ks {} {})"

section \<open>Lock tables: the shared contract\<close>

text \<open>Different holders of one object never hold conflicting modes.\<close>

definition compatible :: "('m \<Rightarrow> 'm \<Rightarrow> bool) \<Rightarrow> 'm lock_entry list \<Rightarrow> bool" where
  "compatible conf es \<longleftrightarrow>
     (\<forall>e \<in> set es. \<forall>e' \<in> set es. holder e \<noteq> holder e' \<longrightarrow> \<not> conf (mode e) (mode e'))"

lemma compatible_Nil [simp]: "compatible conf []"
  by (simp add: compatible_def)

lemma compatible_subset: "compatible conf es \<Longrightarrow> set es' \<subseteq> set es \<Longrightarrow> compatible conf es'"
  by (auto simp: compatible_def)

lemma compatible_filter [simp]: "compatible conf es \<Longrightarrow> compatible conf (filter p es)"
  by (erule compatible_subset) auto

lemma compatible_remove_first [simp]:
  "compatible conf es \<Longrightarrow> compatible conf (remove_first p es)"
  by (erule compatible_subset) (rule set_remove_first_subset)

locale conflict_table =
  fixes conf :: "'m \<Rightarrow> 'm \<Rightarrow> bool"
  assumes conf_sym: "conf a b \<longleftrightarrow> conf b a"
begin

lemma grant_compatible:
  assumes "compatible conf es"
    and "\<not> list_ex (\<lambda>e. holder e \<noteq> x \<and> conf m (mode e)) es"
  shows "compatible conf (es @ [\<lparr>holder = x, mode = m\<rparr>])"
  using assms conf_sym by (auto simp: compatible_def list_ex_iff)

end

lemma conflicts_with_sym: "conflicts_with a b \<longleftrightarrow> conflicts_with b a"
  by (cases a; cases b) (simp_all add: conflicts_with_def)

lemma advisory_conflicts_sym: "advisory_conflicts a b \<longleftrightarrow> advisory_conflicts b a"
  by (cases a; cases b) simp_all

interpretation modes: conflict_table conflicts_with
  by unfold_locales (rule conflicts_with_sym)

interpretation advisory: conflict_table advisory_conflicts
  by unfold_locales (rule advisory_conflicts_sym)

section \<open>The lock manager as a state machine\<close>

text \<open>
  One step is one call. \<open>lm_step\<close> lists the calls that change the manager; the reachable managers
  are those a fresh one gets to by any sequence of calls of any transactions.
\<close>

inductive lm_step :: "LockManager \<Rightarrow> LockManager \<Rightarrow> bool" where
  acquire_table: "lm_step lm (fst (acquire_table_lock x rel m lm))"
| release_table: "lm_step lm (release_table_lock x rel lm)"
| acquire_row: "lm_step lm (fst (acquire_row_lock x rel pg off m lm))"
| release_row: "lm_step lm (release_row_lock x rel pg off lm)"
| release_all: "lm_step lm (release_all_locks x lm)"
| acquire_advisory: "lm_step lm (fst (acquire_advisory_lock x key am lm))"
| release_advisory: "lm_step lm (fst (release_advisory_lock x key lm))"
| release_all_advisory: "lm_step lm (release_all_advisory_locks x lm)"

inductive lm_reachable :: "LockManager \<Rightarrow> bool" where
  fresh: "lm_reachable new_lock_manager"
| step: "lm_reachable lm \<Longrightarrow> lm_step lm lm' \<Longrightarrow> lm_reachable lm'"

lemmas lm_reachable_calls =
  lm_reachable.step [OF _ lm_step.acquire_table] lm_reachable.step [OF _ lm_step.release_table]
  lm_reachable.step [OF _ lm_step.acquire_row] lm_reachable.step [OF _ lm_step.release_row]
  lm_reachable.step [OF _ lm_step.release_all] lm_reachable.step [OF _ lm_step.acquire_advisory]
  lm_reachable.step [OF _ lm_step.release_advisory]
  lm_reachable.step [OF _ lm_step.release_all_advisory]

text \<open>
  The invariant: on every object the holders are pairwise compatible, and no key is left with an
  empty vector.
\<close>

definition table_inv :: "('m \<Rightarrow> 'm \<Rightarrow> bool) \<Rightarrow> ('k \<rightharpoonup> 'm lock_entry list) \<Rightarrow> bool" where
  "table_inv conf m \<longleftrightarrow> no_empty_vec m \<and> (\<forall>k. compatible conf (vec_at m k))"

definition lm_inv :: "LockManager \<Rightarrow> bool" where
  "lm_inv lm \<longleftrightarrow> table_inv conflicts_with (table_locks lm) \<and>
     table_inv conflicts_with (row_locks lm) \<and> table_inv advisory_conflicts (advisory_locks lm)"

lemma table_inv_empty [simp]: "table_inv conf Map.empty"
  by (simp add: table_inv_def)

lemma table_inv_retain [simp]: "table_inv conf m \<Longrightarrow> table_inv conf (vec_retain p m)"
  by (simp add: table_inv_def)

lemma table_inv_put:
  "table_inv conf m \<Longrightarrow> m k = Some es \<Longrightarrow> set es' \<subseteq> set es \<Longrightarrow> table_inv conf (vec_put m k es')"
proof -
  assume inv: "table_inv conf m" and k: "m k = Some es" and sub: "set es' \<subseteq> set es"
  have "vec_at m k = es" using k by (simp add: vec_at_def)
  then have "compatible conf es'"
    using inv sub by (metis compatible_subset table_inv_def)
  then show "table_inv conf (vec_put m k es')"
    using inv by (simp add: table_inv_def)
qed

lemma table_inv_grant:
  assumes "conflict_table conf" and "table_inv conf m"
    and "\<not> list_ex (\<lambda>e. holder e \<noteq> x \<and> conf md (mode e)) (vec_at m k)"
  shows "table_inv conf (vec_push m k \<lparr>holder = x, mode = md\<rparr>)"
  using assms conflict_table.grant_compatible [OF assms(1)] by (simp add: table_inv_def)

lemma table_inv_holders:
  assumes "table_inv conf tbl" and "x \<noteq> y"
    and "(x, m) \<in> set (map (\<lambda>l. (holder l, mode l)) (vec_at tbl k))"
    and "(y, n) \<in> set (map (\<lambda>l. (holder l, mode l)) (vec_at tbl k))"
  shows "\<not> conf m n"
proof -
  have "compatible conf (vec_at tbl k)" using assms(1) by (simp add: table_inv_def)
  then show ?thesis using assms(2-4) unfolding compatible_def by force
qed

lemmas lm_op_defs =
  acquire_table_lock_def release_table_lock_def acquire_row_lock_def release_row_lock_def
  release_all_locks_def acquire_advisory_lock_def release_advisory_lock_def
  release_all_advisory_locks_def

lemma lm_step_inv: "lm_step lm lm' \<Longrightarrow> lm_inv lm \<Longrightarrow> lm_inv lm'"
proof (induction rule: lm_step.induct)
  case (release_advisory lm x key)
  then show ?case
    by (auto simp: lm_inv_def release_advisory_lock_def split: option.splits
        intro: table_inv_put [OF _ _ set_remove_first_subset])
qed (auto simp: lm_inv_def lm_op_defs split: option.splits if_splits
      intro!: table_inv_put table_inv_grant modes.conflict_table_axioms advisory.conflict_table_axioms)

lemma lm_inv_new: "lm_inv new_lock_manager"
  by (simp add: lm_inv_def new_lock_manager_def)

lemma lm_reachable_inv: "lm_reachable lm \<Longrightarrow> lm_inv lm"
  by (induction rule: lm_reachable.induct) (auto intro: lm_inv_new lm_step_inv)

section \<open>Correctness of the deadlock detector\<close>

text \<open>The wait-for relation as the queue and the lock tables define it.\<close>

definition waits_for :: "LockManager \<Rightarrow> (xid \<times> xid) set" where
  "waits_for lm = {(req_xid r, b) | r b. r \<in> set (wait_queue lm) \<and> b \<in> set (blockers lm r)}"

definition edges :: "(xid \<rightharpoonup> xid list) \<Rightarrow> (xid \<times> xid) set" where
  "edges g = {(x, b). b \<in> set (vec_at g x)}"

lemma edges_add_request:
  "edges (add_request lm r g) = edges g \<union> {(req_xid r, b) | b. b \<in> set (blockers lm r)}"
  by (auto simp: edges_def add_request_def vec_at_def split: option.splits if_splits)

lemma edges_build: "edges (build_wait_for lm) = waits_for lm"
proof -
  have "edges (fold (add_request lm) rs g) =
      edges g \<union> {(req_xid r, b) | r b. r \<in> set rs \<and> b \<in> set (blockers lm r)}" for rs g
    by (induction rs arbitrary: g) (auto simp: edges_add_request)
  moreover have "edges Map.empty = {}" by (simp add: edges_def)
  ultimately show ?thesis by (simp add: build_wait_for_def waits_for_def)
qed

text \<open>
  The search colours the nodes: \<open>visited - stack\<close> are the finished ones. They are closed under
  edges and lie on no cycle; the nodes on the stack all reach the node being scanned.
\<close>

definition dfs_inv :: "(xid \<rightharpoonup> xid list) \<Rightarrow> xid set \<Rightarrow> xid set \<Rightarrow> bool" where
  "dfs_inv g visited stack \<longleftrightarrow> stack \<subseteq> visited \<and>
     (\<forall>b \<in> visited - stack. \<forall>c. (b, c) \<in> edges g \<longrightarrow> c \<in> visited - stack) \<and>
     (\<forall>b \<in> visited - stack. (b, b) \<notin> (edges g)\<^sup>+)"

definition real_cycle :: "(xid \<rightharpoonup> xid list) \<Rightarrow> xid list \<Rightarrow> bool" where
  "real_cycle g c \<longleftrightarrow> (\<exists>u v. c = [u, v] \<and> (u, v) \<in> edges g \<and> (v, u) \<in> (edges g)\<^sup>*)"

text \<open>What a call that started with \<open>visited\<close> and \<open>stack\<close> may return.\<close>

fun dfs_post ::
    "(xid \<rightharpoonup> xid list) \<Rightarrow> xid set \<Rightarrow> xid set \<Rightarrow> xid list \<Rightarrow>
       xid list option \<times> xid set \<times> xid set \<Rightarrow> bool" where
  "dfs_post g visited stack done (Some c, visited', stack') = real_cycle g c"
| "dfs_post g visited stack done (None, visited', stack') =
     (visited \<subseteq> visited' \<and> stack' = stack \<and> dfs_inv g visited' stack \<and>
      set done \<subseteq> visited' - stack)"

lemma dfs_inv_stack: "dfs_inv g visited stack \<Longrightarrow> stack \<subseteq> visited"
  by (simp add: dfs_inv_def)

lemma dfs_inv_closed:
  "dfs_inv g visited stack \<Longrightarrow> b \<in> visited - stack \<Longrightarrow> (b, c) \<in> edges g \<Longrightarrow> c \<in> visited - stack"
  unfolding dfs_inv_def by blast

lemma dfs_inv_no_cycle:
  "dfs_inv g visited stack \<Longrightarrow> b \<in> visited - stack \<Longrightarrow> (b, b) \<notin> (edges g)\<^sup>+"
  unfolding dfs_inv_def by blast

lemma dfs_inv_push:
  assumes "dfs_inv g visited stack" and "x \<notin> visited"
  shows "dfs_inv g (insert x visited) (insert x stack)"
proof -
  have "insert x visited - insert x stack = visited - stack" using assms(2) by blast
  then show ?thesis using assms(1) unfolding dfs_inv_def by (simp only:) blast
qed

lemma dfs_inv_pop:
  assumes inv: "dfs_inv g visited (insert x stack)" and x: "x \<notin> stack"
    and succs: "set (vec_at g x) \<subseteq> visited - insert x stack"
  shows "dfs_inv g visited stack"
proof -
  let ?B = "visited - insert x stack"
  have xV: "x \<in> visited" using dfs_inv_stack [OF inv] by simp
  have split: "visited - stack = insert x ?B" using x xV by auto
  have closed: "c \<in> ?B" if "b \<in> ?B" and "(b, c) \<in> edges g" for b c
    using dfs_inv_closed [OF inv that] .
  have x_succ: "c \<in> ?B" if "(x, c) \<in> edges g" for c
    using succs that by (auto simp: edges_def)
  have reach: "c \<in> ?B" if "(b, c) \<in> (edges g)\<^sup>*" and "b \<in> ?B" for b c
    using that(1)
  proof (induction rule: rtrancl_induct)
    case base
    show ?case by (rule that(2))
  next
    case (step y z)
    show ?case by (rule closed [OF step.IH step.hyps(2)])
  qed
  have no_x: "(x, x) \<notin> (edges g)\<^sup>+"
  proof
    assume "(x, x) \<in> (edges g)\<^sup>+"
    then obtain c where "(x, c) \<in> edges g" and "(c, x) \<in> (edges g)\<^sup>*"
      by (meson tranclD)
    then have "x \<in> ?B" using reach x_succ by blast
    then show False by simp
  qed
  have "stack \<subseteq> visited" using dfs_inv_stack [OF inv] by simp
  moreover have "\<forall>b \<in> visited - stack. \<forall>c. (b, c) \<in> edges g \<longrightarrow> c \<in> visited - stack"
    unfolding split using closed x_succ by blast
  moreover have "\<forall>b \<in> visited - stack. (b, b) \<notin> (edges g)\<^sup>+"
    unfolding split using no_x dfs_inv_no_cycle [OF inv] by (simp only: ball_simps) blast
  ultimately show ?thesis unfolding dfs_inv_def by blast
qed

lemma dfs_correct:
  "(detect_cycle fuel g x visited stack = Some r \<Longrightarrow> dfs_inv g visited stack \<Longrightarrow>
      x \<notin> visited \<Longrightarrow> \<forall>s \<in> stack. (s, x) \<in> (edges g)\<^sup>* \<Longrightarrow> dfs_post g visited stack [x] r)"
  "(scan_blockers fuel g x bs visited stack = Some r \<Longrightarrow> dfs_inv g visited stack \<Longrightarrow>
      set bs \<subseteq> set (vec_at g x) \<Longrightarrow> \<forall>s \<in> stack. (s, x) \<in> (edges g)\<^sup>* \<Longrightarrow>
      dfs_post g visited stack bs r)"
proof (induction fuel g x visited stack and fuel g x bs visited stack
    arbitrary: r and r rule: detect_cycle_scan_blockers.induct)
  case (1 g x visited stack)
  then show ?case by simp
next
  case (2 fuel g x visited stack)
  from "2.prems"(1) obtain oc V S where
    scan: "scan_blockers fuel g x (vec_at g x) (insert x visited) (insert x stack) = Some (oc, V, S)"
    by (auto split: option.splits)
  have post: "dfs_post g (insert x visited) (insert x stack) (vec_at g x) (oc, V, S)"
    using "2.IH" [OF scan dfs_inv_push [OF "2.prems"(2,3)]] "2.prems"(4) by auto
  have x: "x \<notin> stack" using dfs_inv_stack [OF "2.prems"(2)] "2.prems"(3) by blast
  show ?case
  proof (cases oc)
    case None
    with post have V: "insert x visited \<subseteq> V" "S = insert x stack" "dfs_inv g V (insert x stack)"
      "set (vec_at g x) \<subseteq> V - insert x stack" by auto
    have "r = (None, V, stack)" using "2.prems"(1) scan None V(2) x by auto
    then show ?thesis using V dfs_inv_pop [OF V(3) x V(4)] x by auto
  next
    case (Some c)
    then show ?thesis using "2.prems"(1) scan post by auto
  qed
next
  case (3 fuel g x visited stack)
  then show ?case by auto
next
  case (4 fuel g x b bs visited stack)
  have xb: "(x, b) \<in> edges g" using "4.prems"(3) by (auto simp: edges_def)
  have path: "\<forall>s \<in> stack. (s, b) \<in> (edges g)\<^sup>*"
    using "4.prems"(4) xb by (meson rtrancl.rtrancl_into_rtrancl)
  have bs: "set bs \<subseteq> set (vec_at g x)" using "4.prems"(3) by simp
  show ?case
  proof (cases "b \<in> visited")
    case False
    from "4.prems"(1) False obtain oc V S where
      det: "detect_cycle fuel g b visited stack = Some (oc, V, S)"
      by (auto split: option.splits)
    have post: "dfs_post g visited stack [b] (oc, V, S)"
      by (rule "4.IH"(1) [OF False det "4.prems"(2) False path])
    show ?thesis
    proof (cases oc)
      case None
      with post have V: "visited \<subseteq> V" "S = stack" "dfs_inv g V stack" "b \<in> V - stack" by auto
      have "scan_blockers fuel g x bs V stack = Some r"
        using "4.prems"(1) False det None V(2) by simp
      then have rp: "dfs_post g V stack bs r"
        using "4.IH"(2) [OF False det _ _ ] None V(2,3) bs "4.prems"(4) by auto
      show ?thesis using rp V by (cases r; cases "fst r") auto
    next
      case (Some c)
      then show ?thesis using "4.prems"(1) False det post by auto
    qed
  next
    case True
    show ?thesis
    proof (cases "b \<in> stack")
      case T: True
      then have "r = (Some [x, b], visited, stack)" using "4.prems"(1) True by auto
      then show ?thesis using xb T "4.prems"(4) by (auto simp: real_cycle_def)
    next
      case F: False
      then have "scan_blockers fuel g x bs visited stack = Some r" using "4.prems"(1) True by auto
      then have rp: "dfs_post g visited stack bs r"
        using "4.IH"(3) [OF _ F] True "4.prems"(2,4) bs by auto
      show ?thesis using rp True F by (cases r; cases "fst r") auto
    qed
  qed
qed

text \<open>
  Fuel. Every nested call visits a new transaction, so as many units as there are unvisited
  transactions are enough.
\<close>

lemma dfs_fuel:
  assumes fin: "finite N"
  shows "(fuel \<noteq> 0 \<Longrightarrow> card (N - insert x visited) \<le> fuel - 1 \<Longrightarrow> snd ` edges g \<subseteq> N \<Longrightarrow>
      \<exists>oc V S. detect_cycle fuel g x visited stack = Some (oc, V, S) \<and> visited \<subseteq> V)"
    and "(card (N - visited) \<le> fuel \<Longrightarrow> set bs \<subseteq> N \<Longrightarrow> snd ` edges g \<subseteq> N \<Longrightarrow>
      \<exists>oc V S. scan_blockers fuel g x bs visited stack = Some (oc, V, S) \<and> visited \<subseteq> V)"
proof (induction fuel g x visited stack and fuel g x bs visited stack
    rule: detect_cycle_scan_blockers.induct)
  case (1 g x visited stack)
  then show ?case by simp
next
  case (2 fuel g x visited stack)
  have "set (vec_at g x) \<subseteq> N" using "2.prems"(3) by (force simp: edges_def)
  then obtain oc V S where
    "scan_blockers fuel g x (vec_at g x) (insert x visited) (insert x stack) = Some (oc, V, S)"
    and "insert x visited \<subseteq> V" using "2.IH" "2.prems" by auto
  then show ?case by (cases oc) auto
next
  case (3 fuel g x visited stack)
  then show ?case by simp
next
  case (4 fuel g x b bs visited stack)
  show ?case
  proof (cases "b \<in> visited")
    case False
    have b: "b \<in> N - visited" using False "4.prems"(2) by simp
    have "card (N - insert b visited) < card (N - visited)"
      using b fin by (intro psubset_card_mono) auto
    then have "fuel \<noteq> 0" and "card (N - insert b visited) \<le> fuel - 1"
      using "4.prems"(1) by linarith+
    then obtain oc V S where det: "detect_cycle fuel g b visited stack = Some (oc, V, S)"
      and V: "visited \<subseteq> V" using "4.IH"(1) [OF False _ _ "4.prems"(3)] by auto
    show ?thesis
    proof (cases oc)
      case None
      have "card (N - V) \<le> card (N - visited)" using V fin by (intro card_mono) auto
      then have "\<exists>oc V' S'. scan_blockers fuel g x bs V S = Some (oc, V', S') \<and> V \<subseteq> V'"
        using "4.IH"(2) [OF False det] None "4.prems" by auto
      then show ?thesis using V False det None by auto
    next
      case (Some c)
      then show ?thesis using V False det by auto
    qed
  next
    case True
    then show ?thesis using "4.IH"(3) "4.prems" by (cases "b \<in> stack") auto
  qed
qed

lemma scan_finished:
  "set bs \<subseteq> visited - stack \<Longrightarrow>
     scan_blockers fuel g x bs visited stack = Some (None, visited, stack)"
  by (induction bs) auto

lemma detect_visited_root:
  assumes inv: "dfs_inv g visited {}" and x: "x \<in> visited"
  shows "detect_cycle (Suc fuel) g x visited {} = Some (None, visited, {})"
proof -
  have "(x, x) \<notin> (edges g)\<^sup>+" using dfs_inv_no_cycle [OF inv] x by simp
  then have "x \<notin> set (vec_at g x)" by (auto simp: edges_def)
  moreover have "set (vec_at g x) \<subseteq> visited"
    using dfs_inv_closed [OF inv, of x] x by (auto simp: edges_def)
  ultimately have "set (vec_at g x) \<subseteq> visited - {x}" by blast
  then show ?thesis using x by (simp add: scan_finished insert_absorb)
qed

lemma try_roots_correct:
  assumes "finite N" and "snd ` edges g \<subseteq> N" and "card N < fuel"
    and "dfs_inv g visited {}"
  shows "\<exists>r. try_roots fuel g xs visited {} = Some r \<and>
      (r = None \<longrightarrow> (\<exists>V. dfs_inv g V {} \<and> visited \<union> set xs \<subseteq> V)) \<and>
      (\<forall>c. r = Some c \<longrightarrow> real_cycle g c)"
  using assms(4)
proof (induction xs arbitrary: visited)
  case Nil
  then show ?case by auto
next
  case (Cons x xs)
  from assms(3) obtain f where f: "fuel = Suc f" by (cases fuel) auto
  have "card (N - insert x visited) \<le> card N" using assms(1) by (intro card_mono) auto
  then have "fuel \<noteq> 0" and "card (N - insert x visited) \<le> fuel - 1"
    using assms(3) by linarith+
  then obtain oc V S where det: "detect_cycle fuel g x visited {} = Some (oc, V, S)"
    using dfs_fuel(1) [OF assms(1) _ _ assms(2)] by blast
  show ?case
  proof (cases "x \<in> visited")
    case True
    have "try_roots fuel g (x # xs) visited {} = try_roots fuel g xs visited {}"
      using detect_visited_root [OF Cons.prems True, of f] by (simp add: f)
    then show ?thesis using Cons.IH [OF Cons.prems] True by (simp add: insert_absorb)
  next
    case False
    have post: "dfs_post g visited {} [x] (oc, V, S)"
      using dfs_correct(1) [OF det Cons.prems False] by simp
    show ?thesis
    proof (cases oc)
      case None
      with post have V: "visited \<subseteq> V" "S = {}" "dfs_inv g V {}" "x \<in> V" by auto
      from Cons.IH [OF V(3)] obtain r where run: "try_roots fuel g xs V {} = Some r"
        and r: "r = None \<longrightarrow> (\<exists>W. dfs_inv g W {} \<and> V \<union> set xs \<subseteq> W)"
          "\<forall>c. r = Some c \<longrightarrow> real_cycle g c" by blast
      have "r = None \<longrightarrow> (\<exists>W. dfs_inv g W {} \<and> visited \<union> set (x # xs) \<subseteq> W)"
        using r(1) V(1,4) by (auto simp: subset_iff)
      moreover have "try_roots fuel g (x # xs) visited {} = Some r"
        using det None V(2) run by simp
      ultimately show ?thesis using r(2) by blast
    next
      case (Some c)
      then show ?thesis using det post by auto
    qed
  qed
qed

lemma dfs_inv_acyclic:
  assumes inv: "dfs_inv g V {}" and dom: "fst ` edges g \<subseteq> V"
  shows "acyclic (edges g)"
proof (rule acyclicI, rule allI)
  fix x
  show "(x, x) \<notin> (edges g)\<^sup>+"
  proof
    assume c: "(x, x) \<in> (edges g)\<^sup>+"
    then obtain y where "(x, y) \<in> edges g" by (meson tranclD)
    then have "x \<in> V" using dom by force
    then show False using dfs_inv_no_cycle [OF inv] c by simp
  qed
qed

lemma real_cycle_not_acyclic: "real_cycle g c \<Longrightarrow> \<not> acyclic (edges g)"
  by (auto simp: real_cycle_def acyclic_def intro: rtrancl_into_trancl2)

lemma fst_edges: "fst ` edges g \<subseteq> dom g"
proof -
  have "vec_at g x \<noteq> [] \<Longrightarrow> x \<in> dom g" for x
    by (cases "g x") (auto simp: vec_at_def)
  then show ?thesis by (force simp: edges_def)
qed

lemma card_waits_for: "card (snd ` waits_for lm) < deadlock_fuel lm"
proof -
  have "snd ` waits_for lm = set (concat (map (blockers lm) (wait_queue lm)))"
    by (force simp: waits_for_def)
  also have "card \<dots> \<le> length (concat (map (blockers lm) (wait_queue lm)))"
    by (rule card_length)
  also have "\<dots> < deadlock_fuel lm"
    by (simp add: deadlock_fuel_def length_concat comp_def)
  finally show ?thesis .
qed

text \<open>
  The detector always returns, and reports a deadlock exactly when the wait-for relation has a
  cycle; the pair it reports is an edge of such a cycle.
\<close>

lemma detect_deadlock_correct:
  assumes "enumerates ks (build_wait_for lm)"
  shows "\<exists>r. detect_deadlock ks lm = Some r \<and> (r = None \<longleftrightarrow> acyclic (waits_for lm)) \<and>
      (\<forall>c. r = Some c \<longrightarrow> (\<exists>u v. c = [u, v] \<and> (u, v) \<in> waits_for lm \<and> (v, u) \<in> (waits_for lm)\<^sup>*))"
proof (cases "wait_queue lm = []")
  case True
  then have "waits_for lm = {}" by (simp add: waits_for_def)
  then show ?thesis using True by (simp add: detect_deadlock_def acyclic_def)
next
  case False
  let ?g = "build_wait_for lm"
  have fin: "finite (snd ` edges ?g)"
  proof -
    have "snd ` edges ?g = set (concat (map (blockers lm) (wait_queue lm)))"
      unfolding edges_build by (force simp: waits_for_def)
    then show ?thesis by simp
  qed
  have "dfs_inv ?g {} {}" by (simp add: dfs_inv_def)
  then obtain r where run: "try_roots (deadlock_fuel lm) ?g ks {} {} = Some r"
    and none: "r = None \<longrightarrow> (\<exists>V. dfs_inv ?g V {} \<and> set ks \<subseteq> V)"
    and some: "\<forall>c. r = Some c \<longrightarrow> real_cycle ?g c"
    using try_roots_correct [OF fin subset_refl, of "deadlock_fuel lm" "{}" ks]
    by (auto simp: edges_build card_waits_for)
  have "acyclic (edges ?g)" if "r = None"
    using none that assms fst_edges [of ?g] dfs_inv_acyclic
    by (metis enumerates_def subset_trans)
  moreover have "\<not> acyclic (edges ?g)" if "r \<noteq> None"
    using some that real_cycle_not_acyclic by blast
  ultimately have "r = None \<longleftrightarrow> acyclic (waits_for lm)" unfolding edges_build by blast
  moreover have "detect_deadlock ks lm = Some r" using run False by (simp add: detect_deadlock_def)
  ultimately show ?thesis using some unfolding edges_build real_cycle_def by blast
qed

section \<open>Properties\<close>

text \<open>Two sharers of two tables, each refused an upgrade on the other's table.\<close>

definition crossed_upgrades :: LockManager where
  "crossed_upgrades =
     (let a = fst (acquire_table_lock 1 10 Share new_lock_manager);
          b = fst (acquire_table_lock 2 20 Share a);
          c = fst (acquire_table_lock 1 20 RowExclusive b)
      in fst (acquire_table_lock 2 10 RowExclusive c))"

lemmas lm_eval =
  crossed_upgrades_def acquire_table_lock_def acquire_row_lock_def acquire_advisory_lock_def
  new_lock_manager_def vec_push_def vec_at_def conflicts_with_def

lemma crossed_upgrades_state:
  "table_locks crossed_upgrades = [10 \<mapsto> [\<lparr>holder = 1, mode = Share\<rparr>],
     20 \<mapsto> [\<lparr>holder = 2, mode = Share\<rparr>]]"
  "wait_queue crossed_upgrades =
     [\<lparr>req_xid = 1, req_mode = RowExclusive, relation_oid = 20, page_id = None, tuple_offset = None\<rparr>,
      \<lparr>req_xid = 2, req_mode = RowExclusive, relation_oid = 10, page_id = None, tuple_offset = None\<rparr>]"
  by (simp_all add: lm_eval)

lemma crossed_upgrades_graph:
  "build_wait_for crossed_upgrades = [1 \<mapsto> [2], 2 \<mapsto> [1]]"
  by (simp add: build_wait_for_def add_request_def blockers_def crossed_upgrades_state vec_at_def
      conflicts_with_def)

text \<open>
  C2: the deadlock detector always returns (its recursion needs no more nested calls than there are
  transactions), reports nothing exactly when the wait-for relation of the queued requests is
  acyclic, and otherwise reports an edge of a real cycle. This holds for every iteration order of
  the hash map.
\<close>

theorem deadlock_detector_exact:
  assumes "enumerates ks (build_wait_for lm)"
  shows "\<exists>r. detect_deadlock ks lm = Some r \<and> (r = None \<longleftrightarrow> acyclic (waits_for lm)) \<and>
      (\<forall>c. r = Some c \<longrightarrow> (\<exists>u v. c = [u, v] \<and> (u, v) \<in> waits_for lm \<and> (v, u) \<in> (waits_for lm)\<^sup>*))"
  using assms by (rule detect_deadlock_correct)

theorem deadlock_detector_exact_witness:
  "enumerates [1, 2] (build_wait_for crossed_upgrades) \<and>
   detect_deadlock [1, 2] crossed_upgrades = Some (Some [2, 1]) \<and>
   \<not> acyclic (waits_for crossed_upgrades)"
proof -
  have en: "enumerates [1, 2] (build_wait_for crossed_upgrades)"
    by (auto simp: enumerates_def crossed_upgrades_graph)
  have fuel: "deadlock_fuel crossed_upgrades = Suc (Suc (Suc (Suc (Suc 0))))"
    by (simp add: deadlock_fuel_def blockers_def crossed_upgrades_state vec_at_def conflicts_with_def)
  have run: "detect_deadlock [1, 2] crossed_upgrades = Some (Some [2, 1])"
    by (simp add: detect_deadlock_def fuel crossed_upgrades_graph crossed_upgrades_state vec_at_def)
  show ?thesis using deadlock_detector_exact [OF en] en run by auto
qed

text \<open>
  C3: in every reachable state of the lock manager, transactions that hold a lock on the same table,
  the same row or the same advisory key hold compatible modes.
\<close>

theorem holders_compatible:
  assumes "lm_reachable lm" and "x \<noteq> y"
  shows "((x, m) \<in> set (table_lock_holders rel lm) \<and> (y, n) \<in> set (table_lock_holders rel lm) \<longrightarrow>
           \<not> conflicts_with m n) \<and>
         ((x, m) \<in> set (row_lock_holders rel pg off lm) \<and>
           (y, n) \<in> set (row_lock_holders rel pg off lm) \<longrightarrow> \<not> conflicts_with m n) \<and>
         ((x, am) \<in> set (advisory_lock_holders key lm) \<and>
           (y, an) \<in> set (advisory_lock_holders key lm) \<longrightarrow> \<not> advisory_conflicts am an)"
proof -
  have "table_inv conflicts_with (table_locks lm)" "table_inv conflicts_with (row_locks lm)"
    "table_inv advisory_conflicts (advisory_locks lm)"
    using lm_reachable_inv [OF assms(1)] by (simp_all add: lm_inv_def)
  then show ?thesis
    unfolding table_lock_holders_def row_lock_holders_def advisory_lock_holders_def
    using assms(2) table_inv_holders [of conflicts_with "table_locks lm" x y m rel n]
      table_inv_holders [of conflicts_with "row_locks lm" x y m "(rel, pg, off)" n]
      table_inv_holders [of advisory_conflicts "advisory_locks lm" x y am key an]
    by blast
qed

lemma reachable_row_pair:
  "lm_reachable (fst (acquire_row_lock 2 1 0 0 ForKeyShare
     (fst (acquire_row_lock 1 1 0 0 ForKeyShare new_lock_manager))))"
  by (intro lm_reachable.fresh lm_reachable_calls)

theorem holders_compatible_witness:
  "(1, ForKeyShare) \<in> set (row_lock_holders 1 0 0 (fst (acquire_row_lock 2 1 0 0 ForKeyShare
     (fst (acquire_row_lock 1 1 0 0 ForKeyShare new_lock_manager))))) \<and>
   (2, ForKeyShare) \<in> set (row_lock_holders 1 0 0 (fst (acquire_row_lock 2 1 0 0 ForKeyShare
     (fst (acquire_row_lock 1 1 0 0 ForKeyShare new_lock_manager))))) \<and>
   \<not> conflicts_with ForKeyShare ForKeyShare"
proof -
  have h: "(1, ForKeyShare) \<in> set (row_lock_holders 1 0 0 (fst (acquire_row_lock 2 1 0 0 ForKeyShare
     (fst (acquire_row_lock 1 1 0 0 ForKeyShare new_lock_manager)))))"
    "(2, ForKeyShare) \<in> set (row_lock_holders 1 0 0 (fst (acquire_row_lock 2 1 0 0 ForKeyShare
     (fst (acquire_row_lock 1 1 0 0 ForKeyShare new_lock_manager)))))"
    by (simp_all add: row_lock_holders_def lm_eval)
  show ?thesis
    using h holders_compatible [OF reachable_row_pair, of 1 2 ForKeyShare 1 ForKeyShare 0 0]
    by simp
qed

text \<open>
  A row locked \<open>FOR UPDATE\<close> by one transaction carries no row-level lock, in any mode, of another
  transaction.
\<close>

theorem for_update_exclusive:
  assumes "lm_reachable lm"
    and "(x, ForUpdate) \<in> set (row_lock_holders rel pg off lm)"
    and "(y, n) \<in> set (row_lock_holders rel pg off lm)" and "\<not> is_table_lock n"
  shows "x = y"
proof (rule ccontr)
  assume "x \<noteq> y"
  moreover have "table_inv conflicts_with (row_locks lm)"
    using lm_reachable_inv [OF assms(1)] by (simp add: lm_inv_def)
  ultimately have "\<not> conflicts_with ForUpdate n"
    using table_inv_holders [of conflicts_with "row_locks lm" x y ForUpdate "(rel, pg, off)" n]
      assms(2,3) unfolding row_lock_holders_def by blast
  then show False using assms(4) by (cases n) (simp_all add: conflicts_with_def is_table_lock_def)
qed

theorem for_update_exclusive_witness:
  "(1, ForUpdate) \<in> set (row_lock_holders 1 0 0 (fst (acquire_row_lock 1 1 0 0 ForUpdate new_lock_manager)))
   \<and> (1 :: xid) = 1"
proof -
  let ?lm = "fst (acquire_row_lock 1 1 0 0 ForUpdate new_lock_manager)"
  have r: "lm_reachable ?lm" by (intro lm_reachable.fresh lm_reachable_calls)
  have h: "(1, ForUpdate) \<in> set (row_lock_holders 1 0 0 ?lm)"
    by (simp add: row_lock_holders_def lm_eval)
  show ?thesis using h for_update_exclusive [OF r h h] by (simp add: is_table_lock_def)
qed

lemma retain_holders:
  "map (\<lambda>l. (holder l, mode l)) (filter (\<lambda>l. holder l \<noteq> x) es) =
     filter (\<lambda>p. fst p \<noteq> x) (map (\<lambda>l. (holder l, mode l)) es)"
  by (induction es) auto

text \<open>
  C37: ending a transaction with \<open>release_all_locks\<close> removes exactly its table and row locks, leaves the
  locks of the others in order, and unblocks: a table request that was refused only because of that
  transaction is granted afterwards.
\<close>

theorem release_all_unblocks:
  assumes "\<forall>(y, n) \<in> set (table_lock_holders rel lm). conflicts_with m n \<longrightarrow> y = x \<or> y = z"
  shows "table_lock_holders r (release_all_locks x lm) =
           filter (\<lambda>p. fst p \<noteq> x) (table_lock_holders r lm)
       \<and> row_lock_holders r pg off (release_all_locks x lm) =
           filter (\<lambda>p. fst p \<noteq> x) (row_lock_holders r pg off lm)
       \<and> advisory_locks (release_all_locks x lm) = advisory_locks lm
       \<and> snd (acquire_table_lock z rel m (release_all_locks x lm)) = Ok ()
       \<and> (z, m) \<in> set (table_lock_holders rel (fst (acquire_table_lock z rel m (release_all_locks x lm))))"
  using assms
  by (auto simp: release_all_locks_def table_lock_holders_def row_lock_holders_def
      retain_holders acquire_table_lock_def list_ex_iff)

theorem release_all_unblocks_witness:
  "snd (acquire_table_lock 1 20 RowExclusive crossed_upgrades) \<noteq> Ok () \<and>
   snd (acquire_table_lock 1 20 RowExclusive (release_all_locks 2 crossed_upgrades)) = Ok ()"
proof -
  have h: "\<forall>(y, n) \<in> set (table_lock_holders 20 crossed_upgrades).
      conflicts_with RowExclusive n \<longrightarrow> y = 2 \<or> y = 1"
    by (simp add: table_lock_holders_def crossed_upgrades_state vec_at_def)
  show ?thesis
    using release_all_unblocks [OF h] 
    by (simp add: acquire_table_lock_def [of 1 20 RowExclusive crossed_upgrades]
        crossed_upgrades_state vec_at_def conflicts_with_def)
qed

lemma filter_holder_remove_first:
  "filter (\<lambda>e. holder e \<noteq> x) (remove_first (\<lambda>e. holder e = x) es) = filter (\<lambda>e. holder e \<noteq> x) es"
  by (rule filter_remove_first) simp

text \<open>
  Advisory locks are re-entrant and counted. After a successful acquisition the release finds an
  entry; the transaction is left with as many entries as before, the entries of other transactions
  and all other keys are as before.
\<close>

theorem advisory_acquire_release:
  assumes "acquire_advisory_lock x key m lm = (lm', Ok ())"
    and "release_advisory_lock x key lm' = (lm'', found)"
  shows "found
    \<and> length (vec_at (advisory_locks lm'') key) = length (vec_at (advisory_locks lm) key)
    \<and> filter (\<lambda>e. holder e \<noteq> x) (vec_at (advisory_locks lm'') key) =
        filter (\<lambda>e. holder e \<noteq> x) (vec_at (advisory_locks lm) key)
    \<and> (\<forall>k. k \<noteq> key \<longrightarrow> vec_at (advisory_locks lm'') k = vec_at (advisory_locks lm) k)"
proof -
  let ?es = "vec_at (advisory_locks lm) key" and ?e = "\<lparr>holder = x, mode = m\<rparr>"
  have lm': "lm' = lm\<lparr>advisory_locks := vec_push (advisory_locks lm) key ?e\<rparr>"
    using assms(1) by (auto simp: acquire_advisory_lock_def split: if_splits)
  have "advisory_locks lm' key = Some (?es @ [?e])" by (simp add: lm' vec_push_def)
  then have found: "found" and lm'': "lm'' = lm'\<lparr>advisory_locks :=
      vec_put (advisory_locks lm') key (remove_first (\<lambda>e. holder e = x) (?es @ [?e]))\<rparr>"
    using assms(2) by (simp_all add: release_advisory_lock_def)
  show ?thesis
    using found by (simp add: lm'' lm' length_remove_first filter_holder_remove_first)
qed

theorem advisory_acquire_release_witness:
  "snd (release_advisory_lock 1 7 (fst (acquire_advisory_lock 1 7 AdvExclusive new_lock_manager))) \<and>
   vec_at (advisory_locks (fst (release_advisory_lock 1 7
     (fst (acquire_advisory_lock 1 7 AdvExclusive new_lock_manager))))) 7 = []"
proof -
  obtain lm' where a: "acquire_advisory_lock 1 7 AdvExclusive new_lock_manager = (lm', Ok ())"
    by (simp add: acquire_advisory_lock_def new_lock_manager_def)
  obtain lm'' found where r: "release_advisory_lock 1 7 lm' = (lm'', found)" by fastforce
  have "vec_at (advisory_locks new_lock_manager) 7 = []" by (simp add: new_lock_manager_def)
  then show ?thesis using advisory_acquire_release [OF a r] a r by simp
qed

text \<open>
  The conflict table has no entry for a table mode against itself, so the strongest table lock is
  not exclusive: two different transactions reach a state in which both hold \<open>ACCESS EXCLUSIVE\<close> on
  the same relation.
\<close>

theorem access_exclusive_held_twice:
  "\<exists>lm rel x y. lm_reachable lm \<and> x \<noteq> y \<and> (x, AccessExclusive) \<in> set (table_lock_holders rel lm)
     \<and> (y, AccessExclusive) \<in> set (table_lock_holders rel lm)"
proof -
  let ?lm = "fst (acquire_table_lock 2 1 AccessExclusive
    (fst (acquire_table_lock 1 1 AccessExclusive new_lock_manager)))"
  have "lm_reachable ?lm" by (intro lm_reachable.fresh lm_reachable_calls)
  moreover have "table_lock_holders 1 ?lm = [(1, AccessExclusive), (2, AccessExclusive)]"
    by (simp add: table_lock_holders_def lm_eval)
  ultimately show ?thesis
    by (intro exI [of _ ?lm] exI [of _ 1] exI [of _ "1 :: xid"] exI [of _ "2 :: xid"]) simp
qed

end
