(* ===== verification/Transaction.thy ===== *)
theory Transaction
  imports Locks
begin

text \<open>
  Transactions: \<open>transaction/mod.rs\<close> (snapshots, the transaction manager), \<open>transaction/clog.rs\<close> (the
  commit log) and \<open>transaction/timeouts.rs\<close> (the timeout settings). The manager's atomic counter and
  its map under a read-write lock are the two fields of \<open>TransactionManager\<close>. A \<open>begin\<close> touches
  them three times (counter, read lock, write lock); it is modelled both as one call and, for
  concurrent callers, as the three atomic steps of \<open>tm_step\<close>.
\<close>

section \<open>Timeouts, snapshots, transactions\<close>

text \<open>A \<open>Duration\<close> is a number of nanoseconds.\<close>

record TimeoutConfig =
  statement_timeout :: "nat option"
  lock_timeout :: "nat option"

definition new_timeout_config :: TimeoutConfig where
  "new_timeout_config = \<lparr>statement_timeout = None, lock_timeout = None\<rparr>"

definition with_statement_timeout :: "nat \<Rightarrow> TimeoutConfig \<Rightarrow> TimeoutConfig" where
  "with_statement_timeout t c = c\<lparr>statement_timeout := Some t\<rparr>"

definition with_lock_timeout :: "nat \<Rightarrow> TimeoutConfig \<Rightarrow> TimeoutConfig" where
  "with_lock_timeout t c = c\<lparr>lock_timeout := Some t\<rparr>"

datatype IsolationLevel = ReadUncommitted | ReadCommitted | RepeatableRead | Serializable

datatype TxnState = Active | Committed | Aborted

record Snapshot =
  snap_xid :: xid
  active_xids :: "xid list"

definition snapshot_is_visible :: "Snapshot \<Rightarrow> xid \<Rightarrow> xid option \<Rightarrow> bool" where
  "snapshot_is_visible s xmin xmax =
     (if xmin \<ge> snap_xid s then False
      else if xmin \<in> set (active_xids s) then False
      else case xmax of
          Some xm \<Rightarrow> (if xm < snap_xid s \<and> xm \<notin> set (active_xids s) then True else False)
        | None \<Rightarrow> True)"

record Transaction =
  txn_xid :: xid
  isolation :: IsolationLevel
  state :: TxnState
  snapshot :: "Snapshot option"
  timeout_config :: TimeoutConfig
  locks :: "oid list"

definition new_transaction :: "xid \<Rightarrow> IsolationLevel \<Rightarrow> Transaction" where
  "new_transaction x lvl =
     \<lparr>txn_xid = x, isolation = lvl, state = Active, snapshot = None,
      timeout_config = new_timeout_config, locks = []\<rparr>"

definition txn_commit :: "Transaction \<Rightarrow> Transaction" where
  "txn_commit t = t\<lparr>state := Committed\<rparr>"

definition txn_rollback :: "Transaction \<Rightarrow> Transaction" where
  "txn_rollback t = t\<lparr>state := Aborted\<rparr>"

definition take_snapshot :: "Snapshot \<Rightarrow> Transaction \<Rightarrow> Transaction" where
  "take_snapshot s t = t\<lparr>snapshot := Some s\<rparr>"

section \<open>The transaction manager\<close>

record TransactionManager =
  next_xid :: xid
  active :: "xid \<rightharpoonup> Transaction"

definition new_transaction_manager :: TransactionManager where
  "new_transaction_manager = \<lparr>next_xid = 1, active = Map.empty\<rparr>"

text \<open>
  The snapshot collects the keys of \<open>active\<close>; their order is the argument \<open>ks\<close>.
\<close>

definition create_snapshot :: "xid list \<Rightarrow> xid \<Rightarrow> Snapshot" where
  "create_snapshot ks x = \<lparr>snap_xid = x, active_xids = ks\<rparr>"

definition get_snapshot_for_statement :: "xid list \<Rightarrow> xid \<Rightarrow> Snapshot" where
  "get_snapshot_for_statement ks x = \<lparr>snap_xid = x, active_xids = ks\<rparr>"

definition with_isolation_snapshot :: "IsolationLevel \<Rightarrow> Snapshot \<Rightarrow> Transaction \<Rightarrow> Transaction" where
  "with_isolation_snapshot lvl s t =
     (case lvl of
        ReadUncommitted \<Rightarrow> t | ReadCommitted \<Rightarrow> t
      | RepeatableRead \<Rightarrow> take_snapshot s t | Serializable \<Rightarrow> take_snapshot s t)"

definition tm_begin ::
    "xid list \<Rightarrow> IsolationLevel \<Rightarrow> TransactionManager \<Rightarrow> TransactionManager \<times> xid" where
  "tm_begin ks lvl tm =
     (let x = next_xid tm;
          txn = with_isolation_snapshot lvl (create_snapshot ks x) (new_transaction x lvl)
      in (tm\<lparr>next_xid := x + 1, active := (active tm)(x \<mapsto> txn)\<rparr>, x))"

definition get_transaction :: "xid \<Rightarrow> TransactionManager \<Rightarrow> Transaction option" where
  "get_transaction x tm = active tm x"

definition tm_commit :: "xid \<Rightarrow> TransactionManager \<Rightarrow> TransactionManager \<times> unit res" where
  "tm_commit x tm =
     (case active tm x of
        Some txn \<Rightarrow> (tm\<lparr>active := (active tm)(x \<mapsto> txn_commit txn, x := None)\<rparr>, Ok ())
      | None \<Rightarrow> (tm, Err ''Transaction not found''))"

definition tm_rollback :: "xid \<Rightarrow> TransactionManager \<Rightarrow> TransactionManager \<times> unit res" where
  "tm_rollback x tm =
     (case active tm x of
        Some txn \<Rightarrow> (tm\<lparr>active := (active tm)(x \<mapsto> txn_rollback txn, x := None)\<rparr>, Ok ())
      | None \<Rightarrow> (tm, Err ''Transaction not found''))"

definition active_count :: "TransactionManager \<Rightarrow> nat" where
  "active_count tm = card (dom (active tm))"

section \<open>The commit log\<close>

datatype TxnStatus = StatusInProgress | StatusCommitted | StatusAborted

definition status_as_str :: "TxnStatus \<Rightarrow> string" where
  "status_as_str s =
     (case s of StatusInProgress \<Rightarrow> ''in_progress'' | StatusCommitted \<Rightarrow> ''committed''
      | StatusAborted \<Rightarrow> ''aborted'')"

type_synonym CommitLog = "xid \<rightharpoonup> TxnStatus"

definition new_commit_log :: CommitLog where
  "new_commit_log = Map.empty"

definition set_status :: "xid \<Rightarrow> TxnStatus \<Rightarrow> CommitLog \<Rightarrow> CommitLog" where
  "set_status x s log = log(x \<mapsto> s)"

definition get_status :: "xid \<Rightarrow> CommitLog \<Rightarrow> TxnStatus option" where
  "get_status x log = log x"

definition is_committed :: "xid \<Rightarrow> CommitLog \<Rightarrow> bool" where
  "is_committed x log = (case log x of Some StatusCommitted \<Rightarrow> True | _ \<Rightarrow> False)"

definition is_aborted :: "xid \<Rightarrow> CommitLog \<Rightarrow> bool" where
  "is_aborted x log = (case log x of Some StatusAborted \<Rightarrow> True | _ \<Rightarrow> False)"

definition is_in_progress :: "xid \<Rightarrow> CommitLog \<Rightarrow> bool" where
  "is_in_progress x log = (case log x of Some StatusInProgress \<Rightarrow> True | _ \<Rightarrow> False)"

definition is_known :: "xid \<Rightarrow> CommitLog \<Rightarrow> bool" where
  "is_known x log = (log x \<noteq> None)"

definition truncate_log :: "xid \<Rightarrow> CommitLog \<Rightarrow> CommitLog" where
  "truncate_log cutoff log =
     (\<lambda>x. case log x of None \<Rightarrow> None
        | Some s \<Rightarrow> (if x \<ge> cutoff \<or> s = StatusInProgress then Some s else None))"

section \<open>Concurrent \<open>begin\<close> calls\<close>

text \<open>
  A thread inside \<open>begin\<close> has taken its identifier, or has also taken its snapshot and is about to
  insert. \<open>pending\<close> records where each thread is.
\<close>

datatype begin_pc = Allocated xid IsolationLevel | Snapshotted xid IsolationLevel Snapshot

record tm_sys =
  mgr :: TransactionManager
  pending :: "nat \<rightharpoonup> begin_pc"

definition init_tm_sys :: tm_sys where
  "init_tm_sys = \<lparr>mgr = new_transaction_manager, pending = Map.empty\<rparr>"

inductive tm_step :: "tm_sys \<Rightarrow> tm_sys \<Rightarrow> bool" where
  allocate: "pending s t = None \<Longrightarrow>
     tm_step s (s\<lparr>mgr := (mgr s)\<lparr>next_xid := next_xid (mgr s) + 1\<rparr>,
                  pending := (pending s)(t \<mapsto> Allocated (next_xid (mgr s)) lvl)\<rparr>)"
| snapshot: "pending s t = Some (Allocated x lvl) \<Longrightarrow> enumerates ks (active (mgr s)) \<Longrightarrow>
     tm_step s (s\<lparr>pending := (pending s)(t \<mapsto> Snapshotted x lvl (create_snapshot ks x))\<rparr>)"
| insert: "pending s t = Some (Snapshotted x lvl snap) \<Longrightarrow>
     tm_step s (s\<lparr>mgr := (mgr s)\<lparr>active := (active (mgr s))
                    (x \<mapsto> with_isolation_snapshot lvl snap (new_transaction x lvl))\<rparr>,
                  pending := (pending s)(t := None)\<rparr>)"
| commit: "tm_step s (s\<lparr>mgr := fst (tm_commit x (mgr s))\<rparr>)"
| rollback: "tm_step s (s\<lparr>mgr := fst (tm_rollback x (mgr s))\<rparr>)"

inductive tm_reachable :: "tm_sys \<Rightarrow> bool" where
  start: "tm_reachable init_tm_sys"
| step: "tm_reachable s \<Longrightarrow> tm_step s s' \<Longrightarrow> tm_reachable s'"

text \<open>The identifier a pending \<open>begin\<close> holds.\<close>

fun pc_xid :: "begin_pc \<Rightarrow> xid" where
  "pc_xid (Allocated x lvl) = x"
| "pc_xid (Snapshotted x lvl snap) = x"

fun pc_alloc :: "begin_pc \<Rightarrow> bool" where
  "pc_alloc (Allocated x lvl) = True"
| "pc_alloc (Snapshotted x lvl snap) = (snap_xid snap = x)"

section \<open>Invariants of the manager\<close>

text \<open>
  Every registered transaction is active and filed under its own identifier; the snapshot, kept
  exactly at the two upper isolation levels, carries that identifier too.
\<close>

definition txn_ok :: "xid \<Rightarrow> Transaction \<Rightarrow> bool" where
  "txn_ok x t \<longleftrightarrow> txn_xid t = x \<and> state t = Active \<and>
     (isolation t \<in> {RepeatableRead, Serializable} \<longleftrightarrow> snapshot t \<noteq> None) \<and>
     (\<forall>s. snapshot t = Some s \<longrightarrow> snap_xid s = x)"

definition tm_inv :: "tm_sys \<Rightarrow> bool" where
  "tm_inv s \<longleftrightarrow> finite (dom (active (mgr s))) \<and> (\<forall>x t. active (mgr s) x = Some t \<longrightarrow> txn_ok x t) \<and>
     (\<forall>t pc. pending s t = Some pc \<longrightarrow> pc_alloc pc)"

lemma txn_ok_new:
  "snap_xid snap = x \<Longrightarrow> txn_ok x (with_isolation_snapshot lvl snap (new_transaction x lvl))"
  by (cases lvl) (auto simp: txn_ok_def with_isolation_snapshot_def new_transaction_def take_snapshot_def)

lemma tm_commit_active: "active (fst (tm_commit x tm)) = (active tm)(x := None)"
  by (auto simp: tm_commit_def split: option.splits)

lemma tm_rollback_active: "active (fst (tm_rollback x tm)) = (active tm)(x := None)"
  by (auto simp: tm_rollback_def split: option.splits)

lemma tm_end_next [simp]:
  "next_xid (fst (tm_commit x tm)) = next_xid tm"
  "next_xid (fst (tm_rollback x tm)) = next_xid tm"
  by (auto simp: tm_commit_def tm_rollback_def split: option.splits)

lemma tm_step_inv: "tm_step s s' \<Longrightarrow> tm_inv s \<Longrightarrow> tm_inv s'"
proof (induction rule: tm_step.induct)
  case (insert s t x lvl snap)
  then have "snap_xid snap = x" by (force simp: tm_inv_def)
  then show ?case using insert by (auto simp: tm_inv_def txn_ok_new)
qed (auto simp: tm_inv_def create_snapshot_def tm_commit_active tm_rollback_active)

lemma tm_reachable_inv: "tm_reachable s \<Longrightarrow> tm_inv s"
proof (induction rule: tm_reachable.induct)
  case start
  show ?case by (simp add: tm_inv_def init_tm_sys_def new_transaction_manager_def)
next
  case (step s s')
  then show ?case by (blast intro: tm_step_inv)
qed

text \<open>
  Runs that count the calls of \<open>begin\<close>: the counter is the only field an allocation changes, and only
  an allocation changes it.
\<close>

inductive tm_runs :: "nat \<Rightarrow> tm_sys \<Rightarrow> bool" where
  init: "tm_runs 0 init_tm_sys"
| call: "tm_runs n s \<Longrightarrow> tm_step s s' \<Longrightarrow>
     tm_runs (if next_xid (mgr s') = next_xid (mgr s) then n else Suc n) s'"

definition ids_fresh :: "tm_sys \<Rightarrow> bool" where
  "ids_fresh s \<longleftrightarrow>
     (\<forall>x \<in> dom (active (mgr s)). x < next_xid (mgr s)) \<and>
     (\<forall>t pc. pending s t = Some pc \<longrightarrow> pc_xid pc < next_xid (mgr s) \<and> active (mgr s) (pc_xid pc) = None) \<and>
     (\<forall>t u pc pc'. pending s t = Some pc \<longrightarrow> pending s u = Some pc' \<longrightarrow> pc_xid pc = pc_xid pc' \<longrightarrow> t = u)"

lemma ids_fresh_step:
  assumes "tm_step s s'" and "ids_fresh s" and "unat (next_xid (mgr s)) < 4294967295"
  shows "ids_fresh s'"
  using assms
proof (induction rule: tm_step.induct)
  case (allocate s t lvl)
  let ?n = "next_xid (mgr s)"
  have lt: "x < ?n \<Longrightarrow> x < ?n + 1" and self: "?n < ?n + 1" for x
    using allocate.prems(2) by (simp_all add: word_less_nat_alt unat_Suc32)
  have "active (mgr s) ?n = None"
    using allocate.prems(1) by (fastforce simp: ids_fresh_def)
  moreover have "\<forall>u pc. pending s u = Some pc \<longrightarrow> pc_xid pc \<noteq> ?n"
    using allocate.prems(1) by (fastforce simp: ids_fresh_def)
  ultimately show ?case
    using allocate lt self by (auto simp: ids_fresh_def) blast
next
  case (snapshot s t x lvl ks)
  then have "pc_xid (Allocated x lvl) < next_xid (mgr s)" "active (mgr s) x = None"
    by (force simp: ids_fresh_def)+
  then show ?case using snapshot unfolding ids_fresh_def
    by (auto split: if_splits)
next
  case (insert s t x lvl snap)
  then have x: "x < next_xid (mgr s)" by (force simp: ids_fresh_def)
  have "pc_xid pc \<noteq> x" if "pending s u = Some pc" "u \<noteq> t" for u pc
    using insert that by (metis (mono_tags) ids_fresh_def pc_xid.simps(2))
  then show ?case using insert x by (auto simp: ids_fresh_def)
next
  case (commit s x)
  then show ?case by (auto simp: ids_fresh_def tm_commit_active)
next
  case (rollback s x)
  then show ?case by (auto simp: ids_fresh_def tm_rollback_active)
qed

lemma tm_step_next:
  "tm_step s s' \<Longrightarrow> next_xid (mgr s') = next_xid (mgr s) \<or> next_xid (mgr s') = next_xid (mgr s) + 1"
  by (induction rule: tm_step.induct) auto

lemma tm_runs_fresh:
  "tm_runs n s \<Longrightarrow> n < 4294967294 \<Longrightarrow> unat (next_xid (mgr s)) = Suc n \<and> ids_fresh s"
proof (induction rule: tm_runs.induct)
  case init
  show ?case by (simp add: ids_fresh_def init_tm_sys_def new_transaction_manager_def)
next
  case (call n s s')
  show ?case
  proof (cases "next_xid (mgr s') = next_xid (mgr s)")
    case True
    with call have "unat (next_xid (mgr s)) = Suc n" "ids_fresh s" by auto
    then show ?thesis using True call by (auto intro: ids_fresh_step)
  next
    case False
    then have "Suc n < 4294967294" using call.prems by simp
    moreover from this have IH: "unat (next_xid (mgr s)) = Suc n" "ids_fresh s"
      using call.IH by simp_all
    ultimately show ?thesis
      using False call.hyps tm_step_next [of s s'] ids_fresh_step [of s s'] by (auto simp: unat_Suc32)
  qed
qed

section \<open>Properties\<close>

text \<open>
  C35: identifiers are unique under every interleaving of concurrent \<open>begin\<close> calls, as long as fewer
  than 4294967294 transactions have started: two threads inside \<open>begin\<close> never hold the same
  identifier, and the identifier a thread is about to insert is not registered, so the insertion
  never overwrites a running transaction. Every registered transaction is active and filed under
  its own identifier.
\<close>

theorem concurrent_begin_unique:
  assumes "tm_runs n s" and "n < 4294967294"
    and "pending s t = Some pc" and "pending s u = Some pc'"
  shows "(pc_xid pc = pc_xid pc' \<longrightarrow> t = u) \<and> active (mgr s) (pc_xid pc) = None \<and>
     (\<forall>x txn. get_transaction x (mgr s) = Some txn \<longrightarrow> txn_ok x txn)"
proof -
  have "tm_reachable s"
    using assms(1) by (induction rule: tm_runs.induct) (auto intro: tm_reachable.intros)
  then have "tm_inv s" by (rule tm_reachable_inv)
  then show ?thesis
    using tm_runs_fresh [OF assms(1,2)] assms(3,4)
    by (auto simp: ids_fresh_def tm_inv_def get_transaction_def)
qed

definition two_pending :: tm_sys where
  "two_pending =
     \<lparr>mgr = \<lparr>next_xid = 3, active = Map.empty\<rparr>,
      pending = [0 \<mapsto> Allocated 1 RepeatableRead, 1 \<mapsto> Allocated 2 RepeatableRead]\<rparr>"

definition one_pending :: tm_sys where
  "one_pending =
     \<lparr>mgr = \<lparr>next_xid = 2, active = Map.empty\<rparr>, pending = [0 \<mapsto> Allocated 1 RepeatableRead]\<rparr>"

lemma one_pending_runs: "tm_runs 1 one_pending"
proof -
  have "tm_step init_tm_sys one_pending"
    using tm_step.allocate [of init_tm_sys 0 RepeatableRead]
    by (simp add: init_tm_sys_def new_transaction_manager_def one_pending_def)
  from tm_runs.call [OF tm_runs.init this] show ?thesis
    by (simp add: init_tm_sys_def new_transaction_manager_def one_pending_def)
qed

lemma two_pending_runs: "tm_runs 2 two_pending"
proof -
  have "tm_step one_pending two_pending"
    using tm_step.allocate [of one_pending 1 RepeatableRead]
    by (simp add: one_pending_def two_pending_def)
  from tm_runs.call [OF one_pending_runs this] show ?thesis
    by (simp add: one_pending_def two_pending_def numeral_2_eq_2)
qed

theorem concurrent_begin_unique_witness:
  "tm_runs 2 two_pending \<and> pc_xid (Allocated 1 RepeatableRead) \<noteq> pc_xid (Allocated 2 RepeatableRead)
   \<and> active (mgr two_pending) 1 = None"
proof -
  have p: "pending two_pending 0 = Some (Allocated 1 RepeatableRead)"
    "pending two_pending 1 = Some (Allocated 2 RepeatableRead)" by (simp_all add: two_pending_def)
  show ?thesis
    using concurrent_begin_unique [OF two_pending_runs _ p] two_pending_runs by simp
qed

text \<open>
  A call of \<open>begin\<close> that runs alone at an upper isolation level stores a snapshot that sees exactly
  the transactions with a smaller identifier that are no longer registered; and the snapshot is
  repeatable: whatever other transactions commit or roll back later, the stored snapshot stays.
\<close>

theorem begin_snapshot_exact:
  assumes "enumerates ks (active tm)" and "lvl \<in> {RepeatableRead, Serializable}"
    and "tm_begin ks lvl tm = (tm', x)"
  shows "\<exists>txn s. get_transaction x tm' = Some txn \<and> snapshot txn = Some s \<and>
      (\<forall>y. snapshot_is_visible s y None \<longleftrightarrow> y < x \<and> get_transaction y tm = None) \<and>
      (\<forall>y. y \<noteq> x \<longrightarrow> get_transaction x (fst (tm_commit y tm')) = Some txn \<and>
                     get_transaction x (fst (tm_rollback y tm')) = Some txn)"
proof -
  let ?s = "create_snapshot ks x"
  let ?t = "with_isolation_snapshot lvl ?s (new_transaction x lvl)"
  have tm': "active tm' = (active tm)(x \<mapsto> ?t)"
    using assms(3) by (auto simp: tm_begin_def Let_def)
  have "get_transaction x tm' = Some ?t" by (simp add: get_transaction_def tm')
  moreover have "snapshot ?t = Some ?s"
    using assms(2) by (auto simp: with_isolation_snapshot_def take_snapshot_def)
  moreover have "\<forall>y. snapshot_is_visible ?s y None \<longleftrightarrow> y < x \<and> get_transaction y tm = None"
    using assms(1)
    by (auto simp: snapshot_is_visible_def create_snapshot_def enumerates_def get_transaction_def)
  moreover have "\<forall>y. y \<noteq> x \<longrightarrow> get_transaction x (fst (tm_commit y tm')) = Some ?t \<and>
      get_transaction x (fst (tm_rollback y tm')) = Some ?t"
    by (simp add: get_transaction_def tm_commit_active tm_rollback_active tm')
  ultimately show ?thesis by blast
qed

theorem begin_snapshot_exact_witness:
  "\<exists>txn s. get_transaction 1 (fst (tm_begin [] Serializable new_transaction_manager)) = Some txn \<and>
     snapshot txn = Some s \<and> (\<forall>y. snapshot_is_visible s y None \<longleftrightarrow> y < 1)"
proof -
  have e: "enumerates [] (active new_transaction_manager)"
    by (simp add: enumerates_def new_transaction_manager_def)
  obtain tm' where b: "tm_begin [] Serializable new_transaction_manager = (tm', 1)"
    by (simp add: tm_begin_def new_transaction_manager_def Let_def)
  show ?thesis using begin_snapshot_exact [OF e _ b] b
    by (auto simp: get_transaction_def new_transaction_manager_def)
qed

text \<open>
  With two concurrent \<open>begin\<close> calls the snapshot can miss a running transaction. The identifier is
  taken before the snapshot and the registration comes last, so the second transaction can take
  its snapshot while the first has an identifier and is not yet registered; afterwards the first
  is registered and running, and the repeatable-read snapshot of the second sees its rows.
\<close>

theorem concurrent_begin_sees_running:
  "\<exists>s txn1 txn2 snap. tm_reachable s \<and> get_transaction 1 (mgr s) = Some txn1 \<and> state txn1 = Active \<and>
     get_transaction 2 (mgr s) = Some txn2 \<and> snapshot txn2 = Some snap \<and>
     snapshot_is_visible snap 1 None"
proof -
  let ?t2 = "with_isolation_snapshot RepeatableRead (create_snapshot [] 2) (new_transaction 2 RepeatableRead)"
  let ?t1 = "with_isolation_snapshot RepeatableRead (create_snapshot [2] 1) (new_transaction 1 RepeatableRead)"
  let ?a = "two_pending\<lparr>pending := [0 \<mapsto> Allocated 1 RepeatableRead,
      1 \<mapsto> Snapshotted 2 RepeatableRead (create_snapshot [] 2)]\<rparr>"
  let ?b = "\<lparr>mgr = \<lparr>next_xid = 3, active = [2 \<mapsto> ?t2]\<rparr>, pending = [0 \<mapsto> Allocated 1 RepeatableRead]\<rparr>"
  let ?c = "?b\<lparr>pending := [0 \<mapsto> Snapshotted 1 RepeatableRead (create_snapshot [2] 1)]\<rparr>"
  let ?d = "\<lparr>mgr = \<lparr>next_xid = 3, active = [2 \<mapsto> ?t2, 1 \<mapsto> ?t1]\<rparr>, pending = Map.empty\<rparr>"
  have r0: "tm_reachable two_pending"
    using two_pending_runs by (induction rule: tm_runs.induct) (auto intro: tm_reachable.intros)
  have "tm_step two_pending ?a"
    using tm_step.snapshot [of two_pending 1 2 RepeatableRead "[]"]
    by (simp add: two_pending_def enumerates_def)
  then have ra: "tm_reachable ?a" by (rule tm_reachable.step [OF r0])
  have "tm_step ?a ?b"
    using tm_step.insert [of ?a 1 2 RepeatableRead "create_snapshot [] 2"]
    by (simp add: two_pending_def)
  then have rb: "tm_reachable ?b" by (rule tm_reachable.step [OF ra])
  have "tm_step ?b ?c"
    using tm_step.snapshot [of ?b 0 1 RepeatableRead "[2]"] by (simp add: enumerates_def)
  then have rc: "tm_reachable ?c" by (rule tm_reachable.step [OF rb])
  have "tm_step ?c ?d"
    using tm_step.insert [of ?c 0 1 RepeatableRead "create_snapshot [2] 1"] by simp
  then have rd: "tm_reachable ?d" by (rule tm_reachable.step [OF rc])
  have "get_transaction 1 (mgr ?d) = Some ?t1" "get_transaction 2 (mgr ?d) = Some ?t2"
    by (simp_all add: get_transaction_def)
  moreover have "state ?t1 = Active" "snapshot ?t2 = Some (create_snapshot [] 2)"
    by (simp_all add: with_isolation_snapshot_def take_snapshot_def new_transaction_def)
  moreover have "snapshot_is_visible (create_snapshot [] 2) 1 None"
    by (simp add: snapshot_is_visible_def create_snapshot_def word_le_nat_alt)
  ultimately show ?thesis using rd by blast
qed

text \<open>
  Ending a transaction. \<open>commit\<close> and \<open>rollback\<close> of a registered transaction succeed and undo its
  registration, so a \<open>begin\<close> with a fresh identifier followed by either leaves the set of running
  transactions as it was; for an identifier that is not registered both report an error and change
  nothing.
\<close>

theorem end_transaction:
  assumes "tm_begin ks lvl tm = (tm', x)" and "get_transaction x tm = None"
    and "get_transaction y tm = None"
  shows "snd (tm_commit x tm') = Ok () \<and> active (fst (tm_commit x tm')) = active tm
      \<and> snd (tm_rollback x tm') = Ok () \<and> active (fst (tm_rollback x tm')) = active tm
      \<and> tm_commit y tm = (tm, Err ''Transaction not found'')
      \<and> tm_rollback y tm = (tm, Err ''Transaction not found'')"
  using assms by (auto simp: tm_begin_def Let_def tm_commit_def tm_rollback_def get_transaction_def)

theorem end_transaction_witness:
  "snd (tm_commit 1 (fst (tm_begin [] ReadCommitted new_transaction_manager))) = Ok () \<and>
   active (fst (tm_commit 1 (fst (tm_begin [] ReadCommitted new_transaction_manager)))) = Map.empty"
proof -
  obtain tm' where b: "tm_begin [] ReadCommitted new_transaction_manager = (tm', 1)"
    by (simp add: tm_begin_def new_transaction_manager_def Let_def)
  have n: "get_transaction x new_transaction_manager = None" for x
    by (simp add: get_transaction_def new_transaction_manager_def)
  show ?thesis using end_transaction [OF b n n] b by (simp add: new_transaction_manager_def)
qed

text \<open>
  Truncating the commit log forgets exactly the finished transactions below the cutoff. A status
  at or above the cutoff, or of a transaction still in progress, reads as before, and no status is
  changed to another one.
\<close>

theorem truncate_log_exact:
  "get_status x (truncate_log cutoff log) =
     (if x < cutoff \<and> (is_committed x log \<or> is_aborted x log) then None else get_status x log)"
  by (auto simp: get_status_def truncate_log_def is_committed_def is_aborted_def
      split: option.splits TxnStatus.splits)

end
