(* ===== verification/Storage.thy ===== *)
theory Storage
  imports Prelude
begin

text \<open>
  Page storage: the trait of \<open>storage/mod.rs\<close> with its fork addressing, the in-memory backend of
  \<open>storage/ephemeral.rs\<close>, the file backend of \<open>storage/mmap.rs\<close>, and the page lists of
  \<open>storage/fork.rs\<close>.

  A trait object \<open>dyn StorageTrait\<close> is a record of the trait's methods over a state type; code that
  receives one takes the record as an argument. The contract its clients rely on is the locale
  \<open>page_store\<close>, interpreted for both backends.
\<close>

section \<open>The storage trait\<close>

type_synonym pid = u32
type_synonym oid = u32

datatype ForkType = Main | Fsm | Vm

definition suffix :: "ForkType \<Rightarrow> string" where
  "suffix f = (case f of Main \<Rightarrow> '''' | Fsm \<Rightarrow> ''_fsm'' | Vm \<Rightarrow> ''_vm'')"

definition all_forks :: "ForkType list" where
  "all_forks = [Main, Fsm, Vm]"

definition fork_page_id :: "oid \<Rightarrow> ForkType \<Rightarrow> u32 \<Rightarrow> pid" where
  "fork_page_id rel fork block =
     rel + (case fork of Main \<Rightarrow> 0 | Fsm \<Rightarrow> 1000000000 | Vm \<Rightarrow> 2000000000) + block"

record 's StorageTrait =
  read_page :: "'s \<Rightarrow> pid \<Rightarrow> bytes res"
  write_page :: "'s \<Rightarrow> pid \<Rightarrow> bytes \<Rightarrow> 's res"
  sync_all :: "'s \<Rightarrow> 's res"

definition read_page_fork ::
    "'s StorageTrait \<Rightarrow> 's \<Rightarrow> oid \<Rightarrow> ForkType \<Rightarrow> u32 \<Rightarrow> bytes res" where
  "read_page_fork st s rel fork block = read_page st s (fork_page_id rel fork block)"

definition write_page_fork ::
    "'s StorageTrait \<Rightarrow> 's \<Rightarrow> oid \<Rightarrow> ForkType \<Rightarrow> u32 \<Rightarrow> bytes \<Rightarrow> 's res" where
  "write_page_fork st s rel fork block data = write_page st s (fork_page_id rel fork block) data"

section \<open>The in-memory backend\<close>

type_synonym EphemeralStorage = "pid \<rightharpoonup> bytes"

definition new_ephemeral :: EphemeralStorage where
  "new_ephemeral = Map.empty"

definition ephemeral_read :: "EphemeralStorage \<Rightarrow> pid \<Rightarrow> bytes res" where
  "ephemeral_read pages p = Ok (case pages p of Some d \<Rightarrow> d | None \<Rightarrow> replicate 8192 0)"

definition ephemeral_write :: "EphemeralStorage \<Rightarrow> pid \<Rightarrow> bytes \<Rightarrow> EphemeralStorage res" where
  "ephemeral_write pages p data = Ok (pages(p \<mapsto> data))"

definition ephemeral_sync :: "EphemeralStorage \<Rightarrow> EphemeralStorage res" where
  "ephemeral_sync pages = Ok pages"

definition ephemeral :: "EphemeralStorage StorageTrait" where
  "ephemeral =
     \<lparr>read_page = ephemeral_read, write_page = ephemeral_write, sync_all = ephemeral_sync\<rparr>"

section \<open>The file backend\<close>

text \<open>
  The file is its bytes. Reading past the end fails (\<open>read_exact\<close>); writing past the end extends the
  file, a gap reading as zeros. Other input/output errors of the operating system are not modelled.
\<close>

record MmapStorage =
  file_bytes :: bytes
  page_size :: nat

definition file_write :: "nat \<Rightarrow> bytes \<Rightarrow> bytes \<Rightarrow> bytes" where
  "file_write off data f =
     take off (f @ replicate (off - length f) 0) @ data @ drop (off + length data) f"

definition mmap_open :: "nat \<Rightarrow> MmapStorage" where
  "mmap_open psz = \<lparr>file_bytes = replicate (1024 * 1024 * 1024) 0, page_size = psz\<rparr>"

definition mmap_read :: "MmapStorage \<Rightarrow> pid \<Rightarrow> bytes res" where
  "mmap_read s p =
     (let off = unat p * page_size s
      in if off + page_size s \<le> length (file_bytes s) then Ok (sub off (page_size s) (file_bytes s))
         else Err ''failed to fill whole buffer'')"

definition mmap_write :: "MmapStorage \<Rightarrow> pid \<Rightarrow> bytes \<Rightarrow> MmapStorage res" where
  "mmap_write s p data =
     (if length data > page_size s then Err ''data too large for page''
      else Ok (s\<lparr>file_bytes := file_write (unat p * page_size s) data (file_bytes s)\<rparr>))"

definition mmap_sync :: "MmapStorage \<Rightarrow> MmapStorage res" where
  "mmap_sync s = Ok s"

definition mmap :: "MmapStorage StorageTrait" where
  "mmap = \<lparr>read_page = mmap_read, write_page = mmap_write, sync_all = mmap_sync\<rparr>"

section \<open>Fork page lists\<close>

record ForkFile =
  rel_oid :: oid
  fork :: ForkType
  pages :: "pid list"

definition new_fork_file :: "oid \<Rightarrow> ForkType \<Rightarrow> ForkFile" where
  "new_fork_file rel f = \<lparr>rel_oid = rel, fork = f, pages = []\<rparr>"

definition fork_file_add_page :: "pid \<Rightarrow> ForkFile \<Rightarrow> ForkFile" where
  "fork_file_add_page p ff = (if p \<in> set (pages ff) then ff else ff\<lparr>pages := pages ff @ [p]\<rparr>)"

definition page_count :: "ForkFile \<Rightarrow> nat" where
  "page_count ff = length (pages ff)"

type_synonym RelationForks = "ForkType \<rightharpoonup> ForkFile"

definition new_relation_forks :: "oid \<Rightarrow> RelationForks" where
  "new_relation_forks rel = fold (\<lambda>f m. m(f \<mapsto> new_fork_file rel f)) all_forks Map.empty"

definition get_fork :: "ForkType \<Rightarrow> RelationForks \<Rightarrow> ForkFile option" where
  "get_fork f rf = rf f"

definition forks_add_page :: "ForkType \<Rightarrow> pid \<Rightarrow> RelationForks \<Rightarrow> RelationForks" where
  "forks_add_page f p rf =
     (case rf f of Some ff \<Rightarrow> rf(f \<mapsto> fork_file_add_page p ff) | None \<Rightarrow> rf)"

definition fork_pages :: "ForkType \<Rightarrow> RelationForks \<Rightarrow> pid list" where
  "fork_pages f rf = (case rf f of Some ff \<Rightarrow> pages ff | None \<Rightarrow> [])"

section \<open>The contract of a page store\<close>

text \<open>
  \<open>inv\<close> is the backend's own invariant, \<open>fits s p d\<close> says that the image \<open>d\<close> may be stored as page
  \<open>p\<close>. A stored page reads back unchanged and no other page is affected.
\<close>

locale page_store =
  fixes st :: "'s StorageTrait"
    and inv :: "'s \<Rightarrow> bool"
    and fits :: "'s \<Rightarrow> pid \<Rightarrow> bytes \<Rightarrow> bool"
  assumes write_ok: "inv s \<Longrightarrow> fits s p d \<Longrightarrow> \<exists>s'. write_page st s p d = Ok s'"
    and write_inv: "inv s \<Longrightarrow> fits s p d \<Longrightarrow> write_page st s p d = Ok s' \<Longrightarrow> inv s'"
    and write_fits: "inv s \<Longrightarrow> fits s p d \<Longrightarrow> write_page st s p d = Ok s' \<Longrightarrow> fits s' = fits s"
    and read_write: "inv s \<Longrightarrow> fits s p d \<Longrightarrow> write_page st s p d = Ok s' \<Longrightarrow> read_page st s' p = Ok d"
    and read_other:
      "inv s \<Longrightarrow> fits s p d \<Longrightarrow> write_page st s p d = Ok s' \<Longrightarrow> q \<noteq> p \<Longrightarrow>
         read_page st s' q = read_page st s q"
begin

text \<open>A batch of writes, one after the other, stopping at the first failure.\<close>

lemma write_all_reads:
  assumes "inv s" and "\<forall>(p, d) \<in> set ws. fits s p d"
  shows "\<exists>s'. foldl (\<lambda>r (p, d). and_then r (\<lambda>s. write_page st s p d)) (Ok s) ws = Ok s' \<and> inv s' \<and>
      (\<forall>q. read_page st s' q =
         (case map_of (rev ws) q of Some d \<Rightarrow> Ok d | None \<Rightarrow> read_page st s q))"
  using assms
proof (induction ws arbitrary: s)
  case Nil
  then show ?case by auto
next
  case (Cons w ws)
  obtain p d where w: "w = (p, d)" by fastforce
  have f: "fits s p d" using Cons.prems(2) w by auto
  obtain s1 where s1: "write_page st s p d = Ok s1" using write_ok [OF Cons.prems(1) f] by blast
  have "\<forall>(p, d) \<in> set ws. fits s1 p d"
    using Cons.prems(2) write_fits [OF Cons.prems(1) f s1] by auto
  then obtain s' where run: "foldl (\<lambda>r (p, d). and_then r (\<lambda>s. write_page st s p d)) (Ok s1) ws = Ok s'"
    and inv': "inv s'" and rd: "\<forall>q. read_page st s' q =
         (case map_of (rev ws) q of Some d \<Rightarrow> Ok d | None \<Rightarrow> read_page st s1 q)"
    using Cons.IH [OF write_inv [OF Cons.prems(1) f s1]] by blast
  have "read_page st s1 q = (if q = p then Ok d else read_page st s q)" for q
    using read_write [OF Cons.prems(1) f s1] read_other [OF Cons.prems(1) f s1] by auto
  then show ?case
    using run inv' rd s1 by (auto simp: w map_add_def split: option.splits)
qed

lemma read_write_fork:
  assumes "inv s" and "fits s (fork_page_id rel f b) d"
    and "write_page_fork st s rel f b d = Ok s'"
  shows "read_page_fork st s' rel f b = Ok d"
  using assms read_write by (simp add: write_page_fork_def read_page_fork_def)

end

interpretation ephemeral: page_store ephemeral "\<lambda>_. True" "\<lambda>_ _ _. True"
  by unfold_locales
    (auto simp: ephemeral_def ephemeral_write_def ephemeral_read_def)

lemma length_file_write [simp]:
  "off + length data \<le> length f \<Longrightarrow> length (file_write off data f) = length f"
  by (simp add: file_write_def)

lemma file_write_put_at:
  "off + length data \<le> length f \<Longrightarrow> file_write off data f = put_at off data f"
  by (simp add: file_write_def put_at_def)

definition mmap_fits :: "MmapStorage \<Rightarrow> pid \<Rightarrow> bytes \<Rightarrow> bool" where
  "mmap_fits s p d \<longleftrightarrow>
     length d = page_size s \<and> unat p * page_size s + page_size s \<le> length (file_bytes s)"

lemma page_slots_disjoint:
  fixes p q n :: nat
  assumes "p \<noteq> q"
  shows "p * n + n \<le> q * n \<or> q * n + n \<le> p * n"
proof -
  have "Suc p \<le> q \<or> Suc q \<le> p" using assms by linarith
  then have "Suc p * n \<le> q * n \<or> Suc q * n \<le> p * n" by (meson mult_le_mono1)
  then show ?thesis by (auto simp: add.commute)
qed

lemma mmap_read_other:
  assumes "mmap_fits s p d" and "mmap_write s p d = Ok s'" and "q \<noteq> p"
  shows "mmap_read s' q = mmap_read s q"
proof -
  have s': "s' = s\<lparr>file_bytes := put_at (unat p * page_size s) d (file_bytes s)\<rparr>"
    using assms(1,2) by (auto simp: mmap_write_def mmap_fits_def file_write_put_at split: if_splits)
  have "unat p \<noteq> unat q" using assms(3) by (simp add: word_unat_eq_iff)
  then consider "unat p * page_size s + page_size s \<le> unat q * page_size s"
    | "unat q * page_size s + page_size s \<le> unat p * page_size s"
    using page_slots_disjoint by blast
  then show ?thesis
    using assms(1) by cases (auto simp: mmap_read_def s' mmap_fits_def Let_def)
qed

interpretation mmap: page_store mmap "\<lambda>_. True" mmap_fits
proof unfold_locales
  fix s s' p d q
  assume fits: "mmap_fits s p d"
  show "\<exists>s'. write_page mmap s p d = Ok s'"
    using fits by (simp add: mmap_def mmap_write_def mmap_fits_def)
  assume w: "write_page mmap s p d = Ok s'"
  then have s': "s' = s\<lparr>file_bytes := put_at (unat p * page_size s) d (file_bytes s)\<rparr>"
    using fits by (auto simp: mmap_def mmap_write_def mmap_fits_def file_write_put_at split: if_splits)
  show "mmap_fits s' = mmap_fits s"
    using fits by (intro ext) (auto simp: s' mmap_fits_def)
  show "read_page mmap s' p = Ok d"
    using fits by (simp add: s' mmap_def mmap_read_def mmap_fits_def Let_def)
  assume "q \<noteq> p"
  then show "read_page mmap s' q = read_page mmap s q"
    using mmap_read_other fits w by (simp add: mmap_def)
qed auto

section \<open>Properties\<close>

text \<open>
  The file backend behaves as an array of pages. Any sequence of whole-page writes inside the file
  succeeds, and afterwards every page reads as the last image written to it, and a page that was not
  written reads as before.
\<close>

theorem mmap_array_of_pages:
  assumes "\<forall>(p, d) \<in> set ws. mmap_fits s p d"
  shows "\<exists>s'. foldl (\<lambda>r (p, d). and_then r (\<lambda>s. write_page mmap s p d)) (Ok s) ws = Ok s' \<and>
      (\<forall>q. read_page mmap s' q =
         (case map_of (rev ws) q of Some d \<Rightarrow> Ok d | None \<Rightarrow> read_page mmap s q))"
  using mmap.write_all_reads [OF TrueI assms] by auto

theorem mmap_array_of_pages_witness:
  "\<exists>s'. foldl (\<lambda>r (p, d). and_then r (\<lambda>s. write_page mmap s p d))
       (Ok \<lparr>file_bytes = [0, 0, 0, 0], page_size = 2\<rparr>) [(1, [5, 6]), (0, [7, 8]), (1, [9, 9])] = Ok s' \<and>
     read_page mmap s' 1 = Ok [9, 9] \<and> read_page mmap s' 0 = Ok [7, 8]"
proof -
  have h: "\<forall>(p, d) \<in> set [(1, [5, 6]), (0, [7, 8]), (1, [9, 9])].
      mmap_fits \<lparr>file_bytes = [0, 0, 0, 0], page_size = 2\<rparr> p d"
    by (simp add: mmap_fits_def)
  show ?thesis using mmap_array_of_pages [OF h] by (auto simp del: foldl_Cons)
qed

text \<open>
  Within one relation, the page identifiers of the three forks do not collide for block numbers
  below one thousand million, for any relation identifier (the addition wraps).
\<close>

theorem fork_page_id_inj:
  assumes "unat b < 1000000000" and "unat b' < 1000000000"
  shows "fork_page_id rel f b = fork_page_id rel f' b' \<longleftrightarrow> f = f' \<and> b = b'"
proof -
  define off :: "ForkType \<Rightarrow> u32" where
    "off f = (case f of Main \<Rightarrow> 0 | Fsm \<Rightarrow> 1000000000 | Vm \<Rightarrow> 2000000000)" for f
  have u: "unat (off f + b) = unat (off f) + unat b" if "unat b < 1000000000" for f b
    using that by (cases f) (simp_all add: off_def unat_word_ariths)
  have "fork_page_id rel f b = fork_page_id rel f' b' \<longleftrightarrow> off f + b = off f' + b'"
    by (simp add: fork_page_id_def off_def add.assoc)
  also have "\<dots> \<longleftrightarrow> unat (off f) + unat b = unat (off f') + unat b'"
    using u assms by (metis word_unat_eq_iff)
  also have "\<dots> \<longleftrightarrow> f = f' \<and> b = b'"
    using assms by (cases f; cases f') (auto simp: off_def word_unat_eq_iff)
  finally show ?thesis .
qed

theorem fork_page_id_inj_witness:
  "fork_page_id 4294967295 Main 5 \<noteq> fork_page_id 4294967295 Vm 5"
  using fork_page_id_inj [of 5 5 4294967295 Main Vm] by simp

text \<open>
  Across relations the addressing collides: the relation identifier and the block number are simply
  added, so the next block of one relation is the page of the relation numbered one higher. A page
  written through one of them is then read back through the other.
\<close>

theorem fork_page_id_collides:
  "fork_page_id rel f (b + 1) = fork_page_id (rel + 1) f b \<and>
   (\<exists>s'. write_page_fork ephemeral s rel f (b + 1) d = Ok s' \<and>
         read_page_fork ephemeral s' (rel + 1) f b = Ok d)"
proof -
  have eq: "fork_page_id rel f (b + 1) = fork_page_id (rel + 1) f b"
    by (simp add: fork_page_id_def algebra_simps)
  obtain s' where w: "write_page_fork ephemeral s rel f (b + 1) d = Ok s'"
    using ephemeral.write_ok [of s "fork_page_id rel f (b + 1)" d] by (auto simp: write_page_fork_def)
  have "read_page_fork ephemeral s' rel f (b + 1) = Ok d"
    by (rule ephemeral.read_write_fork [OF TrueI TrueI w])
  then show ?thesis using eq w by (auto simp: read_page_fork_def)
qed

text \<open>
  A fork's page list never holds a page twice and keeps the order of first insertion: after adding a
  sequence of pages to one fork of a fresh relation, that fork lists the distinct pages, the others
  stay empty.
\<close>

theorem forks_add_pages:
  "fork_pages f (fold (forks_add_page f) ps (new_relation_forks rel)) = rev (remdups (rev ps)) \<and>
   (\<forall>g. g \<noteq> f \<longrightarrow> fork_pages g (fold (forks_add_page f) ps (new_relation_forks rel)) = [])"
proof -
  have new: "new_relation_forks rel g = Some (new_fork_file rel g)" for g
    by (cases g) (simp_all add: new_relation_forks_def all_forks_def)
  have run: "fold (forks_add_page f) qs rf = rf(f \<mapsto> fold fork_file_add_page qs ff)"
    if "rf f = Some ff" for qs rf ff
    using that
    by (induction qs arbitrary: rf ff) (auto simp: forks_add_page_def)
  have pages: "pages (fold fork_file_add_page qs (new_fork_file rel f)) = rev (remdups (rev qs))" for qs
    by (induction qs rule: rev_induct) (auto simp: new_fork_file_def fork_file_add_page_def)
  show ?thesis
    unfolding run [OF new] by (simp add: fork_pages_def pages new) (simp add: new_fork_file_def)
qed

theorem forks_add_pages_witness:
  "fork_pages Main (fold (forks_add_page Main) [4, 7, 4] (new_relation_forks 1)) = [4, 7] \<and>
   fork_pages Fsm (fold (forks_add_page Main) [4, 7, 4] (new_relation_forks 1)) = []"
  using forks_add_pages [of Main "[4, 7, 4]" 1] by simp

end
