(* ===== verification/Visibility_Map.thy ===== *)
theory Visibility_Map
  imports Prelude
begin

unbundle bit_operations_syntax

text \<open>
  The visibility map of \<open>storage/visibility_map.rs\<close>: one bit per heap page, packed eight to a byte.
  Indexing the byte vector panics when the byte is missing, which a map built by \<open>new\<close> or by
  \<open>deserialize\<close> of a serialised map never does. The map refines a set of pages: \<open>vm_abs\<close> is the
  abstraction, and the operations are insertion, removal and membership.
\<close>

section \<open>Definitions\<close>

definition PAGES_PER_BYTE :: nat where
  "PAGES_PER_BYTE = 8"

record VisibilityMap =
  vm_data :: bytes
  num_pages :: u32

definition new_vm :: "u32 \<Rightarrow> VisibilityMap" where
  "new_vm n = \<lparr>vm_data = replicate (div_ceil (unat n) PAGES_PER_BYTE) 0, num_pages = n\<rparr>"

definition is_page_all_visible :: "u32 \<Rightarrow> VisibilityMap \<Rightarrow> bool res" where
  "is_page_all_visible p vm =
     (if p \<ge> num_pages vm then Ok False
      else let byte_idx = unat p div PAGES_PER_BYTE; bit_idx = unat p mod PAGES_PER_BYTE
           in if byte_idx < length (vm_data vm)
              then Ok (vm_data vm ! byte_idx AND push_bit bit_idx 1 \<noteq> 0) else panic)"

definition mark_all_visible :: "u32 \<Rightarrow> VisibilityMap \<Rightarrow> VisibilityMap res" where
  "mark_all_visible p vm =
     (if p \<ge> num_pages vm then Ok vm
      else let byte_idx = unat p div PAGES_PER_BYTE; bit_idx = unat p mod PAGES_PER_BYTE
           in if byte_idx < length (vm_data vm)
              then Ok (vm\<lparr>vm_data := (vm_data vm)
                        [byte_idx := vm_data vm ! byte_idx OR push_bit bit_idx 1]\<rparr>) else panic)"

definition clear_all_visible :: "u32 \<Rightarrow> VisibilityMap \<Rightarrow> VisibilityMap res" where
  "clear_all_visible p vm =
     (if p \<ge> num_pages vm then Ok vm
      else let byte_idx = unat p div PAGES_PER_BYTE; bit_idx = unat p mod PAGES_PER_BYTE
           in if byte_idx < length (vm_data vm)
              then Ok (vm\<lparr>vm_data := (vm_data vm)
                        [byte_idx := vm_data vm ! byte_idx AND NOT (push_bit bit_idx 1)]\<rparr>) else panic)"

definition vm_serialize :: "VisibilityMap \<Rightarrow> bytes" where
  "vm_serialize vm = to_le 4 (num_pages vm) @ vm_data vm"

definition vm_deserialize :: "bytes \<Rightarrow> VisibilityMap" where
  "vm_deserialize data =
     (if length data < 4 then new_vm 0
      else \<lparr>vm_data = drop 4 data, num_pages = from_le (take 4 data)\<rparr>)"

section \<open>Refinement of a set of pages\<close>

definition vm_ok :: "VisibilityMap \<Rightarrow> bool" where
  "vm_ok vm \<longleftrightarrow> div_ceil (unat (num_pages vm)) PAGES_PER_BYTE \<le> length (vm_data vm)"

definition vm_bit :: "VisibilityMap \<Rightarrow> nat \<Rightarrow> bool" where
  "vm_bit vm i \<longleftrightarrow> bit (vm_data vm ! (i div PAGES_PER_BYTE)) (i mod PAGES_PER_BYTE)"

definition vm_abs :: "VisibilityMap \<Rightarrow> u32 set" where
  "vm_abs vm = {p. p < num_pages vm \<and> vm_bit vm (unat p)}"

lemma vm_ok_new [simp]: "vm_ok (new_vm n)"
  by (simp add: vm_ok_def new_vm_def)

lemma vm_byte_present:
  assumes "vm_ok vm" and "p < num_pages vm"
  shows "unat p div PAGES_PER_BYTE < length (vm_data vm)"
proof -
  have "unat p < length (vm_data vm) * PAGES_PER_BYTE"
    using assms div_ceil_le_iff [of PAGES_PER_BYTE "unat (num_pages vm)" "length (vm_data vm)"]
    by (simp add: vm_ok_def PAGES_PER_BYTE_def word_less_nat_alt)
  then show ?thesis by (simp add: PAGES_PER_BYTE_def div_less_iff_less_mult)
qed

text \<open>Writing the bit of one page leaves every other page's bit alone.\<close>

lemma vm_bit_update:
  assumes "i div PAGES_PER_BYTE < length (vm_data vm)"
    and "\<And>k. k < 8 \<Longrightarrow> bit w k = (if k = i mod PAGES_PER_BYTE then v
          else bit (vm_data vm ! (i div PAGES_PER_BYTE)) k)"
  shows "vm_bit (vm\<lparr>vm_data := (vm_data vm)[i div PAGES_PER_BYTE := w]\<rparr>) j = (if j = i then v else vm_bit vm j)"
proof (cases "j div PAGES_PER_BYTE = i div PAGES_PER_BYTE")
  case True
  have "j mod PAGES_PER_BYTE < 8" by (simp add: PAGES_PER_BYTE_def)
  moreover have "j = i \<longleftrightarrow> j mod PAGES_PER_BYTE = i mod PAGES_PER_BYTE"
    using True by (metis div_mult_mod_eq)
  ultimately show ?thesis using assms True by (simp add: vm_bit_def)
next
  case False
  then show ?thesis by (auto simp: vm_bit_def)
qed

lemma is_visible_refines:
  assumes "vm_ok vm"
  shows "is_page_all_visible p vm = Ok (p \<in> vm_abs vm)"
  using vm_byte_present [OF assms, of p]
  by (auto simp: is_page_all_visible_def vm_abs_def vm_bit_def Let_def bit_iff_and_push_bit_not_eq_0 not_le)

lemma mark_refines:
  assumes "vm_ok vm"
  shows "\<exists>vm'. mark_all_visible p vm = Ok vm' \<and> vm_ok vm' \<and> num_pages vm' = num_pages vm \<and>
      vm_abs vm' = (if p < num_pages vm then insert p (vm_abs vm) else vm_abs vm)"
proof (cases "p < num_pages vm")
  case False
  then show ?thesis using assms by (auto simp: mark_all_visible_def)
next
  case True
  let ?w = "vm_data vm ! (unat p div PAGES_PER_BYTE) OR push_bit (unat p mod PAGES_PER_BYTE) 1"
  let ?vm = "vm\<lparr>vm_data := (vm_data vm)[unat p div PAGES_PER_BYTE := ?w]\<rparr>"
  have "bit ?w k = (if k = unat p mod PAGES_PER_BYTE then True
      else bit (vm_data vm ! (unat p div PAGES_PER_BYTE)) k)" if "k < 8" for k
    using that by (auto simp: bit_simps)
  then have upd: "vm_bit ?vm j = (if j = unat p then True else vm_bit vm j)" for j
    by (rule vm_bit_update [OF vm_byte_present [OF assms True]])
  have "mark_all_visible p vm = Ok ?vm"
    using True vm_byte_present [OF assms True] by (simp add: mark_all_visible_def Let_def not_le)
  moreover have "vm_abs ?vm = insert p (vm_abs vm)"
    using True upd by (auto simp: vm_abs_def word_unat_eq_iff)
  ultimately show ?thesis using assms True by (auto simp: vm_ok_def)
qed

lemma clear_refines:
  assumes "vm_ok vm"
  shows "\<exists>vm'. clear_all_visible p vm = Ok vm' \<and> vm_ok vm' \<and> num_pages vm' = num_pages vm \<and>
      vm_abs vm' = vm_abs vm - {p}"
proof (cases "p < num_pages vm")
  case False
  then show ?thesis using assms by (auto simp: clear_all_visible_def vm_abs_def)
next
  case True
  let ?w = "vm_data vm ! (unat p div PAGES_PER_BYTE) AND NOT (push_bit (unat p mod PAGES_PER_BYTE) 1)"
  let ?vm = "vm\<lparr>vm_data := (vm_data vm)[unat p div PAGES_PER_BYTE := ?w]\<rparr>"
  have "bit ?w k = (if k = unat p mod PAGES_PER_BYTE then False
      else bit (vm_data vm ! (unat p div PAGES_PER_BYTE)) k)" if "k < 8" for k
    using that by (auto simp: bit_simps)
  then have upd: "vm_bit ?vm j = (if j = unat p then False else vm_bit vm j)" for j
    by (rule vm_bit_update [OF vm_byte_present [OF assms True]])
  have "clear_all_visible p vm = Ok ?vm"
    using True vm_byte_present [OF assms True] by (simp add: clear_all_visible_def Let_def not_le)
  moreover have "vm_abs ?vm = vm_abs vm - {p}"
    using True upd by (auto simp: vm_abs_def word_unat_eq_iff)
  ultimately show ?thesis using assms True by (auto simp: vm_ok_def)
qed

lemma vm_abs_new [simp]: "vm_abs (new_vm n) = {}"
proof -
  have "vm_bit (new_vm n) (unat p) = False" if "p < n" for p
    using vm_byte_present [OF vm_ok_new [of n], of p] that
    by (simp add: vm_bit_def new_vm_def)
  then show ?thesis by (auto simp: vm_abs_def new_vm_def)
qed

section \<open>Properties\<close>

text \<open>
  C36: the visibility map implements a set of pages. Starting from a map of \<open>n\<close> pages, marking and
  clearing never panic; marking inserts a page (a page outside the map is ignored), clearing removes
  it, and the query answers membership.
\<close>

theorem vm_refines_set:
  assumes "vm_ok vm"
  shows "is_page_all_visible q vm = Ok (q \<in> vm_abs vm)
    \<and> (\<exists>vm'. mark_all_visible p vm = Ok vm' \<and> vm_ok vm' \<and> num_pages vm' = num_pages vm
         \<and> vm_abs vm' = (if p < num_pages vm then insert p (vm_abs vm) else vm_abs vm))
    \<and> (\<exists>vm'. clear_all_visible p vm = Ok vm' \<and> vm_ok vm' \<and> num_pages vm' = num_pages vm
         \<and> vm_abs vm' = vm_abs vm - {p})
    \<and> vm_ok (new_vm n) \<and> vm_abs (new_vm n) = {}"
  using assms is_visible_refines mark_refines clear_refines by simp

theorem vm_refines_set_witness:
  "vm_ok (new_vm 100) \<and> is_page_all_visible 64 (new_vm 100) = Ok False \<and>
   (\<exists>vm'. mark_all_visible 64 (new_vm 100) = Ok vm' \<and> vm_abs vm' = {64})"
proof -
  have "num_pages (new_vm 100) = 100" by (simp add: new_vm_def)
  then show ?thesis using vm_refines_set [OF vm_ok_new [of 100], of 64 64] by auto
qed

text \<open>
  A serialised visibility map reads back as itself, bit for bit; data shorter than the header reads
  as the empty map.
\<close>

theorem vm_roundtrip:
  "vm_deserialize (vm_serialize vm) = vm \<and> (length data < 4 \<longrightarrow> vm_deserialize data = new_vm 0)"
  by (simp add: vm_deserialize_def vm_serialize_def)

theorem vm_roundtrip_witness: "vm_deserialize [1, 2, 3] = new_vm 0"
  using vm_roundtrip [of "new_vm 0" "[1, 2, 3]"] by simp

end
