(* ===== verification/Toast.thy ===== *)
theory Toast
  imports Prelude "HOL-Library.Multiset"
begin

text \<open>
  Out-of-line storage of large values, \<open>storage/toast.rs\<close>: the pointer made for a value over the
  threshold, the chunk at an index, and the reassembly of chunks that arrive in any order.
\<close>

section \<open>Definitions\<close>

definition TOAST_THRESHOLD :: nat where
  "TOAST_THRESHOLD = 2040"

definition TOAST_MAX_CHUNK_SIZE :: nat where
  "TOAST_MAX_CHUNK_SIZE = 1996"

record ToastPointer =
  raw_size :: u32
  stored_size :: u32
  toast_table_oid :: u32
  chunk_ids :: "u32 list"

definition is_toasted :: "ToastPointer \<Rightarrow> bool" where
  "is_toasted tp = (raw_size tp > word_of_nat TOAST_THRESHOLD)"

definition maybe_toast :: "bytes \<Rightarrow> u32 \<Rightarrow> ToastPointer option" where
  "maybe_toast data rel =
     (if length data \<le> TOAST_THRESHOLD then None
      else Some \<lparr>raw_size = word_of_nat (length data), stored_size = word_of_nat (length data),
                 toast_table_oid = rel + 1,
                 chunk_ids = map word_of_nat [0..<div_ceil (length data) TOAST_MAX_CHUNK_SIZE]\<rparr>)"

definition chunk_data :: "bytes \<Rightarrow> nat \<Rightarrow> bytes option" where
  "chunk_data data i =
     (let start = i * TOAST_MAX_CHUNK_SIZE
      in if start \<ge> length data then None
         else Some (sub start (min (start + TOAST_MAX_CHUNK_SIZE) (length data) - start) data))"

text \<open>\<open>sort_by_key\<close> is a stable sort, as \<open>sort_key\<close> is.\<close>

definition detoast_chunks :: "(u32 \<times> bytes) list \<Rightarrow> u32 \<Rightarrow> bytes" where
  "detoast_chunks chunks rsz = take (unat rsz) (concat (map snd (sort_key fst chunks)))"

section \<open>Reassembly\<close>

text \<open>The chunks of a value, numbered as the pointer numbers them.\<close>

definition chunks_of :: "bytes \<Rightarrow> (u32 \<times> bytes) list" where
  "chunks_of data =
     map (\<lambda>i. (word_of_nat i, the (chunk_data data i)))
       [0..<div_ceil (length data) TOAST_MAX_CHUNK_SIZE]"

lemma chunk_data_eq:
  assumes "i < div_ceil (length data) TOAST_MAX_CHUNK_SIZE"
  shows "chunk_data data i = Some (sub (i * TOAST_MAX_CHUNK_SIZE) TOAST_MAX_CHUNK_SIZE data)"
proof -
  have "i * TOAST_MAX_CHUNK_SIZE < length data"
    using assms less_div_ceil_iff [of TOAST_MAX_CHUNK_SIZE i "length data"]
    by (simp add: TOAST_MAX_CHUNK_SIZE_def)
  then show ?thesis by (auto simp: chunk_data_def Let_def sub_def min_def)
qed

lemma concat_pieces:
  "concat (map (\<lambda>i. sub (i * n) n xs) [0..<k]) = take (k * n) xs"
proof (induction k)
  case 0
  then show ?case by simp
next
  case (Suc k)
  then show ?case by (simp add: sub_def take_add [symmetric] add.commute)
qed

lemma concat_chunks: "concat (map snd (chunks_of data)) = data"
proof -
  let ?k = "div_ceil (length data) TOAST_MAX_CHUNK_SIZE"
  have "map snd (chunks_of data) =
      map (\<lambda>i. sub (i * TOAST_MAX_CHUNK_SIZE) TOAST_MAX_CHUNK_SIZE data) [0..<?k]"
    by (simp add: chunks_of_def chunk_data_eq)
  moreover have "length data \<le> ?k * TOAST_MAX_CHUNK_SIZE"
    using div_ceil_le_iff [of TOAST_MAX_CHUNK_SIZE "length data" ?k]
    by (simp add: TOAST_MAX_CHUNK_SIZE_def)
  ultimately show ?thesis by (simp add: concat_pieces)
qed

lemma chunk_count_bound:
  assumes "length data < 4294967296"
  shows "div_ceil (length data) TOAST_MAX_CHUNK_SIZE \<le> 4294967296"
  using assms div_ceil_le_iff [of TOAST_MAX_CHUNK_SIZE "length data" 4294967296]
  by (simp add: TOAST_MAX_CHUNK_SIZE_def)

lemma chunk_keys:
  assumes "length data < 4294967296"
  shows "sorted (map fst (chunks_of data))" and "distinct (map fst (chunks_of data))"
proof -
  let ?k = "div_ceil (length data) TOAST_MAX_CHUNK_SIZE"
  have keys: "map fst (chunks_of data) = map word_of_nat [0..<?k]" by (simp add: chunks_of_def)
  have u: "unat (word_of_nat i :: u32) = i" if "i < ?k" for i
    using that chunk_count_bound [OF assms] by simp
  show "sorted (map fst (chunks_of data))"
    unfolding keys using u by (auto simp: sorted_iff_nth_mono word_le_nat_alt)
  have "inj_on (word_of_nat :: nat \<Rightarrow> u32) {0..<?k}"
    using u by (intro inj_onI) (metis atLeastLessThan_iff)
  then show "distinct (map fst (chunks_of data))" unfolding keys by (simp add: distinct_map)
qed

lemma filter_key_single:
  assumes "mset xs = mset ys" and "distinct (map f ys)" and "y \<in> set ys"
  shows "filter (\<lambda>x. f x = f y) xs = [y]"
proof -
  have "filter (\<lambda>x. f x = f y) ys = [y]"
    using assms(2,3) by (induction ys) (auto simp: filter_empty_conv, metis image_eqI)
  then have "mset (filter (\<lambda>x. f x = f y) xs) = {#y#}"
    using assms(1) by (metis mset_filter mset_single_iff_right)
  then show ?thesis by (simp only: mset_single_iff)
qed

lemma sort_key_unique:
  assumes "mset xs = mset ys" and "sorted (map f ys)" and "distinct (map f ys)"
  shows "sort_key f xs = ys"
proof (rule properties_for_sort_key [OF assms(1) [symmetric] _ assms(2)])
  fix k
  assume "k \<in> set ys"
  then show "filter (\<lambda>x. f k = f x) ys = filter (\<lambda>x. f k = f x) xs"
    using filter_key_single [OF assms(1,3)] filter_key_single [OF refl assms(3)]
    by (simp add: eq_commute [of "f k"])
qed

section \<open>Properties\<close>

text \<open>
  A value over the threshold (and shorter than 4 GiB, so that its length fits the pointer) survives
  being cut into the chunks its pointer numbers and put together again, in whatever order the chunks
  are supplied; a value up to the threshold gets no pointer.
\<close>

theorem detoast_any_order:
  assumes "length data < 4294967296" and "mset chunks = mset (chunks_of data)"
  shows "case maybe_toast data rel of
      None \<Rightarrow> length data \<le> TOAST_THRESHOLD
    | Some tp \<Rightarrow> is_toasted tp \<and> map fst (chunks_of data) = chunk_ids tp
        \<and> detoast_chunks chunks (raw_size tp) = data"
proof -
  have "sort_key fst chunks = chunks_of data"
    by (rule sort_key_unique [OF assms(2) chunk_keys [OF assms(1)]])
  then show ?thesis
    using assms(1) concat_chunks [of data]
    by (auto simp: maybe_toast_def is_toasted_def detoast_chunks_def chunks_of_def TOAST_THRESHOLD_def
        word_less_nat_alt)
qed

theorem detoast_any_order_witness:
  "\<exists>tp. maybe_toast (replicate 3000 7) 1 = Some tp \<and>
     detoast_chunks (rev (chunks_of (replicate 3000 7))) (raw_size tp) = replicate 3000 7"
proof -
  have m: "mset (rev (chunks_of (replicate 3000 7))) = mset (chunks_of (replicate 3000 7))" by simp
  have "maybe_toast (replicate 3000 7) 1 \<noteq> None" by (simp add: maybe_toast_def TOAST_THRESHOLD_def)
  then show ?thesis using detoast_any_order [OF _ m, of 1] by auto
qed

end
