(* ===== verification/Codec.thy ===== *)
theory Codec
  imports Prelude
begin

text \<open>
  The contract of the fixed-size binary formats (page headers, line pointers, log headers, the control
  file): every one of them encodes a struct into a fixed number of bytes, decodes from the front of
  a longer buffer, and panics on a shorter one. The structs' own theories interpret the locale.
\<close>

locale fixed_codec =
  fixes enc :: "'a \<Rightarrow> bytes"
    and dec :: "bytes \<Rightarrow> 'a res"
    and width :: nat
  assumes length_enc: "length (enc x) = width"
    and dec_enc: "dec (enc x @ rest) = Ok x"
    and dec_short: "length bs < width \<Longrightarrow> dec bs = panic"
begin

lemma roundtrip: "dec (enc x) = Ok x"
  using dec_enc [of x "[]"] by simp

lemma enc_inj: "enc x = enc y \<longleftrightarrow> x = y"
  by (metis roundtrip sum.inject(2))

lemma dec_at:
  assumes "drop off data = enc x @ rest"
  shows "dec (drop off data) = Ok x"
  using assms by (simp add: dec_enc)

lemma length_concat_enc: "length (concat (map enc xs)) = width * length xs"
  by (induction xs) (auto simp: length_enc)

text \<open>The record at an index of an array of records.\<close>

lemma dec_nth:
  assumes "i < length xs"
  shows "dec (sub (width * i) width (concat (map enc xs) @ rest)) = Ok (xs ! i)"
proof -
  have xs: "xs = take i xs @ xs ! i # drop (Suc i) xs" using assms by (rule id_take_nth_drop)
  have "concat (map enc xs) = concat (map enc (take i xs)) @ enc (xs ! i) @ concat (map enc (drop (Suc i) xs))"
    by (subst xs) simp
  moreover have "length (concat (map enc (take i xs))) = width * i"
    using assms by (simp add: length_concat_enc)
  ultimately have "sub (width * i) width (concat (map enc xs) @ rest) = enc (xs ! i)"
    by (simp add: sub_def length_enc)
  then show ?thesis by (simp add: roundtrip)
qed

end

text \<open>Evaluating the fields of a concatenation of little-endian values.\<close>

lemmas field_simps_le = field_le_skip field_le_0 field_le_whole

end
