(* ===== verification/Heap_Page.thy ===== *)
theory Heap_Page
  imports Codec
begin

text \<open>
  The slotted heap page of \<open>storage/heap_page.rs\<close>: header and line pointers with their byte formats, the
  page image, insertion with reuse of dead slots, pruning and compaction, and the chains of
  heap-only updates.

  \<open>serialize\<close> and \<open>deserialize\<close> of the page copy byte ranges and panic when a range is outside the
  buffer. The flag \<open>oc\<close> selects the build profile where a \<open>usize\<close> subtraction can go below zero.
\<close>

section \<open>Header and line pointers\<close>

definition PAGE_SIZE :: nat where "PAGE_SIZE = 8192"
definition PAGE_HEADER_SIZE :: nat where "PAGE_HEADER_SIZE = 26"
definition LINE_POINTER_SIZE :: nat where "LINE_POINTER_SIZE = 4"

lemmas page_consts = PAGE_SIZE_def PAGE_HEADER_SIZE_def LINE_POINTER_SIZE_def

record PageHeader =
  pd_lsn :: u64
  pd_checksum :: u32
  pd_flags :: u16
  pd_lower :: u16
  pd_upper :: u16
  pd_special :: u16
  pd_pagesize_version :: u16
  pd_prune_xid :: u32

definition new_page_header :: PageHeader where
  "new_page_header =
     \<lparr>pd_lsn = 0, pd_checksum = 0, pd_flags = 0, pd_lower = word_of_nat PAGE_HEADER_SIZE,
      pd_upper = word_of_nat PAGE_SIZE, pd_special = word_of_nat PAGE_SIZE,
      pd_pagesize_version = 0x0802, pd_prune_xid = 0\<rparr>"

definition header_serialize :: "PageHeader \<Rightarrow> bytes" where
  "header_serialize h =
     to_le 8 (pd_lsn h) @ to_le 4 (pd_checksum h) @ to_le 2 (pd_flags h) @ to_le 2 (pd_lower h) @
     to_le 2 (pd_upper h) @ to_le 2 (pd_special h) @ to_le 2 (pd_pagesize_version h) @
     to_le 4 (pd_prune_xid h)"

definition header_deserialize :: "bytes \<Rightarrow> PageHeader res" where
  "header_deserialize data =
     (if length data < PAGE_HEADER_SIZE then panic
      else Ok \<lparr>pd_lsn = field_le 0 8 data, pd_checksum = field_le 8 4 data,
               pd_flags = field_le 12 2 data, pd_lower = field_le 14 2 data,
               pd_upper = field_le 16 2 data, pd_special = field_le 18 2 data,
               pd_pagesize_version = field_le 20 2 data, pd_prune_xid = field_le 22 4 data\<rparr>)"

record LinePointer =
  lp_offset :: u16
  lp_flags :: u16

definition LP_NORMAL :: u16 where "LP_NORMAL = 0"
definition LP_REDIRECT :: u16 where "LP_REDIRECT = 1"
definition LP_DEAD :: u16 where "LP_DEAD = 2"

lemmas lp_consts = LP_NORMAL_def LP_REDIRECT_def LP_DEAD_def

definition new_line_pointer :: "u16 \<Rightarrow> LinePointer" where
  "new_line_pointer off = \<lparr>lp_offset = off, lp_flags = LP_NORMAL\<rparr>"

definition lp_serialize :: "LinePointer \<Rightarrow> bytes" where
  "lp_serialize lp = to_le 2 (lp_offset lp) @ to_le 2 (lp_flags lp)"

definition lp_deserialize :: "bytes \<Rightarrow> LinePointer res" where
  "lp_deserialize data =
     (if length data < LINE_POINTER_SIZE then panic
      else Ok \<lparr>lp_offset = field_le 0 2 data, lp_flags = field_le 2 2 data\<rparr>)"

section \<open>The page and its image\<close>

record HeapPage =
  header :: PageHeader
  line_pointers :: "LinePointer list"
  tuples :: "bytes list"

definition new_heap_page :: HeapPage where
  "new_heap_page = \<lparr>header = new_page_header, line_pointers = [], tuples = []\<rparr>"

text \<open>
  The first loop of \<open>serialize\<close>: the tuples of the normal slots go from the end of the page downwards
  and the line pointers are renumbered; the tuple of slot \<open>i\<close> is the \<open>i\<close>-th of the vector, if any.
\<close>

fun place_tuples ::
    "bool \<Rightarrow> LinePointer list \<Rightarrow> bytes list \<Rightarrow> nat \<Rightarrow> bytes \<Rightarrow> (LinePointer list \<times> nat \<times> bytes) res" where
  "place_tuples oc [] ts off page = Ok ([], off, page)"
| "place_tuples oc (lp # lps) ts off page =
     (if lp_flags lp = LP_NORMAL then
        (case ts of
           [] \<Rightarrow> and_then (place_tuples oc lps [] off page)
                   (\<lambda>(lps', off', page'). Ok (lp # lps', off', page'))
         | t # ts' \<Rightarrow>
             (if t = [] then
                and_then (place_tuples oc lps ts' off page)
                  (\<lambda>(lps', off', page'). Ok (lp # lps', off', page'))
              else
                and_then (usize_sub oc off (length t)) (\<lambda>o1.
                and_then (put_slice o1 t page) (\<lambda>p1.
                and_then (place_tuples oc lps ts' o1 p1)
                  (\<lambda>(lps', off', page'). Ok (lp\<lparr>lp_offset := word_of_nat o1\<rparr> # lps', off', page'))))))
      else and_then (place_tuples oc lps (tl ts) off page)
             (\<lambda>(lps', off', page'). Ok (lp\<lparr>lp_offset := 0\<rparr> # lps', off', page')))"

text \<open>The last loop of \<open>serialize\<close>.\<close>

fun write_line_pointers :: "LinePointer list \<Rightarrow> nat \<Rightarrow> bytes \<Rightarrow> bytes res" where
  "write_line_pointers [] off page = Ok page"
| "write_line_pointers (lp # lps) off page =
     and_then (put_slice off (lp_serialize lp) page)
       (\<lambda>page'. write_line_pointers lps (off + LINE_POINTER_SIZE) page')"

definition page_serialize :: "bool \<Rightarrow> HeapPage \<Rightarrow> bytes res" where
  "page_serialize oc pg =
     and_then (place_tuples oc (line_pointers pg) (tuples pg) PAGE_SIZE (replicate PAGE_SIZE 0))
       (\<lambda>(lps, off, page).
          let h = (header pg)\<lparr>pd_lower := word_of_nat (PAGE_HEADER_SIZE + length lps * LINE_POINTER_SIZE),
                              pd_upper := word_of_nat off\<rparr>
          in and_then (put_slice 0 (header_serialize h) page)
               (\<lambda>page'. write_line_pointers lps PAGE_HEADER_SIZE page'))"

fun map_res :: "('a \<Rightarrow> 'b res) \<Rightarrow> 'a list \<Rightarrow> 'b list res" where
  "map_res f [] = Ok []"
| "map_res f (x # xs) = and_then (f x) (\<lambda>y. and_then (map_res f xs) (\<lambda>ys. Ok (y # ys)))"

fun read_line_pointers :: "nat \<Rightarrow> nat \<Rightarrow> bytes \<Rightarrow> LinePointer list res" where
  "read_line_pointers 0 off data = Ok []"
| "read_line_pointers (Suc n) off data =
     and_then (slice off (off + LINE_POINTER_SIZE) data) (\<lambda>bs.
     and_then (lp_deserialize bs) (\<lambda>lp.
     and_then (read_line_pointers n (off + LINE_POINTER_SIZE) data) (\<lambda>lps. Ok (lp # lps))))"

text \<open>
  The tuple of slot \<open>i\<close> ends where the tuple of the closest earlier normal slot starts, or at
  \<open>pd_special\<close> when there is none.
\<close>

definition tuple_end :: "PageHeader \<Rightarrow> LinePointer list \<Rightarrow> nat \<Rightarrow> nat" where
  "tuple_end h lps i =
     (case find (\<lambda>lp. lp_flags lp = LP_NORMAL) (rev (take i lps)) of
        Some lp \<Rightarrow> unat (lp_offset lp) | None \<Rightarrow> unat (pd_special h))"

definition read_tuple :: "bytes \<Rightarrow> PageHeader \<Rightarrow> LinePointer list \<Rightarrow> nat \<Rightarrow> bytes res" where
  "read_tuple data h lps i =
     (if lp_flags (lps ! i) = LP_NORMAL then
        (let s = unat (lp_offset (lps ! i)); e = tuple_end h lps i
         in if s < e \<and> e \<le> PAGE_SIZE then slice s e data else Ok [])
      else Ok [])"

definition page_deserialize :: "bool \<Rightarrow> bytes \<Rightarrow> HeapPage res" where
  "page_deserialize oc data =
     and_then (header_deserialize data) (\<lambda>h.
     and_then (usize_sub oc (unat (pd_lower h)) PAGE_HEADER_SIZE) (\<lambda>room.
     and_then (read_line_pointers (room div LINE_POINTER_SIZE) PAGE_HEADER_SIZE data) (\<lambda>lps.
     and_then (map_res (read_tuple data h lps) [0..<length lps]) (\<lambda>ts.
     Ok \<lparr>header = h, line_pointers = lps, tuples = ts\<rparr>))))"

section \<open>Operations on the page\<close>

text \<open>The first dead slot, scanning from the left.\<close>

fun find_slot :: "(LinePointer \<Rightarrow> bool) \<Rightarrow> LinePointer list \<Rightarrow> nat \<Rightarrow> nat option" where
  "find_slot p [] i = None"
| "find_slot p (lp # lps) i = (if p lp then Some i else find_slot p lps (Suc i))"

definition add_tuple :: "bool \<Rightarrow> bytes \<Rightarrow> HeapPage \<Rightarrow> (HeapPage \<times> u16 option) res" where
  "add_tuple oc data pg =
     (let dead = map_option word_of_nat (find_slot (\<lambda>lp. lp_flags lp = LP_DEAD) (line_pointers pg) 0);
          new_lower = (if dead = None then unat (pd_lower (header pg)) + LINE_POINTER_SIZE
                       else unat (pd_lower (header pg)))
      in and_then (usize_sub oc (unat (pd_upper (header pg))) (length data)) (\<lambda>new_upper.
         if new_lower > new_upper then Ok (pg, None)
         else case dead of
             Some idx \<Rightarrow>
               Ok (pg\<lparr>line_pointers := (line_pointers pg)[unat (idx :: u16) := new_line_pointer (word_of_nat new_upper)],
                      tuples := (if unat idx < length (tuples pg) then (tuples pg)[unat idx := data]
                                 else tuples pg),
                      header := (header pg)\<lparr>pd_upper := word_of_nat new_upper\<rparr>\<rparr>, Some idx)
           | None \<Rightarrow>
               Ok (pg\<lparr>line_pointers := line_pointers pg @ [new_line_pointer (word_of_nat new_upper)],
                      tuples := tuples pg @ [data],
                      header := (header pg)\<lparr>pd_lower := word_of_nat new_lower,
                                            pd_upper := word_of_nat new_upper\<rparr>\<rparr>,
                   Some (word_of_nat (length (line_pointers pg))))))"

text \<open>The slots that stay, each with its tuple (an empty one when the vector is too short).\<close>

fun keep_slots :: "LinePointer list \<Rightarrow> bytes list \<Rightarrow> LinePointer list \<times> bytes list" where
  "keep_slots [] ts = ([], [])"
| "keep_slots (lp # lps) ts =
     (let (lps', ts') = keep_slots lps (tl ts)
      in if lp_flags lp \<noteq> LP_DEAD
         then (lp # lps', (case ts of [] \<Rightarrow> [] | t # _ \<Rightarrow> t) # ts') else (lps', ts'))"

fun normal_bytes :: "LinePointer list \<Rightarrow> bytes list \<Rightarrow> nat" where
  "normal_bytes [] ts = 0"
| "normal_bytes (lp # lps) [] = 0"
| "normal_bytes (lp # lps) (t # ts) =
     (if lp_flags lp = LP_NORMAL then length t else 0) + normal_bytes lps ts"

definition compact :: "bool \<Rightarrow> HeapPage \<Rightarrow> HeapPage res" where
  "compact oc pg =
     (let (lps, ts) = keep_slots (line_pointers pg) (tuples pg)
      in and_then (usize_sub oc PAGE_SIZE (normal_bytes lps ts)) (\<lambda>up.
         Ok (pg\<lparr>line_pointers := lps, tuples := ts,
                header := (header pg)\<lparr>pd_lower := word_of_nat (PAGE_HEADER_SIZE + length lps * LINE_POINTER_SIZE),
                                      pd_upper := word_of_nat up\<rparr>\<rparr>)))"

record PruneResult =
  tuples_pruned :: u32
  chains_followed :: u32
  page_pruned :: bool

text \<open>
  The scan of \<open>prune\<close> over the slots: it marks the slots whose deleting transaction is below the cutoff
  and counts them. The bounds test admits tuples of 23 bytes while the read takes bytes 16 to 23.
\<close>

fun prune_slots :: "u32 \<Rightarrow> LinePointer list \<Rightarrow> bytes list \<Rightarrow> (LinePointer list \<times> nat) res" where
  "prune_slots cutoff [] ts = Ok ([], 0)"
| "prune_slots cutoff (lp # lps) ts =
     (let keep = and_then (prune_slots cutoff lps (tl ts)) (\<lambda>(lps', n). Ok (lp # lps', n))
      in if lp_flags lp \<noteq> LP_NORMAL then keep
         else case ts of
             [] \<Rightarrow> keep
           | t # ts' \<Rightarrow>
               if length t < 23 then keep
               else and_then (slice 16 24 t) (\<lambda>bs.
                 let xmax = (from_le bs :: u64)
                 in if xmax \<noteq> 0 \<and> (ucast xmax :: u32) < cutoff
                    then and_then (prune_slots cutoff lps ts')
                           (\<lambda>(lps', n). Ok (lp\<lparr>lp_flags := LP_DEAD\<rparr> # lps', Suc n))
                    else keep))"

definition prune :: "bool \<Rightarrow> u32 \<Rightarrow> HeapPage \<Rightarrow> (HeapPage \<times> PruneResult) res" where
  "prune oc cutoff pg =
     and_then (prune_slots cutoff (line_pointers pg) (tuples pg)) (\<lambda>(lps, n).
       let r = \<lparr>tuples_pruned = word_of_nat n, chains_followed = 0, page_pruned = (n > 0)\<rparr>;
           pg1 = pg\<lparr>line_pointers := lps\<rparr>
       in if n > 0
          then and_then (compact oc (pg1\<lparr>header := (header pg1)\<lparr>pd_prune_xid := cutoff\<rparr>\<rparr>))
                 (\<lambda>pg2. Ok (pg2, r))
          else Ok (pg1, r))"

definition hot_update :: "bool \<Rightarrow> u16 \<Rightarrow> bytes \<Rightarrow> HeapPage \<Rightarrow> (HeapPage \<times> u16 option) res" where
  "hot_update oc old_slot data pg =
     (if unat old_slot \<ge> length (line_pointers pg) then Ok (pg, None)
      else if lp_flags (line_pointers pg ! unat old_slot) \<noteq> LP_NORMAL then Ok (pg, None)
      else
        let new_lower = unat (pd_lower (header pg)) + LINE_POINTER_SIZE
        in and_then (usize_sub oc (unat (pd_upper (header pg))) (length data)) (\<lambda>new_upper.
           if new_lower > new_upper then Ok (pg, None)
           else
             let new_slot = word_of_nat (length (line_pointers pg)) :: u16;
                 lps = line_pointers pg @ [new_line_pointer (word_of_nat new_upper)]
             in Ok (pg\<lparr>line_pointers := lps[unat old_slot := \<lparr>lp_offset = new_slot, lp_flags = LP_REDIRECT\<rparr>],
                       tuples := tuples pg @ [data],
                       header := (header pg)\<lparr>pd_lower := word_of_nat new_lower,
                                             pd_upper := word_of_nat new_upper\<rparr>\<rparr>,
                    Some new_slot)))"

text \<open>
  \<open>follow_chain\<close> gives up after more redirections than the page has slots, which bounds the loop: the
  first argument counts the redirections still allowed.
\<close>

fun follow :: "nat \<Rightarrow> HeapPage \<Rightarrow> u16 \<Rightarrow> u16 option" where
  "follow budget pg current =
     (if unat current \<ge> length (line_pointers pg) then None
      else let lp = line_pointers pg ! unat current
           in if lp_flags lp = LP_NORMAL then Some current
              else if lp_flags lp = LP_REDIRECT
                   then (case budget of 0 \<Rightarrow> None | Suc b \<Rightarrow> follow b pg (lp_offset lp))
              else None)"

declare follow.simps [simp del]

definition follow_chain :: "u16 \<Rightarrow> HeapPage \<Rightarrow> u16 option" where
  "follow_chain start pg = follow (length (line_pointers pg)) pg start"

definition free_space :: "bool \<Rightarrow> HeapPage \<Rightarrow> nat res" where
  "free_space oc pg =
     (if pd_lower (header pg) \<le> pd_upper (header pg) \<or> \<not> oc
      then Ok (unat (pd_upper (header pg) - pd_lower (header pg))) else panic)"

definition tuple_count :: "HeapPage \<Rightarrow> nat" where
  "tuple_count pg = length (line_pointers pg)"

definition get_tuple :: "u16 \<Rightarrow> HeapPage \<Rightarrow> bytes option" where
  "get_tuple slot pg =
     (if unat slot < length (line_pointers pg) then
        (if lp_flags (line_pointers pg ! unat slot) = LP_NORMAL then
           (if unat slot < length (tuples pg) then Some (tuples pg ! unat slot) else None)
         else None)
      else None)"

section \<open>The formats are fixed codecs\<close>

interpretation page_header: fixed_codec header_serialize header_deserialize PAGE_HEADER_SIZE
  by unfold_locales
    (auto simp: header_serialize_def header_deserialize_def PAGE_HEADER_SIZE_def field_simps_le)

interpretation line_pointer: fixed_codec lp_serialize lp_deserialize LINE_POINTER_SIZE
  by unfold_locales
    (auto simp: lp_serialize_def lp_deserialize_def LINE_POINTER_SIZE_def field_simps_le)

section \<open>The page invariant\<close>

text \<open>
  One tuple per line pointer, \<open>pd_lower\<close> just behind the line pointers, and room between
  \<open>pd_upper\<close> and the end of the page for every normal tuple.
\<close>

definition page_ok :: "HeapPage \<Rightarrow> bool" where
  "page_ok pg \<longleftrightarrow>
     length (tuples pg) = length (line_pointers pg) \<and>
     unat (pd_lower (header pg)) = PAGE_HEADER_SIZE + LINE_POINTER_SIZE * length (line_pointers pg) \<and>
     pd_lower (header pg) \<le> pd_upper (header pg) \<and>
     unat (pd_upper (header pg)) + normal_bytes (line_pointers pg) (tuples pg) \<le> PAGE_SIZE \<and>
     unat (pd_special (header pg)) = PAGE_SIZE"

definition slot_bytes :: "LinePointer \<times> bytes \<Rightarrow> nat" where
  "slot_bytes = (\<lambda>(lp, t). if lp_flags lp = LP_NORMAL then length t else 0)"

lemma normal_bytes_sum: "normal_bytes lps ts = sum_list (map slot_bytes (zip lps ts))"
  by (induction lps ts rule: normal_bytes.induct) (auto simp: slot_bytes_def)

lemma normal_bytes_append:
  "length lps = length ts \<Longrightarrow>
     normal_bytes (lps @ [lp]) (ts @ [t]) = normal_bytes lps ts + slot_bytes (lp, t)"
  by (simp add: normal_bytes_sum)

lemma normal_bytes_update:
  assumes "length lps = length ts" and "i < length lps"
  shows "normal_bytes (lps[i := lp]) (ts[i := t]) + slot_bytes (lps ! i, ts ! i) =
     normal_bytes lps ts + slot_bytes (lp, t)"
proof -
  have "(lps ! i, ts ! i) \<in> set (zip lps ts)" using assms by (force simp: set_zip)
  then have "slot_bytes (lps ! i, ts ! i) \<le> sum_list (map slot_bytes (zip lps ts))"
    by (auto intro: member_le_sum_list)
  then show ?thesis
    using assms by (simp add: normal_bytes_sum zip_update map_update sum_list_update)
qed

lemma page_ok_bounds:
  assumes "page_ok pg"
  shows "length (line_pointers pg) < 2042" and "unat (pd_upper (header pg)) \<le> 8192"
    and "unat (pd_lower (header pg)) \<le> unat (pd_upper (header pg))"
proof -
  show up: "unat (pd_upper (header pg)) \<le> 8192" using assms by (simp add: page_ok_def page_consts)
  show low: "unat (pd_lower (header pg)) \<le> unat (pd_upper (header pg))"
    using assms by (simp add: page_ok_def word_le_nat_alt)
  show "length (line_pointers pg) < 2042"
    using up low assms by (simp add: page_ok_def page_consts)
qed

lemma unat_neq_word_of_nat16: "j \<noteq> word_of_nat k \<Longrightarrow> unat (j :: u16) \<noteq> k"
  by auto

lemma page_ok_new [simp]: "page_ok new_heap_page"
  by (simp add: page_ok_def new_heap_page_def new_page_header_def page_consts word_le_nat_alt)

lemma find_slot_Some:
  "find_slot p lps i = Some k \<Longrightarrow> i \<le> k \<and> k < i + length lps \<and> p (lps ! (k - i))"
proof (induction lps arbitrary: i)
  case (Cons lp lps)
  show ?case
  proof (cases "p lp")
    case False
    with Cons.prems have "find_slot p lps (Suc i) = Some k" by simp
    then have "Suc i \<le> k \<and> k < Suc i + length lps \<and> p (lps ! (k - Suc i))" by (rule Cons.IH)
    moreover from this have "(lp # lps) ! (k - i) = lps ! (k - Suc i)"
      by (simp add: nth_Cons' Suc_diff_Suc)
    ultimately show ?thesis by auto
  qed (use Cons in auto)
qed simp

lemma find_slot_None: "find_slot p lps i = None \<longleftrightarrow> (\<forall>lp \<in> set lps. \<not> p lp)"
  by (induction lps arbitrary: i) auto

text \<open>The three outcomes of \<open>add_tuple\<close> on a well-formed page whose free end can hold the tuple.\<close>

lemma add_tuple_ok:
  assumes ok: "page_ok pg" and len: "length data \<le> unat (pd_upper (header pg))"
    and run: "add_tuple oc data pg = Ok (pg', r)"
  shows "page_ok pg' \<and>
    (case r of
       None \<Rightarrow> pg' = pg
     | Some slot \<Rightarrow> get_tuple slot pg' = Some data \<and> get_tuple slot pg = None \<and>
         (\<forall>k. k \<noteq> slot \<longrightarrow> get_tuple k pg' = get_tuple k pg))"
proof -
  let ?lps = "line_pointers pg" and ?ts = "tuples pg"
  define up where "up = unat (pd_upper (header pg)) - length data"
  define lo where "lo = unat (pd_lower (header pg)) + LINE_POINTER_SIZE"
  note b = page_ok_bounds [OF ok]
  have lens: "length ?ts = length ?lps" using ok by (simp add: page_ok_def)
  have uu: "unat (word_of_nat up :: u16) = up" using b by (simp add: up_def)
  have ul: "unat (word_of_nat lo :: u16) = lo"
    using b by (simp add: lo_def LINE_POINTER_SIZE_def del: of_nat_add)
  have sub: "usize_sub oc (unat (pd_upper (header pg))) (length data) = Ok up"
    using len by (simp add: up_def)
  show ?thesis
  proof (cases "find_slot (\<lambda>lp. lp_flags lp = LP_DEAD) ?lps 0")
    case None
    show ?thesis
    proof (cases "lo > up")
      case True
      then show ?thesis using run ok None sub by (simp add: add_tuple_def Let_def lo_def)
    next
      case False
      then have pg': "pg' = pg\<lparr>line_pointers := ?lps @ [new_line_pointer (word_of_nat up)],
          tuples := ?ts @ [data],
          header := (header pg)\<lparr>pd_lower := word_of_nat lo, pd_upper := word_of_nat up\<rparr>\<rparr>"
        and r: "r = Some (word_of_nat (length ?lps))"
        using run None sub by (auto simp: add_tuple_def Let_def lo_def)
      have "page_ok pg'"
        using ok b False len lens uu ul
        by (simp add: page_ok_def pg' word_le_nat_alt normal_bytes_append slot_bytes_def
            new_line_pointer_def) (simp add: up_def lo_def page_consts)
      then show ?thesis
        using b lens unat_neq_word_of_nat16
        by (auto simp: r pg' get_tuple_def nth_append new_line_pointer_def less_Suc_eq)
    qed
  next
    case (Some k)
    then have k: "k < length ?lps" "lp_flags (?lps ! k) = LP_DEAD"
      using find_slot_Some [OF Some] by auto
    have uk: "unat (word_of_nat k :: u16) = k" using k b by simp
    have dead: "slot_bytes (?lps ! k, ?ts ! k) = 0" using k by (simp add: slot_bytes_def lp_consts)
    show ?thesis
    proof (cases "unat (pd_lower (header pg)) > up")
      case True
      then show ?thesis using run ok Some sub by (simp add: add_tuple_def Let_def)
    next
      case False
      then have pg': "pg' = pg\<lparr>line_pointers := ?lps[k := new_line_pointer (word_of_nat up)],
          tuples := ?ts[k := data], header := (header pg)\<lparr>pd_upper := word_of_nat up\<rparr>\<rparr>"
        and r: "r = Some (word_of_nat k)"
        using run sub Some uk k lens by (auto simp: add_tuple_def Let_def)
      have "normal_bytes (?lps[k := new_line_pointer (word_of_nat up)]) (?ts[k := data]) =
          normal_bytes ?lps ?ts + length data"
        using normal_bytes_update [of ?lps ?ts k "new_line_pointer (word_of_nat up)" data] lens k dead
        by (simp add: slot_bytes_def new_line_pointer_def)
      then have "page_ok pg'"
        using ok b False len uu
        by (simp add: page_ok_def pg' word_le_nat_alt) (simp add: up_def page_consts)
      then show ?thesis
        using k lens uk unat_neq_word_of_nat16
        by (auto simp: r pg' get_tuple_def new_line_pointer_def lp_consts nth_list_update)
    qed
  qed
qed

lemma follow_normal:
  "unat k < length (line_pointers pg) \<Longrightarrow> lp_flags (line_pointers pg ! unat k) = LP_NORMAL \<Longrightarrow>
     follow budget pg k = Some k"
  by (subst follow.simps) simp

lemma follow_redirect:
  "unat k < length (line_pointers pg) \<Longrightarrow> lp_flags (line_pointers pg ! unat k) = LP_REDIRECT \<Longrightarrow>
     follow (Suc budget) pg k = follow budget pg (lp_offset (line_pointers pg ! unat k))"
  by (subst follow.simps) (simp add: lp_consts)

lemma hot_update_ok:
  assumes ok: "page_ok pg" and len: "length data \<le> unat (pd_upper (header pg))"
    and run: "hot_update oc old data pg = Ok (pg', r)"
  shows "page_ok pg' \<and>
    (case r of
       None \<Rightarrow> pg' = pg
     | Some slot \<Rightarrow> get_tuple slot pg' = Some data \<and> get_tuple old pg' = None \<and>
         follow_chain old pg' = Some slot \<and>
         (\<forall>k. k \<noteq> slot \<longrightarrow> k \<noteq> old \<longrightarrow> get_tuple k pg' = get_tuple k pg))"
proof (cases r)
  case None
  have "pg' = pg"
  proof -
    have "hot_update oc old data pg = Ok (pg', None)" using run None by simp
    then show ?thesis using len by (auto simp: hot_update_def Let_def split: if_splits)
  qed
  then show ?thesis using None ok by simp
next
  case (Some slot)
  let ?lps = "line_pointers pg" and ?ts = "tuples pg"
  define up where "up = unat (pd_upper (header pg)) - length data"
  define lo where "lo = unat (pd_lower (header pg)) + LINE_POINTER_SIZE"
  note b = page_ok_bounds [OF ok]
  have lens: "length ?ts = length ?lps" using ok by (simp add: page_ok_def)
  have uu: "unat (word_of_nat up :: u16) = up" using b by (simp add: up_def)
  have ul: "unat (word_of_nat lo :: u16) = lo"
    using b by (simp add: lo_def LINE_POINTER_SIZE_def del: of_nat_add)
  have un: "unat (word_of_nat (length ?lps) :: u16) = length ?lps" using b by simp
  let ?redirect = "\<lparr>lp_offset = word_of_nat (length ?lps), lp_flags = LP_REDIRECT\<rparr>"
  let ?new = "new_line_pointer (word_of_nat up)"
  have old: "unat old < length ?lps" "lp_flags (?lps ! unat old) = LP_NORMAL" and "lo \<le> up"
    and slot: "slot = word_of_nat (length ?lps)"
    and pg': "pg' = pg\<lparr>line_pointers := ?lps[unat old := ?redirect] @ [?new], tuples := ?ts @ [data],
        header := (header pg)\<lparr>pd_lower := word_of_nat lo, pd_upper := word_of_nat up\<rparr>\<rparr>"
    using run len Some
    by (auto simp: hot_update_def Let_def lo_def up_def list_update_append split: if_splits)
  have "normal_bytes (?lps[unat old := ?redirect]) ?ts \<le> normal_bytes ?lps ?ts"
    using normal_bytes_update [of ?lps ?ts "unat old" ?redirect "?ts ! unat old"] lens old
    by (simp add: slot_bytes_def lp_consts)
  then have "page_ok pg'"
    using ok b \<open>lo \<le> up\<close> len lens uu ul
    by (simp add: page_ok_def pg' word_le_nat_alt normal_bytes_append slot_bytes_def
        new_line_pointer_def) (simp add: up_def lo_def page_consts)
  moreover have "follow_chain old pg' = Some slot"
    using old un by (simp add: follow_chain_def follow_redirect follow_normal pg' nth_append slot
        new_line_pointer_def lp_consts)
  ultimately show ?thesis
    using b lens old un unat_neq_word_of_nat16
    by (auto simp: Some slot pg' get_tuple_def nth_append new_line_pointer_def less_Suc_eq
        nth_list_update lp_consts)
qed

text \<open>Compaction keeps the slots that are not dead, in order.\<close>

definition live_tuples :: "HeapPage \<Rightarrow> bytes list" where
  "live_tuples pg =
     map snd (filter (\<lambda>(lp, t). lp_flags lp = LP_NORMAL) (zip (line_pointers pg) (tuples pg)))"

lemma keep_slots_zip:
  "length lps = length ts \<Longrightarrow>
     keep_slots lps ts =
       (map fst (filter (\<lambda>(lp, t). lp_flags lp \<noteq> LP_DEAD) (zip lps ts)),
        map snd (filter (\<lambda>(lp, t). lp_flags lp \<noteq> LP_DEAD) (zip lps ts)))"
  by (induction lps ts rule: list_induct2) auto

lemma normal_bytes_keep:
  assumes "length lps = length ts" and "keep_slots lps ts = (lps', ts')"
  shows "normal_bytes lps' ts' = normal_bytes lps ts"
proof -
  have "zip lps' ts' = filter (\<lambda>(lp, t). lp_flags lp \<noteq> LP_DEAD) (zip lps ts)"
    using assms keep_slots_zip [OF assms(1)] by (auto simp: zip_map_fst_snd)
  moreover have "sum_list (map slot_bytes (filter (\<lambda>(lp, t). lp_flags lp \<noteq> LP_DEAD) zs)) =
      sum_list (map slot_bytes zs)" for zs
    by (induction zs) (auto simp: slot_bytes_def lp_consts)
  ultimately show ?thesis by (simp add: normal_bytes_sum)
qed

lemma compact_ok:
  assumes ok: "page_ok pg"
  shows "\<exists>pg'. compact oc pg = Ok pg' \<and> page_ok pg' \<and> live_tuples pg' = live_tuples pg \<and>
     (\<forall>lp \<in> set (line_pointers pg'). lp_flags lp \<noteq> LP_DEAD)"
proof -
  obtain lps ts where keep: "keep_slots (line_pointers pg) (tuples pg) = (lps, ts)" by fastforce
  have lens: "length (line_pointers pg) = length (tuples pg)" using ok by (simp add: page_ok_def)
  let ?z = "filter (\<lambda>(lp, t). lp_flags lp \<noteq> LP_DEAD) (zip (line_pointers pg) (tuples pg))"
  have z: "lps = map fst ?z" "ts = map snd ?z" using keep keep_slots_zip [OF lens] by auto
  have nb: "normal_bytes lps ts = normal_bytes (line_pointers pg) (tuples pg)"
    by (rule normal_bytes_keep [OF lens keep])
  have "length ?z \<le> length (line_pointers pg)"
    using lens by (metis length_filter_le length_zip min.idem)
  then have n: "length lps \<le> length (line_pointers pg)" "length ts = length lps" by (auto simp: z)
  define up where "up = PAGE_SIZE - normal_bytes lps ts"
  define lo where "lo = PAGE_HEADER_SIZE + length lps * LINE_POINTER_SIZE"
  note b = page_ok_bounds [OF ok]
  have le: "normal_bytes lps ts \<le> PAGE_SIZE" using ok nb by (simp add: page_ok_def)
  have uu: "unat (word_of_nat up :: u16) = up" by (simp add: up_def PAGE_SIZE_def)
  have ul: "unat (word_of_nat lo :: u16) = lo"
    using b n by (simp add: lo_def page_consts del: of_nat_add of_nat_mult)
  let ?pg = "pg\<lparr>line_pointers := lps, tuples := ts,
      header := (header pg)\<lparr>pd_lower := word_of_nat lo, pd_upper := word_of_nat up\<rparr>\<rparr>"
  have "compact oc pg = Ok ?pg" using keep le by (simp add: compact_def up_def lo_def)
  moreover have "lo \<le> up"
    using ok b n nb by (simp add: page_ok_def lo_def up_def page_consts) linarith
  then have "page_ok ?pg"
    using ok n uu ul le by (simp add: page_ok_def word_le_nat_alt) (simp add: lo_def up_def)
  moreover have "live_tuples ?pg = live_tuples pg"
    by (simp add: live_tuples_def z zip_map_fst_snd)
      (auto intro!: arg_cong [of _ _ "map snd"] filter_cong simp: lp_consts)
  moreover have "\<forall>lp \<in> set lps. lp_flags lp \<noteq> LP_DEAD" by (auto simp: z)
  ultimately show ?thesis by auto
qed

text \<open>Pruning drops the normal slots whose tuple carries an old deletion mark.\<close>

definition prunable :: "u32 \<Rightarrow> bytes \<Rightarrow> bool" where
  "prunable cutoff t \<longleftrightarrow> 24 \<le> length t \<and> (field_le 16 8 t :: u64) \<noteq> 0 \<and>
     (ucast (field_le 16 8 t :: u64) :: u32) < cutoff"

definition prune_mark :: "u32 \<Rightarrow> LinePointer \<Rightarrow> bytes \<Rightarrow> LinePointer" where
  "prune_mark cutoff lp t =
     (if lp_flags lp = LP_NORMAL \<and> prunable cutoff t then lp\<lparr>lp_flags := LP_DEAD\<rparr> else lp)"

lemma prune_slots_eq:
  assumes "length lps = length ts"
    and "\<forall>(lp, t) \<in> set (zip lps ts). lp_flags lp = LP_NORMAL \<longrightarrow> length t \<noteq> 23"
  shows "\<exists>n. prune_slots cutoff lps ts = Ok (map2 (prune_mark cutoff) lps ts, n) \<and>
     (n = 0 \<longrightarrow> map2 (prune_mark cutoff) lps ts = lps)"
  using assms
proof (induction lps ts rule: list_induct2)
  case (Cons lp lps t ts)
  then obtain n where IH: "prune_slots cutoff lps ts = Ok (map2 (prune_mark cutoff) lps ts, n)"
    and n: "n = 0 \<longrightarrow> map2 (prune_mark cutoff) lps ts = lps" by auto
  have "from_le (take 8 (drop 16 t)) = (field_le 16 8 t :: u64)" by (simp add: field_le_def sub_def)
  then show ?case
    using Cons.prems IH n
    by (cases "length t < 23") (auto simp: Let_def prune_mark_def prunable_def)
qed simp

lemma live_tuples_prune:
  assumes "length lps = length ts"
  shows "map snd (filter (\<lambda>(lp, t). lp_flags lp = LP_NORMAL) (zip (map2 (prune_mark cutoff) lps ts) ts)) =
     filter (\<lambda>t. \<not> prunable cutoff t)
       (map snd (filter (\<lambda>(lp, t). lp_flags lp = LP_NORMAL) (zip lps ts)))"
  using assms by (induction lps ts rule: list_induct2) (auto simp: prune_mark_def lp_consts)

lemma normal_bytes_prune:
  "length lps = length ts \<Longrightarrow> normal_bytes (map2 (prune_mark cutoff) lps ts) ts \<le> normal_bytes lps ts"
  by (induction lps ts rule: list_induct2) (auto simp: prune_mark_def lp_consts)

lemma prune_ok:
  assumes ok: "page_ok pg"
    and len: "\<forall>(lp, t) \<in> set (zip (line_pointers pg) (tuples pg)). lp_flags lp = LP_NORMAL \<longrightarrow> length t \<noteq> 23"
  shows "\<exists>pg' r. prune oc cutoff pg = Ok (pg', r) \<and> page_ok pg' \<and>
     live_tuples pg' = filter (\<lambda>t. \<not> prunable cutoff t) (live_tuples pg)"
proof -
  have lens: "length (line_pointers pg) = length (tuples pg)" using ok by (simp add: page_ok_def)
  let ?lps = "map2 (prune_mark cutoff) (line_pointers pg) (tuples pg)"
  let ?pg1 = "pg\<lparr>line_pointers := ?lps\<rparr>"
  let ?pg2 = "?pg1\<lparr>header := (header ?pg1)\<lparr>pd_prune_xid := cutoff\<rparr>\<rparr>"
  obtain n where n: "prune_slots cutoff (line_pointers pg) (tuples pg) = Ok (?lps, n)"
    and z: "n = 0 \<longrightarrow> ?lps = line_pointers pg" using prune_slots_eq [OF lens len] by blast
  have live: "live_tuples ?pg1 = filter (\<lambda>t. \<not> prunable cutoff t) (live_tuples pg)"
    using live_tuples_prune [OF lens] by (simp add: live_tuples_def)
  have ok1: "page_ok ?pg1" and ok2: "page_ok ?pg2"
    using ok normal_bytes_prune [OF lens, of cutoff] lens by (auto simp: page_ok_def)
  have live2: "live_tuples ?pg2 = live_tuples ?pg1" by (simp add: live_tuples_def)
  show ?thesis
  proof (cases "n > 0")
    case True
    obtain pg' where "compact oc ?pg2 = Ok pg'" "page_ok pg'" "live_tuples pg' = live_tuples ?pg2"
      using compact_ok [OF ok2] by blast
    then show ?thesis using True n live live2 by (simp add: prune_def Let_def)
  next
    case False
    then show ?thesis using n live ok1 by (simp add: prune_def Let_def)
  qed
qed

section \<open>The page image\<close>

lemma write_line_pointers_eq:
  "off + LINE_POINTER_SIZE * length lps \<le> length page \<Longrightarrow>
     write_line_pointers lps off page =
       Ok (take off page @ concat (map lp_serialize lps) @ drop (off + LINE_POINTER_SIZE * length lps) page)"
proof (induction lps arbitrary: off page)
  case (Cons lp lps)
  let ?p = "put_at off (lp_serialize lp) page"
  have w: "length (lp_serialize lp) = LINE_POINTER_SIZE" by (rule line_pointer.length_enc)
  have "put_slice off (lp_serialize lp) page = Ok ?p"
    using Cons.prems w by (simp add: put_slice_put_at)
  moreover have "take (off + LINE_POINTER_SIZE) ?p = take off page @ lp_serialize lp"
    using Cons.prems w by (simp add: put_at_def)
  moreover have "drop (off + LINE_POINTER_SIZE * length (lp # lps)) ?p =
      drop (off + LINE_POINTER_SIZE * length (lp # lps)) page"
    using Cons.prems w by (simp add: put_at_def add_ac)
  moreover have "off + LINE_POINTER_SIZE + LINE_POINTER_SIZE * length lps =
      off + LINE_POINTER_SIZE * length (lp # lps)" by simp
  moreover have "length ?p = length page" using Cons.prems w by simp
  ultimately show ?case
    using Cons.IH [of "off + LINE_POINTER_SIZE" ?p] Cons.prems by (simp only: write_line_pointers.simps
      and_then_simps length_Cons concat.simps list.map append_assoc)
qed simp

lemma read_line_pointers_eq:
  "drop off data = concat (map lp_serialize lps) @ rest \<Longrightarrow>
     read_line_pointers (length lps) off data = Ok lps"
proof (induction lps arbitrary: off)
  case (Cons lp lps)
  have w: "length (lp_serialize lp) = LINE_POINTER_SIZE" by (rule line_pointer.length_enc)
  have "length (drop off data) \<ge> LINE_POINTER_SIZE" using Cons.prems w by simp
  then have "off + LINE_POINTER_SIZE \<le> length data"
    unfolding length_drop by (simp add: LINE_POINTER_SIZE_def)
  then have "slice off (off + LINE_POINTER_SIZE) data = Ok (lp_serialize lp)"
    using Cons.prems w by (simp add: slice_def LINE_POINTER_SIZE_def)
  moreover have "drop (off + LINE_POINTER_SIZE) data = concat (map lp_serialize lps) @ rest"
    using drop_after [of off data "lp_serialize lp"] Cons.prems w by simp
  ultimately show ?case using Cons.IH by (simp add: line_pointer.roundtrip)
qed simp

text \<open>Reading the tuples back, with the end of the next tuple carried along.\<close>

fun recover :: "nat \<Rightarrow> LinePointer list \<Rightarrow> bytes \<Rightarrow> bytes list" where
  "recover e [] data = []"
| "recover e (lp # lps) data =
     (if lp_flags lp = LP_NORMAL
      then (if unat (lp_offset lp) < e \<and> e \<le> PAGE_SIZE
            then sub (unat (lp_offset lp)) (e - unat (lp_offset lp)) data else [])
           # recover (unat (lp_offset lp)) lps data
      else [] # recover e lps data)"

lemma tuple_end_next:
  "tuple_end h (pre @ lp # suf) (Suc (length pre)) =
     (if lp_flags lp = LP_NORMAL then unat (lp_offset lp) else tuple_end h (pre @ lp # suf) (length pre))"
  by (simp add: tuple_end_def)

lemma read_tuples_recover:
  assumes "length data = PAGE_SIZE"
  shows "map_res (read_tuple data h (pre @ suf)) [length pre..<length pre + length suf] =
     Ok (recover (tuple_end h (pre @ suf) (length pre)) suf data)"
proof (induction suf arbitrary: pre)
  case (Cons lp suf)
  have up: "[length pre..<length pre + length (lp # suf)] =
      length pre # [length (pre @ [lp])..<length (pre @ [lp]) + length suf]"
    by (simp add: upt_rec [of "length pre"] del: upt_Suc)
  have rd: "read_tuple data h (pre @ lp # suf) (length pre) =
      Ok (hd (recover (tuple_end h (pre @ lp # suf) (length pre)) (lp # suf) data))"
    using assms by (simp add: read_tuple_def Let_def sub_def)
  show ?case
    using Cons.IH [of "pre @ [lp]"] rd tuple_end_next [of h pre lp suf] unfolding up by simp
qed simp

lemma place_tuples_ok:
  assumes "length lps = length ts" and "normal_bytes lps ts \<le> off" and "off \<le> length page"
    and "length page = PAGE_SIZE"
    and "\<forall>(lp, t) \<in> set (zip lps ts). lp_flags lp = LP_NORMAL \<longrightarrow> t \<noteq> []"
  shows "\<exists>lps' page'. place_tuples oc lps ts off page = Ok (lps', off - normal_bytes lps ts, page') \<and>
     length page' = PAGE_SIZE \<and> drop off page' = drop off page \<and>
     map lp_flags lps' = map lp_flags lps \<and>
     (\<forall>lp \<in> set lps'. lp_flags lp \<noteq> LP_NORMAL \<longrightarrow> lp_offset lp = 0) \<and>
     (\<forall>data. drop (off - normal_bytes lps ts) data = drop (off - normal_bytes lps ts) page' \<longrightarrow>
        recover off lps' data = map2 (\<lambda>lp t. if lp_flags lp = LP_NORMAL then t else []) lps ts)"
  using assms
proof (induction lps ts arbitrary: off page rule: list_induct2)
  case (Cons lp lps t ts)
  show ?case
  proof (cases "lp_flags lp = LP_NORMAL")
    case False
    then obtain lps' page' where IH: "place_tuples oc lps ts off page = Ok (lps', off - normal_bytes lps ts, page')"
      "length page' = PAGE_SIZE" "drop off page' = drop off page" "map lp_flags lps' = map lp_flags lps"
      "\<forall>lp \<in> set lps'. lp_flags lp \<noteq> LP_NORMAL \<longrightarrow> lp_offset lp = 0"
      "\<forall>data. drop (off - normal_bytes lps ts) data = drop (off - normal_bytes lps ts) page' \<longrightarrow>
        recover off lps' data = map2 (\<lambda>lp t. if lp_flags lp = LP_NORMAL then t else []) lps ts"
      using Cons.IH [of off page] Cons.prems by auto
    then show ?thesis using False by auto
  next
    case True
    define o1 where "o1 = off - length t"
    let ?p1 = "put_at o1 t page" and ?nb = "normal_bytes lps ts"
    have t: "t \<noteq> []" using Cons.prems(4) True by auto
    have off: "off = o1 + length t" "?nb \<le> o1" using Cons.prems(1) True by (auto simp: o1_def)
    have d1: "drop o1 ?p1 = t @ drop off page" using Cons.prems(2) off(1) by (simp add: put_at_def)
    obtain lps' page' where place: "place_tuples oc lps ts o1 ?p1 = Ok (lps', o1 - ?nb, page')"
      and lp': "length page' = PAGE_SIZE" and dr: "drop o1 page' = drop o1 ?p1"
      and fl: "map lp_flags lps' = map lp_flags lps"
      and zero: "\<forall>lp \<in> set lps'. lp_flags lp \<noteq> LP_NORMAL \<longrightarrow> lp_offset lp = 0"
      and rec: "\<forall>data. drop (o1 - ?nb) data = drop (o1 - ?nb) page' \<longrightarrow>
        recover o1 lps' data = map2 (\<lambda>lp t. if lp_flags lp = LP_NORMAL then t else []) lps ts"
      using Cons.IH [of o1 ?p1] Cons.prems off by auto
    have run: "place_tuples oc (lp # lps) (t # ts) off page =
        Ok (lp\<lparr>lp_offset := word_of_nat o1\<rparr> # lps', o1 - ?nb, page')"
      using True t off Cons.prems(2) place by (simp add: put_slice_put_at)
    have u: "unat (word_of_nat o1 :: u16) = o1"
      using off Cons.prems(2,3) by (simp add: PAGE_SIZE_def)
    have head: "sub o1 (off - o1) data = t" if "drop (o1 - ?nb) data = drop (o1 - ?nb) page'" for data
    proof -
      have "drop o1 data = drop o1 page'" by (rule drop_eq_mono [OF that]) simp
      then show ?thesis using dr d1 off(1) by (simp add: sub_def)
    qed
    have "drop off page' = drop off page"
      using dr d1 off(1) drop_after [of o1 page' t] by simp
    moreover have "recover off (lp\<lparr>lp_offset := word_of_nat o1\<rparr> # lps') data =
        map2 (\<lambda>lp t. if lp_flags lp = LP_NORMAL then t else []) (lp # lps) (t # ts)"
      if "drop (o1 - ?nb) data = drop (o1 - ?nb) page'" for data
      using head [OF that] rec that True u t off Cons.prems(2,3) by simp
    ultimately show ?thesis using run lp' fl zero True off by auto
  qed
qed simp

lemma page_image:
  assumes ok: "page_ok pg"
    and full: "\<forall>(lp, t) \<in> set (zip (line_pointers pg) (tuples pg)). lp_flags lp = LP_NORMAL \<longrightarrow> t \<noteq> []"
  shows "\<exists>img pg'. page_serialize oc pg = Ok img \<and> length img = PAGE_SIZE \<and>
     page_deserialize oc img = Ok pg' \<and>
     header pg' = (header pg)\<lparr>pd_upper := word_of_nat (PAGE_SIZE - normal_bytes (line_pointers pg) (tuples pg))\<rparr> \<and>
     map lp_flags (line_pointers pg') = map lp_flags (line_pointers pg) \<and>
     (\<forall>lp \<in> set (line_pointers pg'). lp_flags lp \<noteq> LP_NORMAL \<longrightarrow> lp_offset lp = 0) \<and>
     tuples pg' = map2 (\<lambda>lp t. if lp_flags lp = LP_NORMAL then t else []) (line_pointers pg) (tuples pg)"
proof -
  let ?nb = "normal_bytes (line_pointers pg) (tuples pg)"
  let ?n = "length (line_pointers pg)"
  define lo where "lo = PAGE_HEADER_SIZE + LINE_POINTER_SIZE * ?n"
  define up where "up = PAGE_SIZE - ?nb"
  note b = page_ok_bounds [OF ok]
  have lens: "?n = length (tuples pg)" using ok by (simp add: page_ok_def)
  have nb: "?nb \<le> PAGE_SIZE" and lo: "unat (pd_lower (header pg)) = lo"
    using ok by (simp_all add: page_ok_def lo_def)
  have "unat (pd_upper (header pg)) + ?nb \<le> PAGE_SIZE" using ok by (simp add: page_ok_def)
  then have lu: "lo \<le> up" using b(3) lo unfolding up_def by linarith
  have lo_word: "word_of_nat lo = pd_lower (header pg)" by (simp add: lo [symmetric])
  obtain lps page where place: "place_tuples oc (line_pointers pg) (tuples pg) PAGE_SIZE
        (replicate PAGE_SIZE 0) = Ok (lps, up, page)"
    and len: "length page = PAGE_SIZE" and fl: "map lp_flags lps = map lp_flags (line_pointers pg)"
    and zero: "\<forall>lp \<in> set lps. lp_flags lp \<noteq> LP_NORMAL \<longrightarrow> lp_offset lp = 0"
    and rec: "\<forall>data. drop up data = drop up page \<longrightarrow> recover PAGE_SIZE lps data =
        map2 (\<lambda>lp t. if lp_flags lp = LP_NORMAL then t else []) (line_pointers pg) (tuples pg)"
    using place_tuples_ok [OF lens, of PAGE_SIZE "replicate PAGE_SIZE 0" oc] nb full
    by (auto simp: up_def)
  have n: "length lps = ?n" using fl by (metis length_map)
  let ?h = "(header pg)\<lparr>pd_lower := word_of_nat lo, pd_upper := word_of_nat up\<rparr>"
  let ?img = "header_serialize ?h @ concat (map lp_serialize lps) @ drop lo page"
  have hw: "length (header_serialize ?h) = PAGE_HEADER_SIZE" by (rule page_header.length_enc)
  have lo_len: "lo \<le> length page" using lu len by (simp add: up_def)
  have ser: "page_serialize oc pg = Ok ?img"
    using place n lo_len len hw
    by (simp add: page_serialize_def Let_def put_slice_put_at put_at_def write_line_pointers_eq
        lo_def mult.commute) (simp add: add.commute)
  have img_len: "length ?img = PAGE_SIZE"
    using hw len lo_len n by (simp add: line_pointer.length_concat_enc lo_def)
  have d: "drop up ?img = drop up page"
  proof -
    have "length (header_serialize ?h @ concat (map lp_serialize lps)) = lo"
      using hw n by (simp add: line_pointer.length_concat_enc lo_def)
    then have "drop lo ?img = drop lo page" by simp
    then show ?thesis using lu by (rule drop_eq_mono)
  qed
  have h: "header_deserialize ?img = Ok ?h" by (rule page_header.dec_enc)
  have lo_h: "unat (pd_lower ?h) = lo" using lo lo_word by simp
  have rl: "read_line_pointers ?n PAGE_HEADER_SIZE ?img = Ok lps"
    using read_line_pointers_eq [of PAGE_HEADER_SIZE ?img lps "drop lo page"] hw n by simp
  have rt: "map_res (read_tuple ?img ?h lps) [0..<length lps] = Ok (recover PAGE_SIZE lps ?img)"
    using read_tuples_recover [OF img_len, of ?h "[]" lps] ok by (simp add: tuple_end_def page_ok_def)
  have sub: "usize_sub oc (unat (pd_lower ?h)) PAGE_HEADER_SIZE = Ok (LINE_POINTER_SIZE * ?n)"
    using lo_h by (simp add: lo_def)
  have de: "page_deserialize oc ?img =
      Ok \<lparr>header = ?h, line_pointers = lps, tuples = recover PAGE_SIZE lps ?img\<rparr>"
    unfolding page_deserialize_def h and_then_simps sub using rl rt by (simp add: LINE_POINTER_SIZE_def)
  show ?thesis
    using ser img_len de rec d fl zero lo_word by (simp add: up_def)
qed

section \<open>Properties\<close>

definition page_with :: "bytes list \<Rightarrow> HeapPage" where
  "page_with ts =
     foldl (\<lambda>pg t. case add_tuple True t pg of Ok (pg', _) \<Rightarrow> pg' | Inl _ \<Rightarrow> pg) new_heap_page ts"

text \<open>
  C33: writing a well-formed page (without empty live tuples) to its 8192-byte image and reading it back
  gives a page with the same line pointer flags, the same header up to \<open>pd_upper\<close> (which closes the
  gaps), and the same tuple in every slot; neither direction panics.
\<close>

theorem page_image_roundtrip:
  assumes "page_ok pg"
    and "\<forall>(lp, t) \<in> set (zip (line_pointers pg) (tuples pg)). lp_flags lp = LP_NORMAL \<longrightarrow> t \<noteq> []"
  shows "\<exists>img pg'. page_serialize oc pg = Ok img \<and> length img = PAGE_SIZE \<and>
     page_deserialize oc img = Ok pg' \<and>
     map lp_flags (line_pointers pg') = map lp_flags (line_pointers pg) \<and>
     pd_lower (header pg') = pd_lower (header pg) \<and> pd_lsn (header pg') = pd_lsn (header pg) \<and>
     (\<forall>slot. get_tuple slot pg' = get_tuple slot pg)"
proof -
  obtain img pg' where ser: "page_serialize oc pg = Ok img" "length img = PAGE_SIZE"
    "page_deserialize oc img = Ok pg'"
    and h: "header pg' = (header pg)\<lparr>pd_upper := word_of_nat (PAGE_SIZE - normal_bytes (line_pointers pg) (tuples pg))\<rparr>"
    and fl: "map lp_flags (line_pointers pg') = map lp_flags (line_pointers pg)"
    and ts: "tuples pg' = map2 (\<lambda>lp t. if lp_flags lp = LP_NORMAL then t else []) (line_pointers pg) (tuples pg)"
    using page_image [OF assms, of oc] by blast
  have lens: "length (line_pointers pg) = length (tuples pg)" using assms(1) by (simp add: page_ok_def)
  have n: "length (line_pointers pg') = length (line_pointers pg)" using fl by (metis length_map)
  have flag: "lp_flags (line_pointers pg' ! i) = lp_flags (line_pointers pg ! i)"
    if "i < length (line_pointers pg)" for i using fl n that by (metis nth_map)
  have "get_tuple slot pg' = get_tuple slot pg" for slot
    using lens n flag by (simp add: get_tuple_def ts)
  then show ?thesis using ser h fl by auto
qed

lemma one_tuple_page:
  "page_with [[7, 8, 9]] =
     \<lparr>header = new_page_header\<lparr>pd_lower := 30, pd_upper := 8189\<rparr>,
      line_pointers = [\<lparr>lp_offset = 8189, lp_flags = LP_NORMAL\<rparr>], tuples = [[7, 8, 9]]\<rparr>"
  by (simp add: page_with_def add_tuple_def new_heap_page_def new_page_header_def page_consts
      new_line_pointer_def)

lemma one_tuple_page_ok: "page_ok (page_with [[7, 8, 9]])"
  unfolding one_tuple_page
  by (simp add: page_ok_def new_page_header_def page_consts word_le_nat_alt LP_NORMAL_def)

theorem page_image_roundtrip_witness:
  "\<exists>img pg'. page_serialize True (page_with [[7, 8, 9]]) = Ok img \<and>
     page_deserialize True img = Ok pg' \<and> get_tuple 0 pg' = Some [7, 8, 9]"
proof -
  have h: "\<forall>(lp, t) \<in> set (zip (line_pointers (page_with [[7, 8, 9]])) (tuples (page_with [[7, 8, 9]]))).
      lp_flags lp = LP_NORMAL \<longrightarrow> t \<noteq> []" by (simp add: one_tuple_page)
  have "get_tuple 0 (page_with [[7, 8, 9]]) = Some [7, 8, 9]"
    by (simp add: one_tuple_page get_tuple_def)
  then show ?thesis using page_image_roundtrip [OF one_tuple_page_ok h, of True] by metis
qed

lemma add_tuple_oversize:
  assumes "unat (pd_upper (header pg)) < length data"
  shows "add_tuple True data pg = panic"
    and "length data < 2 ^ 63 \<Longrightarrow> \<exists>pg' slot. add_tuple False data pg = Ok (pg', Some slot)"
proof -
  show "add_tuple True data pg = panic"
    using assms by (simp add: add_tuple_def usize_sub_def Let_def)
  assume "length data < 2 ^ 63"
  moreover have "unat (pd_lower (header pg)) < 65536" by (rule unat16_less)
  ultimately have "unat (pd_lower (header pg)) + LINE_POINTER_SIZE \<le> 2 ^ 64 + unat (pd_upper (header pg)) - length data"
    by (simp add: LINE_POINTER_SIZE_def)
  then show "\<exists>pg' slot. add_tuple False data pg = Ok (pg', Some slot)"
    using assms by (auto simp: add_tuple_def usize_sub_def Let_def split: option.splits)
qed

text \<open>
  C34: \<open>add_tuple\<close> on a well-formed page. A tuple no longer than \<open>pd_upper\<close> never makes it panic, whether or not
  the build checks overflow: it keeps the page invariant and either leaves the page unchanged or stores the
  tuple in a slot that held none, every other slot reading as before. A longer tuple is not refused: the
  subtraction that computes the new bound panics with overflow checks, and without them the call reports
  success for every tuple of less than \<open>2 ^ 63\<close> bytes.
\<close>

theorem add_tuple_correct:
  assumes "page_ok pg"
  shows "if length data \<le> unat (pd_upper (header pg))
     then \<exists>pg' r. add_tuple oc data pg = Ok (pg', r) \<and> page_ok pg' \<and>
       (case r of
          None \<Rightarrow> pg' = pg
        | Some slot \<Rightarrow> get_tuple slot pg' = Some data \<and> get_tuple slot pg = None \<and>
            (\<forall>k. k \<noteq> slot \<longrightarrow> get_tuple k pg' = get_tuple k pg))
     else add_tuple True data pg = panic \<and>
       (length data < 2 ^ 63 \<longrightarrow> (\<exists>pg' slot. add_tuple False data pg = Ok (pg', Some slot)))"
proof (cases "length data \<le> unat (pd_upper (header pg))")
  case True
  obtain pg' r where "add_tuple oc data pg = Ok (pg', r)"
  proof (cases "add_tuple oc data pg")
    case (Inl e)
    then have False using True by (auto simp: add_tuple_def Let_def split: option.splits if_splits)
    then show ?thesis ..
  next
    case (Inr p)
    then show ?thesis using that by (cases p) auto
  qed
  then show ?thesis using True add_tuple_ok [OF assms True] by auto
next
  case False
  then show ?thesis using add_tuple_oversize [of pg data] by simp
qed

theorem add_tuple_correct_witness:
  "(\<exists>pg' r. add_tuple False [1] (page_with [[7, 8, 9]]) = Ok (pg', r) \<and> page_ok pg' \<and>
     (case r of None \<Rightarrow> pg' = page_with [[7, 8, 9]] | Some slot \<Rightarrow> get_tuple slot pg' = Some [1])) \<and>
   add_tuple True (replicate 9000 1) (page_with [[7, 8, 9]]) = panic"
proof
  let ?pg = "page_with [[7, 8, 9]]"
  have "length ([1] :: bytes) \<le> unat (pd_upper (header ?pg))"
    by (simp add: one_tuple_page)
  with add_tuple_correct [OF one_tuple_page_ok, of "[1]" False] obtain pg' r where
    run: "add_tuple False [1] ?pg = Ok (pg', r)" "page_ok pg'"
    and res: "case r of None \<Rightarrow> pg' = ?pg
       | Some slot \<Rightarrow> get_tuple slot pg' = Some [1] \<and> get_tuple slot ?pg = None \<and>
           (\<forall>k. k \<noteq> slot \<longrightarrow> get_tuple k pg' = get_tuple k ?pg)" by auto
  from res have "case r of None \<Rightarrow> pg' = ?pg | Some slot \<Rightarrow> get_tuple slot pg' = Some [1]"
    by (cases r) simp_all
  then show "\<exists>pg' r. add_tuple False [1] ?pg = Ok (pg', r) \<and> page_ok pg' \<and>
      (case r of None \<Rightarrow> pg' = ?pg | Some slot \<Rightarrow> get_tuple slot pg' = Some [1])"
    using run by blast
  have "\<not> length (replicate 9000 (1 :: byte)) \<le> unat (pd_upper (header ?pg))"
    by (simp add: one_tuple_page)
  then show "add_tuple True (replicate 9000 1) ?pg = panic"
    using add_tuple_correct [OF one_tuple_page_ok, of "replicate 9000 1" False] by simp
qed

text \<open>
  The same for any page, well-formed or not: a tuple longer than \<open>pd_upper\<close> panics with overflow checks and
  is accepted without them.
\<close>

theorem add_tuple_oversize_not_refused:
  assumes "unat (pd_upper (header pg)) < length data" and "length data < 2 ^ 63"
  shows "add_tuple True data pg = panic \<and> (\<exists>pg' slot. add_tuple False data pg = Ok (pg', Some slot))"
  using add_tuple_oversize [OF assms(1)] assms(2) by simp

theorem add_tuple_oversize_not_refused_witness:
  "\<exists>pg' slot. add_tuple False (replicate 8193 1) new_heap_page = Ok (pg', Some slot)"
proof -
  have "unat (pd_upper (header new_heap_page)) < length (replicate 8193 (1 :: byte))"
    by (simp add: new_heap_page_def new_page_header_def PAGE_SIZE_def)
  from add_tuple_oversize_not_refused [OF this] show ?thesis by simp
qed

text \<open>
  A heap-only update keeps the page invariant and either changes nothing or turns the old slot into
  a redirection to a new slot with the new tuple: \<open>follow_chain\<close> from the old slot then ends at the
  new one, and the other slots read as before.
\<close>

theorem hot_update_chain:
  assumes "page_ok pg" and "length data \<le> unat (pd_upper (header pg))"
    and "hot_update oc old data pg = Ok (pg', r)"
  shows "page_ok pg' \<and>
    (case r of
       None \<Rightarrow> pg' = pg
     | Some slot \<Rightarrow> get_tuple slot pg' = Some data \<and> get_tuple old pg' = None \<and>
         follow_chain old pg' = Some slot \<and>
         (\<forall>k. k \<noteq> slot \<longrightarrow> k \<noteq> old \<longrightarrow> get_tuple k pg' = get_tuple k pg))"
  using assms by (rule hot_update_ok)

definition updated_page :: HeapPage where
  "updated_page =
     \<lparr>header = new_page_header\<lparr>pd_lower := 34, pd_upper := 8188\<rparr>,
      line_pointers = [\<lparr>lp_offset = 1, lp_flags = LP_REDIRECT\<rparr>, \<lparr>lp_offset = 8188, lp_flags = LP_NORMAL\<rparr>],
      tuples = [[7, 8, 9], [5]]\<rparr>"

lemma updated_page_run: "hot_update oc 0 [5] (page_with [[7, 8, 9]]) = Ok (updated_page, Some 1)"
  by (simp add: hot_update_def one_tuple_page updated_page_def Let_def page_consts new_line_pointer_def
      lp_consts)

theorem hot_update_chain_witness:
  "hot_update True 0 [5] (page_with [[7, 8, 9]]) = Ok (updated_page, Some 1) \<and>
   follow_chain 0 updated_page = Some 1 \<and> get_tuple 1 updated_page = Some [5]"
proof -
  have "length ([5] :: bytes) \<le> unat (pd_upper (header (page_with [[7, 8, 9]])))"
    by (simp add: one_tuple_page)
  from hot_update_chain [OF one_tuple_page_ok this updated_page_run] show ?thesis
    using updated_page_run by simp
qed

text \<open>
  The page image does not keep redirections: the target of every redirected slot is written as zero.
  On the page of the example, a heap-only update of slot 0 made slot 1 reachable from slot 0; after
  a write-read cycle the chain from slot 0 only leads back to slot 0, and \<open>follow_chain\<close> finds nothing.
\<close>

theorem redirect_lost_in_image:
  "\<exists>pg' img pg''. hot_update True 0 [5] (page_with [[7, 8, 9]]) = Ok (pg', Some 1) \<and>
     follow_chain 0 pg' = Some 1 \<and>
     page_serialize True pg' = Ok img \<and> page_deserialize True img = Ok pg'' \<and>
     follow_chain 0 pg'' = None"
proof -
  have len: "length ([5] :: bytes) \<le> unat (pd_upper (header (page_with [[7, 8, 9]])))"
    by (simp add: one_tuple_page)
  have ok: "page_ok updated_page" and chain: "follow_chain 0 updated_page = Some 1"
    using hot_update_ok [OF one_tuple_page_ok len updated_page_run] by simp_all
  have full: "\<forall>(lp, t) \<in> set (zip (line_pointers updated_page) (tuples updated_page)).
      lp_flags lp = LP_NORMAL \<longrightarrow> t \<noteq> []" by (simp add: updated_page_def)
  obtain img pg'' where ser: "page_serialize True updated_page = Ok img" "page_deserialize True img = Ok pg''"
    and fl: "map lp_flags (line_pointers pg'') = map lp_flags (line_pointers updated_page)"
    and zero: "\<forall>lp \<in> set (line_pointers pg''). lp_flags lp \<noteq> LP_NORMAL \<longrightarrow> lp_offset lp = 0"
    using page_image [OF ok full, of True] by blast
  obtain lp0 lp1 where lps: "line_pointers pg'' = [lp0, lp1]" "lp_flags lp0 = LP_REDIRECT"
    using fl by (auto simp: updated_page_def map_eq_Cons_conv)
  have lp0: "lp_offset lp0 = 0" "lp_flags lp0 \<noteq> LP_NORMAL" using zero lps by (simp_all add: lp_consts)
  have "follow n pg'' 0 = None" for n
  proof (induction n)
    case 0
    show ?case using lps lp0 by (subst follow.simps) (simp add: Let_def)
  next
    case (Suc n)
    then show ?case using lps lp0 by (subst follow.simps) (simp add: Let_def)
  qed
  then show ?thesis using updated_page_run chain ser by (auto simp: follow_chain_def)
qed

text \<open>
  Pruning a well-formed page whose live tuples do not have exactly 23 bytes never panics, keeps the
  page invariant, and removes exactly the live tuples whose deletion mark is set and below the
  cutoff; the others stay, in order.
\<close>

theorem prune_correct:
  assumes "page_ok pg"
    and "\<forall>(lp, t) \<in> set (zip (line_pointers pg) (tuples pg)). lp_flags lp = LP_NORMAL \<longrightarrow> length t \<noteq> 23"
  shows "\<exists>pg' r. prune oc cutoff pg = Ok (pg', r) \<and> page_ok pg' \<and>
     live_tuples pg' = filter (\<lambda>t. \<not> prunable cutoff t) (live_tuples pg)"
  using assms by (rule prune_ok)

theorem prune_correct_witness:
  "\<exists>pg' r. prune True 9 (page_with [[7, 8, 9]]) = Ok (pg', r) \<and> live_tuples pg' = [[7, 8, 9]]"
proof -
  have h: "\<forall>(lp, t) \<in> set (zip (line_pointers (page_with [[7, 8, 9]])) (tuples (page_with [[7, 8, 9]]))).
      lp_flags lp = LP_NORMAL \<longrightarrow> length t \<noteq> 23" by (simp add: one_tuple_page)
  have "live_tuples (page_with [[7, 8, 9]]) = [[7, 8, 9]]" "\<not> prunable 9 [7, 8, 9]"
    by (simp_all add: one_tuple_page live_tuples_def prunable_def)
  then show ?thesis using prune_correct [OF one_tuple_page_ok h, of True 9] by auto
qed

text \<open>
  The bounds test of \<open>prune\<close> is one short: it lets a 23-byte tuple through and then reads bytes 16
  to 23, so a page whose first slot is live with a 23-byte tuple makes \<open>prune\<close> panic for every cutoff.
\<close>

theorem prune_panics_on_23_bytes:
  assumes "line_pointers pg = lp # lps" and "tuples pg = t # ts"
    and "lp_flags lp = LP_NORMAL" and "length t = 23"
  shows "prune oc cutoff pg = panic"
  using assms by (simp add: prune_def slice_def)

theorem prune_panics_on_23_bytes_witness:
  "\<exists>pg'. add_tuple True (replicate 23 0) new_heap_page = Ok (pg', Some 0) \<and> prune True 1 pg' = panic"
proof -
  let ?lp = "new_line_pointer 8169"
  let ?pg = "\<lparr>header = new_page_header\<lparr>pd_lower := 30, pd_upper := 8169\<rparr>,
      line_pointers = [?lp], tuples = [replicate 23 0]\<rparr>"
  have "add_tuple True (replicate 23 0) new_heap_page = Ok (?pg, Some 0)"
    by (simp add: add_tuple_def new_heap_page_def new_page_header_def page_consts)
  moreover have "prune True 1 ?pg = panic"
    by (rule prune_panics_on_23_bytes [of ?pg ?lp "[]" "replicate 23 0" "[]"])
      (simp_all add: new_line_pointer_def)
  ultimately show ?thesis by blast
qed

lemma follow_sound:
  "follow budget pg k = Some slot \<Longrightarrow>
     unat slot < length (line_pointers pg) \<and> lp_flags (line_pointers pg ! unat slot) = LP_NORMAL"
proof (induction budget arbitrary: k)
  case 0
  then show ?case by (subst (asm) follow.simps) (auto simp: Let_def split: if_splits)
next
  case (Suc n)
  from Suc.prems show ?case
    by (subst (asm) follow.simps) (auto simp: Let_def split: if_splits dest: Suc.IH)
qed

text \<open>
  \<open>follow_chain\<close> terminates on every page, cyclic redirections included, and what it returns is a
  live slot of the page; on a page with one tuple per line pointer that slot has a tuple.
\<close>

theorem follow_chain_sound:
  assumes "follow_chain k pg = Some slot" and "length (tuples pg) = length (line_pointers pg)"
  shows "\<exists>t. get_tuple slot pg = Some t"
  using follow_sound assms by (fastforce simp: follow_chain_def get_tuple_def)

theorem follow_chain_sound_witness:
  "follow_chain 0 updated_page = Some 1 \<and> (\<exists>t. get_tuple 1 updated_page = Some t)"
proof -
  have c: "follow_chain 0 updated_page = Some 1"
    by (simp add: follow_chain_def updated_page_def follow_redirect follow_normal lp_consts)
  moreover have "length (tuples updated_page) = length (line_pointers updated_page)"
    by (simp add: updated_page_def)
  ultimately show ?thesis using follow_chain_sound by blast
qed

end
