(* ===== verification/Types.thy ===== *)
theory Types
  imports Storage
begin

text \<open>
  The data types of \<open>types/mod.rs\<close>. \<open>Oid\<close> and \<open>PageId\<close> wrap a \<open>u32\<close>, \<open>SlotId\<close> a \<open>u16\<close>. A \<open>String\<close>
  is a list of characters; an \<open>f64\<close> is kept as its bit pattern, \<open>0.0\<close> being zero.
\<close>

type_synonym slot_id = u16

record ItemPointerData =
  ip_page_id :: pid
  ip_offset :: u16

record Tuple =
  tup_slots :: "slot_id list"
  tup_data :: bytes
  tup_xmin :: u64
  tup_xmax :: u64
  tup_cmin :: u32
  tup_cmax :: u32
  tup_xvac :: u64

record Attribute =
  att_name :: string
  att_type_oid :: oid
  att_attnum :: u16
  att_typmod :: u32

record TupleDesc =
  td_fields :: "Attribute list"

record Relation =
  relid :: oid
  relation_name :: string
  tuple_desc :: TupleDesc
  relation_pages :: "pid list"
  relpages :: u32
  reltuples :: u64
  relfrozenxid :: u32

text \<open>\<open>i as i16\<close> keeps the low 16 bits; \<open>-1\<close> is all ones.\<close>

definition empty_relation :: "string \<Rightarrow> (string \<times> oid) list \<Rightarrow> Relation" where
  "empty_relation nm cols =
     \<lparr>relid = 0, relation_name = nm,
      tuple_desc = \<lparr>td_fields = map (\<lambda>(i, (n, t)). \<lparr>att_name = n, att_type_oid = t,
                                  att_attnum = word_of_nat i, att_typmod = - 1\<rparr>)
                                 (zip [0..<length cols] cols)\<rparr>,
      relation_pages = [], relpages = 0, reltuples = 0, relfrozenxid = 0\<rparr>"

definition has_toast_columns :: "Relation \<Rightarrow> bool" where
  "has_toast_columns r \<longleftrightarrow>
     list_ex (\<lambda>a. att_type_oid a \<in> {25, 1043, 17, 3802, 114, 1009}) (td_fields (tuple_desc r))"

end
