(* ===== verification/WAL.thy ===== *)
theory WAL
  imports Types Codec "HOL-Library.Word"
begin

text \<open>
  The write-ahead log: \<open>wal/mod.rs\<close> (binary formats, checksum, the log itself) and
  \<open>wal/recovery.rs\<close> (replay). The encoding of a \<open>WALRecord\<close> is done by the \<open>bincode\<close> crate and is
  a parameter: \<open>ser\<close> for \<open>bincode::serialize\<close>, \<open>dec\<close> for \<open>bincode::deserialize\<close>, which reads a record
  off the front of a buffer.
\<close>

unbundle bit_operations_syntax

section \<open>Log page header\<close>

definition XLOG_PAGE_MAGIC :: u16 where "XLOG_PAGE_MAGIC = 0xD106"

record XLogPageHeader =
  xlp_magic :: u16
  xlp_flags :: u16
  xlp_tli :: u32
  xlp_page_addr :: u64
  xlp_max_block :: u32
  xlp_checkpoint_copy :: u64

definition new_xlog_page_header :: "u64 \<Rightarrow> XLogPageHeader" where
  "new_xlog_page_header addr =
     \<lparr>xlp_magic = XLOG_PAGE_MAGIC, xlp_flags = 0, xlp_tli = 1, xlp_page_addr = addr,
      xlp_max_block = 0, xlp_checkpoint_copy = 0\<rparr>"

definition xlp_serialize :: "XLogPageHeader \<Rightarrow> bytes" where
  "xlp_serialize h =
     to_le 2 (xlp_magic h) @ to_le 2 (xlp_flags h) @ to_le 4 (xlp_tli h) @
     to_le 8 (xlp_page_addr h) @ to_le 4 (xlp_max_block h) @ to_le 8 (xlp_checkpoint_copy h)"

definition xlp_deserialize :: "bytes \<Rightarrow> XLogPageHeader res" where
  "xlp_deserialize data =
     (if length data < 28 then panic
      else Ok \<lparr>xlp_magic = field_le 0 2 data, xlp_flags = field_le 2 2 data,
               xlp_tli = field_le 4 4 data, xlp_page_addr = field_le 8 8 data,
               xlp_max_block = field_le 16 4 data, xlp_checkpoint_copy = field_le 20 8 data\<rparr>)"

interpretation xlog_page: fixed_codec xlp_serialize xlp_deserialize 28
  by unfold_locales (auto simp: xlp_serialize_def xlp_deserialize_def field_simps_le)

section \<open>Log records and their checksum\<close>

datatype RmgrId = RmgrHeap | RmgrXlog | RmgrClog | RmgrBtree

definition crc_shift :: "u32 \<Rightarrow> u32" where
  "crc_shift crc =
     (if crc AND 1 \<noteq> 0 then drop_bit 1 crc XOR 0xEDB88320 else drop_bit 1 crc)"

definition crc_byte :: "byte \<Rightarrow> u32 \<Rightarrow> u32" where
  "crc_byte b crc = (crc_shift ^^ 8) (crc XOR ucast b)"

definition compute_crc :: "bytes \<Rightarrow> u32" where
  "compute_crc data = fold crc_byte data 0xFFFFFFFF XOR 0xFFFFFFFF"

record XLogRecord =
  xl_tot_len :: u32
  xl_xid :: u32
  xl_info :: u32
  xl_rmid :: byte
  xl_pad :: "byte \<times> byte \<times> byte"
  xl_crc :: u32

definition new_xlog_record :: "bool \<Rightarrow> u32 \<Rightarrow> u32 \<Rightarrow> byte \<Rightarrow> bytes \<Rightarrow> XLogRecord res" where
  "new_xlog_record oc xid info rmid data =
     and_then (word_add oc 24 (word_of_nat (length data))) (\<lambda>tot.
       Ok \<lparr>xl_tot_len = tot, xl_xid = xid, xl_info = info, xl_rmid = rmid, xl_pad = (0, 0, 0),
           xl_crc = compute_crc data\<rparr>)"

definition xl_serialize :: "XLogRecord \<Rightarrow> bytes" where
  "xl_serialize r =
     to_le 4 (xl_tot_len r) @ to_le 4 (xl_xid r) @ to_le 4 (xl_info r) @
     (case xl_pad r of (a, b, c) \<Rightarrow> [xl_rmid r, a, b, c]) @ to_le 4 (xl_crc r) @ [0, 0, 0, 0]"

definition xl_deserialize :: "bytes \<Rightarrow> XLogRecord res" where
  "xl_deserialize data =
     (if length data < 20 then panic
      else Ok \<lparr>xl_tot_len = field_le 0 4 data, xl_xid = field_le 4 4 data, xl_info = field_le 8 4 data,
               xl_rmid = data ! 12, xl_pad = (data ! 13, data ! 14, data ! 15),
               xl_crc = field_le 16 4 data\<rparr>)"

definition verify_crc :: "XLogRecord \<Rightarrow> bytes \<Rightarrow> bool" where
  "verify_crc r data \<longleftrightarrow> xl_crc r = compute_crc data"

section \<open>Checkpoint records and the control file\<close>

record CheckpointRecord =
  ck_next_xid :: u32
  ck_next_oid :: u32
  ck_next_multixact :: u32
  ck_oldest_xid :: u32
  ck_oldest_multixact :: u32
  ck_oldest_commit_ts_xid :: u32
  ck_new_commit_ts_xid :: u32
  ck_checkpoint_lsn :: u64
  ck_redo_lsn :: u64
  ck_timeline_id :: u32

definition checkpoint_serialize :: "CheckpointRecord \<Rightarrow> bytes" where
  "checkpoint_serialize c =
     to_le 4 (ck_next_xid c) @ to_le 4 (ck_next_oid c) @ to_le 4 (ck_next_multixact c) @
     to_le 4 (ck_oldest_xid c) @ to_le 4 (ck_oldest_multixact c) @
     to_le 4 (ck_oldest_commit_ts_xid c) @ to_le 4 (ck_new_commit_ts_xid c) @
     to_le 8 (ck_checkpoint_lsn c) @ to_le 8 (ck_redo_lsn c) @ to_le 4 (ck_timeline_id c)"

definition checkpoint_deserialize :: "bytes \<Rightarrow> CheckpointRecord res" where
  "checkpoint_deserialize data =
     (if length data < 48 then panic
      else Ok \<lparr>ck_next_xid = field_le 0 4 data, ck_next_oid = field_le 4 4 data,
               ck_next_multixact = field_le 8 4 data, ck_oldest_xid = field_le 12 4 data,
               ck_oldest_multixact = field_le 16 4 data, ck_oldest_commit_ts_xid = field_le 20 4 data,
               ck_new_commit_ts_xid = field_le 24 4 data, ck_checkpoint_lsn = field_le 28 8 data,
               ck_redo_lsn = field_le 36 8 data, ck_timeline_id = field_le 44 4 data\<rparr>)"

interpretation checkpoint: fixed_codec checkpoint_serialize checkpoint_deserialize 48
  by unfold_locales (auto simp: checkpoint_serialize_def checkpoint_deserialize_def field_simps_le)

definition PG_CONTROL_VERSION :: u32 where "PG_CONTROL_VERSION = 170000"

record ControlFile =
  system_identifier :: u64
  pg_control_version :: u32
  catalog_version_no :: u32
  check_point_lsn :: u64
  redo_lsn :: u64
  timeline :: u32
  cf_next_xid :: u32
  cf_next_oid :: u32
  oldest_xid :: u32
  oldest_commit_ts_xid :: u32
  next_multixact_id :: u32
  oldest_multixact_id :: u32
  time_checkpoint :: u64

definition create_control_file :: "u64 \<Rightarrow> ControlFile" where
  "create_control_file sysid =
     \<lparr>system_identifier = sysid, pg_control_version = PG_CONTROL_VERSION,
      catalog_version_no = 202401011, check_point_lsn = 0, redo_lsn = 0, timeline = 1,
      cf_next_xid = 1, cf_next_oid = 10000, oldest_xid = 1, oldest_commit_ts_xid = 1,
      next_multixact_id = 1, oldest_multixact_id = 1, time_checkpoint = 0\<rparr>"

definition control_serialize :: "ControlFile \<Rightarrow> bytes" where
  "control_serialize c =
     to_le 8 (system_identifier c) @ to_le 4 (pg_control_version c) @ to_le 4 (catalog_version_no c) @
     to_le 8 (check_point_lsn c) @ to_le 8 (redo_lsn c) @ to_le 4 (timeline c) @
     to_le 4 (cf_next_xid c) @ to_le 4 (cf_next_oid c) @ to_le 4 (oldest_xid c) @
     to_le 4 (oldest_commit_ts_xid c) @ to_le 4 (next_multixact_id c) @
     to_le 4 (oldest_multixact_id c) @ to_le 8 (time_checkpoint c)"

definition control_deserialize :: "bytes \<Rightarrow> ControlFile res" where
  "control_deserialize data =
     (if length data < 68 then panic
      else Ok \<lparr>system_identifier = field_le 0 8 data, pg_control_version = field_le 8 4 data,
               catalog_version_no = field_le 12 4 data, check_point_lsn = field_le 16 8 data,
               redo_lsn = field_le 24 8 data, timeline = field_le 32 4 data,
               cf_next_xid = field_le 36 4 data, cf_next_oid = field_le 40 4 data,
               oldest_xid = field_le 44 4 data, oldest_commit_ts_xid = field_le 48 4 data,
               next_multixact_id = field_le 52 4 data, oldest_multixact_id = field_le 56 4 data,
               time_checkpoint = field_le 60 8 data\<rparr>)"

definition control_is_valid :: "ControlFile \<Rightarrow> bool" where
  "control_is_valid c \<longleftrightarrow> pg_control_version c = PG_CONTROL_VERSION"

interpretation control: fixed_codec control_serialize control_deserialize 68
  by unfold_locales (auto simp: control_serialize_def control_deserialize_def field_simps_le)

lemma xl_roundtrip: "xl_deserialize (xl_serialize r @ rest) = Ok r"
proof -
  obtain a b c where pad: "xl_pad r = (a, b, c)" by (cases "xl_pad r")
  have "length (xl_serialize r) = 24" by (simp add: xl_serialize_def pad)
  then have bytes: "(xl_serialize r @ rest) ! 12 = xl_rmid r" "(xl_serialize r @ rest) ! 13 = a"
    "(xl_serialize r @ rest) ! 14 = b" "(xl_serialize r @ rest) ! 15 = c"
    by (simp_all add: xl_serialize_def pad nth_append)
  have "field_le 16 4 (xl_serialize r @ rest) = xl_crc r"
    by (simp add: xl_serialize_def pad field_simps_le) (simp add: field_le_def sub_def)
  then show ?thesis
    unfolding xl_deserialize_def bytes by (simp add: xl_serialize_def pad field_simps_le)
qed

section \<open>The log\<close>

datatype WALRecord =
    Begin u64
  | Insert oid pid Tuple
  | Update oid pid Tuple Tuple
  | Delete oid pid Tuple
  | Commit u64
  | Abort u64
  | Checkpoint CheckpointRecord

record WAL =
  wal_storage :: EphemeralStorage
  current_lsn :: u64
  flushed_lsn :: u64
  current_xid :: u64
  segment_size :: u32
  flush_count :: u64

definition new_wal :: "u32 \<Rightarrow> WAL" where
  "new_wal seg =
     \<lparr>wal_storage = new_ephemeral, current_lsn = 0, flushed_lsn = 0, current_xid = 1,
      segment_size = seg, flush_count = 0\<rparr>"

definition allocate_xid :: "WAL \<Rightarrow> WAL \<times> u64" where
  "allocate_xid w = (w\<lparr>current_xid := current_xid w + 1\<rparr>, current_xid w)"

text \<open>
  A record does not cross a segment boundary: when it does not fit into the rest of the segment, it
  starts at the next one. The result is the start of the record and the new end of the log.
\<close>

definition reserve :: "bool \<Rightarrow> u64 \<Rightarrow> u64 \<Rightarrow> u64 \<Rightarrow> (u64 \<times> u64) res" where
  "reserve oc seg current record_size =
     and_then (word_add oc (current mod seg) record_size) (\<lambda>end_in_segment.
     and_then (if end_in_segment > seg then word_add oc current (seg - current mod seg) else Ok current)
       (\<lambda>start. and_then (word_add oc start record_size) (\<lambda>next_lsn. Ok (start, next_lsn))))"

definition write_record :: "bool \<Rightarrow> u64 \<Rightarrow> u64 \<Rightarrow> bytes \<Rightarrow> EphemeralStorage \<Rightarrow> EphemeralStorage res" where
  "write_record oc seg start bs store =
     and_then (word_add oc 1 (start div seg)) (\<lambda>n.
       let page_id = ucast n :: pid
       in and_then (read_page ephemeral store page_id) (\<lambda>page.
          let page' = (if length page < unat seg then page @ replicate (unat seg - length page) 0 else page)
          in and_then (put_slice (unat (start mod seg)) bs page') (\<lambda>page''.
             write_page ephemeral store page_id page'')))"

definition wal_append ::
    "bool \<Rightarrow> (WALRecord \<Rightarrow> bytes res) \<Rightarrow> WALRecord \<Rightarrow> WAL \<Rightarrow> WAL \<times> u64 res" where
  "wal_append oc ser record w =
     (case ser record of
        Inl e \<Rightarrow> (w, Inl e)
      | Inr bs \<Rightarrow>
          let seg = ucast (segment_size w) :: u64
          in if seg = 0 then (w, panic)
             else case reserve oc seg (current_lsn w) (word_of_nat (length bs)) of
                 Inl e \<Rightarrow> (w, Inl e)
               | Inr (start, next_lsn) \<Rightarrow>
                   let w' = w\<lparr>current_lsn := next_lsn\<rparr>
                   in case write_record oc seg start bs (wal_storage w) of
                       Inl e \<Rightarrow> (w', Inl e)
                     | Inr store \<Rightarrow> (w'\<lparr>wal_storage := store\<rparr>, Ok start))"

definition wal_flush :: "WAL \<Rightarrow> WAL" where
  "wal_flush w = w\<lparr>flushed_lsn := current_lsn w, flush_count := flush_count w + 1\<rparr>"

definition get_flushed_lsn :: "WAL \<Rightarrow> u64" where
  "get_flushed_lsn w = flushed_lsn w"

definition get_flush_count :: "WAL \<Rightarrow> u64" where
  "get_flush_count w = flush_count w"

definition ensure_flushed :: "u64 \<Rightarrow> WAL \<Rightarrow> WAL" where
  "ensure_flushed lsn w =
     (if current_lsn w > get_flushed_lsn w \<and> lsn \<ge> get_flushed_lsn w then wal_flush w else w)"

section \<open>Recovery\<close>

record RecoveryResult =
  replayed_lsn :: u64
  records_replayed :: u64
  consistent :: bool

definition RECOVERY_SEGMENT :: u64 where "RECOVERY_SEGMENT = 16 * 1024 * 1024"

definition apply_record :: "WALRecord \<Rightarrow> unit res" where
  "apply_record r = Ok ()"

definition encoded_len :: "(WALRecord \<Rightarrow> bytes res) \<Rightarrow> WALRecord \<Rightarrow> nat" where
  "encoded_len ser r = (case ser r of Inr d \<Rightarrow> length d | Inl _ \<Rightarrow> 0)"

text \<open>
  The inner loop over one segment. Every iteration that continues advances \<open>offset\<close>, so it ends.
\<close>

function replay_segment ::
    "(bytes \<Rightarrow> WALRecord option) \<Rightarrow> (WALRecord \<Rightarrow> bytes res) \<Rightarrow> u64 \<Rightarrow> u32 \<Rightarrow> bytes \<Rightarrow> nat \<Rightarrow>
       u64 \<times> u64 \<Rightarrow> (u64 \<times> u64) res" where
  "replay_segment dec ser redo seg data off (replayed, n) =
     (if off < length data then
        (case dec (drop off data) of
           None \<Rightarrow> Ok (replayed, n)
         | Some r \<Rightarrow>
             let len = encoded_len ser r
             in if len = 0 then Ok (replayed, n)
                else
                  let lsn = ucast seg * RECOVERY_SEGMENT + word_of_nat off
                  in and_then (if lsn \<ge> redo then and_then (apply_record r) (\<lambda>_. Ok (n + 1)) else Ok n)
                       (\<lambda>n'. replay_segment dec ser redo seg data (off + len) (lsn + word_of_nat len, n')))
      else Ok (replayed, n))"
  by pat_completeness auto
termination
  by (relation "measure (\<lambda>(_, _, _, _, data, off, _). length data - off)") auto

declare replay_segment.simps [simp del]

fun replay_segments ::
    "bool \<Rightarrow> 's StorageTrait \<Rightarrow> 's \<Rightarrow> (bytes \<Rightarrow> WALRecord option) \<Rightarrow> (WALRecord \<Rightarrow> bytes res) \<Rightarrow> u64 \<Rightarrow>
       nat \<Rightarrow> u32 \<Rightarrow> u64 \<times> u64 \<Rightarrow> (u64 \<times> u64) res" where
  "replay_segments oc st s dec ser redo 0 seg acc = Ok acc"
| "replay_segments oc st s dec ser redo (Suc k) seg acc =
     and_then (word_add oc seg 1) (\<lambda>page_id.
       case read_page st s page_id of
         Inl _ \<Rightarrow> Ok acc
       | Inr data \<Rightarrow> and_then (replay_segment dec ser redo seg data 0 acc)
                       (\<lambda>acc'. replay_segments oc st s dec ser redo k (seg + 1) acc'))"

text \<open>
  \<open>start..start + 10\<close> is empty when the end wraps around, which only a build without overflow checks
  reaches.
\<close>

definition recover_log ::
    "bool \<Rightarrow> 's StorageTrait \<Rightarrow> 's \<Rightarrow> (bytes \<Rightarrow> WALRecord option) \<Rightarrow> (WALRecord \<Rightarrow> bytes res) \<Rightarrow>
       ControlFile \<Rightarrow> (ControlFile \<times> RecoveryResult) res" where
  "recover_log oc st s dec ser c =
     (let start = ucast (redo_lsn c div RECOVERY_SEGMENT) :: u32
      in and_then (word_add oc start 10) (\<lambda>stop.
         and_then (replay_segments oc st s dec ser (redo_lsn c)
                     (if start < stop then 10 else 0) start (redo_lsn c, 0))
           (\<lambda>(replayed, n).
              Ok (c\<lparr>redo_lsn := replayed, check_point_lsn := replayed\<rparr>,
                  \<lparr>replayed_lsn = replayed, records_replayed = n, consistent = True\<rparr>))))"

section \<open>The checksum separates neighbouring messages\<close>

lemma xor_cancel_left: "c XOR u = c XOR v \<longleftrightarrow> u = v" for c u v :: u32
  by (metis xor.assoc xor.left_neutral xor_self_eq)

lemma xor_cancel_right: "u XOR c = v XOR c \<longleftrightarrow> u = v" for c u v :: u32
  by (metis xor.commute xor_cancel_left)

lemma ucast_byte_inj: "(ucast x :: u32) = ucast y \<longleftrightarrow> x = y" for x y :: byte
proof
  assume eq: "(ucast x :: u32) = ucast y"
  show "x = y"
  proof (rule bit_word_eqI)
    fix n
    assume "n < LENGTH(8)"
    then show "bit x n = bit y n" using arg_cong [OF eq, of "\<lambda>w. bit w n"] by (simp add: bit_simps)
  qed
qed simp

lemma low_bit: "a AND 1 \<noteq> 0 \<longleftrightarrow> bit a 0" for a :: u32
  by (simp add: and_one_eq bit_0 odd_iff_mod_2_eq_one)

lemma crc_shift_top: "bit (crc_shift a) 31 \<longleftrightarrow> bit a 0"
proof -
  have "\<not> bit a 32" using bit_imp_le_length [of a 32] by auto
  then show ?thesis unfolding crc_shift_def low_bit by (simp add: bit_simps)
qed

lemma crc_shift_inj: "crc_shift a = crc_shift b \<longleftrightarrow> a = b"
proof
  assume eq: "crc_shift a = crc_shift b"
  then have low: "bit a 0 = bit b 0" by (metis crc_shift_top)
  then have "drop_bit 1 a = drop_bit 1 b"
    using eq unfolding crc_shift_def low_bit by (cases "bit a 0") (simp_all add: xor_cancel_right)
  then have high: "bit a (Suc n) = bit b (Suc n)" for n
    by (metis bit_drop_bit_eq comp_apply plus_1_eq_Suc)
  show "a = b"
  proof (rule bit_word_eqI)
    fix n
    show "bit a n = bit b n" using low high by (cases n) simp_all
  qed
qed simp

lemma crc_byte_inj: "crc_byte x a = crc_byte x b \<longleftrightarrow> a = b"
  and crc_byte_inj2: "crc_byte x a = crc_byte y a \<longleftrightarrow> x = y"
proof -
  have shifts: "(crc_shift ^^ n) a = (crc_shift ^^ n) b \<longleftrightarrow> a = b" for n a b
    by (induction n) (auto simp: crc_shift_inj)
  show "crc_byte x a = crc_byte x b \<longleftrightarrow> a = b"
    unfolding crc_byte_def shifts by (rule xor_cancel_right)
  show "crc_byte x a = crc_byte y a \<longleftrightarrow> x = y"
    unfolding crc_byte_def shifts xor_cancel_left by (rule ucast_byte_inj)
qed

lemma crc_fold_inj: "fold crc_byte bs a = fold crc_byte bs b \<longleftrightarrow> a = b"
  by (induction bs arbitrary: a b) (auto simp: crc_byte_inj)

lemma crc_one_byte:
  "compute_crc (xs @ x # ys) = compute_crc (xs @ y # ys) \<longleftrightarrow> x = y"
  unfolding compute_crc_def xor_cancel_right by (simp add: crc_fold_inj crc_byte_inj2)

section \<open>What was appended stays readable\<close>

text \<open>
  The bytes at a position of the log, found the way \<open>append\<close> addresses them, and the fact that a
  record is stored there, before the end of the log.
\<close>

definition page_of :: "WAL \<Rightarrow> u64 \<Rightarrow> pid" where
  "page_of w lsn = ucast (1 + lsn div ucast (segment_size w))"

definition log_read :: "WAL \<Rightarrow> u64 \<Rightarrow> nat \<Rightarrow> bytes res" where
  "log_read w lsn n =
     and_then (read_page ephemeral (wal_storage w) (page_of w lsn)) (\<lambda>page.
       let off = unat (lsn mod ucast (segment_size w)) in slice off (off + n) page)"

definition stored :: "WAL \<Rightarrow> u64 \<Rightarrow> bytes \<Rightarrow> bool" where
  "stored w lsn bs \<longleftrightarrow>
     log_read w lsn (length bs) = Ok bs \<and> unat lsn + length bs \<le> unat (current_lsn w)"

lemma unat_ucast_seg [simp]: "unat (ucast (seg :: u32) :: u64) = unat seg"
proof -
  have "unat seg < 2 ^ 64" using unat32_less [of seg] by simp
  then show ?thesis by (simp add: unsigned_ucast_eq take_bit_nat_eq_self)
qed

lemma unat_of_len: "n < 2 ^ 64 \<Longrightarrow> unat (word_of_nat n :: u64) = n"
  by (simp add: unat_of_nat)

lemma page_number:
  fixes lsn seg :: u64
  assumes "1 + unat lsn div unat seg < 2 ^ 32"
  shows "unat (ucast (1 + lsn div seg) :: u32) = 1 + unat lsn div unat seg"
proof -
  have "unat (1 + lsn div seg) = 1 + unat lsn div unat seg"
    using assms by (subst unat_add_ok) (simp_all add: unat_div)
  then show ?thesis using assms by (simp add: unsigned_ucast_eq take_bit_nat_eq_self)
qed

lemma reserve_ok:
  fixes seg cur :: u64
  assumes "n \<le> unat seg" and "0 < unat seg" and "unat cur + 2 * unat seg < 2 ^ 64"
  obtains start nxt where "reserve oc seg cur (word_of_nat n) = Ok (start, nxt)"
    "unat cur \<le> unat start" "unat start \<le> unat cur + unat seg" "unat nxt = unat start + n"
    "unat start mod unat seg + n \<le> unat seg"
proof -
  let ?S = "unat seg" and ?c = "unat cur" and ?n = "word_of_nat n :: u64"
  have n: "unat ?n = n" using assms by (intro unat_of_len) simp
  have m: "unat (cur mod seg) = ?c mod ?S" by (simp add: unat_mod)
  have lt: "?c mod ?S < ?S" using assms(2) by simp
  have b: "?c + 2 * ?S < 18446744073709551616" using assms(3) by simp
  have sum: "unat (cur mod seg) + unat ?n < 2 ^ LENGTH(64)"
    by (simp add: n m) (use lt b assms(1) in linarith)
  show thesis
  proof (cases "?c mod ?S + n > ?S")
    case True
    have d: "unat (seg - cur mod seg) = ?S - ?c mod ?S"
      using lt m by (subst unat_sub) (simp_all add: word_le_nat_alt)
    let ?s = "cur + (seg - cur mod seg)"
    have s: "unat ?s = ?c + (?S - ?c mod ?S)" using d assms(3) by (subst unat_add_ok) simp_all
    have "?c + (?S - ?c mod ?S) = (?c div ?S + 1) * ?S"
    proof -
      have "c + (S - r) = (q + 1) * S" if "c = q * S + r" "r < S" for c q r S :: nat
        using that by simp
      then show ?thesis using lt div_mult_mod_eq [of ?c ?S] by metis
    qed
    then have z: "unat ?s mod ?S = 0" using s by simp
    have nx: "unat (?s + ?n) = unat ?s + n" using s n assms by (subst unat_add_ok) simp_all
    have gt: "cur mod seg + ?n > seg" using True n m sum by (simp add: word_less_nat_alt unat_add_ok)
    have "reserve oc seg cur ?n = Ok (?s, ?s + ?n)"
      using sum gt d s n assms by (simp add: reserve_def)
    then show thesis using that s nx z assms(1) by simp
  next
    case False
    have nx: "unat (cur + ?n) = ?c + n" using n assms by (subst unat_add_ok) simp_all
    have le: "\<not> cur mod seg + ?n > seg" using False n m sum by (simp add: word_less_nat_alt unat_add_ok)
    have "reserve oc seg cur ?n = Ok (cur, cur + ?n)"
      using sum le n assms by (simp add: reserve_def)
    then show thesis using that nx False by simp
  qed
qed

lemma write_record_ok:
  fixes seg start :: u64
  assumes "unat start mod unat seg + length bs \<le> unat seg" and "1 + unat start div unat seg < 2 ^ 32"
  obtains page where
    "write_record oc seg start bs store =
       Ok (store(ucast (1 + start div seg) \<mapsto> put_at (unat (start mod seg)) bs page))"
    "unat seg \<le> length page"
    "\<exists>k. page = (case store (ucast (1 + start div seg)) of Some d \<Rightarrow> d | None \<Rightarrow> replicate 8192 0) @ replicate k 0"
proof -
  let ?pid = "ucast (1 + start div seg) :: pid"
  let ?old = "case store ?pid of Some d \<Rightarrow> d | None \<Rightarrow> replicate 8192 0"
  let ?page = "if length ?old < unat seg then ?old @ replicate (unat seg - length ?old) 0 else ?old"
  have "unat (1 :: u64) + unat (start div seg) < 2 ^ LENGTH(64)" using assms(2) by (simp add: unat_div)
  moreover have m: "unat (start mod seg) = unat start mod unat seg" by (simp add: unat_mod)
  moreover have len: "unat seg \<le> length ?page" by simp
  moreover have "unat (start mod seg) + length bs \<le> length ?page" using m len assms(1) by linarith
  ultimately have "write_record oc seg start bs store =
      Ok (store(?pid \<mapsto> put_at (unat (start mod seg)) bs ?page))"
    by (simp add: write_record_def Let_def ephemeral_def ephemeral_read_def ephemeral_write_def
        put_slice_put_at del: put_slice_ok)
  moreover have "\<exists>k. ?page = ?old @ replicate k 0"
    by (cases "length ?old < unat seg") (auto intro: exI [of _ 0])
  ultimately show thesis using that len by blast
qed

lemma slice_sub: "slice a (a + n) xs = (if a + n \<le> length xs then Ok (sub a n xs) else panic)"
  by (simp add: slice_def sub_def)

lemma sub_append_left: "a + n \<le> length xs \<Longrightarrow> sub a n (xs @ ys) = sub a n xs"
  by (simp add: sub_def)

lemma log_read_eq:
  "log_read w lsn n =
     (let page = (case wal_storage w (page_of w lsn) of Some d \<Rightarrow> d | None \<Rightarrow> replicate 8192 0);
          off = unat (lsn mod ucast (segment_size w))
      in if off + n \<le> length page then Ok (sub off n page) else panic)"
  by (simp add: log_read_def ephemeral_def ephemeral_read_def slice_sub Let_def)

lemma stored_other_record:
  fixes w :: WAL and l start :: u64
  defines "seg \<equiv> ucast (segment_size w) :: u64"
  assumes st: "stored w l b" and after: "unat (current_lsn w) \<le> unat start"
    and fit: "unat start mod unat seg + length bs \<le> unat seg" and num: "1 + unat start div unat seg < 2 ^ 32"
    and big: "unat seg \<le> length page"
    and page: "page = (case wal_storage w (page_of w start) of Some d \<Rightarrow> d | None \<Rightarrow> replicate 8192 0) @ replicate k 0"
  shows "log_read (w\<lparr>current_lsn := c, wal_storage := (wal_storage w)(page_of w start \<mapsto>
           put_at (unat (start mod seg)) bs page)\<rparr>) l (length b) = Ok b"
    (is "log_read ?w l _ = _")
proof -
  have le: "unat l + length b \<le> unat start" using st after by (simp add: stored_def)
  then have "unat l div unat seg \<le> unat start div unat seg" by (simp add: div_le_mono)
  then have numl: "1 + unat l div unat seg < 2 ^ 32" using num by linarith
  have same: "page_of w l = page_of w start \<longleftrightarrow> unat l div unat seg = unat start div unat seg"
    unfolding page_of_def seg_def [symmetric] word_unat_eq_iff page_number [OF num] page_number [OF numl]
    by simp
  let ?off = "unat (l mod seg)"
  have off: "?off + length b \<le> unat (start mod seg)" if "page_of w l = page_of w start"
  proof -
    have l: "unat l = unat start div unat seg * unat seg + ?off"
      using same that div_mult_mod_eq [of "unat l" "unat seg"] by (simp add: unat_mod)
    have "unat start = unat start div unat seg * unat seg + unat (start mod seg)" by (simp add: unat_mod)
    then show ?thesis using l le by linarith
  qed
  have "unat (start mod seg) + length bs \<le> length page" using fit big by (simp add: unat_mod)
  then have "sub ?off (length b) (put_at (unat (start mod seg)) bs page) = sub ?off (length b) page"
    if "page_of w l = page_of w start" using off [OF that] by simp
  moreover have "log_read w l (length b) = Ok b" using st by (simp add: stored_def)
  ultimately show ?thesis
    using \<open>unat (start mod seg) + length bs \<le> length page\<close> unfolding log_read_eq Let_def seg_def
    by (auto simp: page_of_def page sub_append_left split: if_splits option.splits)
qed

lemma append_ok:
  assumes ser: "ser r = Ok bs" "length bs \<le> unat (segment_size w)" "0 < unat (segment_size w)"
    and room: "unat (current_lsn w) + 2 * unat (segment_size w) < 2 ^ 64"
      "2 + unat (current_lsn w) div unat (segment_size w) < 2 ^ 32"
  obtains w' lsn where "wal_append oc ser r w = (w', Ok lsn)" "segment_size w' = segment_size w"
    "unat (current_lsn w) \<le> unat lsn" "unat (current_lsn w') = unat lsn + length bs"
    "unat lsn \<le> unat (current_lsn w) + unat (segment_size w)"
    "stored w' lsn bs" "\<forall>l b. stored w l b \<longrightarrow> stored w' l b"
proof -
  let ?S = "unat (segment_size w)" and ?seg = "ucast (segment_size w) :: u64"
  obtain start nxt where r: "reserve oc ?seg (current_lsn w) (word_of_nat (length bs)) = Ok (start, nxt)"
    and s: "unat (current_lsn w) \<le> unat start" "unat start \<le> unat (current_lsn w) + ?S"
    and n: "unat nxt = unat start + length bs" and fit: "unat start mod unat ?seg + length bs \<le> unat ?seg"
    using reserve_ok [of "length bs" ?seg "current_lsn w" oc] ser room by auto
  have "unat start div ?S \<le> (unat (current_lsn w) + ?S) div ?S" using s(2) by (rule div_le_mono)
  also have "\<dots> = unat (current_lsn w) div ?S + 1" using ser(3) by (subst div_add_self2) auto
  finally have num: "1 + unat start div unat ?seg < 2 ^ 32" using room(2) by simp
  obtain page k where wr: "write_record oc ?seg start bs (wal_storage w) =
       Ok ((wal_storage w)(page_of w start \<mapsto> put_at (unat (start mod ?seg)) bs page))"
    and big: "unat ?seg \<le> length page"
    and page: "page = (case wal_storage w (page_of w start) of Some d \<Rightarrow> d | None \<Rightarrow> replicate 8192 0) @ replicate k 0"
    using write_record_ok [OF fit num, of oc "wal_storage w"] unfolding page_of_def by metis
  let ?w = "w\<lparr>current_lsn := nxt, wal_storage := (wal_storage w)(page_of w start \<mapsto>
           put_at (unat (start mod ?seg)) bs page)\<rparr>"
  have "?seg \<noteq> 0" using ser(3) by (metis unat_0 unat_ucast_seg less_irrefl)
  then have "wal_append oc ser r w = (?w, Ok start)" using ser(1) r wr by (simp add: wal_append_def)
  moreover have "unat (start mod ?seg) + length bs \<le> length page" using fit big by (simp add: unat_mod)
  then have "stored ?w start bs" using n by (simp add: stored_def log_read_eq page_of_def Let_def)
  moreover have "stored ?w l b" if "stored w l b" for l b
    using stored_other_record [OF that s(1) fit num big page] that s(1) n by (simp add: stored_def)
  ultimately show thesis using that [of ?w start] s n by simp
qed

text \<open>A sequence of appends, up to the first failure, with the positions it returned.\<close>

fun append_all :: "bool \<Rightarrow> (WALRecord \<Rightarrow> bytes res) \<Rightarrow> WALRecord list \<Rightarrow> WAL \<Rightarrow> WAL \<times> u64 list res" where
  "append_all oc ser [] w = (w, Ok [])"
| "append_all oc ser (r # rs) w =
     (case wal_append oc ser r w of
        (w', Inl e) \<Rightarrow> (w', Inl e)
      | (w', Inr lsn) \<Rightarrow>
          (case append_all oc ser rs w' of
             (w'', Inl e) \<Rightarrow> (w'', Inl e)
           | (w'', Inr lsns) \<Rightarrow> (w'', Ok (lsn # lsns))))"

lemma append_all_ok:
  assumes "0 < unat (segment_size w)" and "unat (current_lsn w) \<le> 2 * k * unat (segment_size w)"
    and "k + length rs < 2 ^ 31 - 1"
    and "\<forall>r \<in> set rs. \<exists>bs. ser r = Ok bs \<and> length bs \<le> unat (segment_size w)"
  shows "\<exists>w' lsns. append_all oc ser rs w = (w', Ok lsns) \<and>
     list_all2 (\<lambda>r l. \<exists>bs. ser r = Ok bs \<and> stored w' l bs) rs lsns \<and>
     sorted_wrt (\<lambda>(r, l) (r', l'). unat l + encoded_len ser r \<le> unat l') (zip rs lsns) \<and>
     (\<forall>l \<in> set lsns. unat (current_lsn w) \<le> unat l) \<and>
     (\<forall>l b. stored w l b \<longrightarrow> stored w' l b)"
  using assms
proof (induction rs arbitrary: w k)
  case Nil
  then show ?case by simp
next
  case (Cons r rs)
  let ?S = "unat (segment_size w)" and ?c = "unat (current_lsn w)"
  obtain bs where bs: "ser r = Ok bs" "length bs \<le> ?S" using Cons.prems(4) by auto
  have S: "?S < 2 ^ 32" using unat32_less by simp
  have "(2 * k + 2) * ?S < 2 ^ 32 * 2 ^ 32"
    using Cons.prems(3) S by (intro mult_strict_mono) auto
  then have room: "?c + 2 * ?S < 2 ^ 64" using Cons.prems(2) by (simp add: algebra_simps)
  have "?c div ?S \<le> (2 * k * ?S) div ?S" using Cons.prems(2) by (rule div_le_mono)
  then have "?c div ?S \<le> 2 * k" using Cons.prems(1) by simp
  then have num: "2 + ?c div ?S < 2 ^ 32" using Cons.prems(3) by simp
  obtain w1 lsn where a: "wal_append oc ser r w = (w1, Ok lsn)" "segment_size w1 = segment_size w"
    and le: "?c \<le> unat lsn" "unat (current_lsn w1) = unat lsn + length bs" "unat lsn \<le> ?c + ?S"
    and st: "stored w1 lsn bs" and keep: "\<forall>l b. stored w l b \<longrightarrow> stored w1 l b"
    using append_ok [of ser r, OF bs Cons.prems(1) room num] by blast
  have "unat (current_lsn w1) \<le> 2 * (k + 1) * unat (segment_size w1)"
    using le bs(2) Cons.prems(2) a(2) by (simp add: algebra_simps)
  then obtain w' lsns where run: "append_all oc ser rs w1 = (w', Ok lsns)"
    and all: "list_all2 (\<lambda>r l. \<exists>bs. ser r = Ok bs \<and> stored w' l bs) rs lsns"
    and sort: "sorted_wrt (\<lambda>(r, l) (r', l'). unat l + encoded_len ser r \<le> unat l') (zip rs lsns)"
    and later: "\<forall>l \<in> set lsns. unat (current_lsn w1) \<le> unat l"
    and keep': "\<forall>l b. stored w1 l b \<longrightarrow> stored w' l b"
    using Cons.IH [of w1 "k + 1"] Cons.prems a(2) by auto
  have "unat lsn + encoded_len ser r \<le> unat l" if "(r', l) \<in> set (zip rs lsns)" for r' l
    using later le(2) bs set_zip_rightD [OF that] by (simp add: encoded_len_def)
  moreover have "?c \<le> unat l" if "l \<in> set lsns" for l using later le that by fastforce
  ultimately show ?case using a run all sort st keep keep' bs le(1) by auto
qed

section \<open>Properties\<close>

text \<open>
  C8: the log keeps what is appended. Starting from an empty log, every sequence of fewer than
  \<open>2 ^ 31 - 1\<close> records whose encodings fit into a segment is appended without error or panic; the
  positions returned increase, no record overlaps the next one, and afterwards the bytes at each
  position are the encoding of the record appended there.
\<close>

theorem wal_append_readable:
  assumes "0 < unat seg" and "length rs < 2 ^ 31 - 1"
    and "\<forall>r \<in> set rs. \<exists>bs. ser r = Ok bs \<and> length bs \<le> unat seg"
  shows "\<exists>w lsns. append_all oc ser rs (new_wal seg) = (w, Ok lsns) \<and>
     list_all2 (\<lambda>r l. \<exists>bs. ser r = Ok bs \<and> log_read w l (length bs) = Ok bs) rs lsns \<and>
     sorted_wrt (\<lambda>(r, l) (r', l'). unat l + encoded_len ser r \<le> unat l') (zip rs lsns)"
proof -
  obtain w lsns where "append_all oc ser rs (new_wal seg) = (w, Ok lsns)"
    and all: "list_all2 (\<lambda>r l. \<exists>bs. ser r = Ok bs \<and> stored w l bs) rs lsns"
    and "sorted_wrt (\<lambda>(r, l) (r', l'). unat l + encoded_len ser r \<le> unat l') (zip rs lsns)"
    using append_all_ok [of "new_wal seg" 0 rs ser oc] assms by (auto simp: new_wal_def)
  moreover have "list_all2 (\<lambda>r l. \<exists>bs. ser r = Ok bs \<and> log_read w l (length bs) = Ok bs) rs lsns"
    using all by (rule list_all2_mono) (auto simp: stored_def)
  ultimately show ?thesis by blast
qed

theorem wal_append_readable_witness:
  "\<exists>w lsns. append_all True (\<lambda>r. Ok [1, 2, 3]) [Begin 1, Commit 1] (new_wal 4) = (w, Ok lsns) \<and>
     list_all2 (\<lambda>r l. \<exists>bs. Ok [1, 2, 3] = (Ok bs :: bytes res) \<and> log_read w l (length bs) = Ok bs)
       [Begin 1, Commit 1] lsns"
proof -
  have "\<forall>r \<in> set [Begin 1, Commit 1]. \<exists>bs. Ok [1, 2, 3] = (Ok bs :: bytes res) \<and> length bs \<le> unat (4 :: u32)"
    by simp
  from wal_append_readable [OF _ _ this, of True] show ?thesis by auto
qed

text \<open>
  The record checksum detects every corruption of a single byte: the header made for a payload
  verifies that payload, survives being written and read, and rejects each payload that differs from it
  in exactly one byte.
\<close>

theorem crc_detects_byte:
  assumes "new_xlog_record oc xid info rmid (xs @ x # ys) = Ok r" and "x \<noteq> y"
  shows "xl_deserialize (xl_serialize r) = Ok r \<and> verify_crc r (xs @ x # ys) \<and> \<not> verify_crc r (xs @ y # ys)"
proof -
  have "xl_crc r = compute_crc (xs @ x # ys)"
    using assms(1) by (auto simp: new_xlog_record_def and_then_eq_Inr)
  then show ?thesis
    using xl_roundtrip [of r "[]"] assms(2) by (simp add: verify_crc_def crc_one_byte)
qed

theorem crc_detects_byte_witness:
  "\<exists>r. new_xlog_record True 7 0 0 [1, 2, 3] = Ok r \<and> verify_crc r [1, 2, 3] \<and> \<not> verify_crc r [1, 9, 3]"
proof -
  obtain r where r: "new_xlog_record True 7 0 0 ([1] @ 2 # [3]) = Ok r"
    by (simp add: new_xlog_record_def word_add_def)
  have "(2 :: byte) \<noteq> 9" by simp
  from crc_detects_byte [OF r this] r show ?thesis by auto
qed

text \<open>
  The fixed formats of the log are read back exactly: page header, checkpoint record and control
  file, from the front of any longer buffer; a new control file is valid after a write-read cycle.
\<close>

theorem wal_formats_roundtrip:
  "xlp_deserialize (xlp_serialize h @ rest) = Ok h \<and>
   checkpoint_deserialize (checkpoint_serialize c @ rest) = Ok c \<and>
   control_deserialize (control_serialize f @ rest) = Ok f \<and>
   (\<exists>f'. control_deserialize (control_serialize (create_control_file i)) = Ok f' \<and> control_is_valid f')"
  by (simp add: xlog_page.dec_enc checkpoint.dec_enc control.dec_enc control.roundtrip
      control_is_valid_def create_control_file_def)

text \<open>
  \<open>ensure_flushed\<close> makes every position before the end of the log durable, never moves the flushed
  position past the end, and does not touch the log's contents.
\<close>

theorem ensure_flushed_durable:
  assumes "flushed_lsn w \<le> current_lsn w"
  shows "(lsn < current_lsn w \<longrightarrow> lsn < get_flushed_lsn (ensure_flushed lsn w)) \<and>
     flushed_lsn w \<le> flushed_lsn (ensure_flushed lsn w) \<and>
     flushed_lsn (ensure_flushed lsn w) \<le> current_lsn (ensure_flushed lsn w) \<and>
     log_read (ensure_flushed lsn w) l n = log_read w l n"
  using assms
  by (auto simp: ensure_flushed_def wal_flush_def get_flushed_lsn_def log_read_def page_of_def)

theorem ensure_flushed_durable_witness:
  "(5 :: u64) < get_flushed_lsn (ensure_flushed 5 ((new_wal 4)\<lparr>current_lsn := 8, flushed_lsn := 2\<rparr>))"
  using ensure_flushed_durable [of "(new_wal 4)\<lparr>current_lsn := 8, flushed_lsn := 2\<rparr>" 5 0 0] by simp

text \<open>
  Replay of a segment of zeros. \<open>bincode\<close> writes an enum as its variant number in four bytes and a
  \<open>u64\<close> in eight, so twelve zero bytes are the record \<open>Begin 0\<close>.
\<close>

lemma replay_zeros:
  assumes dec: "\<And>n. dec (replicate n 0) = (if 12 \<le> n then Some (Begin 0) else None)"
    and ser: "ser (Begin 0) = Ok (replicate 12 0)"
  shows "j \<le> 682 \<Longrightarrow>
    replay_segment dec ser 0 seg (replicate 8192 0) (8184 - 12 * j) (rl, n) =
      Ok (if j = 0 then rl else ucast seg * RECOVERY_SEGMENT + 8184, n + word_of_nat j)"
proof (induction j arbitrary: rl n)
  case 0
  then show ?case by (subst replay_segment.simps) (simp add: dec)
next
  case (Suc j)
  define off where "off = 8184 - 12 * Suc j"
  have off: "off + 12 = 8184 - 12 * j" "off < 8192" "12 \<le> 8192 - off" using Suc.prems by (simp_all add: off_def)
  have "replay_segment dec ser 0 seg (replicate 8192 0) off (rl, n) =
      replay_segment dec ser 0 seg (replicate 8192 0) (off + 12)
        (ucast seg * RECOVERY_SEGMENT + word_of_nat off + 12, n + 1)"
    using off by (subst replay_segment.simps) (simp add: dec ser encoded_len_def apply_record_def Let_def)
  also have "\<dots> = Ok (ucast seg * RECOVERY_SEGMENT + 8184, n + word_of_nat (Suc j))"
  proof -
    have "j = 0 \<Longrightarrow> word_of_nat off + (12 :: u64) = 8184" by (simp add: off_def)
    then show ?thesis using Suc off(1) by (simp add: add.assoc)
  qed
  finally show ?case by (simp add: off_def)
qed

text \<open>
  Replay does not stop at the end of the log. On an empty store, read through the in-memory
  backend, recovery of a new database decodes the zero bytes of ten segments as 6820 records, reports
  them as replayed, and moves the redo position of the control file from 0 to the tenth segment,
  from where the next recovery starts.
\<close>

theorem recovery_replays_zeros:
  assumes "\<And>n. dec (replicate n 0) = (if 12 \<le> n then Some (Begin 0) else None)"
    and "ser (Begin 0) = Ok (replicate 12 0)"
  shows "\<exists>c' r. recover_log oc ephemeral new_ephemeral dec ser (create_control_file i) = Ok (c', r) \<and>
     records_replayed r = 6820 \<and> consistent r \<and> redo_lsn c' = 9 * 16777216 + 8184"
proof -
  have seg: "replay_segment dec ser 0 seg (replicate 8192 0) 0 (rl, n) =
      Ok (ucast seg * RECOVERY_SEGMENT + 8184, n + 682)" for seg rl n
    using replay_zeros [of dec ser 682 seg rl n] assms by simp
  have read: "read_page ephemeral new_ephemeral p = Ok (replicate 8192 0)" for p
    by (simp add: ephemeral_def ephemeral_read_def new_ephemeral_def)
  have ten: "(10 :: nat) = Suc (Suc (Suc (Suc (Suc (Suc (Suc (Suc (Suc (Suc 0)))))))))" by simp
  have "replay_segments oc ephemeral new_ephemeral dec ser 0 10 0 (0, 0) =
      Ok (9 * RECOVERY_SEGMENT + 8184, 6820)"
    unfolding ten by (simp add: read seg word_add_def)
  then show ?thesis
    by (simp add: recover_log_def create_control_file_def RECOVERY_SEGMENT_def word_add_def)
qed

theorem recovery_replays_zeros_witness:
  "\<exists>c' r. recover_log True ephemeral new_ephemeral
       (\<lambda>bs. if 12 \<le> length bs \<and> (\<forall>b \<in> set bs. b = 0) then Some (Begin 0) else None)
       (\<lambda>_. Ok (replicate 12 0)) (create_control_file 5) = Ok (c', r) \<and>
     records_replayed r = 6820 \<and> redo_lsn c' = 9 * 16777216 + 8184"
proof -
  let ?dec = "\<lambda>bs :: bytes. if 12 \<le> length bs \<and> (\<forall>b \<in> set bs. b = 0) then Some (Begin 0) else None"
  have "?dec (replicate n 0) = (if 12 \<le> n then Some (Begin 0) else None)" for n by auto
  from recovery_replays_zeros [OF this refl, of True 5] show ?thesis by blast
qed

end
