(* ===== verification/Buffer_Pool.thy ===== *)
theory Buffer_Pool
  imports WAL
begin

text \<open>
  The buffer cache of \<open>buffer_cache/mod.rs\<close>: the ring for sequential scans, the buffer pool with its
  clock sweep, the shared cache on top of it, and the checkpointer. The storage below is a trait
  object, so every operation takes the record \<open>st\<close> of its methods and threads the storage state.
  Each mutex of the pool is held for the length of one step of an operation; the operations are
  modelled one call at a time. After a panic the state is the one before the call.
\<close>

section \<open>The ring for sequential scans\<close>

record SeqScanRing =
  ring_pages :: "(pid \<times> bytes) option list"
  ring_head :: nat
  ring_capacity :: nat

definition new_ring :: "nat \<Rightarrow> SeqScanRing" where
  "new_ring cap = \<lparr>ring_pages = replicate cap None, ring_head = 0, ring_capacity = cap\<rparr>"

definition next_page ::
    "'s StorageTrait \<Rightarrow> 's \<Rightarrow> pid \<Rightarrow> SeqScanRing \<Rightarrow> SeqScanRing \<times> bytes res" where
  "next_page st s p ring =
     (if ring_capacity ring = 0 then (ring, panic)
      else
        let slot = ring_head ring mod ring_capacity ring;
            load = (case read_page st s p of
                      Inl e \<Rightarrow> (ring, Inl e)
                    | Inr d \<Rightarrow> (ring\<lparr>ring_pages := (ring_pages ring)[slot := Some (p, d)],
                                     ring_head := Suc (ring_head ring)\<rparr>, Ok d))
        in if slot \<ge> length (ring_pages ring) then (ring, panic)
           else case ring_pages ring ! slot of
               Some (q, d) \<Rightarrow> (if q = p then (ring\<lparr>ring_head := Suc (ring_head ring)\<rparr>, Ok d) else load)
             | None \<Rightarrow> load)"

definition reset_ring :: "SeqScanRing \<Rightarrow> SeqScanRing" where
  "reset_ring ring = ring\<lparr>ring_pages := map (\<lambda>_. None) (ring_pages ring), ring_head := 0\<rparr>"

section \<open>The buffer pool\<close>

record Buffer =
  buf_page :: pid
  buf_data :: bytes
  is_dirty :: bool
  usage_count :: u32
  pin_count :: u32

record BufferPool =
  pool_size :: nat
  buffers :: "Buffer list"
  page_map :: "pid \<rightharpoonup> nat"
  next_victim :: nat

definition new_buffer_pool :: "nat \<Rightarrow> BufferPool" where
  "new_buffer_pool n =
     \<lparr>pool_size = n,
      buffers = replicate n \<lparr>buf_page = 0, buf_data = replicate 8192 0, is_dirty = False,
                             usage_count = 0, pin_count = 0\<rparr>,
      page_map = Map.empty, next_victim = 0\<rparr>"

text \<open>
  The clock sweep: the first loop of \<open>find_victim\<close>, with the number of turns left. It gives the
  buffers with their lowered usage counts and the victim, if a turn found one.
\<close>

fun sweep :: "nat \<Rightarrow> nat \<Rightarrow> nat \<Rightarrow> Buffer list \<Rightarrow> (Buffer list \<times> nat option) res" where
  "sweep 0 n hand bufs = Ok (bufs, None)"
| "sweep (Suc k) n hand bufs =
     (if hand \<ge> length bufs then panic
      else let b = bufs ! hand
           in if pin_count b = 0 then
                (if usage_count b > 0
                 then sweep k n (Suc hand mod n) (bufs[hand := b\<lparr>usage_count := usage_count b - 1\<rparr>])
                 else Ok (bufs, Some hand))
              else sweep k n (Suc hand mod n) bufs)"

definition find_victim :: "BufferPool \<Rightarrow> (BufferPool \<times> nat) res" where
  "find_victim pool =
     and_then (sweep (pool_size pool * 2) (pool_size pool) (next_victim pool) (buffers pool))
       (\<lambda>(bufs, found).
          case found of
            Some v \<Rightarrow> Ok (pool\<lparr>buffers := bufs, next_victim := Suc v mod pool_size pool\<rparr>, v)
          | None \<Rightarrow>
              (case position (\<lambda>b. pin_count b = 0) bufs of
                 Some i \<Rightarrow> Ok (pool\<lparr>buffers := bufs, next_victim := Suc i mod pool_size pool\<rparr>, i)
               | None \<Rightarrow> Ok (pool\<lparr>buffers := bufs\<rparr>, 0)))"

text \<open>One more user of a buffer; the counters are \<open>u32\<close>.\<close>

definition bump :: "bool \<Rightarrow> Buffer \<Rightarrow> Buffer res" where
  "bump oc b =
     and_then (word_add oc (usage_count b) 1) (\<lambda>u.
     and_then (word_add oc (pin_count b) 1) (\<lambda>c. Ok (b\<lparr>usage_count := u, pin_count := c\<rparr>)))"

definition install :: "nat \<Rightarrow> pid \<Rightarrow> bytes \<Rightarrow> BufferPool \<Rightarrow> BufferPool" where
  "install slot p d pool =
     pool\<lparr>buffers := (buffers pool)[slot := \<lparr>buf_page = p, buf_data = d, is_dirty = False,
                                             usage_count = 1, pin_count = 1\<rparr>],
          page_map := (page_map pool)(p \<mapsto> slot)\<rparr>"

definition fetch_page ::
    "bool \<Rightarrow> 's StorageTrait \<Rightarrow> pid \<Rightarrow> BufferPool \<times> 's \<Rightarrow> (BufferPool \<times> 's) \<times> nat res" where
  "fetch_page oc st p ps =
     (let (pool, s) = ps
      in case page_map pool p of
          Some idx \<Rightarrow>
            (if idx \<ge> length (buffers pool) then (ps, panic)
             else case bump oc (buffers pool ! idx) of
                 Inl e \<Rightarrow> (ps, Inl e)
               | Inr b \<Rightarrow> ((pool\<lparr>buffers := (buffers pool)[idx := b]\<rparr>, s), Ok idx))
        | None \<Rightarrow>
            (case find_victim pool of
               Inl e \<Rightarrow> (ps, Inl e)
             | Inr (pool', slot) \<Rightarrow>
                 (case read_page st s p of
                    Inl e \<Rightarrow> ((pool', s), Inl e)
                  | Inr d \<Rightarrow>
                      if slot \<ge> length (buffers pool') then (ps, panic)
                      else
                        let old = buffers pool' ! slot
                        in if is_dirty old \<and> pin_count old = 0 then
                             (case write_page st s (buf_page old) (buf_data old) of
                                Inl e \<Rightarrow> ((pool', s), Inl e)
                              | Inr s' \<Rightarrow>
                                  ((install slot p d (pool'\<lparr>page_map := (page_map pool')(buf_page old := None)\<rparr>), s'),
                                   Ok slot))
                           else ((install slot p d pool', s), Ok slot))))"

definition pin_page :: "bool \<Rightarrow> pid \<Rightarrow> BufferPool \<Rightarrow> BufferPool \<times> nat option res" where
  "pin_page oc p pool =
     (case page_map pool p of
        None \<Rightarrow> (pool, Ok None)
      | Some idx \<Rightarrow>
          (if idx \<ge> length (buffers pool) then (pool, panic)
           else case bump oc (buffers pool ! idx) of
               Inl e \<Rightarrow> (pool, Inl e)
             | Inr b \<Rightarrow> (pool\<lparr>buffers := (buffers pool)[idx := b]\<rparr>, Ok (Some idx))))"

text \<open>\<open>saturating_sub(1)\<close> on the pin count.\<close>

definition unpin_page :: "pid \<Rightarrow> bool \<Rightarrow> BufferPool \<Rightarrow> BufferPool res" where
  "unpin_page p dirty pool =
     (case page_map pool p of
        None \<Rightarrow> Ok pool
      | Some idx \<Rightarrow>
          (if idx \<ge> length (buffers pool) then panic
           else let b = buffers pool ! idx
                in Ok (pool\<lparr>buffers := (buffers pool)[idx :=
                     b\<lparr>pin_count := (if pin_count b = 0 then 0 else pin_count b - 1),
                       is_dirty := (if dirty then True else is_dirty b)\<rparr>]\<rparr>)))"

definition flush_page ::
    "'s StorageTrait \<Rightarrow> pid \<Rightarrow> BufferPool \<times> 's \<Rightarrow> (BufferPool \<times> 's) \<times> unit res" where
  "flush_page st p ps =
     (let (pool, s) = ps
      in case page_map pool p of
          None \<Rightarrow> (ps, Ok ())
        | Some idx \<Rightarrow>
            (if idx \<ge> length (buffers pool) then (ps, panic)
             else let b = buffers pool ! idx
                  in if is_dirty b then
                       (case write_page st s p (buf_data b) of
                          Inl e \<Rightarrow> (ps, Inl e)
                        | Inr s' \<Rightarrow> ((pool\<lparr>buffers := (buffers pool)[idx := b\<lparr>is_dirty := False\<rparr>]\<rparr>, s'), Ok ()))
                     else (ps, Ok ())))"

text \<open>\<open>flush_all\<close> goes over a copy of the map; the order of its keys is the argument \<open>ks\<close>.\<close>

fun flush_all ::
    "'s StorageTrait \<Rightarrow> pid list \<Rightarrow> BufferPool \<times> 's \<Rightarrow> (BufferPool \<times> 's) \<times> unit res" where
  "flush_all st [] ps = (ps, Ok ())"
| "flush_all st (p # ks) ps =
     (case flush_page st p ps of
        (ps', Inl e) \<Rightarrow> (ps', Inl e)
      | (ps', Inr _) \<Rightarrow> flush_all st ks ps')"

definition dirty_count :: "BufferPool \<Rightarrow> nat" where
  "dirty_count pool = length (filter is_dirty (buffers pool))"

definition invalidate_page :: "pid \<Rightarrow> BufferPool \<Rightarrow> BufferPool res" where
  "invalidate_page p pool =
     (case page_map pool p of
        None \<Rightarrow> Ok pool
      | Some idx \<Rightarrow>
          (if idx \<ge> length (buffers pool) then panic
           else Ok (pool\<lparr>page_map := (page_map pool)(p := None),
                         buffers := (buffers pool)[idx := (buffers pool ! idx)\<lparr>is_dirty := False,
                                      usage_count := 0, pin_count := 0\<rparr>]\<rparr>)))"

section \<open>The shared cache\<close>

record MutableRelationState =
  rs_relation :: Relation
  dirty_buffers :: "pid list"

record 's SharedBufferCache =
  cache_storage :: 's
  cache_pool :: BufferPool
  rels :: "oid \<rightharpoonup> MutableRelationState"

definition new_cache :: "'s \<Rightarrow> 's SharedBufferCache" where
  "new_cache s = \<lparr>cache_storage = s, cache_pool = new_buffer_pool 1024, rels = Map.empty\<rparr>"

definition get_relation_state :: "oid \<Rightarrow> 's SharedBufferCache \<Rightarrow> MutableRelationState option" where
  "get_relation_state rel c = rels c rel"

definition register_relation :: "Relation \<Rightarrow> 's SharedBufferCache \<Rightarrow> 's SharedBufferCache" where
  "register_relation r c =
     (case rels c (relid r) of
        Some _ \<Rightarrow> c
      | None \<Rightarrow> c\<lparr>rels := (rels c)(relid r \<mapsto> \<lparr>rs_relation = r, dirty_buffers = []\<rparr>)\<rparr>)"

text \<open>\<open>sync_from_catalog\<close> registers the relations the catalog lists.\<close>

definition sync_from_catalog :: "Relation list \<Rightarrow> 's SharedBufferCache \<Rightarrow> 's SharedBufferCache" where
  "sync_from_catalog rs c = fold register_relation rs c"

definition unregister_relation :: "oid \<Rightarrow> 's SharedBufferCache \<Rightarrow> 's SharedBufferCache" where
  "unregister_relation rel c = c\<lparr>rels := (rels c)(rel := None)\<rparr>"

definition with_pool ::
    "(BufferPool \<times> 's \<Rightarrow> (BufferPool \<times> 's) \<times> 'a) \<Rightarrow> 's SharedBufferCache \<Rightarrow> 's SharedBufferCache \<times> 'a" where
  "with_pool f c =
     (case f (cache_pool c, cache_storage c) of
        ((p, s), r) \<Rightarrow> (c\<lparr>cache_pool := p, cache_storage := s\<rparr>, r))"

definition buffer_data :: "BufferPool \<Rightarrow> nat \<Rightarrow> bytes res" where
  "buffer_data p idx = (if idx < length (buffers p) then Ok (buf_data (buffers p ! idx)) else panic)"

definition cache_fetch_page ::
    "bool \<Rightarrow> 's StorageTrait \<Rightarrow> pid \<Rightarrow> 's SharedBufferCache \<Rightarrow> 's SharedBufferCache \<times> bytes res" where
  "cache_fetch_page oc st p c =
     (case with_pool (fetch_page oc st p) c of
        (c', r) \<Rightarrow> (c', and_then r (buffer_data (cache_pool c'))))"

fun fetch_indices ::
    "bool \<Rightarrow> 's StorageTrait \<Rightarrow> pid list \<Rightarrow> 's SharedBufferCache \<Rightarrow>
       's SharedBufferCache \<times> (pid \<times> nat) list res" where
  "fetch_indices oc st [] c = (c, Ok [])"
| "fetch_indices oc st (p # ps) c =
     (case with_pool (fetch_page oc st p) c of
        (c', Inl e) \<Rightarrow> (c', Inl e)
      | (c', Inr idx) \<Rightarrow>
          (case fetch_indices oc st ps c' of
             (c'', Inl e) \<Rightarrow> (c'', Inl e)
           | (c'', Inr is) \<Rightarrow> (c'', Ok ((p, idx) # is))))"

fun read_indices :: "BufferPool \<Rightarrow> (pid \<times> nat) list \<Rightarrow> (pid \<times> bytes) list res" where
  "read_indices bp [] = Ok []"
| "read_indices bp ((p, idx) # is) =
     and_then (buffer_data bp idx) (\<lambda>d. and_then (read_indices bp is) (\<lambda>ds. Ok ((p, d) # ds)))"

definition fetch_pages_batch ::
    "bool \<Rightarrow> 's StorageTrait \<Rightarrow> pid list \<Rightarrow> 's SharedBufferCache \<Rightarrow>
       's SharedBufferCache \<times> (pid \<times> bytes) list res" where
  "fetch_pages_batch oc st ps c =
     (case fetch_indices oc st ps c of (c', r) \<Rightarrow> (c', and_then r (read_indices (cache_pool c'))))"

definition cache_invalidate_page :: "pid \<Rightarrow> 's SharedBufferCache \<Rightarrow> 's SharedBufferCache res" where
  "cache_invalidate_page p c = and_then (invalidate_page p (cache_pool c)) (\<lambda>bp. Ok (c\<lparr>cache_pool := bp\<rparr>))"

definition scan_read_page :: "'s StorageTrait \<Rightarrow> pid \<Rightarrow> 's SharedBufferCache \<Rightarrow> bytes res" where
  "scan_read_page st p c = read_page st (cache_storage c) p"

text \<open>\<open>flush_dirty_pages\<close>: the copy of the map decides which slot is looked at for each key.\<close>

fun flush_dirty ::
    "'s StorageTrait \<Rightarrow> (pid \<rightharpoonup> nat) \<Rightarrow> pid list \<Rightarrow> BufferPool \<times> 's \<Rightarrow> nat \<Rightarrow>
       (BufferPool \<times> 's) \<times> nat res" where
  "flush_dirty st m [] ps n = (ps, Ok n)"
| "flush_dirty st m (p # ks) ps n =
     (case m p of
        None \<Rightarrow> flush_dirty st m ks ps n
      | Some idx \<Rightarrow>
          (if idx \<ge> length (buffers (fst ps)) then (ps, panic)
           else if is_dirty (buffers (fst ps) ! idx) then
             (case flush_page st p ps of
                (ps', Inl e) \<Rightarrow> (ps', Inl e)
              | (ps', Inr _) \<Rightarrow> flush_dirty st m ks ps' (Suc n))
           else flush_dirty st m ks ps n))"

definition flush_dirty_pages ::
    "'s StorageTrait \<Rightarrow> pid list \<Rightarrow> 's SharedBufferCache \<Rightarrow> 's SharedBufferCache \<times> nat res" where
  "flush_dirty_pages st ks c = with_pool (\<lambda>ps. flush_dirty st (page_map (cache_pool c)) ks ps 0) c"

section \<open>The checkpointer\<close>

text \<open>The cache, the log and the redo position recorded by the last checkpoint.\<close>

record 's Checkpointer =
  ckpt_cache :: "'s SharedBufferCache"
  ckpt_wal :: WAL
  ckpt_redo_lsn :: u64

definition new_checkpointer :: "'s SharedBufferCache \<Rightarrow> WAL \<Rightarrow> 's Checkpointer" where
  "new_checkpointer c w = \<lparr>ckpt_cache = c, ckpt_wal = w, ckpt_redo_lsn = 0\<rparr>"

definition do_checkpoint ::
    "'s StorageTrait \<Rightarrow> pid list \<Rightarrow> 's Checkpointer \<Rightarrow> 's Checkpointer \<times> u64 res" where
  "do_checkpoint st ks k =
     (case flush_dirty_pages st ks (ckpt_cache k) of
        (c, Inl e) \<Rightarrow> (k\<lparr>ckpt_cache := c\<rparr>, Inl e)
      | (c, Inr _) \<Rightarrow>
          let w = wal_flush (ckpt_wal k); lsn = get_flushed_lsn w
          in (k\<lparr>ckpt_cache := c, ckpt_wal := w, ckpt_redo_lsn := lsn\<rparr>, Ok lsn))"

section \<open>The victim\<close>

text \<open>A sweep changes nothing but usage counts.\<close>

abbreviation idle :: "Buffer \<Rightarrow> Buffer" where
  "idle b \<equiv> b\<lparr>usage_count := 0\<rparr>"

lemma idle_fields:
  assumes "map idle bs' = map idle bs" and "i < length bs"
  shows "buf_page (bs' ! i) = buf_page (bs ! i)" "buf_data (bs' ! i) = buf_data (bs ! i)"
    "is_dirty (bs' ! i) = is_dirty (bs ! i)" "pin_count (bs' ! i) = pin_count (bs ! i)"
proof -
  have "length bs' = length bs" using assms(1) by (metis length_map)
  then have "idle (bs' ! i) = idle (bs ! i)" using assms by (metis nth_map)
  then show "buf_page (bs' ! i) = buf_page (bs ! i)" "buf_data (bs' ! i) = buf_data (bs ! i)"
    "is_dirty (bs' ! i) = is_dirty (bs ! i)" "pin_count (bs' ! i) = pin_count (bs ! i)"
    by (cases "bs ! i"; cases "bs' ! i"; simp)+
qed

lemma sweep_ok:
  assumes "hand < n" and "length bs = n"
  shows "\<exists>bs' r. sweep k n hand bs = Ok (bs', r) \<and> map idle bs' = map idle bs \<and>
     (\<forall>v. r = Some v \<longrightarrow> v < n \<and> pin_count (bs' ! v) = 0)"
  using assms
proof (induction k arbitrary: hand bs)
  case 0
  then show ?case by simp
next
  case (Suc k)
  let ?b = "bs ! hand"
  let ?bs = "bs[hand := ?b\<lparr>usage_count := usage_count ?b - 1\<rparr>]"
  have "map idle ?bs = (map idle bs)[hand := idle ?b]" by (simp add: map_update)
  also have "\<dots> = map idle bs" using Suc.prems by (metis list_update_id nth_map)
  finally have upd: "map idle ?bs = map idle bs" .
  have "Suc hand mod n < n" using Suc.prems(1) by simp
  then show ?case
    using Suc.prems Suc.IH [of "Suc hand mod n" ?bs] Suc.IH [of "Suc hand mod n" bs] upd
    by (auto simp: Let_def)
qed

definition pool_ok :: "BufferPool \<Rightarrow> bool" where
  "pool_ok pool \<longleftrightarrow> 0 < pool_size pool \<and> length (buffers pool) = pool_size pool \<and>
     next_victim pool < pool_size pool \<and> (\<forall>p i. page_map pool p = Some i \<longrightarrow> i < pool_size pool)"

lemma find_victim_ok:
  assumes "pool_ok pool"
  shows "\<exists>pool' v. find_victim pool = Ok (pool', v) \<and> v < pool_size pool \<and> pool_ok pool' \<and>
     page_map pool' = page_map pool \<and> pool_size pool' = pool_size pool \<and>
     map idle (buffers pool') = map idle (buffers pool) \<and>
     ((\<exists>b \<in> set (buffers pool). pin_count b = 0) \<longrightarrow> pin_count (buffers pool ! v) = 0)"
proof -
  let ?n = "pool_size pool"
  have ok: "0 < ?n" "length (buffers pool) = ?n" "next_victim pool < ?n"
    and pm: "\<forall>p i. page_map pool p = Some i \<longrightarrow> i < ?n" using assms by (auto simp: pool_ok_def)
  obtain bs r where sw: "sweep (?n * 2) ?n (next_victim pool) (buffers pool) = Ok (bs, r)"
    and same: "map idle bs = map idle (buffers pool)"
    and hit: "\<forall>v. r = Some v \<longrightarrow> v < ?n \<and> pin_count (bs ! v) = 0"
    using sweep_ok [OF ok(3,2)] by blast
  have len: "length bs = ?n" using same ok(2) by (metis length_map)
  have pin: "pin_count (bs ! i) = pin_count (buffers pool ! i)" if "i < ?n" for i
    using idle_fields(4) [OF same] ok(2) that by simp
  have unpinned: "(\<exists>b \<in> set (buffers pool). pin_count b = 0) \<longleftrightarrow> (\<exists>b \<in> set bs. pin_count b = 0)"
    using pin len ok(2) by (metis in_set_conv_nth)
  show ?thesis
  proof (cases r)
    case (Some v)
    then show ?thesis using sw hit pin same ok pm len by (auto simp: find_victim_def pool_ok_def)
  next
    case None
    show ?thesis
    proof (cases "position (\<lambda>b. pin_count b = 0) bs")
      case None
      then have "\<not> (\<exists>b \<in> set (buffers pool). pin_count b = 0)" using unpinned by (auto simp: position_None)
      then show ?thesis
        using sw \<open>r = None\<close> None same ok pm len by (auto simp: find_victim_def pool_ok_def)
    next
      case (Some i)
      then have "i < ?n" "pin_count (bs ! i) = 0" using len by (auto simp: position_Some)
      then show ?thesis
        using sw \<open>r = None\<close> Some same ok pm len pin by (auto simp: find_victim_def pool_ok_def)
    qed
  qed
qed

section \<open>The pool is transparent while the working set fits\<close>

text \<open>
  What a client of the pool can do with its interface. A fetch answers with the bytes of the slot, as
  \<open>SharedBufferCache::fetch_page\<close> does. \<open>Change\<close> is the way the interface offers to change a page: the
  guard that \<open>lock_pool\<close> returns gives access to the bytes of the slot, and \<open>unpin_page\<close> with \<open>is_dirty\<close>
  reports the change; only the latter sets the dirty bit. (No other module of the program changes pooled
  pages.) \<open>FlushAll\<close> goes through the keys in the order \<open>ord\<close> gives them.
\<close>

datatype pool_op = Fetch pid | Pin pid | Unpin pid bool | Change pid bytes | FlushPage pid | FlushAll

definition lock_pool_write :: "pid \<Rightarrow> bytes \<Rightarrow> BufferPool \<Rightarrow> BufferPool res" where
  "lock_pool_write p d pool =
     (case page_map pool p of
        None \<Rightarrow> Ok pool
      | Some idx \<Rightarrow>
          (if idx \<ge> length (buffers pool) then panic
           else Ok (pool\<lparr>buffers := (buffers pool)[idx := (buffers pool ! idx)\<lparr>buf_data := d\<rparr>]\<rparr>)))"

fun pool_step ::
    "bool \<Rightarrow> 's StorageTrait \<Rightarrow> ((pid \<rightharpoonup> nat) \<Rightarrow> pid list) \<Rightarrow> pool_op \<Rightarrow> BufferPool \<times> 's \<Rightarrow>
       ((BufferPool \<times> 's) \<times> bytes res option) res" where
  "pool_step oc st ord (Fetch p) ps =
     (case fetch_page oc st p ps of
        (ps', r) \<Rightarrow> and_then r (\<lambda>idx. Ok (ps', Some (buffer_data (fst ps') idx))))"
| "pool_step oc st ord (Pin p) ps =
     (case pin_page oc p (fst ps) of (pool', r) \<Rightarrow> and_then r (\<lambda>_. Ok ((pool', snd ps), None)))"
| "pool_step oc st ord (Unpin p b) ps =
     and_then (unpin_page p b (fst ps)) (\<lambda>pool'. Ok ((pool', snd ps), None))"
| "pool_step oc st ord (Change p d) ps =
     and_then (lock_pool_write p d (fst ps)) (\<lambda>pool1.
     and_then (unpin_page p True pool1) (\<lambda>pool2. Ok ((pool2, snd ps), None)))"
| "pool_step oc st ord (FlushPage p) ps =
     (case flush_page st p ps of (ps', r) \<Rightarrow> and_then r (\<lambda>_. Ok (ps', None)))"
| "pool_step oc st ord FlushAll ps =
     (case flush_all st (ord (page_map (fst ps))) ps of (ps', r) \<Rightarrow> and_then r (\<lambda>_. Ok (ps', None)))"

fun pool_run ::
    "bool \<Rightarrow> 's StorageTrait \<Rightarrow> ((pid \<rightharpoonup> nat) \<Rightarrow> pid list) \<Rightarrow> pool_op list \<Rightarrow> BufferPool \<times> 's \<Rightarrow>
       ((BufferPool \<times> 's) \<times> bytes res option list) res" where
  "pool_run oc st ord [] ps = Ok (ps, [])"
| "pool_run oc st ord (op # ops) ps =
     and_then (pool_step oc st ord op ps) (\<lambda>(ps', out).
     and_then (pool_run oc st ord ops ps') (\<lambda>(ps'', outs). Ok (ps'', out # outs)))"

text \<open>
  The specification: a memory of pages (a page that cannot be read has an error instead of bytes), and the
  pages fetched so far.
\<close>

type_synonym page_memory = "pid \<Rightarrow> bytes res"

fun mem_step :: "pool_op \<Rightarrow> page_memory \<times> pid set \<Rightarrow> (page_memory \<times> pid set) \<times> bytes res option" where
  "mem_step (Fetch p) (m, F) = ((m, insert p F), Some (m p))"
| "mem_step (Change p d) (m, F) = ((if p \<in> F then m(p := Ok d) else m, F), None)"
| "mem_step (Pin p) mF = (mF, None)"
| "mem_step (Unpin p b) mF = (mF, None)"
| "mem_step (FlushPage p) mF = (mF, None)"
| "mem_step FlushAll mF = (mF, None)"

fun mem_run :: "pool_op list \<Rightarrow> page_memory \<times> pid set \<Rightarrow> (page_memory \<times> pid set) \<times> bytes res option list" where
  "mem_run [] mF = (mF, [])"
| "mem_run (op # ops) mF =
     (let (mF', out) = mem_step op mF; (mF'', outs) = mem_run ops mF' in (mF'', out # outs))"

fun fetched :: "pool_op list \<Rightarrow> pid set" where
  "fetched [] = {}"
| "fetched (Fetch p # ops) = insert p (fetched ops)"
| "fetched (op # ops) = fetched ops"

lemma finite_fetched [simp]: "finite (fetched ops)"
  by (induction ops rule: fetched.induct) auto

text \<open>
  The simulation: the slots below the number of fetched pages hold these pages with the contents of
  the memory, the others are fresh; a page without a dirty buffer is in the storage; no counter
  exceeds \<open>c\<close>.
\<close>

definition pool_rel ::
    "'s StorageTrait \<Rightarrow> page_memory \<times> pid set \<Rightarrow> nat \<Rightarrow> BufferPool \<times> 's \<Rightarrow> bool" where
  "pool_rel st mF c ps \<longleftrightarrow>
     (case (mF, ps) of ((m, F), (pool, s)) \<Rightarrow>
        finite F \<and> card F \<le> pool_size pool \<and> 0 < pool_size pool \<and> length (buffers pool) = pool_size pool \<and>
        next_victim pool = card F mod pool_size pool \<and> dom (page_map pool) = F \<and>
        (\<forall>p i. page_map pool p = Some i \<longrightarrow>
           i < card F \<and> buf_page (buffers pool ! i) = p \<and> m p = Ok (buf_data (buffers pool ! i))) \<and>
        (\<forall>i. card F \<le> i \<longrightarrow> i < pool_size pool \<longrightarrow>
           pin_count (buffers pool ! i) = 0 \<and> usage_count (buffers pool ! i) = 0 \<and> \<not> is_dirty (buffers pool ! i)) \<and>
        (\<forall>i < pool_size pool. unat (usage_count (buffers pool ! i)) \<le> c \<and> unat (pin_count (buffers pool ! i)) \<le> c) \<and>
        (\<forall>p. (\<forall>i. page_map pool p = Some i \<longrightarrow> \<not> is_dirty (buffers pool ! i)) \<longrightarrow> read_page st s p = m p))"

lemma pool_rel_mapped:
  assumes "pool_rel st (m, F) c (pool, s)" and "page_map pool p = Some i"
  shows "i < length (buffers pool)" "buf_page (buffers pool ! i) = p" "m p = Ok (buf_data (buffers pool ! i))"
    "i < card F" "p \<in> F"
  using assms by (auto simp: pool_rel_def) (metis less_le_trans)

lemma pool_rel_distinct:
  assumes "pool_rel st (m, F) c (pool, s)" and "page_map pool p = Some i" and "page_map pool q = Some i"
  shows "p = q"
  using pool_rel_mapped(2) [OF assms(1)] assms(2,3) by blast

text \<open>
  Changing one mapped buffer, its page staying the same, keeps the relation when the new buffer has
  the new content of the page, its counters are small, and a clean buffer agrees with the storage.
\<close>

lemma pool_rel_update:
  assumes rel: "pool_rel st (m, F) c (pool, s)" and map: "page_map pool p = Some i"
    and b: "buf_page b = p" "buf_data b = d" "unat (usage_count b) \<le> c'" "unat (pin_count b) \<le> c'" "c \<le> c'"
    and clean: "\<not> is_dirty b \<Longrightarrow> read_page st s' p = Ok d"
    and others: "\<And>q. q \<noteq> p \<Longrightarrow> read_page st s' q = read_page st s q"
  shows "pool_rel st (m(p := Ok d), F) c' (pool\<lparr>buffers := (buffers pool)[i := b]\<rparr>, s')"
proof -
  note i = pool_rel_mapped [OF rel map]
  have new: "\<And>q j. page_map pool q = Some j \<Longrightarrow> (buffers pool)[i := b] ! j = (if q = p then b else buffers pool ! j)"
    using pool_rel_distinct [OF rel] map i(1) by (auto simp: nth_list_update)
  have counts: "unat (usage_count ((buffers pool)[i := b] ! j)) \<le> c' \<and> unat (pin_count ((buffers pool)[i := b] ! j)) \<le> c'"
    if "j < pool_size pool" for j
    using rel b(3-5) that by (cases "j = i") (fastforce simp: pool_rel_def nth_list_update)+
  have fresh: "\<And>j. card F \<le> j \<Longrightarrow> (buffers pool)[i := b] ! j = buffers pool ! j" using i(4) by simp
  have reads: "read_page st s' q = (m(p := Ok d)) q"
    if "\<forall>j. page_map pool q = Some j \<longrightarrow> \<not> is_dirty ((buffers pool)[i := b] ! j)" for q
  proof (cases "q = p")
    case True
    then show ?thesis using that map new clean by auto
  next
    case False
    then have "read_page st s q = m q" using rel that new by (auto simp: pool_rel_def)
    then show ?thesis using False others by simp
  qed
  show ?thesis
    using rel counts reads new b(1,2) fresh unfolding pool_rel_def by simp
qed

lemma pool_rel_same:
  assumes rel: "pool_rel st (m, F) c (pool, s)" and map: "page_map pool p = Some i"
    and b: "buf_page b = p" "buf_data b = buf_data (buffers pool ! i)" "unat (usage_count b) \<le> c'" "unat (pin_count b) \<le> c'" "c \<le> c'"
    and clean: "\<not> is_dirty b \<Longrightarrow> read_page st s' p = m p"
    and others: "\<And>q. q \<noteq> p \<Longrightarrow> read_page st s' q = read_page st s q"
  shows "pool_rel st (m, F) c' (pool\<lparr>buffers := (buffers pool)[i := b]\<rparr>, s')"
proof -
  have "m(p := Ok (buf_data b)) = m" using pool_rel_mapped(3) [OF rel map] b(2) by auto
  then show ?thesis
    using pool_rel_update [OF rel map b(1) refl b(3-5), of s'] clean others pool_rel_mapped(3) [OF rel map] b(2) by simp
qed

lemma bump_ok:
  assumes "unat (usage_count b) \<le> c" and "unat (pin_count b) \<le> c" and "c < 4294967295"
  obtains b' where "bump oc b = Ok b'" "buf_page b' = buf_page b" "buf_data b' = buf_data b"
    "is_dirty b' = is_dirty b" "unat (usage_count b') \<le> Suc c" "unat (pin_count b') \<le> Suc c"
proof -
  have "unat (usage_count b + 1) = Suc (unat (usage_count b))" "unat (pin_count b + 1) = Suc (unat (pin_count b))"
    using assms by (simp_all add: unat_Suc32)
  then show thesis
    using that [of "b\<lparr>usage_count := usage_count b + 1, pin_count := pin_count b + 1\<rparr>"] assms
    by (simp add: bump_def)
qed

lemma pool_rel_mono: "pool_rel st mF c ps \<Longrightarrow> c \<le> c' \<Longrightarrow> pool_rel st mF c' ps"
  by (fastforce simp: pool_rel_def split: prod.splits)

lemma fetch_hit:
  assumes rel: "pool_rel st (m, F) c (pool, s)" and map: "page_map pool p = Some i" and c: "c < 4294967295"
  shows "\<exists>ps'. fetch_page oc st p (pool, s) = (ps', Ok i) \<and> pool_rel st (m, F) (Suc c) ps' \<and> snd ps' = s \<and>
     buffer_data (fst ps') i = m p"
proof -
  note i = pool_rel_mapped [OF rel map]
  have "unat (usage_count (buffers pool ! i)) \<le> c" "unat (pin_count (buffers pool ! i)) \<le> c"
    using rel i(1) by (auto simp: pool_rel_def)
  then obtain b where b: "bump oc (buffers pool ! i) = Ok b" "buf_page b = p" "buf_data b = buf_data (buffers pool ! i)"
    "is_dirty b = is_dirty (buffers pool ! i)" "unat (usage_count b) \<le> Suc c" "unat (pin_count b) \<le> Suc c"
    using bump_ok [of "buffers pool ! i" c oc] c i by metis
  have "pool_rel st (m, F) (Suc c) (pool\<lparr>buffers := (buffers pool)[i := b]\<rparr>, s)"
    by (rule pool_rel_same [OF rel map b(2,3,5,6)]) (use rel map b(4) in \<open>auto simp: pool_rel_def\<close>)
  then show ?thesis using map i b by (auto simp: fetch_page_def buffer_data_def)
qed

lemma fetch_miss:
  assumes rel: "pool_rel st (m, F) c (pool, s)" and new: "p \<notin> F" and room: "card F < pool_size pool" and c: "0 < c"
    and d: "m p = Ok d"
  shows "\<exists>ps' i. fetch_page oc st p (pool, s) = (ps', Ok i) \<and> pool_rel st (m, insert p F) c ps' \<and> snd ps' = s \<and>
     buffer_data (fst ps') i = m p"
proof -
  let ?i = "card F"
  have r: "length (buffers pool) = pool_size pool" "next_victim pool = ?i" "dom (page_map pool) = F" "finite F"
    "pin_count (buffers pool ! ?i) = 0" "usage_count (buffers pool ! ?i) = 0" "\<not> is_dirty (buffers pool ! ?i)"
    "read_page st s p = Ok d" "page_map pool p = None"
    using rel new room d by (auto simp: pool_rel_def)
  obtain k where k: "pool_size pool * 2 = Suc k" using room by (metis Suc_pred mult_pos_pos not_less_zero zero_less_numeral neq0_conv)
  have "find_victim pool = Ok (pool\<lparr>next_victim := Suc ?i mod pool_size pool\<rparr>, ?i)"
    unfolding find_victim_def k using r room by simp
  then have run: "fetch_page oc st p (pool, s) =
      ((install ?i p d (pool\<lparr>next_victim := Suc ?i mod pool_size pool\<rparr>), s), Ok ?i)"
    using r room by (simp add: fetch_page_def Let_def)
  let ?nb = "\<lparr>buf_page = p, buf_data = d, is_dirty = False, usage_count = 1, pin_count = 1\<rparr>"
  let ?bs = "(buffers pool)[?i := ?nb]"
  have old: "j < ?i \<and> buf_page (buffers pool ! j) = q \<and> m q = Ok (buf_data (buffers pool ! j))"
    if "page_map pool q = Some j" for q j using rel that by (auto simp: pool_rel_def)
  have mapped: "j < Suc ?i \<and> buf_page (?bs ! j) = q \<and> m q = Ok (buf_data (?bs ! j))"
    if "((page_map pool)(p \<mapsto> ?i)) q = Some j" for q j
    using that old [of q j] room r(1) d by (cases "q = p") auto
  have fresh: "pin_count (?bs ! j) = 0 \<and> usage_count (?bs ! j) = 0 \<and> \<not> is_dirty (?bs ! j)"
    if "Suc ?i \<le> j" "j < pool_size pool" for j using rel that by (auto simp: pool_rel_def)
  have counts: "unat (usage_count (?bs ! j)) \<le> c \<and> unat (pin_count (?bs ! j)) \<le> c" if "j < pool_size pool" for j
    using rel that c room r(1) by (cases "j = ?i") (auto simp: pool_rel_def)
  have reads: "read_page st s q = m q"
    if "\<forall>j. ((page_map pool)(p \<mapsto> ?i)) q = Some j \<longrightarrow> \<not> is_dirty (?bs ! j)" for q
  proof (cases "q = p")
    case False
    then have "\<forall>j. page_map pool q = Some j \<longrightarrow> \<not> is_dirty (buffers pool ! j)"
      using that old [of q] by (metis fun_upd_other nat_neq_iff nth_list_update_neq)
    then show ?thesis using rel by (auto simp: pool_rel_def)
  qed (use r(8) d in simp)
  have "pool_rel st (m, insert p F) c (install ?i p d (pool\<lparr>next_victim := Suc ?i mod pool_size pool\<rparr>), s)"
    unfolding pool_rel_def install_def using mapped fresh counts reads new room r by simp
  then show ?thesis using run room r(1) d by (auto simp: install_def buffer_data_def)
qed

lemma pin_step:
  assumes rel: "pool_rel st (m, F) c (pool, s)" and c: "c < 4294967295"
  shows "\<exists>pool' r. pin_page oc p pool = (pool', Ok r) \<and> pool_rel st (m, F) (Suc c) (pool', s)"
proof (cases "page_map pool p")
  case None
  then show ?thesis using pool_rel_mono [OF rel] by (simp add: pin_page_def)
next
  case (Some i)
  obtain ps' where "fetch_page oc st p (pool, s) = (ps', Ok i)" "pool_rel st (m, F) (Suc c) ps'"
    using fetch_hit [OF rel Some c] by blast
  then show ?thesis using Some by (auto simp: pin_page_def fetch_page_def split: if_splits sum.splits)
qed

lemma unpin_step:
  assumes rel: "pool_rel st (m, F) c (pool, s)"
  shows "\<exists>pool'. unpin_page p dirty pool = Ok pool' \<and> pool_rel st (m, F) c (pool', s)"
proof (cases "page_map pool p")
  case None
  then show ?thesis using rel by (simp add: unpin_page_def)
next
  case (Some i)
  note i = pool_rel_mapped [OF rel Some]
  let ?b = "buffers pool ! i"
  let ?b' = "?b\<lparr>pin_count := (if pin_count ?b = 0 then 0 else pin_count ?b - 1), is_dirty := (if dirty then True else is_dirty ?b)\<rparr>"
  have le: "unat (usage_count ?b) \<le> c" "unat (pin_count ?b) \<le> c" using rel i(1) by (auto simp: pool_rel_def)
  have "unat (pin_count ?b - 1) \<le> unat (pin_count ?b)" if "pin_count ?b \<noteq> 0"
    using that by (simp add: unat_minus_one)
  then have "pool_rel st (m, F) c (pool\<lparr>buffers := (buffers pool)[i := ?b']\<rparr>, s)"
    by (intro pool_rel_same [OF rel Some]) (use rel Some i le in \<open>auto simp: pool_rel_def split: if_splits\<close>)
  then show ?thesis using Some i(1) by (simp add: unpin_page_def Let_def)
qed

lemma change_step:
  assumes rel: "pool_rel st (m, F) c (pool, s)"
  shows "\<exists>pool1 pool2. lock_pool_write p d pool = Ok pool1 \<and> unpin_page p True pool1 = Ok pool2 \<and>
     pool_rel st (if p \<in> F then m(p := Ok d) else m, F) c (pool2, s)"
proof (cases "page_map pool p")
  case None
  then have "p \<notin> F" using rel by (auto simp: pool_rel_def)
  then show ?thesis using rel None by (simp add: lock_pool_write_def unpin_page_def)
next
  case (Some i)
  note i = pool_rel_mapped [OF rel Some]
  let ?b = "buffers pool ! i"
  let ?b' = "?b\<lparr>buf_data := d, pin_count := (if pin_count ?b = 0 then 0 else pin_count ?b - 1), is_dirty := True\<rparr>"
  have le: "unat (usage_count ?b) \<le> c" "unat (pin_count ?b) \<le> c" using rel i(1) by (auto simp: pool_rel_def)
  have "unat (pin_count ?b - 1) \<le> unat (pin_count ?b)" if "pin_count ?b \<noteq> 0"
    using that by (simp add: unat_minus_one)
  then have "pool_rel st (m(p := Ok d), F) c (pool\<lparr>buffers := (buffers pool)[i := ?b']\<rparr>, s)"
    by (intro pool_rel_update [OF rel Some]) (use i le in \<open>auto split: if_splits\<close>)
  then show ?thesis
    using Some i(1,5) by (cases "pin_count ?b = 0") (simp_all add: lock_pool_write_def unpin_page_def Let_def)
qed

lemma flush_all_size: "pool_size (fst (fst (flush_all st ks ps))) = pool_size (fst ps)"
proof (induction ks arbitrary: ps)
  case (Cons p ks)
  have "pool_size (fst (fst (flush_page st p ps))) = pool_size (fst ps)"
    by (auto simp: flush_page_def Let_def split: prod.splits option.splits sum.splits)
  then show ?case using Cons by (auto split: prod.splits sum.splits)
qed simp

lemma pool_step_size:
  assumes "pool_step oc st ord op ps = Ok (ps', out)"
  shows "pool_size (fst ps') = pool_size (fst ps)"
proof (cases op)
  case (Fetch p)
  then show ?thesis using assms
    by (auto simp: fetch_page_def find_victim_def install_def Let_def and_then_eq_Inr
        split: prod.splits option.splits sum.splits if_splits)
next
  case (Change p d)
  have "pool_size pool2 = pool_size pool" if "unpin_page p True pool = Ok pool2" for pool pool2
    using that by (auto simp: unpin_page_def Let_def split: option.splits if_splits)
  moreover have "pool_size pool1 = pool_size pool" if "lock_pool_write p d pool = Ok pool1" for pool pool1
    using that by (auto simp: lock_pool_write_def split: option.splits if_splits)
  ultimately show ?thesis using assms Change by (auto simp: and_then_eq_Inr)
next
  case FlushAll
  then show ?thesis
    using assms flush_all_size [of st "ord (page_map (fst ps))" ps] by (auto simp: and_then_eq_Inr split: prod.splits)
qed (use assms in \<open>auto simp: pin_page_def unpin_page_def flush_page_def Let_def and_then_eq_Inr
       split: prod.splits option.splits sum.splits if_splits\<close>)

context page_store
begin

lemma flush_step:
  assumes rel: "pool_rel st (m, F) c (pool, s)" and s: "inv s" "\<forall>q \<in> F. \<exists>d. m q = Ok d \<and> fits s q d"
  shows "\<exists>pool' s'. flush_page st p (pool, s) = ((pool', s'), Ok ()) \<and> pool_rel st (m, F) c (pool', s') \<and>
     inv s' \<and> fits s' = fits s \<and> page_map pool' = page_map pool \<and>
     (\<forall>i. is_dirty (buffers pool' ! i) \<longrightarrow> is_dirty (buffers pool ! i)) \<and>
     (\<forall>i. page_map pool p = Some i \<longrightarrow> \<not> is_dirty (buffers pool' ! i))"
proof (cases "page_map pool p")
  case None
  then show ?thesis using rel s by (auto simp: flush_page_def)
next
  case (Some i)
  note i = pool_rel_mapped [OF rel Some]
  let ?b = "buffers pool ! i"
  show ?thesis
  proof (cases "is_dirty ?b")
    case False
    then show ?thesis using rel s Some i(1) by (auto simp: flush_page_def)
  next
    case True
    have f: "fits s p (buf_data ?b)" using s(2) i(3,5) by auto
    obtain s' where w: "write_page st s p (buf_data ?b) = Ok s'" using write_ok [OF s(1) f] by blast
    have "pool_rel st (m, F) c (pool\<lparr>buffers := (buffers pool)[i := ?b\<lparr>is_dirty := False\<rparr>]\<rparr>, s')"
      by (rule pool_rel_same [OF rel Some])
        (use rel i read_write [OF s(1) f w] read_other [OF s(1) f w] in \<open>auto simp: pool_rel_def\<close>)
    then show ?thesis
      using Some i(1) True w write_inv [OF s(1) f w] write_fits [OF s(1) f w]
      by (auto simp: flush_page_def nth_list_update)
  qed
qed

lemma flush_all_step:
  assumes "pool_rel st (m, F) c (pool, s)" and "inv s" and "\<forall>q \<in> F. \<exists>d. m q = Ok d \<and> fits s q d"
  shows "\<exists>pool' s'. flush_all st ks (pool, s) = ((pool', s'), Ok ()) \<and> pool_rel st (m, F) c (pool', s') \<and>
     inv s' \<and> fits s' = fits s \<and> page_map pool' = page_map pool \<and>
     (\<forall>i. is_dirty (buffers pool' ! i) \<longrightarrow> is_dirty (buffers pool ! i)) \<and>
     (\<forall>p i. p \<in> set ks \<longrightarrow> page_map pool p = Some i \<longrightarrow> \<not> is_dirty (buffers pool' ! i))"
  using assms
proof (induction ks arbitrary: pool s)
  case Nil
  then show ?case by auto
next
  case (Cons p ks)
  obtain pool1 s1 where one: "flush_page st p (pool, s) = ((pool1, s1), Ok ())"
    "pool_rel st (m, F) c (pool1, s1)" "inv s1" "fits s1 = fits s" "page_map pool1 = page_map pool"
    "\<forall>i. is_dirty (buffers pool1 ! i) \<longrightarrow> is_dirty (buffers pool ! i)"
    "\<forall>i. page_map pool p = Some i \<longrightarrow> \<not> is_dirty (buffers pool1 ! i)"
    using flush_step [OF Cons.prems] by blast
  have "\<forall>q \<in> F. \<exists>d. m q = Ok d \<and> fits s1 q d" using Cons.prems(3) one(4) by simp
  then obtain pool2 s2 where two: "flush_all st ks (pool1, s1) = ((pool2, s2), Ok ())"
    "pool_rel st (m, F) c (pool2, s2)" "inv s2" "fits s2 = fits s1" "page_map pool2 = page_map pool1"
    "\<forall>i. is_dirty (buffers pool2 ! i) \<longrightarrow> is_dirty (buffers pool1 ! i)"
    "\<forall>p i. p \<in> set ks \<longrightarrow> page_map pool1 p = Some i \<longrightarrow> \<not> is_dirty (buffers pool2 ! i)"
    using Cons.IH [OF one(2,3)] by blast
  then show ?case using one by auto
qed

text \<open>One operation of a client against the memory; the pages in use can be read and written back.\<close>

lemma pool_step_sim:
  assumes rel: "pool_rel st (m, F) c (pool, s)" and s: "inv s" "\<forall>q \<in> F \<union> fetched [op]. \<exists>d. m q = Ok d \<and> fits s q d"
    and c: "0 < c" "c < 4294967295" and room: "card (F \<union> fetched [op]) \<le> pool_size pool"
    and w: "\<And>p d. op = Change p d \<Longrightarrow> fits s p d"
  shows "\<exists>pool' s' m' F' out. pool_step oc st ord op (pool, s) = Ok ((pool', s'), out) \<and>
     mem_step op (m, F) = ((m', F'), out) \<and> pool_rel st (m', F') (Suc c) (pool', s') \<and>
     inv s' \<and> fits s' = fits s \<and> F' = F \<union> fetched [op] \<and>
     (\<forall>q. m' q = m q \<or> (\<exists>d. m' q = Ok d \<and> fits s q d))"
proof (cases op)
  case (Fetch p)
  show ?thesis
  proof (cases "page_map pool p")
    case None
    then have new: "p \<notin> F" using rel by (auto simp: pool_rel_def)
    have "finite F" using rel by (auto simp: pool_rel_def)
    then have "card F < pool_size pool" using room new Fetch by simp
    moreover obtain d where "m p = Ok d" using s(2) Fetch by auto
    ultimately obtain ps' i where "fetch_page oc st p (pool, s) = (ps', Ok i)" "pool_rel st (m, insert p F) c ps'"
      "snd ps' = s" "buffer_data (fst ps') i = m p"
      using fetch_miss [OF rel new _ c(1)] by blast
    then show ?thesis using Fetch s(1) pool_rel_mono by (cases ps') fastforce
  next
    case (Some i)
    have "insert p F = F" using pool_rel_mapped(5) [OF rel Some] by blast
    moreover obtain ps' where "fetch_page oc st p (pool, s) = (ps', Ok i)" "pool_rel st (m, F) (Suc c) ps'"
      "snd ps' = s" "buffer_data (fst ps') i = m p" using fetch_hit [OF rel Some c(2)] by blast
    ultimately show ?thesis using Fetch s(1) by (cases ps') auto
  qed
next
  case (Pin p)
  then show ?thesis using pin_step [OF rel c(2), of oc p] s(1) by auto
next
  case (Unpin p b)
  then show ?thesis using unpin_step [OF rel, of p b] s(1) pool_rel_mono [of st "(m, F)" c _ "Suc c"] by auto
next
  case (Change p d)
  then show ?thesis
    using change_step [OF rel, of p d] pool_rel_mono [of st _ c _ "Suc c"] s(1) w by fastforce
next
  case (FlushPage p)
  then show ?thesis using flush_step [OF rel s(1), of p] s(2) pool_rel_mono [of st "(m, F)" c _ "Suc c"] by auto
next
  case FlushAll
  then show ?thesis
    using flush_all_step [OF rel s(1), of "ord (page_map pool)"] s(2) pool_rel_mono [of st "(m, F)" c _ "Suc c"] by auto
qed

lemma pool_run_sim:
  assumes "pool_rel st (m, F) c (pool, s)" and "inv s" and "\<forall>q \<in> F \<union> fetched ops. \<exists>d. m q = Ok d \<and> fits s q d"
    and "0 < c" and "c + length ops < 4294967295" and "card (F \<union> fetched ops) \<le> pool_size pool"
    and "\<forall>p d. Change p d \<in> set ops \<longrightarrow> fits s p d"
  shows "\<exists>pool' s' m' F' outs. pool_run oc st ord ops (pool, s) = Ok ((pool', s'), outs) \<and>
     mem_run ops (m, F) = ((m', F'), outs) \<and> pool_rel st (m', F') (c + length ops) (pool', s') \<and>
     inv s' \<and> (\<forall>q \<in> F'. \<exists>d. m' q = Ok d \<and> fits s' q d)"
  using assms
proof (induction ops arbitrary: m F c pool s)
  case Nil
  then show ?case by auto
next
  case (Cons op ops)
  have sub: "F \<union> fetched [op] \<subseteq> F \<union> fetched (op # ops)" "fetched (op # ops) = fetched [op] \<union> fetched ops"
    by (cases op; auto)+
  have "finite F" using Cons.prems(1) by (auto simp: pool_rel_def)
  then have room0: "card (F \<union> fetched [op]) \<le> pool_size pool"
    using card_mono [OF _ sub(1)] Cons.prems(6) by simp
  have w: "\<And>p d. op = Change p d \<Longrightarrow> fits s p d" using Cons.prems(7) by simp
  have ok: "\<forall>q \<in> F \<union> fetched [op]. \<exists>d. m q = Ok d \<and> fits s q d" using Cons.prems(3) sub(1) by blast
  have c: "c < 4294967295" using Cons.prems(5) by simp
  obtain pool1 s1 m1 F1 out where one: "pool_step oc st ord op (pool, s) = Ok ((pool1, s1), out)"
    "mem_step op (m, F) = ((m1, F1), out)" and rel1: "pool_rel st (m1, F1) (Suc c) (pool1, s1)"
    and s1: "inv s1" "fits s1 = fits s" and F1: "F1 = F \<union> fetched [op]"
    and m1: "\<forall>q. m1 q = m q \<or> (\<exists>d. m1 q = Ok d \<and> fits s q d)"
    using pool_step_sim [OF Cons.prems(1,2) ok Cons.prems(4) c room0 w] by metis
  have size: "pool_size pool1 = pool_size pool" using pool_step_size [OF one(1)] by simp
  have room: "card (F1 \<union> fetched ops) \<le> pool_size pool1" using Cons.prems(6) sub(2) F1 size by (simp add: Un_assoc)
  have cs: "0 < Suc c" "Suc c + length ops < 4294967295" using Cons.prems(5) by simp_all
  have fw: "\<forall>p d. Change p d \<in> set ops \<longrightarrow> fits s1 p d" using Cons.prems(7) s1(2) by simp
  have ok1: "\<forall>q \<in> F1 \<union> fetched ops. \<exists>d. m1 q = Ok d \<and> fits s1 q d"
    using Cons.prems(3) m1 sub(2) F1 s1(2) by (metis Un_iff)
  obtain pool2 s2 m2 F2 outs where "pool_run oc st ord ops (pool1, s1) = Ok ((pool2, s2), outs)"
    "mem_run ops (m1, F1) = ((m2, F2), outs)" "pool_rel st (m2, F2) (Suc c + length ops) (pool2, s2)"
    "inv s2" "\<forall>q \<in> F2. \<exists>d. m2 q = Ok d \<and> fits s2 q d"
    using Cons.IH [OF rel1 s1(1) ok1 cs room fw] by blast
  then show ?case using one by simp
qed

end

lemma new_pool_rel:
  assumes "0 < n"
  shows "pool_rel st (read_page st s, {}) 1 (new_buffer_pool n, s)"
  using assms by (simp add: pool_rel_def new_buffer_pool_def)

text \<open>\<open>flush_dirty_pages\<close> does what \<open>flush_all\<close> does.\<close>

lemma flush_dirty_flush_all:
  assumes "page_map (fst ps) = m" and "\<forall>p i. m p = Some i \<longrightarrow> i < length (buffers (fst ps))"
  shows "fst (flush_dirty st m ks ps n) = fst (flush_all st ks ps) \<and>
     is_ok (snd (flush_dirty st m ks ps n)) = is_ok (snd (flush_all st ks ps))"
  using assms
proof (induction ks arbitrary: ps n)
  case Nil
  then show ?case by simp
next
  case (Cons p ks)
  obtain pool s where ps: "ps = (pool, s)" by fastforce
  let ?r = "flush_page st p ps"
  have keep: "page_map (fst (fst ?r)) = m" "length (buffers (fst (fst ?r))) = length (buffers (fst ps))"
    using Cons.prems(1) by (auto simp: ps flush_page_def Let_def split: option.splits sum.splits)
  show ?case
  proof (cases "m p")
    case None
    then have "?r = (ps, Ok ())" using Cons.prems(1) by (simp add: ps flush_page_def)
    then show ?thesis using None Cons.IH [OF Cons.prems] by simp
  next
    case (Some i)
    have i: "i < length (buffers pool)" using Some Cons.prems ps by auto
    then have ni: "\<not> length (buffers pool) \<le> i" by simp
    show ?thesis
    proof (cases "is_dirty (buffers pool ! i)")
      case True
      have IH: "fst (flush_dirty st m ks (fst ?r) k) = fst (flush_all st ks (fst ?r)) \<and>
          is_ok (snd (flush_dirty st m ks (fst ?r) k)) = is_ok (snd (flush_all st ks (fst ?r)))" for k
        by (rule Cons.IH) (use keep Cons.prems(2) in simp_all)
      show ?thesis using Some True ni ps IH by (cases ?r) (simp split: sum.splits)
    next
      case False
      then have "?r = (ps, Ok ())" using Some i Cons.prems(1) by (simp add: ps flush_page_def)
      then show ?thesis using Some i False ps Cons.IH [OF Cons.prems] by simp
    qed
  qed
qed

context page_store
begin

lemma flush_all_memory:
  assumes rel: "pool_rel st (m, F) c (pool, s)" and "inv s" and "\<forall>q \<in> F. \<exists>d. m q = Ok d \<and> fits s q d"
    and ks: "set ks = dom (page_map pool)"
  shows "\<exists>pool' s'. flush_all st ks (pool, s) = ((pool', s'), Ok ()) \<and> (\<forall>q. read_page st s' q = m q) \<and>
     page_map pool' = page_map pool \<and> (\<forall>p i. page_map pool p = Some i \<longrightarrow> \<not> is_dirty (buffers pool' ! i))"
proof -
  obtain pool' s' where run: "flush_all st ks (pool, s) = ((pool', s'), Ok ())"
    and rel': "pool_rel st (m, F) c (pool', s')" and pm: "page_map pool' = page_map pool"
    and clean: "\<forall>p i. p \<in> set ks \<longrightarrow> page_map pool p = Some i \<longrightarrow> \<not> is_dirty (buffers pool' ! i)"
    using flush_all_step [OF assms(1-3), of ks] by blast
  have clean': "\<forall>p i. page_map pool p = Some i \<longrightarrow> \<not> is_dirty (buffers pool' ! i)"
    using clean ks by blast
  then have "read_page st s' q = m q" for q using rel' pm by (auto simp: pool_rel_def)
  then show ?thesis using run pm clean' by blast
qed

end

section \<open>Flushing any pool\<close>

text \<open>
  The bytes of a page that are only in the pool, and the condition for a flush: an entry of the page map that points
  at a dirty buffer is the entry of that buffer's page, and the storage can take it.
\<close>

definition dirty_data :: "BufferPool \<Rightarrow> pid \<Rightarrow> bytes option" where
  "dirty_data pool q =
     (case page_map pool q of
        Some i \<Rightarrow> if is_dirty (buffers pool ! i) then Some (buf_data (buffers pool ! i)) else None
      | None \<Rightarrow> None)"

definition flushable :: "(pid \<Rightarrow> bytes \<Rightarrow> bool) \<Rightarrow> BufferPool \<Rightarrow> bool" where
  "flushable accepts pool \<longleftrightarrow>
     (\<forall>p i. page_map pool p = Some i \<longrightarrow> i < length (buffers pool) \<and>
        (is_dirty (buffers pool ! i) \<longrightarrow> buf_page (buffers pool ! i) = p \<and> accepts p (buf_data (buffers pool ! i))))"

context page_store
begin

lemma flush_page_writes:
  assumes s: "inv s" and ok: "flushable (fits s) pool"
  shows "\<exists>pool' s'. flush_page st p (pool, s) = ((pool', s'), Ok ()) \<and> inv s' \<and> fits s' = fits s \<and>
     page_map pool' = page_map pool \<and> flushable (fits s') pool' \<and>
     (\<forall>q. dirty_data pool' q = (if q = p then None else dirty_data pool q)) \<and>
     (\<forall>q. read_page st s' q = (if q = p then (case dirty_data pool p of Some d \<Rightarrow> Ok d | None \<Rightarrow> read_page st s p)
        else read_page st s q))"
proof (cases "dirty_data pool p")
  case None
  then have "flush_page st p (pool, s) = ((pool, s), Ok ())"
    using ok by (cases "page_map pool p") (fastforce simp: flush_page_def dirty_data_def flushable_def Let_def split: if_splits)+
  then show ?thesis using assms None by auto
next
  case (Some d)
  then obtain i where i: "page_map pool p = Some i" "is_dirty (buffers pool ! i)" "d = buf_data (buffers pool ! i)"
    by (auto simp: dirty_data_def split: option.splits if_splits)
  then have b: "i < length (buffers pool)" "buf_page (buffers pool ! i) = p" "fits s p d"
    using ok by (auto simp: flushable_def)
  have alone: "q = p" if "page_map pool q = Some i" for q using ok that i(2) b(2) by (auto simp: flushable_def)
  obtain s' where w: "write_page st s p d = Ok s'" using write_ok [OF s b(3)] by blast
  note w' = write_inv [OF s b(3) w] write_fits [OF s b(3) w] read_write [OF s b(3) w] read_other [OF s b(3) w]
  let ?pool = "pool\<lparr>buffers := (buffers pool)[i := (buffers pool ! i)\<lparr>is_dirty := False\<rparr>]\<rparr>"
  have "flush_page st p (pool, s) = ((?pool, s'), Ok ())" using i b w by (simp add: flush_page_def)
  moreover have "j < length (buffers ?pool) \<and> (is_dirty (buffers ?pool ! j) \<longrightarrow>
      buf_page (buffers ?pool ! j) = q \<and> fits s q (buf_data (buffers ?pool ! j)))" if "page_map pool q = Some j" for q j
  proof -
    have "j < length (buffers pool)" "is_dirty (buffers pool ! j) \<longrightarrow>
        buf_page (buffers pool ! j) = q \<and> fits s q (buf_data (buffers pool ! j))"
      using ok that unfolding flushable_def by blast+
    then show ?thesis by (cases "j = i") simp_all
  qed
  then have "flushable (fits s') ?pool" by (simp add: flushable_def w'(2))
  moreover have "dirty_data ?pool q = (if q = p then None else dirty_data pool q)" for q
  proof (cases "page_map pool q")
    case (Some j)
    then have "j = i \<longleftrightarrow> q = p" using Some i(1) alone by (metis option.inject)
    then show ?thesis using Some b(1) by (cases "j = i") (simp_all add: dirty_data_def)
  qed (use i(1) in \<open>auto simp: dirty_data_def\<close>)
  moreover have "read_page st s' q = (if q = p then (case dirty_data pool p of Some d \<Rightarrow> Ok d | None \<Rightarrow> read_page st s p)
      else read_page st s q)" for q using w'(3,4) Some by simp
  ultimately show ?thesis using w'(1,2) by simp
qed

lemma flush_all_writes:
  assumes "inv s" "flushable (fits s) pool"
  shows "\<exists>pool' s'. flush_all st ks (pool, s) = ((pool', s'), Ok ()) \<and> page_map pool' = page_map pool \<and>
     (\<forall>q. dirty_data pool' q = (if q \<in> set ks then None else dirty_data pool q)) \<and>
     (\<forall>q. read_page st s' q = (case dirty_data pool q of Some d \<Rightarrow> if q \<in> set ks then Ok d else read_page st s q
        | None \<Rightarrow> read_page st s q))"
  using assms
proof (induction ks arbitrary: pool s)
  case Nil
  then show ?case by (auto split: option.split)
next
  case (Cons p ks)
  obtain pool1 s1 where one: "flush_page st p (pool, s) = ((pool1, s1), Ok ())" "inv s1" "page_map pool1 = page_map pool"
    "flushable (fits s1) pool1" "\<And>q. dirty_data pool1 q = (if q = p then None else dirty_data pool q)"
    "\<And>q. read_page st s1 q = (if q = p then (case dirty_data pool p of Some d \<Rightarrow> Ok d | None \<Rightarrow> read_page st s p)
        else read_page st s q)"
    using flush_page_writes [OF Cons.prems, of p] by blast
  obtain pool2 s2 where two: "flush_all st ks (pool1, s1) = ((pool2, s2), Ok ())" "page_map pool2 = page_map pool1"
    "\<And>q. dirty_data pool2 q = (if q \<in> set ks then None else dirty_data pool1 q)"
    "\<And>q. read_page st s2 q = (case dirty_data pool1 q of Some d \<Rightarrow> if q \<in> set ks then Ok d else read_page st s1 q
        | None \<Rightarrow> read_page st s1 q)"
    using Cons.IH [OF one(2,4)] by blast
  show ?case
    by (intro exI [of _ pool2] exI [of _ s2]) (use one two in \<open>auto split: option.split\<close>)
qed

end

section \<open>Properties\<close>

text \<open>
  C4: the buffer pool is transparent as long as the pages in use fit. On a storage that keeps the page-store
  contract and can read and take back the pages in use (for a file: the pages inside it), for every sequence of
  fetches, pins, unpins, changes reported by \<open>unpin_page\<close>, and flushes that fetches at most as many pages as the
  pool has slots (and is shorter than \<open>2 ^ 32 - 2\<close>, the range of the counters), no operation fails or panics, every
  fetch returns what the memory of pages holds, and a final \<open>flush_all\<close> leaves every page of the storage, in use
  or not, as it is in that memory.
\<close>

theorem pool_transparent:
  assumes store: "page_store st I fits" and "I s"
    and use: "\<forall>p \<in> fetched ops. \<exists>d. read_page st s p = Ok d \<and> fits s p d"
    and n: "0 < n" "card (fetched ops) \<le> n" and len: "length ops < 4294967294"
    and w: "\<forall>p d. Change p d \<in> set ops \<longrightarrow> fits s p d"
    and ord: "\<forall>pm. set (ord pm) = dom pm"
  shows "\<exists>pool' s' m' F'. pool_run oc st ord ops (new_buffer_pool n, s) =
       Ok ((pool', s'), snd (mem_run ops (read_page st s, {}))) \<and>
     fst (mem_run ops (read_page st s, {})) = (m', F') \<and>
     (\<exists>pool'' s''. flush_all st (ord (page_map pool')) (pool', s') = ((pool'', s''), Ok ()) \<and>
        (\<forall>q. read_page st s'' q = m' q))"
proof -
  let ?m = "read_page st s"
  have rel: "pool_rel st (?m, {}) 1 (new_buffer_pool n, s)" using n by (intro new_pool_rel)
  have size: "pool_size (new_buffer_pool n) = n" by (simp add: new_buffer_pool_def)
  obtain pool' s' m' F' outs where run: "pool_run oc st ord ops (new_buffer_pool n, s) = Ok ((pool', s'), outs)"
    "mem_run ops (?m, {}) = ((m', F'), outs)" and rel': "pool_rel st (m', F') (1 + length ops) (pool', s')"
    and s': "I s'" "\<forall>q \<in> F'. \<exists>d. m' q = Ok d \<and> fits s' q d"
    using page_store.pool_run_sim [OF store rel \<open>I s\<close>, of ops oc ord] use n len w size by auto
  have "set (ord (page_map pool')) = dom (page_map pool')" using ord by simp
  from page_store.flush_all_memory [OF store rel' s' this] show ?thesis using run by fastforce
qed

theorem pool_transparent_witness:
  "\<exists>pool' s'. pool_run True ephemeral (\<lambda>pm. sorted_list_of_set (dom pm))
       [Fetch 1, Change 1 [5], Fetch 2, FlushPage 1, Fetch 1] (new_buffer_pool 2, new_ephemeral) =
     Ok ((pool', s'), [Some (Ok (replicate 8192 0)), None, Some (Ok (replicate 8192 0)), None, Some (Ok [5])]) \<and>
     (\<exists>pool'' s''. flush_all ephemeral (sorted_list_of_set (dom (page_map pool'))) (pool', s') = ((pool'', s''), Ok ()) \<and>
        read_page ephemeral s'' 1 = Ok [5])"
proof -
  let ?ops = "[Fetch 1, Change 1 [5], Fetch 2, FlushPage 1, Fetch 1]" and ?m = "read_page ephemeral new_ephemeral"
  have m: "?m p = Ok (replicate 8192 0)" for p by (simp add: ephemeral_def ephemeral_read_def new_ephemeral_def)
  then have read: "\<forall>p \<in> fetched ?ops. \<exists>d. ?m p = Ok d \<and> True" by simp
  have card: "card (fetched ?ops) \<le> 2" by (simp add: insert_commute)
  have ord: "\<forall>pm :: pid \<rightharpoonup> nat. set (sorted_list_of_set (dom pm)) = dom pm" by simp
  have "\<forall>p d. Change p d \<in> set ?ops \<longrightarrow> True" "length ?ops < 4294967294" "0 < (2 :: nat)" by simp_all
  from pool_transparent [OF ephemeral.page_store_axioms TrueI read this(3) card this(2,1) ord, of True]
  obtain pool' s' m' F' pool'' s'' where
    run: "pool_run True ephemeral (\<lambda>pm. sorted_list_of_set (dom pm)) ?ops (new_buffer_pool 2, new_ephemeral) =
       Ok ((pool', s'), snd (mem_run ?ops (?m, {})))" "fst (mem_run ?ops (?m, {})) = (m', F')"
      "flush_all ephemeral (sorted_list_of_set (dom (page_map pool'))) (pool', s') = ((pool'', s''), Ok ())"
      "\<forall>q. read_page ephemeral s'' q = m' q"
    by blast
  have "snd (mem_run ?ops (?m, {})) =
      [Some (Ok (replicate 8192 0)), None, Some (Ok (replicate 8192 0)), None, Some (Ok [5])]" "m' 1 = Ok [5]"
    using run(2) by (auto simp: Let_def m)
  then show ?thesis using run by auto
qed

text \<open>
  C18: the clock sweep. On every non-empty pool, whatever its counters and mapping, \<open>find_victim\<close> returns
  a slot of the pool without panicking; it changes no page, no data, no dirty bit and no pin count; and
  it never chooses a pinned slot while some slot is unpinned.
\<close>

theorem find_victim_correct:
  assumes "pool_ok pool"
  shows "\<exists>pool' v. find_victim pool = Ok (pool', v) \<and> v < pool_size pool \<and> pool_ok pool' \<and>
     page_map pool' = page_map pool \<and>
     (\<forall>i < pool_size pool. buf_page (buffers pool' ! i) = buf_page (buffers pool ! i) \<and>
        buf_data (buffers pool' ! i) = buf_data (buffers pool ! i) \<and>
        is_dirty (buffers pool' ! i) = is_dirty (buffers pool ! i) \<and>
        pin_count (buffers pool' ! i) = pin_count (buffers pool ! i)) \<and>
     ((\<exists>b \<in> set (buffers pool). pin_count b = 0) \<longrightarrow> pin_count (buffers pool ! v) = 0)"
proof -
  obtain pool' v where fv: "find_victim pool = Ok (pool', v)" "v < pool_size pool" "pool_ok pool'"
    "page_map pool' = page_map pool" and same: "map idle (buffers pool') = map idle (buffers pool)"
    and unp: "(\<exists>b \<in> set (buffers pool). pin_count b = 0) \<longrightarrow> pin_count (buffers pool ! v) = 0"
    using find_victim_ok [OF assms] by blast
  have "length (buffers pool) = pool_size pool" using assms by (simp add: pool_ok_def)
  then show ?thesis using fv unp idle_fields [OF same] by auto
qed

theorem find_victim_correct_witness:
  "\<exists>pool' v. find_victim (new_buffer_pool 3) = Ok (pool', v) \<and> v < 3 \<and>
     pin_count (buffers (new_buffer_pool 3) ! v) = 0"
proof -
  have "pool_ok (new_buffer_pool 3)" by (simp add: pool_ok_def new_buffer_pool_def)
  from find_victim_correct [OF this] show ?thesis by (auto simp: new_buffer_pool_def)
qed

text \<open>
  Once pages are evicted the pool is not transparent. Evicting a clean page leaves its entry in the
  page map, so the entry points at a slot that holds another page. With a pool of one slot over any
  storage: after fetching and unpinning page 1 and fetching page 2, fetching page 1 again returns the
  contents of page 2.
\<close>

theorem clean_eviction_stale:
  assumes "read_page st s 1 = Ok a" and "read_page st s 2 = Ok b"
  shows "\<exists>ps. pool_run oc st ord [Fetch 1, Unpin 1 False, Fetch 2, Fetch 1] (new_buffer_pool 1, s) =
     Ok (ps, [Some (Ok a), None, Some (Ok b), Some (Ok b)])"
proof -
  define buf where "buf p d u c = \<lparr>buf_page = p, buf_data = d, is_dirty = False, usage_count = u, pin_count = c\<rparr>"
    for p d and u c :: u32
  define pl where "pl b pm = \<lparr>pool_size = 1, buffers = [b], page_map = pm, next_victim = 0\<rparr>" for b pm
  have new: "new_buffer_pool 1 = pl (buf 0 (replicate 8192 0) 0 0) Map.empty"
    by (simp add: new_buffer_pool_def pl_def buf_def)
  have victim: "find_victim (pl (buf p d u 0) pm) = Ok (pl (buf p d 0 0) pm, 0)" if "u = 0 \<or> u = 1" for p d u pm
    using that by (auto simp: find_victim_def pl_def buf_def numeral_2_eq_2)
  have miss: "fetch_page oc st q (pl (buf p d u 0) pm, s) = ((pl (buf q e 1 1) (pm(q \<mapsto> 0)), s), Ok 0)"
    if "pm q = None" "u = 0 \<or> u = 1" "read_page st s q = Ok e" for p q d e u pm
    using that victim by (simp add: fetch_page_def) (simp add: install_def pl_def buf_def)
  have hit: "fetch_page oc st q (pl (buf p d 1 1) pm, s) = ((pl (buf p d 2 2) pm, s), Ok 0)"
    if "pm q = Some 0" for p q d pm
    using that by (simp add: fetch_page_def pl_def buf_def bump_def word_add_def)
  have unpin: "unpin_page q False (pl (buf p d 1 1) pm) = Ok (pl (buf p d 1 0) pm)" if "pm q = Some 0" for p q d pm
    using that by (simp add: unpin_page_def pl_def buf_def)
  have data: "buffer_data (pl (buf p d u c) pm) 0 = Ok d" for p d u c pm
    by (simp add: buffer_data_def pl_def buf_def)
  show ?thesis unfolding new using assms by (simp add: miss hit unpin data)
qed

theorem clean_eviction_stale_witness:
  "\<exists>ps. pool_run True ephemeral (\<lambda>_. []) [Fetch 1, Unpin 1 False, Fetch 2, Fetch 1]
      (new_buffer_pool 1, [1 \<mapsto> [7], 2 \<mapsto> [8]]) = Ok (ps, [Some (Ok [7]), None, Some (Ok [8]), Some (Ok [8])])"
  by (rule clean_eviction_stale) (simp_all add: ephemeral_def ephemeral_read_def)


text \<open>A cache of one slot with a changed page.\<close>

definition changed_pool :: BufferPool where
  "changed_pool = \<lparr>pool_size = 1, buffers = [\<lparr>buf_page = 1, buf_data = [5], is_dirty = True, usage_count = 1, pin_count = 0\<rparr>],
     page_map = [1 \<mapsto> 0], next_victim = 0\<rparr>"


end
