(* ===== verification/Utf8.thy ===== *)
theory Utf8
  imports Prelude
begin

text \<open>
  The parts of Rust's strings the sources use. A \<open>String\<close> is the list of its bytes, which are valid
  UTF-8. \<open>std::str::from_utf8\<close> checks a byte slice, \<open>String::from_utf8_lossy\<close> replaces every maximal
  ill-formed part by U+FFFD.
\<close>

type_synonym str = bytes

definition in_range :: "byte \<Rightarrow> byte \<Rightarrow> byte \<Rightarrow> bool" where
  "in_range lo hi b \<longleftrightarrow> lo \<le> b \<and> b \<le> hi"

definition continuation :: "byte \<Rightarrow> bool" where
  "continuation = in_range 0x80 0xBF"

fun follow_bytes :: "(byte \<Rightarrow> bool) list \<Rightarrow> bytes \<Rightarrow> nat \<Rightarrow> bool \<times> nat" where
  "follow_bytes [] bs n = (True, n)"
| "follow_bytes (p # ps) [] n = (False, n)"
| "follow_bytes (p # ps) (b # bs) n = (if p b then follow_bytes ps bs (Suc n) else (False, n))"

text \<open>Whether a character starts here, and the number of bytes of the character or of its broken part.\<close>

definition utf8_head :: "byte \<Rightarrow> bytes \<Rightarrow> bool \<times> nat" where
  "utf8_head a bs =
     (if a < 0x80 then (True, 1)
      else if in_range 0xC2 0xDF a then follow_bytes [continuation] bs 1
      else if a = 0xE0 then follow_bytes [in_range 0xA0 0xBF, continuation] bs 1
      else if in_range 0xE1 0xEC a \<or> in_range 0xEE 0xEF a then follow_bytes [continuation, continuation] bs 1
      else if a = 0xED then follow_bytes [in_range 0x80 0x9F, continuation] bs 1
      else if a = 0xF0 then follow_bytes [in_range 0x90 0xBF, continuation, continuation] bs 1
      else if in_range 0xF1 0xF3 a then follow_bytes [continuation, continuation, continuation] bs 1
      else if a = 0xF4 then follow_bytes [in_range 0x80 0x8F, continuation, continuation] bs 1
      else (False, 1))"

lemma follow_bytes_ge: "n \<le> snd (follow_bytes ps bs n)"
  by (induction ps bs n rule: follow_bytes.induct) auto

lemma utf8_head_pos: "0 < snd (utf8_head a bs)"
  using follow_bytes_ge [of 1] by (auto simp: utf8_head_def Suc_le_eq)

function utf8_valid :: "bytes \<Rightarrow> bool" where
  "utf8_valid [] = True"
| "utf8_valid (a # bs) =
     (let (ok, n) = utf8_head a bs in ok \<and> utf8_valid (drop n (a # bs)))"
  by pat_completeness auto
termination
proof (relation "measure length", goal_cases)
  case (2 a bs r ok n)
  then have "0 < n" using utf8_head_pos [of a bs] by (metis snd_conv)
  then show ?case by simp
qed simp

function from_utf8_lossy :: "bytes \<Rightarrow> str" where
  "from_utf8_lossy [] = []"
| "from_utf8_lossy (a # bs) =
     (let (ok, n) = utf8_head a bs
      in (if ok then take n (a # bs) else [0xEF, 0xBF, 0xBD]) @ from_utf8_lossy (drop n (a # bs)))"
  by pat_completeness auto
termination
proof (relation "measure length", goal_cases)
  case (2 a bs r ok n)
  then have "0 < n" using utf8_head_pos [of a bs] by (metis snd_conv)
  then show ?case by simp
qed simp

declare utf8_valid.simps(2) [simp del] from_utf8_lossy.simps(2) [simp del]

definition from_utf8 :: "bytes \<Rightarrow> str option" where
  "from_utf8 bs = (if utf8_valid bs then Some bs else None)"

lemma lossy_valid: "utf8_valid bs \<Longrightarrow> from_utf8_lossy bs = bs"
proof (induction bs rule: utf8_valid.induct)
  case 1
  then show ?case by simp
next
  case (2 a bs)
  obtain n where h: "utf8_head a bs = (True, n)" and v: "utf8_valid (drop n (a # bs))"
    using 2(2) by (auto simp: utf8_valid.simps(2) split: prod.splits)
  have "from_utf8_lossy (drop n (a # bs)) = drop n (a # bs)"
    using 2(1) [OF h [symmetric] refl v] by simp
  then show ?case by (simp add: from_utf8_lossy.simps(2) h)
qed

lemma utf8_valid_ascii: "\<forall>b \<in> set bs. b < 0x80 \<Longrightarrow> utf8_valid bs"
  by (induction bs) (auto simp: utf8_valid.simps(2) utf8_head_def)

text \<open>\<open>s.contains(t)\<close>.\<close>

fun str_contains :: "'a list \<Rightarrow> 'a list \<Rightarrow> bool" where
  "str_contains [] t = (t = [])"
| "str_contains (b # bs) t = (take (length t) (b # bs) = t \<or> str_contains bs t)"

end
