(* ===== verification/Heap_Ops.thy ===== *)
theory Heap_Ops
  imports Heap_Page Buffer_Pool Transaction Utf8
begin

text \<open>
  Tables on heap pages: \<open>executor/heap.rs\<close> (insert, scans, update, delete, vacuum). The state is the
  shared buffer cache together with the log; an operation is an action on it (\<open>act\<close> of the prelude)
  that stops at the first failure and keeps the effects up to there. The encoding of tuples and log
  records by the \<open>bincode\<close> crate is the record \<open>bincode\<close> of three functions, an argument of
  everything that uses it. The index scan of the same file walks B-tree pages and is not part of this
  theory.
\<close>

section \<open>Visibility of a tuple\<close>

record Filter =
  filter_column :: nat
  filter_value :: bytes

definition is_visible :: "Tuple \<Rightarrow> Snapshot \<Rightarrow> bool" where
  "is_visible tup snap =
     (if tup_xmin tup = 0 then False
      else
        let xmin = ucast (tup_xmin tup) :: u32;
            xmax = (if tup_xmax tup \<noteq> 0 then Some (ucast (tup_xmax tup) :: u32) else None);
            xmin_visible = (xmin \<notin> set (active_xids snap) \<and> xmin < snap_xid snap)
        in if \<not> xmin_visible then False
           else case xmax of
               Some xm \<Rightarrow> (if xm \<notin> set (active_xids snap) \<and> xm < snap_xid snap then False else True)
             | None \<Rightarrow> True)"

section \<open>Row images\<close>

text \<open>The values of a row are written one after the other, separated by a zero byte.\<close>

fun join_values :: "bytes list \<Rightarrow> bytes" where
  "join_values [] = []"
| "join_values [v] = v"
| "join_values (v # vs) = v @ 0 # join_values vs"

text \<open>
  The loop of \<open>decode_tuple_values\<close> over the fields: \<open>i\<close> is the index of the next field, \<open>k\<close> the number of
  fields left, \<open>n\<close> the number of all fields, \<open>rest\<close> the bytes from the current position on. A value
  that is not valid UTF-8 is read as the empty string.
\<close>

fun decode_fields :: "nat \<Rightarrow> nat \<Rightarrow> nat \<Rightarrow> nat \<Rightarrow> bytes \<Rightarrow> str list" where
  "decode_fields nslots n i 0 rest = []"
| "decode_fields nslots n i (Suc k) rest =
     (if i < nslots \<and> rest \<noteq> [] then
        let v = takeWhile (\<lambda>b. b \<noteq> 0) rest; rest' = dropWhile (\<lambda>b. b \<noteq> 0) rest;
            val = (case from_utf8 v of Some x \<Rightarrow> x | None \<Rightarrow> [])
        in if rest' = [] then
             (if i < n - 1 then val # replicate (n - Suc i) []
              else val # decode_fields nslots n (Suc i) k rest')
           else val # decode_fields nslots n (Suc i) k (tl rest')
      else [] # decode_fields nslots n (Suc i) k rest)"

definition decode_tuple_values :: "Tuple \<Rightarrow> TupleDesc \<Rightarrow> str list" where
  "decode_tuple_values tup desc =
     (let n = length (td_fields desc)
      in if tup_data tup = [] then replicate n []
         else decode_fields (length (tup_slots tup)) n 0 n (tup_data tup))"

text \<open>\<open>old_data.split(|b| b == 0)\<close>, and the new image with one part replaced.\<close>

fun split_zero :: "bytes \<Rightarrow> bytes list" where
  "split_zero [] = [[]]"
| "split_zero (b # bs) =
     (if b = 0 then [] # split_zero bs
      else case split_zero bs of [] \<Rightarrow> [[b]] | p # ps \<Rightarrow> (b # p) # ps)"

definition build_updated_data :: "bytes \<Rightarrow> nat \<Rightarrow> bytes \<Rightarrow> bytes option" where
  "build_updated_data old col v =
     (let parts = split_zero old
      in if col < length parts then Some (join_values (parts[col := v])) else None)"

section \<open>The state of the executor\<close>

record bincode =
  ser_tuple :: "Tuple \<Rightarrow> bytes res"
  de_tuple :: "bytes \<Rightarrow> Tuple option"
  ser_record :: "WALRecord \<Rightarrow> bytes res"

record 's db =
  db_cache :: "'s SharedBufferCache"
  db_wal :: WAL

definition relation_state :: "oid \<Rightarrow> ('s db, MutableRelationState) act" where
  "relation_state rel =
     (\<lambda>db. (db, case get_relation_state rel (db_cache db) of
                  None \<Rightarrow> Err ''Relation not found'' | Some r \<Rightarrow> Ok r))"

definition set_relation_state :: "oid \<Rightarrow> MutableRelationState \<Rightarrow> ('s db, unit) act" where
  "set_relation_state rel r =
     (\<lambda>db. (db\<lparr>db_cache := (db_cache db)\<lparr>rels := (rels (db_cache db))(rel \<mapsto> r)\<rparr>\<rparr>, Ok ()))"

definition storage_read :: "'s StorageTrait \<Rightarrow> pid \<Rightarrow> ('s db, bytes) act" where
  "storage_read st p = (\<lambda>db. (db, read_page st (cache_storage (db_cache db)) p))"

definition storage_write :: "'s StorageTrait \<Rightarrow> pid \<Rightarrow> bytes \<Rightarrow> ('s db, unit) act" where
  "storage_write st p d =
     (\<lambda>db. case write_page st (cache_storage (db_cache db)) p d of
        Inl e \<Rightarrow> (db, Inl e)
      | Inr s \<Rightarrow> (db\<lparr>db_cache := (db_cache db)\<lparr>cache_storage := s\<rparr>\<rparr>, Ok ()))"

definition next_transaction_id :: "('s db, u64) act" where
  "next_transaction_id =
     (\<lambda>db. case allocate_xid (db_wal db) of (w, x) \<Rightarrow> (db\<lparr>db_wal := w\<rparr>, Ok x))"

definition log_append :: "bool \<Rightarrow> bincode \<Rightarrow> WALRecord \<Rightarrow> ('s db, u64) act" where
  "log_append oc bc r =
     (\<lambda>db. case wal_append oc (ser_record bc) r (db_wal db) of (w, lsn) \<Rightarrow> (db\<lparr>db_wal := w\<rparr>, lsn))"

text \<open>\<open>rel_state.dirty_buffers.push(page_id)\<close> on the state as it is now.\<close>

definition push_dirty :: "oid \<Rightarrow> pid \<Rightarrow> ('s db, unit) act" where
  "push_dirty rel p =
     (\<lambda>db. case rels (db_cache db) rel of
        None \<Rightarrow> (db, Ok ())
      | Some r \<Rightarrow> set_relation_state rel (r\<lparr>dirty_buffers := dirty_buffers r @ [p]\<rparr>) db)"

section \<open>Insert\<close>

definition new_tuple :: "bytes list \<Rightarrow> u64 \<Rightarrow> Tuple" where
  "new_tuple vals xid =
     \<lparr>tup_slots = map word_of_nat [0..<length vals], tup_data = join_values vals, tup_xmin = xid,
      tup_xmax = 0, tup_cmin = 0, tup_cmax = 0, tup_xvac = 0\<rparr>"

text \<open>
  The page an insert goes to, with the page list: the last page, or page 1, created empty, when the
  relation has none.
\<close>

definition insert_page ::
    "bool \<Rightarrow> 's StorageTrait \<Rightarrow> MutableRelationState \<Rightarrow> ('s db, pid \<times> pid list) act" where
  "insert_page oc st rs =
     (if relation_pages (rs_relation rs) = [] then
        act_then (lift_res (page_serialize oc new_heap_page)) (\<lambda>img.
        act_then (storage_write st 1 img) (\<lambda>_. ret (1, [1])))
      else ret (last (relation_pages (rs_relation rs)), relation_pages (rs_relation rs)))"

definition set_pages :: "oid \<Rightarrow> MutableRelationState \<Rightarrow> pid list \<Rightarrow> pid \<Rightarrow> ('s db, unit) act" where
  "set_pages rel rs page_list p =
     set_relation_state rel
       (rs\<lparr>dirty_buffers := dirty_buffers rs @ [p], rs_relation := (rs_relation rs)\<lparr>relation_pages := page_list\<rparr>\<rparr>)"

text \<open>Put the encoded tuple on the page, or on a new one when it is full; the result is the page used.\<close>

definition place_encoded ::
    "bool \<Rightarrow> 's StorageTrait \<Rightarrow> oid \<Rightarrow> MutableRelationState \<Rightarrow> pid \<Rightarrow> pid list \<Rightarrow> HeapPage \<Rightarrow> bytes \<Rightarrow>
       ('s db, pid) act" where
  "place_encoded oc st rel rs last_page page_list heap_page encoded =
     act_then (lift_res (add_tuple oc encoded heap_page)) (\<lambda>(heap_page', slot).
       case slot of
         None \<Rightarrow>
           act_then (lift_res (word_add oc last_page 1)) (\<lambda>new_page_id.
           act_then (lift_res (add_tuple oc encoded new_heap_page)) (\<lambda>(new_page, _).
           act_then (lift_res (page_serialize oc new_page)) (\<lambda>new_img.
           act_then (storage_write st new_page_id new_img) (\<lambda>_.
           act_then (lift_res (page_serialize oc heap_page')) (\<lambda>img.
           act_then (storage_write st last_page img) (\<lambda>_.
           act_then (set_pages rel rs (page_list @ [new_page_id]) new_page_id) (\<lambda>_.
           ret new_page_id)))))))
       | Some _ \<Rightarrow>
           act_then (lift_res (page_serialize oc heap_page')) (\<lambda>img.
           act_then (storage_write st last_page img) (\<lambda>_.
           act_then (set_pages rel rs page_list last_page) (\<lambda>_.
           ret last_page))))"

definition tuple_insert ::
    "bool \<Rightarrow> 's StorageTrait \<Rightarrow> bincode \<Rightarrow> oid \<Rightarrow> bytes list \<Rightarrow> ('s db, unit) act" where
  "tuple_insert oc st bc rel vals =
     act_then (relation_state rel) (\<lambda>rs.
     act_then (insert_page oc st rs) (\<lambda>(page_id, pages).
     act_then (storage_read st page_id) (\<lambda>page_data.
     act_then (lift_res (page_deserialize oc page_data)) (\<lambda>heap_page.
     act_then next_transaction_id (\<lambda>xid.
     act_then (lift_res (ser_tuple bc (new_tuple vals xid))) (\<lambda>encoded.
     act_then (place_encoded oc st rel rs page_id pages heap_page encoded) (\<lambda>target.
     act_then (log_append oc bc (Insert rel target (new_tuple vals xid))) (\<lambda>_. ret ()))))))))"

fun tuple_insert_bulk ::
    "bool \<Rightarrow> 's StorageTrait \<Rightarrow> bincode \<Rightarrow> oid \<Rightarrow> bytes list list \<Rightarrow> ('s db, unit) act" where
  "tuple_insert_bulk oc st bc rel [] = ret ()"
| "tuple_insert_bulk oc st bc rel (vals # rows) =
     act_then (tuple_insert oc st bc rel vals) (\<lambda>_. tuple_insert_bulk oc st bc rel rows)"

section \<open>Scans\<close>

text \<open>The rows of one page: every stored tuple that decodes and is visible, with its position.\<close>

definition page_rows ::
    "bincode \<Rightarrow> Snapshot \<Rightarrow> TupleDesc \<Rightarrow> pid \<Rightarrow> HeapPage \<Rightarrow> (ItemPointerData \<times> str list) list" where
  "page_rows bc snap desc p pg =
     concat (map (\<lambda>(i, d).
         case de_tuple bc d of
           None \<Rightarrow> []
         | Some tup \<Rightarrow>
             if is_visible tup snap
             then [(\<lparr>ip_page_id = p, ip_offset = word_of_nat i\<rparr>, decode_tuple_values tup desc)] else [])
       (zip [0..<length (tuples pg)] (tuples pg)))"

fun rows_of_pages ::
    "bool \<Rightarrow> bincode \<Rightarrow> Snapshot \<Rightarrow> TupleDesc \<Rightarrow> (pid \<times> bytes) list \<Rightarrow> (ItemPointerData \<times> str list) list res" where
  "rows_of_pages oc bc snap desc [] = Ok []"
| "rows_of_pages oc bc snap desc ((p, d) # ps) =
     and_then (page_deserialize oc d) (\<lambda>pg.
     and_then (rows_of_pages oc bc snap desc ps) (\<lambda>rows. Ok (page_rows bc snap desc p pg @ rows)))"

definition heap_scan_with_snapshot ::
    "bool \<Rightarrow> 's StorageTrait \<Rightarrow> bincode \<Rightarrow> oid \<Rightarrow> Snapshot \<Rightarrow> ('s db, (ItemPointerData \<times> str list) list) act" where
  "heap_scan_with_snapshot oc st bc rel snap =
     act_then (relation_state rel) (\<lambda>rs.
     act_then
       (\<lambda>db. case fetch_pages_batch oc st (relation_pages (rs_relation rs)) (db_cache db) of
               (c, r) \<Rightarrow> (db\<lparr>db_cache := c\<rparr>, r))
       (\<lambda>pages. lift_res (rows_of_pages oc bc snap (tuple_desc (rs_relation rs)) pages)))"

definition default_snapshot :: Snapshot where
  "default_snapshot = \<lparr>snap_xid = 0xFFFFFFFF, active_xids = []\<rparr>"

definition heap_scan_with_optional_snapshot ::
    "bool \<Rightarrow> 's StorageTrait \<Rightarrow> bincode \<Rightarrow> oid \<Rightarrow> Snapshot option \<Rightarrow>
       ('s db, (ItemPointerData \<times> str list) list) act" where
  "heap_scan_with_optional_snapshot oc st bc rel snap =
     heap_scan_with_snapshot oc st bc rel (case snap of Some s \<Rightarrow> s | None \<Rightarrow> default_snapshot)"

definition heap_scan ::
    "bool \<Rightarrow> 's StorageTrait \<Rightarrow> bincode \<Rightarrow> oid \<Rightarrow> ('s db, (ItemPointerData \<times> str list) list) act" where
  "heap_scan oc st bc rel = heap_scan_with_optional_snapshot oc st bc rel None"

text \<open>The filter of \<open>slow_scan\<close> keeps a row whose column contains the value, and rows without that column.\<close>

definition slow_filter :: "Filter option \<Rightarrow> str list \<Rightarrow> bool" where
  "slow_filter flt row =
     (case flt of
        None \<Rightarrow> True
      | Some f \<Rightarrow>
          if filter_column f < length row
          then \<not> (\<not> str_contains (row ! filter_column f) (from_utf8_lossy (filter_value f)) \<and>
                  row ! filter_column f \<noteq> from_utf8_lossy (filter_value f))
          else True)"

fun slow_pages ::
    "bool \<Rightarrow> 's StorageTrait \<Rightarrow> bincode \<Rightarrow> TupleDesc \<Rightarrow> Filter option \<Rightarrow> pid list \<Rightarrow>
       ('s db, (ItemPointerData \<times> str list) list) act" where
  "slow_pages oc st bc desc flt [] = ret []"
| "slow_pages oc st bc desc flt (p # ps) =
     act_then (storage_read st p) (\<lambda>d.
     act_then (lift_res (page_deserialize oc d)) (\<lambda>pg.
     act_then (slow_pages oc st bc desc flt ps) (\<lambda>rows.
     ret (filter (\<lambda>(_, row). slow_filter flt row) (page_rows bc default_snapshot desc p pg) @ rows))))"

definition slow_scan ::
    "bool \<Rightarrow> 's StorageTrait \<Rightarrow> bincode \<Rightarrow> oid \<Rightarrow> Filter option \<Rightarrow> ('s db, (ItemPointerData \<times> str list) list) act" where
  "slow_scan oc st bc rel flt =
     act_then (relation_state rel) (\<lambda>rs.
       slow_pages oc st bc (tuple_desc (rs_relation rs)) flt (relation_pages (rs_relation rs)))"

section \<open>Update\<close>

definition matches :: "Filter option \<Rightarrow> str list \<Rightarrow> bool" where
  "matches flt row =
     (case flt of
        None \<Rightarrow> True
      | Some f \<Rightarrow> filter_column f < length row \<and> row ! filter_column f = from_utf8_lossy (filter_value f))"

definition tuples_to_update ::
    "bincode \<Rightarrow> TupleDesc \<Rightarrow> nat \<Rightarrow> bytes \<Rightarrow> Filter option \<Rightarrow> HeapPage \<Rightarrow> (nat \<times> Tuple \<times> bytes) list" where
  "tuples_to_update bc desc col v flt pg =
     concat (map (\<lambda>(i, d).
         case de_tuple bc d of
           None \<Rightarrow> []
         | Some tup \<Rightarrow>
             if matches flt (decode_tuple_values tup desc)
             then (case build_updated_data (tup_data tup) col v of None \<Rightarrow> [] | Some nd \<Rightarrow> [(i, tup, nd)])
             else [])
       (zip [0..<length (tuples pg)] (tuples pg)))"

definition decoded :: "bincode \<Rightarrow> bytes \<Rightarrow> Tuple res" where
  "decoded bc d = (case de_tuple bc d of Some t \<Rightarrow> Ok t | None \<Rightarrow> Err ''bincode'')"

text \<open>\<open>heap_page.tuples[i] = d\<close>.\<close>

definition put_tuple :: "nat \<Rightarrow> bytes \<Rightarrow> HeapPage \<Rightarrow> HeapPage res" where
  "put_tuple i d pg = (if i < length (tuples pg) then Ok (pg\<lparr>tuples := (tuples pg)[i := d]\<rparr>) else panic)"

text \<open>Write the page, note it in the relation's state, log the record.\<close>

definition save_page ::
    "bool \<Rightarrow> 's StorageTrait \<Rightarrow> oid \<Rightarrow> pid \<Rightarrow> HeapPage \<Rightarrow> ('s db, unit) act" where
  "save_page oc st rel p pg =
     act_then (lift_res (page_serialize oc pg)) (\<lambda>img.
     act_then (storage_write st p img) (\<lambda>_. push_dirty rel p))"

definition update_one ::
    "bool \<Rightarrow> 's StorageTrait \<Rightarrow> bincode \<Rightarrow> oid \<Rightarrow> pid \<Rightarrow> nat \<times> Tuple \<times> bytes \<Rightarrow> HeapPage \<Rightarrow> ('s db, HeapPage) act" where
  "update_one oc st bc rel p item pg =
     (let (slot, tup, nd) = item
      in act_then next_transaction_id (\<lambda>xid.
         let new_tup = tup\<lparr>tup_xmin := xid, tup_xmax := 0, tup_data := nd\<rparr>; old_tup = tup\<lparr>tup_xmax := xid\<rparr>
         in act_then (lift_res (ser_tuple bc new_tup)) (\<lambda>new_encoded.
            act_then (lift_res (hot_update oc (word_of_nat slot) new_encoded pg)) (\<lambda>(pg1, hot).
            act_then (lift_res (ser_tuple bc old_tup)) (\<lambda>old_encoded.
            act_then (lift_res (put_tuple slot old_encoded pg1)) (\<lambda>pg2.
            case hot of
              Some new_slot \<Rightarrow>
                act_then (save_page oc st rel p pg2) (\<lambda>_.
                act_then (lift_res (if unat new_slot < length (tuples pg2)
                                    then decoded bc (tuples pg2 ! unat new_slot) else panic)) (\<lambda>logged.
                act_then (log_append oc bc (Update rel p old_tup logged)) (\<lambda>_. ret pg2)))
            | None \<Rightarrow>
                act_then (lift_res (add_tuple oc new_encoded pg2)) (\<lambda>(pg3, _).
                act_then (save_page oc st rel p pg3) (\<lambda>_.
                act_then (log_append oc bc (Update rel p old_tup new_tup)) (\<lambda>_. ret pg3)))))))))"

fun update_page ::
    "bool \<Rightarrow> 's StorageTrait \<Rightarrow> bincode \<Rightarrow> oid \<Rightarrow> pid \<Rightarrow> (nat \<times> Tuple \<times> bytes) list \<Rightarrow> HeapPage \<Rightarrow>
       ('s db, nat) act" where
  "update_page oc st bc rel p [] pg = ret 0"
| "update_page oc st bc rel p (item # items) pg =
     act_then (update_one oc st bc rel p item pg) (\<lambda>pg'.
     act_then (update_page oc st bc rel p items pg') (\<lambda>n. ret (Suc n)))"

text \<open>The loop over the pages of a relation that the update, the delete and the vacuum share.\<close>

fun each_page ::
    "bool \<Rightarrow> 's StorageTrait \<Rightarrow> (pid \<Rightarrow> HeapPage \<Rightarrow> ('s db, nat) act) \<Rightarrow> pid list \<Rightarrow> ('s db, nat) act" where
  "each_page oc st f [] = ret 0"
| "each_page oc st f (p # ps) =
     act_then (storage_read st p) (\<lambda>d.
     act_then (lift_res (page_deserialize oc d)) (\<lambda>pg.
     act_then (f p pg) (\<lambda>n.
     act_then (each_page oc st f ps) (\<lambda>k. ret (n + k)))))"

definition tuple_update ::
    "bool \<Rightarrow> 's StorageTrait \<Rightarrow> bincode \<Rightarrow> oid \<Rightarrow> nat \<Rightarrow> bytes \<Rightarrow> Filter option \<Rightarrow> ('s db, nat) act" where
  "tuple_update oc st bc rel col v flt =
     act_then (relation_state rel) (\<lambda>rs.
       each_page oc st
         (\<lambda>p pg. update_page oc st bc rel p
            (tuples_to_update bc (tuple_desc (rs_relation rs)) col v flt pg) pg)
         (relation_pages (rs_relation rs)))"

section \<open>Delete and vacuum\<close>

definition tuples_to_delete ::
    "bincode \<Rightarrow> TupleDesc \<Rightarrow> Filter option \<Rightarrow> HeapPage \<Rightarrow> (nat \<times> Tuple) list" where
  "tuples_to_delete bc desc flt pg =
     concat (map (\<lambda>(i, d).
         case de_tuple bc d of
           None \<Rightarrow> [] | Some tup \<Rightarrow> if matches flt (decode_tuple_values tup desc) then [(i, tup)] else [])
       (zip [0..<length (tuples pg)] (tuples pg)))"

fun delete_page ::
    "bool \<Rightarrow> 's StorageTrait \<Rightarrow> bincode \<Rightarrow> oid \<Rightarrow> pid \<Rightarrow> (nat \<times> Tuple) list \<Rightarrow> HeapPage \<Rightarrow> ('s db, nat) act" where
  "delete_page oc st bc rel p [] pg = ret 0"
| "delete_page oc st bc rel p ((slot, tup) # items) pg =
     act_then next_transaction_id (\<lambda>xid.
     let old_tup = tup\<lparr>tup_xmax := xid\<rparr>
     in act_then (lift_res (ser_tuple bc old_tup)) (\<lambda>encoded.
        act_then (lift_res (put_tuple slot encoded pg)) (\<lambda>pg'.
        act_then (save_page oc st rel p pg') (\<lambda>_.
        act_then (log_append oc bc (Delete rel p old_tup)) (\<lambda>_.
        act_then (delete_page oc st bc rel p items pg') (\<lambda>n. ret (Suc n)))))))"

definition tuple_delete ::
    "bool \<Rightarrow> 's StorageTrait \<Rightarrow> bincode \<Rightarrow> oid \<Rightarrow> Filter option \<Rightarrow> ('s db, nat) act" where
  "tuple_delete oc st bc rel flt =
     act_then (relation_state rel) (\<lambda>rs.
       each_page oc st
         (\<lambda>p pg. delete_page oc st bc rel p (tuples_to_delete bc (tuple_desc (rs_relation rs)) flt pg) pg)
         (relation_pages (rs_relation rs)))"

definition reclaimable :: "bincode \<Rightarrow> u32 \<Rightarrow> bytes \<Rightarrow> bool" where
  "reclaimable bc oldest d =
     (case de_tuple bc d of
        Some tup \<Rightarrow> tup_xmax tup \<noteq> 0 \<and> tup_xmax tup < ucast oldest | None \<Rightarrow> False)"

text \<open>The slots after the marking loop of \<open>vacuum_relation\<close>, and the number of slots marked.\<close>

fun mark_dead :: "(bytes \<Rightarrow> bool) \<Rightarrow> LinePointer list \<Rightarrow> bytes list \<Rightarrow> LinePointer list \<times> nat" where
  "mark_dead dead [] ts = ([], 0)"
| "mark_dead dead (lp # lps) [] = (lp # lps, 0)"
| "mark_dead dead (lp # lps) (t # ts) =
     (let (lps', n) = mark_dead dead lps ts
      in if lp_flags lp = LP_NORMAL \<and> dead t then (lp\<lparr>lp_flags := LP_DEAD\<rparr> # lps', Suc n)
         else (lp # lps', n))"

definition invalidate_cached :: "pid \<Rightarrow> ('s db, unit) act" where
  "invalidate_cached p =
     (\<lambda>db. case cache_invalidate_page p (db_cache db) of
        Inl e \<Rightarrow> (db, Inl e) | Inr c \<Rightarrow> (db\<lparr>db_cache := c\<rparr>, Ok ()))"

definition vacuum_page ::
    "bool \<Rightarrow> 's StorageTrait \<Rightarrow> bincode \<Rightarrow> oid \<Rightarrow> u32 \<Rightarrow> pid \<Rightarrow> HeapPage \<Rightarrow> ('s db, nat) act" where
  "vacuum_page oc st bc rel oldest p pg =
     (let (lps, n) = mark_dead (reclaimable bc oldest) (line_pointers pg) (tuples pg)
      in if n > 0 then
           act_then (lift_res (compact oc (pg\<lparr>line_pointers := lps\<rparr>))) (\<lambda>pg'.
           act_then (lift_res (page_serialize oc pg')) (\<lambda>img.
           act_then (storage_write st p img) (\<lambda>_.
           act_then (invalidate_cached p) (\<lambda>_.
           act_then (push_dirty rel p) (\<lambda>_. ret n)))))
         else ret 0)"

definition vacuum_relation ::
    "bool \<Rightarrow> 's StorageTrait \<Rightarrow> bincode \<Rightarrow> oid \<Rightarrow> u32 \<Rightarrow> ('s db, nat) act" where
  "vacuum_relation oc st bc rel oldest =
     act_then (relation_state rel) (\<lambda>rs.
       each_page oc st (vacuum_page oc st bc rel oldest) (relation_pages (rs_relation rs)))"

section \<open>Rows survive their image\<close>

lemma takeWhile_nul [simp]:
  "0 \<notin> set v \<Longrightarrow> takeWhile (\<lambda>b. b \<noteq> 0) (v @ 0 # rest) = v"
  "0 \<notin> set v \<Longrightarrow> dropWhile (\<lambda>b. b \<noteq> 0) (v @ 0 # rest) = (0 :: byte) # rest"
  by (induction v) auto

lemma takeWhile_all [simp]:
  "0 \<notin> set v \<Longrightarrow> takeWhile (\<lambda>b. b \<noteq> 0) v = (v :: bytes)"
  "0 \<notin> set v \<Longrightarrow> dropWhile (\<lambda>b. b \<noteq> 0) v = ([] :: bytes)"
  by (induction v) auto

lemma decode_empty: "decode_fields ns n i k [] = replicate k []"
  by (induction k arbitrary: i) auto

lemma decode_join:
  assumes "\<forall>v \<in> set vals. 0 \<notin> set v \<and> utf8_valid v" and "i + length vals = n" and "vals \<noteq> []"
  shows "decode_fields n n i (length vals) (join_values vals) = vals"
  using assms
proof (induction vals arbitrary: i rule: join_values.induct)
  case (2 v)
  then show ?case by (cases "v = []") (auto simp: from_utf8_def)
next
  case (3 v w vs)
  have "decode_fields n n (Suc i) (length (w # vs)) (join_values (w # vs)) = w # vs"
    using 3 by simp
  then show ?case using 3 by (simp add: from_utf8_def Let_def)
qed simp

lemma row_image:
  assumes "\<forall>v \<in> set vals. 0 \<notin> set v \<and> utf8_valid v" and "length (td_fields desc) = length vals"
  shows "decode_tuple_values (new_tuple vals xid) desc = vals"
proof (cases "join_values vals = []")
  case True
  then have "vals = [] \<or> vals = [[]]" by (cases vals rule: join_values.cases) auto
  then show ?thesis using assms(2) True by (auto simp: decode_tuple_values_def new_tuple_def)
next
  case False
  then have "vals \<noteq> []" by auto
  then show ?thesis
    using assms decode_join [OF assms(1), of 0 "length vals"] False
    by (simp add: decode_tuple_values_def new_tuple_def)
qed

lemma split_join:
  assumes "\<forall>v \<in> set vals. 0 \<notin> set v" and "vals \<noteq> []"
  shows "split_zero (join_values vals) = vals"
proof -
  have one: "split_zero v = [v]" if "0 \<notin> set v" for v :: bytes
    using that by (induction v) auto
  have "split_zero (v @ 0 # rest) = v # split_zero rest" if "0 \<notin> set v" for v rest :: bytes
    using that by (induction v) auto
  then show ?thesis using assms one by (induction vals rule: join_values.induct) auto
qed

section \<open>Pages of live tuples\<close>

text \<open>A page on which every slot is normal and no tuple is empty: what inserts alone produce.\<close>

definition plain :: "HeapPage \<Rightarrow> bool" where
  "plain pg \<longleftrightarrow> page_ok pg \<and> (\<forall>lp \<in> set (line_pointers pg). lp_flags lp = LP_NORMAL) \<and> [] \<notin> set (tuples pg)"

lemma plain_new [simp]: "plain new_heap_page"
  by (simp add: plain_def) (simp add: new_heap_page_def)

lemma plain_image:
  assumes "plain pg"
  obtains img pg' where "page_serialize oc pg = Ok img" "length img = PAGE_SIZE"
    "page_deserialize oc img = Ok pg'" "tuples pg' = tuples pg" "plain pg'"
    "header pg' = (header pg)\<lparr>pd_upper := word_of_nat (PAGE_SIZE - normal_bytes (line_pointers pg) (tuples pg))\<rparr>"
proof -
  let ?nb = "normal_bytes (line_pointers pg) (tuples pg)"
  have ok: "page_ok pg" and nrm: "\<forall>lp \<in> set (line_pointers pg). lp_flags lp = LP_NORMAL" and ne: "[] \<notin> set (tuples pg)"
    using assms by (auto simp: plain_def)
  have lens: "length (line_pointers pg) = length (tuples pg)" using ok by (simp add: page_ok_def)
  have full: "\<forall>(lp, t) \<in> set (zip (line_pointers pg) (tuples pg)). lp_flags lp = LP_NORMAL \<longrightarrow> t \<noteq> []"
    using ne by (auto dest: set_zip_rightD)
  obtain img pg' where img: "page_serialize oc pg = Ok img" "length img = PAGE_SIZE" "page_deserialize oc img = Ok pg'"
    and h: "header pg' = (header pg)\<lparr>pd_upper := word_of_nat (PAGE_SIZE - ?nb)\<rparr>"
    and fl: "map lp_flags (line_pointers pg') = map lp_flags (line_pointers pg)"
    and ts: "tuples pg' = map2 (\<lambda>lp t. if lp_flags lp = LP_NORMAL then t else []) (line_pointers pg) (tuples pg)"
    using page_image [OF ok full, of oc] by blast
  have same: "tuples pg' = tuples pg"
    unfolding ts using lens nrm by (intro nth_equalityI) auto
  have n: "length (line_pointers pg') = length (line_pointers pg)" using fl by (metis length_map)
  have nrm': "\<forall>lp \<in> set (line_pointers pg'). lp_flags lp = LP_NORMAL"
    using nrm fl by (metis in_set_conv_nth length_map nth_map)
  have "normal_bytes lps ts' = sum_list (map length ts')"
    if "length lps = length ts'" "\<forall>lp \<in> set lps. lp_flags lp = LP_NORMAL" for lps ts'
    using that by (induction lps ts' rule: list_induct2) auto
  then have nb': "normal_bytes (line_pointers pg') (tuples pg') = ?nb"
    using nrm nrm' n lens same by simp
  have u: "unat (word_of_nat (PAGE_SIZE - ?nb) :: u16) = PAGE_SIZE - ?nb" by (simp add: PAGE_SIZE_def)
  have "page_ok pg'"
    using ok n same nb' u h by (simp add: page_ok_def word_le_nat_alt) linarith
  then have "plain pg'" using nrm' ne same by (simp add: plain_def)
  then show thesis using that img same h by blast
qed

lemma plain_add_tuple:
  assumes "plain pg" and "length d \<le> unat (pd_upper (header pg))" and "d \<noteq> []"
  obtains (full) "add_tuple oc d pg = Ok (pg, None)"
    | (added) pg' slot where "add_tuple oc d pg = Ok (pg', Some slot)" "tuples pg' = tuples pg @ [d]" "plain pg'"
proof -
  have ok: "page_ok pg" and nrm: "\<forall>lp \<in> set (line_pointers pg). lp_flags lp = LP_NORMAL" and ne: "[] \<notin> set (tuples pg)"
    using assms by (auto simp: plain_def)
  have nodead: "find_slot (\<lambda>lp. lp_flags lp = LP_DEAD) (line_pointers pg) 0 = None"
    using nrm by (auto simp: find_slot_None lp_consts)
  show thesis
  proof (cases "unat (pd_lower (header pg)) + LINE_POINTER_SIZE > unat (pd_upper (header pg)) - length d")
    case True
    then show thesis using full assms(2) nodead by (simp add: add_tuple_def)
  next
    case False
    obtain pg' slot where run: "add_tuple oc d pg = Ok (pg', Some slot)"
      and pg': "tuples pg' = tuples pg @ [d]" "\<forall>lp \<in> set (line_pointers pg'). lp_flags lp = LP_NORMAL"
      using False assms(2) nodead nrm by (auto simp: add_tuple_def new_line_pointer_def)
    have "page_ok pg'" using add_tuple_ok [OF ok assms(2) run] by simp
    then show thesis using added run pg' ne assms(3) by (simp add: plain_def)
  qed
qed

lemma new_page_add:
  assumes "length d \<le> 8162" and "d \<noteq> []"
  obtains pg' slot where "add_tuple oc d new_heap_page = Ok (pg', Some slot)" "tuples pg' = [d]" "plain pg'"
proof -
  have up: "unat (pd_upper (header new_heap_page)) = 8192" and lo: "unat (pd_lower (header new_heap_page)) = 26"
    by (simp_all add: new_heap_page_def new_page_header_def page_consts)
  have le: "length d \<le> unat (pd_upper (header new_heap_page))" using assms up by simp
  show thesis
  proof (rule plain_add_tuple [OF plain_new le assms(2), of oc])
    assume "add_tuple oc d new_heap_page = Ok (new_heap_page, None)"
    moreover have "line_pointers new_heap_page = []" by (simp add: new_heap_page_def)
    ultimately show thesis using assms up lo by (auto simp: add_tuple_def Let_def LINE_POINTER_SIZE_def split: if_splits)
  next
    fix pg' slot
    assume "add_tuple oc d new_heap_page = Ok (pg', Some slot)" "tuples pg' = tuples new_heap_page @ [d]" "plain pg'"
    then show thesis using that by (simp add: new_heap_page_def)
  qed
qed

section \<open>A table and its rows\<close>

text \<open>The pages of a relation in the storage hold the heap pages \<open>pgs\<close>.\<close>

definition table :: "bool \<Rightarrow> 's StorageTrait \<Rightarrow> 's \<Rightarrow> pid list \<Rightarrow> HeapPage list \<Rightarrow> bool" where
  "table oc st s ps pgs \<longleftrightarrow> distinct ps \<and>
     list_all2 (\<lambda>p pg. plain pg \<and> (\<exists>d. read_page st s p = Ok d \<and> page_deserialize oc d = Ok pg)) ps pgs"

abbreviation db_storage :: "'s db \<Rightarrow> 's" where
  "db_storage db \<equiv> cache_storage (db_cache db)"

abbreviation all_rows :: "bincode \<Rightarrow> TupleDesc \<Rightarrow> pid list \<Rightarrow> HeapPage list \<Rightarrow> (ItemPointerData \<times> str list) list" where
  "all_rows bc desc ps pgs \<equiv> concat (map2 (page_rows bc default_snapshot desc) ps pgs)"

lemma slow_pages_table:
  assumes "list_all2 (\<lambda>p pg. plain pg \<and> (\<exists>d. read_page st (db_storage db) p = Ok d \<and> page_deserialize oc d = Ok pg)) ps pgs"
  shows "slow_pages oc st bc desc None ps db = (db, Ok (all_rows bc desc ps pgs))"
  using assms
proof (induction ps pgs rule: list_all2_induct)
  case (Cons p ps pg pgs)
  then obtain d where d: "read_page st (db_storage db) p = Ok d" "page_deserialize oc d = Ok pg" by blast
  have rd: "storage_read st p db = (db, Ok d)" by (simp add: storage_read_def d)
  have all: "filter (\<lambda>(_, row). slow_filter None row) rows = rows" for rows :: "(ItemPointerData \<times> str list) list"
    by (simp add: slow_filter_def split_def)
  show ?case using Cons.IH by (simp add: rd d all)
qed simp

lemma slow_scan_table:
  assumes "table oc st (db_storage db) (relation_pages (rs_relation rs)) pgs"
    and "get_relation_state rel (db_cache db) = Some rs"
  shows "slow_scan oc st bc rel None db =
     (db, Ok (all_rows bc (tuple_desc (rs_relation rs)) (relation_pages (rs_relation rs)) pgs))"
proof -
  have "relation_state rel db = (db, Ok rs)" using assms(2) by (simp add: relation_state_def)
  moreover have "list_all2 (\<lambda>p pg. plain pg \<and> (\<exists>d. read_page st (db_storage db) p = Ok d \<and> page_deserialize oc d = Ok pg))
      (relation_pages (rs_relation rs)) pgs"
    using assms(1) by (simp add: table_def)
  ultimately show ?thesis by (simp add: slow_scan_def slow_pages_table)
qed

text \<open>The rows of a page after its tuples got one more.\<close>

lemma page_rows_snoc:
  assumes "tuples pg' = tuples pg @ [d]" and "de_tuple bc d = Some tup" and "is_visible tup snap"
  shows "page_rows bc snap desc p pg' = page_rows bc snap desc p pg @
     [(\<lparr>ip_page_id = p, ip_offset = word_of_nat (length (tuples pg))\<rparr>, decode_tuple_values tup desc)]"
  using assms by (simp add: page_rows_def)

lemma page_rows_cong: "tuples pg = tuples pg' \<Longrightarrow> page_rows bc snap desc p pg = page_rows bc snap desc p pg'"
  by (simp add: page_rows_def)

lemma new_tuple_visible:
  assumes "0 < unat xid" and "unat xid < 4294967295"
  shows "is_visible (new_tuple vals xid) default_snapshot"
proof -
  have "unat (ucast xid :: u32) = unat xid" using assms by (simp add: unsigned_ucast_eq take_bit_nat_eq_self)
  then have "(ucast xid :: u32) < 0xFFFFFFFF" using assms(2) by (simp add: word_less_nat_alt)
  moreover have "xid \<noteq> 0" using assms(1) by auto
  ultimately show ?thesis by (simp add: is_visible_def new_tuple_def default_snapshot_def)
qed

definition with_storage :: "'s \<Rightarrow> 's db \<Rightarrow> 's db" where
  "with_storage s db = db\<lparr>db_cache := (db_cache db)\<lparr>cache_storage := s\<rparr>\<rparr>"

lemma with_storage_simps [simp]:
  "db_storage (with_storage s db) = s" "db_wal (with_storage s db) = db_wal db"
  "rels (db_cache (with_storage s db)) = rels (db_cache db)"
  "cache_pool (db_cache (with_storage s db)) = cache_pool (db_cache db)"
  "with_storage s (with_storage t db) = with_storage s db"
  by (simp_all add: with_storage_def)

lemma set_pages_run:
  "\<exists>db'. set_pages rel rs ps p db = (db', Ok ()) \<and> db_storage db' = db_storage db \<and> db_wal db' = db_wal db \<and>
     (\<exists>rs'. get_relation_state rel (db_cache db') = Some rs' \<and> rs_relation rs' = (rs_relation rs)\<lparr>relation_pages := ps\<rparr>)"
  by (simp add: set_pages_def set_relation_state_def get_relation_state_def)

context page_store
begin

lemma storage_write_ok:
  assumes "inv (db_storage db)" and "fits (db_storage db) p img"
  obtains s' where "storage_write st p img db = (with_storage s' db, Ok ())" "inv s'" "fits s' = fits (db_storage db)"
    "read_page st s' p = Ok img" "\<And>q. q \<noteq> p \<Longrightarrow> read_page st s' q = read_page st (db_storage db) q"
proof -
  obtain s' where w: "write_page st (db_storage db) p img = Ok s'" using write_ok assms by blast
  then have "storage_write st p img db = (with_storage s' db, Ok ())"
    by (simp add: storage_write_def with_storage_def)
  then show thesis
    using that write_inv write_fits read_write read_other assms w by metis
qed

lemma storage_write_plain:
  assumes "inv (db_storage db)" and "\<forall>p d. p \<in> T \<longrightarrow> length d = PAGE_SIZE \<longrightarrow> fits (db_storage db) p d" and "plain pg" and "p \<in> T"
  shows "\<exists>img s' pg'. page_serialize oc pg = Ok img \<and> storage_write st p img db = (with_storage s' db, Ok ()) \<and>
    inv s' \<and> (\<forall>p d. p \<in> T \<longrightarrow> length d = PAGE_SIZE \<longrightarrow> fits s' p d) \<and> tuples pg' = tuples pg \<and>
    table oc st s' [p] [pg'] \<and> (\<forall>q. q \<noteq> p \<longrightarrow> read_page st s' q = read_page st (db_storage db) q) \<and>
    header pg' = (header pg)\<lparr>pd_upper := word_of_nat (PAGE_SIZE - normal_bytes (line_pointers pg) (tuples pg))\<rparr>"
proof -
  obtain img pg' where img: "page_serialize oc pg = Ok img" "length img = PAGE_SIZE" "page_deserialize oc img = Ok pg'"
    "tuples pg' = tuples pg" "plain pg'"
    "header pg' = (header pg)\<lparr>pd_upper := word_of_nat (PAGE_SIZE - normal_bytes (line_pointers pg) (tuples pg))\<rparr>"
    using plain_image [OF assms(3), of oc] by metis
  have "fits (db_storage db) p img" using assms(2,4) img(2) by simp
  then obtain s' where "storage_write st p img db = (with_storage s' db, Ok ())" "inv s'" "fits s' = fits (db_storage db)"
    "read_page st s' p = Ok img" "\<And>q. q \<noteq> p \<Longrightarrow> read_page st s' q = read_page st (db_storage db) q"
    using storage_write_ok [OF assms(1)] by metis
  then show ?thesis
    using img assms(2) by (intro exI [of _ img] exI [of _ s'] exI [of _ pg']) (simp add: table_def)
qed

end

lemma table_keep:
  assumes "table oc st s ps pgs" and "\<And>q. q \<in> set ps \<Longrightarrow> read_page st s' q = read_page st s q"
  shows "table oc st s' ps pgs"
  using assms by (auto simp: table_def elim!: list.rel_mono_strong)

lemma table_append:
  assumes "table oc st s ps pgs" and "table oc st s qs pgs'" and "set ps \<inter> set qs = {}"
  shows "table oc st s (ps @ qs) (pgs @ pgs')"
  using assms by (auto simp: table_def intro: list_all2_appendI)

lemma table_last:
  assumes "table oc st s (ps @ [p]) (pgs @ [pg])"
  shows "table oc st s ps pgs" "table oc st s [p] [pg]" "p \<notin> set ps" "length ps = length pgs"
proof -
  have "length ps = length pgs" using assms by (auto simp: table_def dest: list_all2_lengthD)
  then show "table oc st s ps pgs" "table oc st s [p] [pg]" "p \<notin> set ps" "length ps = length pgs"
    using assms by (auto simp: table_def list_all2_append)
qed

text \<open>The pages an insert may write: the last page of the relation and the one after it, or the first two.\<close>

definition write_targets :: "pid list \<Rightarrow> pid set" where
  "write_targets ps = (if ps = [] then {1, 2} else {last ps, last ps + 1})"

text \<open>The rows of a table after one tuple was stored: the old ones, then the row of the tuple.\<close>

definition row_added :: "pid list \<Rightarrow> HeapPage list \<Rightarrow> bytes \<Rightarrow> pid list \<Rightarrow> HeapPage list \<Rightarrow> bool" where
  "row_added ps pgs d ps' pgs' \<longleftrightarrow>
     (\<forall>bc desc tup. de_tuple bc d = Some tup \<longrightarrow> is_visible tup default_snapshot \<longrightarrow>
        (\<exists>tid. all_rows bc desc ps' pgs' = all_rows bc desc ps pgs @ [(tid, decode_tuple_values tup desc)]))"

lemma row_added_same_page:
  assumes "tuples pg' = tuples pg @ [d]" and "length ps = length pgs"
  shows "row_added (ps @ [p]) (pgs @ [pg]) d (ps @ [p]) (pgs @ [pg'])"
  using assms by (simp add: row_added_def page_rows_snoc)

lemma row_added_new_page:
  assumes "tuples pg' = tuples pg" and "tuples new = [d]" and "length ps = length pgs"
  shows "row_added (ps @ [p]) (pgs @ [pg]) d (ps @ [p] @ [q]) (pgs @ [pg'] @ [new])"
proof -
  have "page_rows bc default_snapshot desc p pg' = page_rows bc default_snapshot desc p pg" for bc desc
    using assms(1) by (rule page_rows_cong)
  moreover have "page_rows bc default_snapshot desc q new =
      [(\<lparr>ip_page_id = q, ip_offset = 0\<rparr>, decode_tuple_values tup desc)]"
    if "de_tuple bc d = Some tup" "is_visible tup default_snapshot" for bc desc tup
    using that assms(2) by (simp add: page_rows_def)
  ultimately show ?thesis using assms(3) by (auto simp: row_added_def)
qed

context page_store
begin

lemma place_encoded_table:
  assumes s: "inv (db_storage db)" and big: "\<forall>p d. p \<in> T \<longrightarrow> length d = PAGE_SIZE \<longrightarrow> fits (db_storage db) p d"
    and tab: "table oc st (db_storage db) (ps @ [p]) (pgs @ [pg])"
    and d: "length d \<le> unat (pd_upper (header pg))" "length d \<le> 8162" "d \<noteq> []"
    and p: "unat p < 4294967295" "p + 1 \<notin> set ps" and T: "p \<in> T" "p + 1 \<in> T"
  shows "\<exists>db' target rs' ps' pgs'. place_encoded oc st rel rs p (ps @ [p]) pg d db = (db', Ok target) \<and>
     get_relation_state rel (db_cache db') = Some rs' \<and> rs_relation rs' = (rs_relation rs)\<lparr>relation_pages := ps'\<rparr> \<and>
     table oc st (db_storage db') ps' pgs' \<and> db_wal db' = db_wal db \<and> row_added (ps @ [p]) (pgs @ [pg]) d ps' pgs' \<and>
     (unat (pd_lower (header pg)) + LINE_POINTER_SIZE + length d \<le> unat (pd_upper (header pg)) \<longrightarrow> ps' = ps @ [p])"
proof -
  note tab0 = table_last(1) [OF tab] and tab1 = table_last(2) [OF tab] and np = table_last(3) [OF tab]
    and len = table_last(4) [OF tab]
  have pl: "plain pg" using tab1 by (simp add: table_def)
  show ?thesis
  proof (rule plain_add_tuple [OF pl d(1,3), of oc])
    assume full: "add_tuple oc d pg = Ok (pg, None)"
    then have no_room: "\<not> unat (pd_lower (header pg)) + LINE_POINTER_SIZE + length d \<le> unat (pd_upper (header pg))"
      using d(1) by (auto simp: add_tuple_def Let_def split: if_splits option.splits)
    obtain new slot where new: "add_tuple oc d new_heap_page = Ok (new, Some slot)" "tuples new = [d]" "plain new"
      using new_page_add [OF d(2,3), of oc] by blast
    have succ: "word_add oc p 1 = Ok (p + 1)" using p(1) by simp
    have neq: "p + 1 \<noteq> p" by simp
    obtain img1 s1 new' where w1: "page_serialize oc new = Ok img1" "storage_write st (p + 1) img1 db = (with_storage s1 db, Ok ())"
      and s1: "inv s1" "\<forall>p d. p \<in> T \<longrightarrow> length d = PAGE_SIZE \<longrightarrow> fits s1 p d" "tuples new' = tuples new"
      and t1: "table oc st s1 [p + 1] [new']" and o1: "\<forall>q. q \<noteq> p + 1 \<longrightarrow> read_page st s1 q = read_page st (db_storage db) q"
      using storage_write_plain [OF s big new(3) T(2), of oc] by blast
    have s1': "inv (db_storage (with_storage s1 db))" "\<forall>p d. p \<in> T \<longrightarrow> length d = PAGE_SIZE \<longrightarrow> fits (db_storage (with_storage s1 db)) p d"
      using s1 by simp_all
    obtain img2 s2 pg' where w2: "page_serialize oc pg = Ok img2"
        "storage_write st p img2 (with_storage s1 db) = (with_storage s2 (with_storage s1 db), Ok ())"
      and "inv s2" "\<forall>p d. p \<in> T \<longrightarrow> length d = PAGE_SIZE \<longrightarrow> fits s2 p d"
      and pg': "tuples pg' = tuples pg" and t2: "table oc st s2 [p] [pg']"
      and o2: "\<forall>q. q \<noteq> p \<longrightarrow> read_page st s2 q = read_page st (db_storage (with_storage s1 db)) q"
      using storage_write_plain [OF s1' pl T(1), of oc] by blast
    obtain db' rs' where sp: "set_pages rel rs ((ps @ [p]) @ [p + 1]) (p + 1) (with_storage s2 db) = (db', Ok ())"
      and db': "db_storage db' = s2" "db_wal db' = db_wal db" "get_relation_state rel (db_cache db') = Some rs'"
        "rs_relation rs' = (rs_relation rs)\<lparr>relation_pages := (ps @ [p]) @ [p + 1]\<rparr>"
      using set_pages_run [of rel rs "(ps @ [p]) @ [p + 1]" "p + 1" "with_storage s2 db"] by auto
    have run: "place_encoded oc st rel rs p (ps @ [p]) pg d db = (db', Ok (p + 1))"
      using full succ new w1 w2 sp by (simp add: place_encoded_def)
    have "table oc st s2 ps pgs" by (rule table_keep [OF tab0]) (use o1 o2 np p(2) in \<open>metis with_storage_simps(1)\<close>)
    moreover have "table oc st s2 [p + 1] [new']" by (rule table_keep [OF t1]) (use o2 neq in simp)
    ultimately have "table oc st s2 (ps @ [p] @ [p + 1]) (pgs @ [pg'] @ [new'])"
      using t2 np p(2) neq by (intro table_append) auto
    then show ?thesis
      using run db' row_added_new_page [OF pg' _ len, of new' d p "p + 1"] s1(3) new(2) no_room
      by (metis append.assoc)
  next
    fix pg1 slot
    assume add: "add_tuple oc d pg = Ok (pg1, Some slot)" "tuples pg1 = tuples pg @ [d]" "plain pg1"
    obtain img s1 pg' where w: "page_serialize oc pg1 = Ok img" "storage_write st p img db = (with_storage s1 db, Ok ())"
      and "inv s1" "\<forall>p d. p \<in> T \<longrightarrow> length d = PAGE_SIZE \<longrightarrow> fits s1 p d"
      and pg': "tuples pg' = tuples pg1" and t1: "table oc st s1 [p] [pg']"
      and o1: "\<forall>q. q \<noteq> p \<longrightarrow> read_page st s1 q = read_page st (db_storage db) q"
      using storage_write_plain [OF s big add(3) T(1), of oc] by blast
    obtain db' rs' where sp: "set_pages rel rs (ps @ [p]) p (with_storage s1 db) = (db', Ok ())"
      and db': "db_storage db' = s1" "db_wal db' = db_wal db" "get_relation_state rel (db_cache db') = Some rs'"
        "rs_relation rs' = (rs_relation rs)\<lparr>relation_pages := ps @ [p]\<rparr>"
      using set_pages_run [of rel rs "ps @ [p]" p "with_storage s1 db"] by auto
    have run: "place_encoded oc st rel rs p (ps @ [p]) pg d db = (db', Ok p)"
      using add w sp by (simp add: place_encoded_def)
    have "table oc st s1 ps pgs" by (rule table_keep [OF tab0]) (use o1 np in auto)
    then have "table oc st s1 (ps @ [p]) (pgs @ [pg'])" using t1 np by (intro table_append) auto
    then show ?thesis using run db' row_added_same_page [of pg' pg d ps pgs p] pg' add(2) len by metis
  qed
qed

text \<open>
  The page an insert goes to: afterwards the relation's pages are a table of plain pages with the same
  rows as before, and the last one has the room that was required.
\<close>

lemma insert_page_table:
  assumes s: "inv (db_storage db)" and big: "\<forall>p d. p \<in> T \<longrightarrow> length d = PAGE_SIZE \<longrightarrow> fits (db_storage db) p d"
    and tab: "table oc st (db_storage db) (relation_pages (rs_relation rs)) pgs"
    and room: "pgs \<noteq> [] \<Longrightarrow> n \<le> unat (pd_upper (header (last pgs)))" "n \<le> 8192"
    and T: "relation_pages (rs_relation rs) = [] \<Longrightarrow> 1 \<in> T"
  shows "\<exists>s1 ps p pgs1 pg. insert_page oc st rs db = (with_storage s1 db, Ok (p, ps @ [p])) \<and> inv s1 \<and>
     (\<forall>p d. p \<in> T \<longrightarrow> length d = PAGE_SIZE \<longrightarrow> fits s1 p d) \<and> table oc st s1 (ps @ [p]) (pgs1 @ [pg]) \<and>
     n \<le> unat (pd_upper (header pg)) \<and>
     (\<forall>bc desc. all_rows bc desc (ps @ [p]) (pgs1 @ [pg]) = all_rows bc desc (relation_pages (rs_relation rs)) pgs) \<and>
     (ps @ [p] = relation_pages (rs_relation rs) \<and> pgs1 @ [pg] = pgs \<or>
      relation_pages (rs_relation rs) = [] \<and> ps = [] \<and> p = 1)"
proof (cases "relation_pages (rs_relation rs) = []")
  case True
  obtain img s1 pg' where w: "page_serialize oc new_heap_page = Ok img" "storage_write st 1 img db = (with_storage s1 db, Ok ())"
    and s1: "inv s1" "\<forall>p d. p \<in> T \<longrightarrow> length d = PAGE_SIZE \<longrightarrow> fits s1 p d" and ts: "tuples pg' = tuples new_heap_page"
    and t: "table oc st s1 [1] [pg']"
    and h: "header pg' = (header new_heap_page)\<lparr>pd_upper := word_of_nat (PAGE_SIZE -
        normal_bytes (line_pointers new_heap_page) (tuples new_heap_page))\<rparr>"
    using storage_write_plain [OF s big plain_new T [OF True], of oc] by blast
  have "unat (pd_upper (header pg')) = 8192" "tuples pg' = []"
    using h ts by (simp_all add: new_heap_page_def PAGE_SIZE_def)
  moreover have "insert_page oc st rs db = (with_storage s1 db, Ok (1, [] @ [1]))"
    using True w by (simp add: insert_page_def)
  moreover have "page_rows bc default_snapshot desc 1 pg' = []" for bc desc
    using \<open>tuples pg' = []\<close> by (simp add: page_rows_def)
  ultimately show ?thesis using True s1 t room(2) by (intro exI [of _ s1] exI [of _ "[]"] exI [of _ 1] exI [of _ pg']) simp
next
  case False
  then obtain ps p where ps: "relation_pages (rs_relation rs) = ps @ [p]" by (metis rev_exhaust)
  have "length (ps @ [p]) = length pgs" using tab ps by (auto simp: table_def dest: list_all2_lengthD)
  then obtain pgs1 pg where pgs: "pgs = pgs1 @ [pg]" by (cases pgs rule: rev_exhaust) auto
  have "insert_page oc st rs db = (with_storage (db_storage db) db, Ok (p, ps @ [p]))"
    using ps by (simp add: insert_page_def with_storage_def)
  moreover have "n \<le> unat (pd_upper (header pg))" using room(1) pgs by simp
  ultimately show ?thesis
    using ps pgs s big tab by metis
qed

lemma insert_then_slow_scan:
  fixes rs :: MutableRelationState and db :: "'s db" and vals :: "bytes list"
  defines "tup \<equiv> new_tuple vals (current_xid (db_wal db))"
  assumes s: "inv (db_storage db)" "\<forall>p d. p \<in> T \<longrightarrow> length d = PAGE_SIZE \<longrightarrow> fits (db_storage db) p d"
    and rs: "get_relation_state rel (db_cache db) = Some rs"
    and tab: "table oc st (db_storage db) (relation_pages (rs_relation rs)) pgs"
    and bc: "ser_tuple bc tup = Ok d" "de_tuple bc d = Some tup" "d \<noteq> []" "length d \<le> 8162"
    and room: "pgs \<noteq> [] \<Longrightarrow> length d \<le> unat (pd_upper (header (last pgs)))"
    and pid: "\<And>ps p. relation_pages (rs_relation rs) = ps @ [p] \<Longrightarrow> unat p < 4294967295 \<and> p + 1 \<notin> set ps"
    and T: "write_targets (relation_pages (rs_relation rs)) \<subseteq> T"
    and vis: "is_visible tup default_snapshot"
    and log: "\<And>p. \<exists>w lsn. wal_append oc (ser_record bc) (Insert rel p tup) (fst (allocate_xid (db_wal db))) = (w, Ok lsn)"
  shows "\<exists>db' rows tid. slow_scan oc st bc rel None db = (db, Ok rows) \<and>
     tuple_insert oc st bc rel vals db = (db', Ok ()) \<and>
     slow_scan oc st bc rel None db' = (db', Ok (rows @ [(tid, decode_tuple_values tup (tuple_desc (rs_relation rs)))])) \<and>
     (\<exists>rs' ps'. get_relation_state rel (db_cache db') = Some rs' \<and> rs_relation rs' = (rs_relation rs)\<lparr>relation_pages := ps'\<rparr> \<and>
        (\<forall>p pg. relation_pages (rs_relation rs) = [p] \<longrightarrow> pgs = [pg] \<longrightarrow>
           unat (pd_lower (header pg)) + LINE_POINTER_SIZE + length d \<le> unat (pd_upper (header pg)) \<longrightarrow> ps' = [p]))"
proof -
  have le: "length d \<le> 8192" using bc(4) by simp
  have one: "1 \<in> T" if "relation_pages (rs_relation rs) = []" using T that by (simp add: write_targets_def)
  obtain s1 ps p pgs1 pg where ip: "insert_page oc st rs db = (with_storage s1 db, Ok (p, ps @ [p]))"
    and s1: "inv s1" "\<forall>p d. p \<in> T \<longrightarrow> length d = PAGE_SIZE \<longrightarrow> fits s1 p d" and t1: "table oc st s1 (ps @ [p]) (pgs1 @ [pg])"
    and up: "length d \<le> unat (pd_upper (header pg))"
    and rows: "\<forall>bc desc. all_rows bc desc (ps @ [p]) (pgs1 @ [pg]) = all_rows bc desc (relation_pages (rs_relation rs)) pgs"
    and which: "ps @ [p] = relation_pages (rs_relation rs) \<and> pgs1 @ [pg] = pgs \<or> relation_pages (rs_relation rs) = [] \<and> ps = [] \<and> p = 1"
    using insert_page_table [OF s tab room le one] by blast
  have p: "unat p < 4294967295" "p + 1 \<notin> set ps" using which pid [of ps p] by auto
  have "write_targets (relation_pages (rs_relation rs)) = {p, p + 1}"
    using which by (auto simp: write_targets_def dest: sym)
  then have pT: "p \<in> T" "p + 1 \<in> T" using T by simp_all
  obtain page_data where rd: "read_page st s1 p = Ok page_data" "page_deserialize oc page_data = Ok pg"
    using table_last(2) [OF t1] by (auto simp: table_def)
  let ?db2 = "(with_storage s1 db)\<lparr>db_wal := fst (allocate_xid (db_wal db))\<rparr>"
  have db2: "db_storage ?db2 = s1" by (simp add: with_storage_def)
  obtain db3 target rs' ps' pgs' where pe: "place_encoded oc st rel rs p (ps @ [p]) pg d ?db2 = (db3, Ok target)"
    and r3: "get_relation_state rel (db_cache db3) = Some rs'" "rs_relation rs' = (rs_relation rs)\<lparr>relation_pages := ps'\<rparr>"
    and t3: "table oc st (db_storage db3) ps' pgs'" and w3: "db_wal db3 = db_wal ?db2"
    and added: "row_added (ps @ [p]) (pgs1 @ [pg]) d ps' pgs'"
    and stay: "unat (pd_lower (header pg)) + LINE_POINTER_SIZE + length d \<le> unat (pd_upper (header pg)) \<longrightarrow> ps' = ps @ [p]"
    using place_encoded_table [of ?db2 T oc ps p pgs1 pg d rel rs] s1 t1 up bc(3,4) p pT db2 by auto
  obtain w lsn where ap: "wal_append oc (ser_record bc) (Insert rel target tup) (db_wal db3) = (w, Ok lsn)"
    using log [of target] w3 by auto
  let ?db' = "db3\<lparr>db_wal := w\<rparr>"
  have run: "tuple_insert oc st bc rel vals db = (?db', Ok ())"
    using rs ip rd bc(1) pe ap unfolding tup_def
    by (simp add: tuple_insert_def relation_state_def storage_read_def next_transaction_id_def allocate_xid_def
        log_append_def)
  let ?desc = "tuple_desc (rs_relation rs)"
  obtain tid where "all_rows bc ?desc ps' pgs' = all_rows bc ?desc (ps @ [p]) (pgs1 @ [pg]) @ [(tid, decode_tuple_values tup ?desc)]"
    using added bc(2) vis unfolding row_added_def by blast
  moreover have "slow_scan oc st bc rel None ?db' = (?db', Ok (all_rows bc ?desc ps' pgs'))"
    using slow_scan_table [of oc st ?db' rs' pgs' rel bc] r3 t3 by simp
  moreover have "relation_pages (rs_relation rs) = [q] \<longrightarrow> pgs = [qg] \<longrightarrow>
      unat (pd_lower (header qg)) + LINE_POINTER_SIZE + length d \<le> unat (pd_upper (header qg)) \<longrightarrow> ps' = [q]" for q qg
    using which stay by auto
  moreover have "get_relation_state rel (db_cache ?db') = Some rs'" using r3 by simp
  ultimately show ?thesis using slow_scan_table [OF tab rs] run rows r3(2)
    by (intro exI [of _ ?db'] exI [of _ "all_rows bc ?desc (relation_pages (rs_relation rs)) pgs"] exI [of _ tid]) auto
qed

end

section \<open>The pool and the inserts\<close>

text \<open>An observation of the state that neither part of a sequence changes is not changed by it.\<close>

lemma act_then_keeps:
  assumes "\<And>s. f (fst (m s)) = f s" and "\<And>x s. f (fst (g x s)) = f s"
  shows "f (fst (act_then m g s)) = f s"
  using assms by (auto simp: act_then_def split: prod.splits sum.splits) (metis fst_conv)+

abbreviation pool_of :: "'s db \<Rightarrow> BufferPool" where
  "pool_of db \<equiv> cache_pool (db_cache db)"

lemma steps_keep_pool [simp]:
  "pool_of (fst (ret x db)) = pool_of db"
  "pool_of (fst (lift_res r db)) = pool_of db"
  "pool_of (fst (relation_state rel db)) = pool_of db"
  "pool_of (fst (storage_read st p db)) = pool_of db"
  "pool_of (fst (storage_write st p d db)) = pool_of db"
  "pool_of (fst (next_transaction_id db)) = pool_of db"
  "pool_of (fst (log_append oc bc rec db)) = pool_of db"
  "pool_of (fst (set_pages rel rs ps p db)) = pool_of db"
  by (simp_all add: relation_state_def storage_read_def storage_write_def next_transaction_id_def
      log_append_def set_pages_def set_relation_state_def split: sum.splits prod.splits)

text \<open>An insert writes to the storage and leaves the buffer pool alone.\<close>

lemma insert_keeps_pool: "pool_of (fst (tuple_insert oc st bc rel vals db)) = pool_of db"
proof -
  have ip: "pool_of (fst (insert_page oc st rs db)) = pool_of db" for rs db
    unfolding insert_page_def by (simp add: act_then_keeps [of pool_of])
  have pe: "pool_of (fst (place_encoded oc st rel rs p ps pg d db)) = pool_of db" for rs p ps pg d db
    unfolding place_encoded_def
    by (intro act_then_keeps [of pool_of]) (auto split: option.splits intro!: act_then_keeps [of pool_of])
  show ?thesis
    unfolding tuple_insert_def
    by (intro act_then_keeps [of pool_of]) (auto simp: ip pe split: prod.splits intro!: act_then_keeps [of pool_of])
qed

lemma scan_cached_snapshot:
  assumes rs: "get_relation_state rel (db_cache db) = Some rs" "relation_pages (rs_relation rs) = [p]"
    and pool: "page_map (pool_of db) p = Some i" "i < length (buffers (pool_of db))"
      "buf_data (buffers (pool_of db) ! i) = img" "page_deserialize oc img = Ok pg"
    and cnt: "unat (usage_count (buffers (pool_of db) ! i)) \<le> c" "unat (pin_count (buffers (pool_of db) ! i)) \<le> c" "c < 4294967295"
  shows "\<exists>b. heap_scan_with_optional_snapshot oc st bc rel snap db =
      (db\<lparr>db_cache := (db_cache db)\<lparr>cache_pool := (pool_of db)\<lparr>buffers := (buffers (pool_of db))[i := b]\<rparr>\<rparr>\<rparr>,
       Ok (page_rows bc (case snap of Some s \<Rightarrow> s | None \<Rightarrow> default_snapshot) (tuple_desc (rs_relation rs)) p pg)) \<and>
     buf_data b = img \<and> unat (usage_count b) \<le> Suc c \<and> unat (pin_count b) \<le> Suc c"
proof -
  obtain b where b: "bump oc (buffers (pool_of db) ! i) = Ok b" "buf_data b = img"
    "unat (usage_count b) \<le> Suc c" "unat (pin_count b) \<le> Suc c"
    using bump_ok [OF cnt, of oc] pool(3) by metis
  then show ?thesis
    using rs pool
    by (simp add: heap_scan_with_optional_snapshot_def heap_scan_with_snapshot_def relation_state_def
        fetch_pages_batch_def with_pool_def fetch_page_def buffer_data_def act_then_def) blast
qed

lemma scan_cached_page:
  assumes rs: "get_relation_state rel (db_cache db) = Some rs" "relation_pages (rs_relation rs) = [p]"
    and pool: "page_map (pool_of db) p = Some i" "i < length (buffers (pool_of db))"
      "buf_data (buffers (pool_of db) ! i) = img" "page_deserialize oc img = Ok pg"
    and cnt: "unat (usage_count (buffers (pool_of db) ! i)) \<le> c" "unat (pin_count (buffers (pool_of db) ! i)) \<le> c" "c < 4294967295"
  shows "\<exists>b. heap_scan oc st bc rel db =
      (db\<lparr>db_cache := (db_cache db)\<lparr>cache_pool := (pool_of db)\<lparr>buffers := (buffers (pool_of db))[i := b]\<rparr>\<rparr>\<rparr>,
       Ok (page_rows bc default_snapshot (tuple_desc (rs_relation rs)) p pg)) \<and>
     buf_data b = img \<and> unat (usage_count b) \<le> Suc c \<and> unat (pin_count b) \<le> Suc c"
  using scan_cached_snapshot [OF assms, of st bc None] by (simp add: heap_scan_def)

section \<open>Properties\<close>

text \<open>
  The conditions of the next theorems: the storage keeps its contract and takes page images at the pages an insert may
  write, the relation is registered and its pages are a table of pages whose slots are all normal (none was freed by a
  vacuum), the tuple has an encoding \<open>d\<close> that decodes back, is not longer than \<open>pd_upper\<close> of the last page and fits an
  empty page, the next page number is free, the transaction counter is in the range of 32-bit identifiers, the log takes
  the record, and the values are zero-free UTF-8, one per column.
\<close>

definition insert_ready ::
    "bool \<Rightarrow> 's StorageTrait \<Rightarrow> ('s \<Rightarrow> bool) \<Rightarrow> ('s \<Rightarrow> pid \<Rightarrow> bytes \<Rightarrow> bool) \<Rightarrow> bincode \<Rightarrow> oid \<Rightarrow> bytes list \<Rightarrow>
       MutableRelationState \<Rightarrow> HeapPage list \<Rightarrow> bytes \<Rightarrow> 's db \<Rightarrow> bool" where
  "insert_ready oc st I fits bc rel vals rs pgs d db \<longleftrightarrow>
     (let ps = relation_pages (rs_relation rs); w = db_wal db; tup = new_tuple vals (current_xid w);
          seg = unat (segment_size w)
      in page_store st I fits \<and> I (db_storage db) \<and> (\<forall>p d. p \<in> write_targets ps \<longrightarrow> length d = PAGE_SIZE \<longrightarrow> fits (db_storage db) p d) \<and>
         get_relation_state rel (db_cache db) = Some rs \<and> table oc st (db_storage db) ps pgs \<and>
         ser_tuple bc tup = Ok d \<and> de_tuple bc d = Some tup \<and> d \<noteq> [] \<and> length d \<le> 8162 \<and>
         (pgs \<noteq> [] \<longrightarrow> length d \<le> unat (pd_upper (header (last pgs)))) \<and>
         (\<forall>qs p. ps = qs @ [p] \<longrightarrow> unat p < 4294967295 \<and> p + 1 \<notin> set qs) \<and>
         0 < unat (current_xid w) \<and> unat (current_xid w) < 4294967295 \<and>
         0 < seg \<and> (\<forall>p. \<exists>bs. ser_record bc (Insert rel p tup) = Ok bs \<and> length bs \<le> seg) \<and>
         unat (current_lsn w) + 2 * seg < 2 ^ 64 \<and> 2 + unat (current_lsn w) div seg < 2 ^ 32 \<and>
         (\<forall>v \<in> set vals. 0 \<notin> set v \<and> utf8_valid v) \<and> length (td_fields (tuple_desc (rs_relation rs))) = length vals)"

lemma insert_ready_scan:
  assumes "insert_ready oc st I fits bc rel vals rs pgs d db"
  shows "\<exists>db' rows tid. slow_scan oc st bc rel None db = (db, Ok rows) \<and>
     tuple_insert oc st bc rel vals db = (db', Ok ()) \<and>
     slow_scan oc st bc rel None db' = (db', Ok (rows @ [(tid, vals)])) \<and>
     (\<exists>rs' ps'. get_relation_state rel (db_cache db') = Some rs' \<and> rs_relation rs' = (rs_relation rs)\<lparr>relation_pages := ps'\<rparr> \<and>
        (\<forall>p pg. relation_pages (rs_relation rs) = [p] \<longrightarrow> pgs = [pg] \<longrightarrow>
           unat (pd_lower (header pg)) + LINE_POINTER_SIZE + length d \<le> unat (pd_upper (header pg)) \<longrightarrow> ps' = [p]))"
proof -
  note r = assms [unfolded insert_ready_def Let_def]
  let ?w = "fst (allocate_xid (db_wal db))" and ?t = "new_tuple vals (current_xid (db_wal db))"
  have w: "segment_size ?w = segment_size (db_wal db)" "current_lsn ?w = current_lsn (db_wal db)"
    by (simp_all add: allocate_xid_def)
  have log: "\<exists>w lsn. wal_append oc (ser_record bc) (Insert rel p ?t) ?w = (w, Ok lsn)" for p
  proof -
    obtain bs where "ser_record bc (Insert rel p ?t) = Ok bs" "length bs \<le> unat (segment_size (db_wal db))" using r by blast
    then show ?thesis
      using append_ok [of "ser_record bc" "Insert rel p ?t" bs ?w oc] r w by metis
  qed
  have row: "decode_tuple_values ?t (tuple_desc (rs_relation rs)) = vals" using r by (intro row_image) auto
  have vis: "is_visible ?t default_snapshot" using r by (intro new_tuple_visible) auto
  show ?thesis
    using page_store.insert_then_slow_scan [of st I fits db "write_targets (relation_pages (rs_relation rs))" rel rs oc pgs bc vals d]
      r vis log unfolding row by blast
qed


definition sample_relation :: "pid list \<Rightarrow> Relation" where
  "sample_relation ps = (empty_relation ''t'' [(''c'', 25)])\<lparr>relid := 9, relation_pages := ps\<rparr>"

text \<open>A stand-in for \<open>bincode\<close> on the one tuple of the examples.\<close>

definition sample_bincode :: bincode where
  "sample_bincode =
     \<lparr>ser_tuple = \<lambda>_. Ok [1, 2, 3],
      de_tuple = \<lambda>bs. if bs = [1, 2, 3] then Some (new_tuple [[65]] 1) else None,
      ser_record = \<lambda>_. Ok [9]\<rparr>"

definition sample_db :: "EphemeralStorage \<Rightarrow> BufferPool \<Rightarrow> pid list \<Rightarrow> EphemeralStorage db" where
  "sample_db s bp ps =
     \<lparr>db_cache = \<lparr>cache_storage = s, cache_pool = bp,
                  rels = [9 \<mapsto> \<lparr>rs_relation = sample_relation ps, dirty_buffers = []\<rparr>]\<rparr>,
      db_wal = new_wal 64\<rparr>"

lemma sample_ready:
  assumes "table oc ephemeral s ps pgs" and "pgs \<noteq> [] \<longrightarrow> 3 \<le> unat (pd_upper (header (last pgs)))"
    and "\<forall>qs p. ps = qs @ [p] \<longrightarrow> unat p < 4294967295 \<and> p + 1 \<notin> set qs"
  shows "insert_ready oc ephemeral (\<lambda>_. True) (\<lambda>_ _ _. True) sample_bincode 9 [[65]]
     \<lparr>rs_relation = sample_relation ps, dirty_buffers = []\<rparr> pgs [1, 2, 3] (sample_db s bp ps)"
  using assms ephemeral.page_store_axioms utf8_valid_ascii [of "[65]"]
  by (simp add: insert_ready_def sample_bincode_def sample_db_def sample_relation_def empty_relation_def
      get_relation_state_def new_wal_def numeral_3_eq_3)


text \<open>
  The buffer pool goes stale behind the inserts. An insert writes the page to the storage and does not
  touch the pool, so a heap scan that finds the relation's page cached returns, after a successful
  insert, exactly the rows it returned before; only a scan of the storage shows the new row.
\<close>

theorem cached_scan_misses_insert:
  assumes ready: "insert_ready oc st I fits bc rel vals rs [pg] d db"
    and one: "relation_pages (rs_relation rs) = [p]"
    and room: "unat (pd_lower (header pg)) + LINE_POINTER_SIZE + length d \<le> unat (pd_upper (header pg))"
    and cached: "page_map (pool_of db) p = Some i" "i < length (buffers (pool_of db))"
      "read_page st (db_storage db) p = Ok (buf_data (buffers (pool_of db) ! i))"
    and counts: "unat (usage_count (buffers (pool_of db) ! i)) < 1000" "unat (pin_count (buffers (pool_of db) ! i)) < 1000"
  shows "\<exists>db1 db2 db3 rows tid. tuple_insert oc st bc rel vals db = (db1, Ok ()) \<and>
     heap_scan oc st bc rel db = (db2, Ok rows) \<and> heap_scan oc st bc rel db1 = (db3, Ok rows) \<and>
     slow_scan oc st bc rel None db1 = (db1, Ok (rows @ [(tid, vals)]))"
proof -
  let ?img = "buf_data (buffers (pool_of db) ! i)" and ?desc = "tuple_desc (rs_relation rs)"
  obtain db1 rows tid rs' ps' where before: "slow_scan oc st bc rel None db = (db, Ok rows)"
    and ins: "tuple_insert oc st bc rel vals db = (db1, Ok ())"
    and after: "slow_scan oc st bc rel None db1 = (db1, Ok (rows @ [(tid, vals)]))"
    and rs': "get_relation_state rel (db_cache db1) = Some rs'" "rs_relation rs' = (rs_relation rs)\<lparr>relation_pages := ps'\<rparr>"
      "ps' = [p]"
    using insert_ready_scan [OF ready] one room by blast
  have rs: "get_relation_state rel (db_cache db) = Some rs" and tab: "table oc st (db_storage db) [p] [pg]"
    using ready one by (simp_all add: insert_ready_def Let_def)
  have de: "page_deserialize oc ?img = Ok pg" using tab cached(3) by (simp add: table_def)
  have pool1: "pool_of db1 = pool_of db" using insert_keeps_pool [of oc st bc rel vals db] ins by simp
  have rows: "rows = page_rows bc default_snapshot ?desc p pg"
    using before slow_scan_table [OF _ rs, of oc st "[pg]" bc] tab one by simp
  have c: "unat (usage_count (buffers (pool_of db) ! i)) \<le> 1000" "unat (pin_count (buffers (pool_of db) ! i)) \<le> 1000"
    "(1000 :: nat) < 4294967295" using counts by simp_all
  obtain db2 where "heap_scan oc st bc rel db = (db2, Ok rows)"
    using scan_cached_page [OF rs one cached(1,2) refl de c, of st bc] rows by auto
  moreover obtain db3 where "heap_scan oc st bc rel db1 = (db3, Ok rows)"
    using scan_cached_page [OF rs'(1), of p i ?img oc pg 1000 st bc] rs'(2,3) cached(1,2) de c rows pool1 by auto
  ultimately show ?thesis using ins after by blast
qed

theorem cached_scan_misses_insert_witness:
  "\<exists>s bp db1 db2 db3 tid. tuple_insert True ephemeral sample_bincode 9 [[65]] (sample_db s bp [5]) = (db1, Ok ()) \<and>
     heap_scan True ephemeral sample_bincode 9 (sample_db s bp [5]) = (db2, Ok []) \<and>
     heap_scan True ephemeral sample_bincode 9 db1 = (db3, Ok []) \<and>
     slow_scan True ephemeral sample_bincode 9 None db1 = (db1, Ok [(tid, [[65]])])"
proof -
  obtain img pg where img: "page_deserialize True img = Ok pg" "tuples pg = []" "plain pg"
    "header pg = (header new_heap_page)\<lparr>pd_upper := word_of_nat (PAGE_SIZE -
       normal_bytes (line_pointers new_heap_page) (tuples new_heap_page))\<rparr>"
    using plain_image [OF plain_new, of True] by (metis new_heap_page_def HeapPage.select_convs(3))
  let ?s = "[5 \<mapsto> img] :: EphemeralStorage"
  let ?bp = "\<lparr>pool_size = 1, buffers = [\<lparr>buf_page = 5, buf_data = img, is_dirty = False, usage_count = 1, pin_count = 1\<rparr>],
      page_map = [5 \<mapsto> 0], next_victim = 0\<rparr>"
  let ?db = "sample_db ?s ?bp [5]"
  have read: "read_page ephemeral ?s 5 = Ok img" by (simp add: ephemeral_def ephemeral_read_def)
  have tab: "table True ephemeral ?s [5] [pg]" using img read by (simp add: table_def)
  have h: "unat (pd_upper (header pg)) = 8192" "unat (pd_lower (header pg)) = 26"
    using img(4) by (simp_all add: new_heap_page_def new_page_header_def page_consts)
  have "insert_ready True ephemeral (\<lambda>_. True) (\<lambda>_ _ _. True) sample_bincode 9 [[65]]
      \<lparr>rs_relation = sample_relation [5], dirty_buffers = []\<rparr> [pg] [1, 2, 3] ?db"
    by (rule sample_ready [OF tab]) (simp_all add: h Cons_eq_append_conv)
  from cached_scan_misses_insert [OF this, of 5 0] obtain db1 db2 db3 rows tid where
    run: "tuple_insert True ephemeral sample_bincode 9 [[65]] ?db = (db1, Ok ())"
    "heap_scan True ephemeral sample_bincode 9 ?db = (db2, Ok rows)" "heap_scan True ephemeral sample_bincode 9 db1 = (db3, Ok rows)"
    "slow_scan True ephemeral sample_bincode 9 None db1 = (db1, Ok (rows @ [(tid, [[65]])]))"
    using h read by (auto simp: sample_db_def sample_relation_def page_consts)
  have "heap_scan True ephemeral sample_bincode 9 ?db = (db', Ok r) \<Longrightarrow> r = []" for db' r
    using scan_cached_page [of 9 ?db "\<lparr>rs_relation = sample_relation [5], dirty_buffers = []\<rparr>" 5 0 img True pg 1 ephemeral sample_bincode] img
    by (auto simp: sample_db_def sample_relation_def get_relation_state_def page_rows_def)
  then show ?thesis using run by fastforce
qed

text \<open>
  C19: rows keep their values. A row of zero-free UTF-8 values, one per column, is decoded from its image
  exactly as it was inserted, empty values included; and replacing one column in the image gives the image
  of the row with that column replaced.
\<close>

theorem row_roundtrip:
  assumes "\<forall>v \<in> set vals. 0 \<notin> set v \<and> utf8_valid v" and "length (td_fields desc) = length vals"
  shows "decode_tuple_values (new_tuple vals xid) desc = vals \<and>
    (\<forall>col < length vals. build_updated_data (tup_data (new_tuple vals xid)) col v =
       Some (tup_data (new_tuple (vals[col := v]) xid)))"
proof -
  have "build_updated_data (join_values vals) col v = Some (join_values (vals[col := v]))" if "col < length vals" for col
  proof -
    have "vals \<noteq> []" using that by auto
    then show ?thesis using split_join [of vals] assms(1) that by (simp add: build_updated_data_def)
  qed
  then show ?thesis using row_image [OF assms] by (simp add: new_tuple_def)
qed

theorem row_roundtrip_witness:
  "decode_tuple_values (new_tuple [[65], [], [66, 67]] 4) (tuple_desc (empty_relation ''t'' [(''a'', 25), (''b'', 25), (''c'', 25)])) =
     [[65], [], [66, 67]]"
  using row_roundtrip [of "[[65], [], [66, 67]]" "tuple_desc (empty_relation ''t'' [(''a'', 25), (''b'', 25), (''c'', 25)])" 4 "[]"]
    utf8_valid_ascii [of "[65]"] utf8_valid_ascii [of "[66, 67]"]
  by (simp add: empty_relation_def)

text \<open>
  The two visibility tests of the program disagree on every deleted row. For a tuple whose inserting
  transaction counts as finished in the snapshot and that carries a deletion mark, the heap's
  \<open>is_visible\<close> hides the row exactly when \<open>Snapshot::is_visible\<close> shows it; on rows without a deletion
  mark they agree.
\<close>

theorem visibility_tests_disagree:
  assumes "tup_xmin tup \<noteq> 0" and "snapshot_is_visible s (ucast (tup_xmin tup)) None"
  shows "is_visible tup s \<longleftrightarrow>
     (if tup_xmax tup = 0 then snapshot_is_visible s (ucast (tup_xmin tup)) None
      else \<not> snapshot_is_visible s (ucast (tup_xmin tup)) (Some (ucast (tup_xmax tup))))"
  using assms by (auto simp: is_visible_def snapshot_is_visible_def Let_def split: if_splits)

theorem visibility_tests_disagree_witness:
  "\<not> is_visible ((new_tuple [[65]] 3)\<lparr>tup_xmax := 4\<rparr>) \<lparr>snap_xid = 9, active_xids = []\<rparr> \<and>
   snapshot_is_visible \<lparr>snap_xid = 9, active_xids = []\<rparr> 3 (Some 4)"
  using visibility_tests_disagree [of "(new_tuple [[65]] 3)\<lparr>tup_xmax := 4\<rparr>" "\<lparr>snap_xid = 9, active_xids = []\<rparr>"]
  by (simp add: new_tuple_def snapshot_is_visible_def)

text \<open>
  An update on a full page loses the row. When the page has no room for the new version (and no dead
  slot), the update marks the old version deleted, finds no place for the new one, ignores that, and
  saves and logs the page: the page afterwards has the same tuples with only the deletion mark added, and
  the update is reported as done.
\<close>

theorem update_on_full_page_loses_row:
  assumes "plain pg" and "slot < length (tuples pg)"
    and new: "ser_tuple bc (tup\<lparr>tup_xmin := xid, tup_xmax := 0, tup_data := nd\<rparr>) = Ok new_encoded"
    and old: "ser_tuple bc (tup\<lparr>tup_xmax := xid\<rparr>) = Ok old_encoded"
    and full: "length new_encoded \<le> unat (pd_upper (header pg))"
      "unat (pd_upper (header pg)) < unat (pd_lower (header pg)) + LINE_POINTER_SIZE + length new_encoded"
    and xid: "next_transaction_id db = (db1, Ok xid)"
  shows "update_one oc st bc rel p (slot, tup, nd) pg db =
     (let pg' = pg\<lparr>tuples := (tuples pg)[slot := old_encoded]\<rparr>
      in act_then (save_page oc st rel p pg') (\<lambda>_.
         act_then (log_append oc bc (Update rel p (tup\<lparr>tup_xmax := xid\<rparr>)
             (tup\<lparr>tup_xmin := xid, tup_xmax := 0, tup_data := nd\<rparr>))) (\<lambda>_. ret pg')) db1)"
proof -
  let ?pg = "pg\<lparr>tuples := (tuples pg)[slot := old_encoded]\<rparr>"
  have nrm: "\<forall>lp \<in> set (line_pointers pg). lp_flags lp = LP_NORMAL" using assms(1) by (simp add: plain_def)
  then have dead: "find_slot (\<lambda>lp. lp_flags lp = LP_DEAD) (line_pointers pg) 0 = None"
    by (auto simp: find_slot_None lp_consts)
  have small: "unat (pd_upper (header pg)) - length new_encoded < unat (pd_lower (header pg)) + LINE_POINTER_SIZE"
    using full by linarith
  then have "hot_update oc (word_of_nat slot) new_encoded pg = Ok (pg, None)"
    using full(1) by (simp add: hot_update_def Let_def)
  moreover have "add_tuple oc new_encoded ?pg = Ok (?pg, None)"
    using full(1) small dead by (simp add: add_tuple_def)
  moreover have "put_tuple slot old_encoded pg = Ok ?pg" using assms(2) by (simp add: put_tuple_def)
  ultimately show ?thesis using new old xid by (simp add: update_one_def Let_def)
qed

theorem update_on_full_page_loses_row_witness:
  "\<exists>pg. tuples pg = [replicate 8140 1] \<and>
     update_one True ephemeral \<lparr>ser_tuple = \<lambda>_. Ok (replicate 50 2), de_tuple = \<lambda>_. None, ser_record = \<lambda>_. Ok [9]\<rparr>
       9 5 (0, new_tuple [[65]] 1, [66]) pg (sample_db new_ephemeral (new_buffer_pool 4) [5]) =
     act_then (save_page True ephemeral 9 5 (pg\<lparr>tuples := [replicate 50 2]\<rparr>)) (\<lambda>_.
       act_then (log_append True \<lparr>ser_tuple = \<lambda>_. Ok (replicate 50 2), de_tuple = \<lambda>_. None, ser_record = \<lambda>_. Ok [9]\<rparr>
           (Update 9 5 ((new_tuple [[65]] 1)\<lparr>tup_xmax := 1\<rparr>) (new_tuple [[66]] 1))) (\<lambda>_.
         ret (pg\<lparr>tuples := [replicate 50 2]\<rparr>)))
       (fst (next_transaction_id (sample_db new_ephemeral (new_buffer_pool 4) [5])))"
proof -
  let ?pg = "\<lparr>header = new_page_header\<lparr>pd_lower := 30, pd_upper := 52\<rparr>,
      line_pointers = [new_line_pointer 52], tuples = [replicate 8140 1]\<rparr>"
  let ?bc = "\<lparr>ser_tuple = \<lambda>_. Ok (replicate 50 2), de_tuple = \<lambda>_. None, ser_record = \<lambda>_. Ok [9]\<rparr>"
  let ?db = "sample_db new_ephemeral (new_buffer_pool 4) [5]"
  have pl: "plain ?pg"
    by (simp add: plain_def page_ok_def new_page_header_def new_line_pointer_def page_consts word_le_nat_alt)
  have upd: "(new_tuple [[65]] 1)\<lparr>tup_xmin := 1, tup_xmax := 0, tup_data := [66]\<rparr> = new_tuple [[66]] 1"
    by (simp add: new_tuple_def)
  have xid: "next_transaction_id ?db = (fst (next_transaction_id ?db), Ok 1)"
    by (simp add: next_transaction_id_def allocate_xid_def sample_db_def new_wal_def)
  have s: "0 < length (tuples ?pg)" "ser_tuple ?bc t = Ok (replicate 50 2)"
    "length (replicate 50 (2 :: byte)) \<le> unat (pd_upper (header ?pg))"
    "unat (pd_upper (header ?pg)) < unat (pd_lower (header ?pg)) + LINE_POINTER_SIZE + length (replicate 50 (2 :: byte))" for t
    by (simp_all add: page_consts)
  from update_on_full_page_loses_row [OF pl s(1) s(2) s(2) s(3,4) xid, of True ephemeral 9 5]
  show ?thesis by (intro exI [of _ ?pg]) (simp add: upd Let_def)
qed

text \<open>
  All relations share their first page. The first insert into a relation without pages takes page 1,
  whatever relation it is, and writes an empty page there first: another relation whose rows were on
  page 1 has no rows left.
\<close>

theorem first_insert_wipes_page_one:
  assumes "page_store st I fits" and "I (db_storage db)" and "\<forall>d. length d = PAGE_SIZE \<longrightarrow> fits (db_storage db) 1 d"
    and "relation_pages (rs_relation rs) = []"
  shows "\<exists>s'. insert_page oc st rs db = (with_storage s' db, Ok (1, [1])) \<and>
     slow_pages oc st bc desc None [1] (with_storage s' db) = (with_storage s' db, Ok [])"
proof -
  obtain img s' pg' where w: "page_serialize oc new_heap_page = Ok img" "storage_write st 1 img db = (with_storage s' db, Ok ())"
    and ts: "tuples pg' = tuples new_heap_page" and t: "table oc st s' [1] [pg']"
    using page_store.storage_write_plain [OF assms(1,2) _ plain_new, of "{1}" 1 oc] assms(3) by auto
  have "slow_pages oc st bc desc None [1] (with_storage s' db) = (with_storage s' db, Ok (all_rows bc desc [1] [pg']))"
    by (rule slow_pages_table) (use t in \<open>simp add: table_def\<close>)
  moreover have "all_rows bc desc [1] [pg'] = []" using ts by (simp add: page_rows_def new_heap_page_def)
  moreover have "insert_page oc st rs db = (with_storage s' db, Ok (1, [1]))" using assms(4) w by (simp add: insert_page_def)
  ultimately show ?thesis by auto
qed

theorem first_insert_wipes_page_one_witness:
  "\<exists>s'. insert_page True ephemeral \<lparr>rs_relation = sample_relation [], dirty_buffers = []\<rparr>
        (sample_db [1 \<mapsto> replicate 8192 7] (new_buffer_pool 4) []) =
      (with_storage s' (sample_db [1 \<mapsto> replicate 8192 7] (new_buffer_pool 4) []), Ok (1, [1]))"
proof -
  have e: "relation_pages (rs_relation \<lparr>rs_relation = sample_relation [], dirty_buffers = []\<rparr>) = []"
    by (simp add: sample_relation_def)
  have t: "\<forall>d. length d = PAGE_SIZE \<longrightarrow> True" by simp
  from first_insert_wipes_page_one [OF ephemeral.page_store_axioms TrueI t e] show ?thesis by blast
qed

end
