(* ===== verification/BTree.thy ===== *)
theory BTree
  imports Types Utf8 "HOL-Library.Multiset"
begin

text \<open>
  The B-tree index: pages (\<open>btree/page.rs\<close>), their byte format and the inserts (\<open>btree/insert.rs\<close>), the
  search (\<open>btree/search.rs\<close>), composite keys (\<open>btree/mod.rs\<close>) and the scan helpers (\<open>btree/scan.rs\<close>).
  Keys are byte vectors in lexicographic order. \<open>binary_search_by\<close> of the standard library may return
  any of several equal elements, so the code that calls it takes it as the argument \<open>bs\<close>; its contract
  is the locale \<open>binary_search\<close>, interpreted for a bisection.
\<close>

section \<open>Binary search\<close>

text \<open>\<open>Inr i\<close> is \<open>Ok(i)\<close>, a match; \<open>Inl i\<close> is \<open>Err(i)\<close>, the position to insert at.\<close>

locale binary_search =
  fixes bs :: "bytes list \<Rightarrow> bytes \<Rightarrow> nat + nat"
  assumes found: "sorted ks \<Longrightarrow> bs ks k = Inr i \<Longrightarrow> i < length ks \<and> ks ! i = k"
    and missing: "sorted ks \<Longrightarrow> bs ks k = Inl i \<Longrightarrow>
      i \<le> length ks \<and> (\<forall>j < i. ks ! j < k) \<and> (\<forall>j. i \<le> j \<longrightarrow> j < length ks \<longrightarrow> k < ks ! j)"
begin

text \<open>The position at which \<open>insert_sorted\<close> inserts splits the keys into smaller and greater ones.\<close>

lemma position_splits:
  assumes "sorted ks" and "case bs ks k of Inr i \<Rightarrow> p = i | Inl i \<Rightarrow> p = i"
  shows "p \<le> length ks" "\<forall>x \<in> set (take p ks). x \<le> k" "\<forall>x \<in> set (drop p ks). k \<le> x"
proof -
  have "p \<le> length ks \<and> (\<forall>j < p. ks ! j \<le> k) \<and> (\<forall>j. p \<le> j \<longrightarrow> j < length ks \<longrightarrow> k \<le> ks ! j)"
  proof (cases "bs ks k")
    case (Inl i)
    then show ?thesis using missing [OF assms(1) Inl] assms(2) by (auto intro: less_imp_le)
  next
    case (Inr i)
    then have "i < length ks" "ks ! i = k" "p = i" using found [OF assms(1) Inr] assms(2) by auto
    then show ?thesis using assms(1) by (auto simp: sorted_iff_nth_mono)
  qed
  then show "p \<le> length ks" "\<forall>x \<in> set (take p ks). x \<le> k" "\<forall>x \<in> set (drop p ks). k \<le> x"
    by (auto simp: in_set_conv_nth)
qed

lemma insert_keeps_sorted:
  assumes "sorted ks" and "case bs ks k of Inr i \<Rightarrow> p = i | Inl i \<Rightarrow> p = i"
  shows "sorted (take p ks @ k # drop p ks)"
  using position_splits [OF assms] assms(1)
  by (auto simp: sorted_append intro: order_trans sorted_wrt_take sorted_wrt_drop)

end

function bisect :: "bytes list \<Rightarrow> bytes \<Rightarrow> nat \<Rightarrow> nat \<Rightarrow> nat + nat" where
  "bisect ks k lo hi =
     (if lo \<ge> hi then Inl lo
      else let mid = lo + (hi - lo) div 2
           in if ks ! mid < k then bisect ks k (Suc mid) hi
              else if k < ks ! mid then bisect ks k lo mid
              else Inr mid)"
  by pat_completeness auto
termination
  by (relation "measure (\<lambda>(ks, k, lo, hi). hi - lo)") auto

declare bisect.simps [simp del]

lemma bisect_correct:
  assumes "sorted ks" and "hi \<le> length ks" and "lo \<le> hi"
    and "\<forall>j < lo. ks ! j < k" and "\<forall>j. hi \<le> j \<longrightarrow> j < length ks \<longrightarrow> k < ks ! j"
  shows "case bisect ks k lo hi of
      Inr i \<Rightarrow> i < length ks \<and> ks ! i = k
    | Inl i \<Rightarrow> i \<le> length ks \<and> (\<forall>j < i. ks ! j < k) \<and> (\<forall>j. i \<le> j \<longrightarrow> j < length ks \<longrightarrow> k < ks ! j)"
  using assms
proof (induction ks k lo hi rule: bisect.induct)
  case step: (1 ks k lo hi)
  let ?mid = "lo + (hi - lo) div 2"
  show ?case
  proof (cases "lo < hi")
    case False
    then have "bisect ks k lo hi = Inl lo" by (subst bisect.simps) simp
    then show ?thesis using False step.prems by auto
  next
    case True
    then have mid: "lo \<le> ?mid" "?mid < hi" by auto
    then have in_range: "?mid < length ks" using step.prems(2) by simp
    have le: "ks ! i \<le> ks ! j" if "i \<le> j" "j < length ks" for i j
      using step.prems(1) that by (simp add: sorted_iff_nth_mono)
    have unf: "bisect ks k lo hi =
        (if ks ! ?mid < k then bisect ks k (Suc ?mid) hi
         else if k < ks ! ?mid then bisect ks k lo ?mid else Inr ?mid)"
      using True by (subst bisect.simps) (simp add: Let_def)
    have nlt: "\<not> hi \<le> lo" using True by simp
    consider (less) "ks ! ?mid < k" | (greater) "k < ks ! ?mid" | (equal) "ks ! ?mid = k" by force
    then show ?thesis
    proof cases
      case less
      have lower: "\<forall>j < Suc ?mid. ks ! j < k"
        using le in_range less by (meson le_less_trans less_Suc_eq_le)
      have "Suc ?mid \<le> hi" using mid(2) by simp
      from step.IH(1) [OF nlt refl less step.prems(1,2) this lower step.prems(5)] show ?thesis
        using unf less by simp
    next
      case greater
      have upper: "\<forall>j. ?mid \<le> j \<longrightarrow> j < length ks \<longrightarrow> k < ks ! j" using le greater by (meson less_le_trans)
      have "\<not> ks ! ?mid < k" using greater by simp
      from step.IH(2) [OF nlt refl this greater step.prems(1) less_imp_le [OF in_range] mid(1) step.prems(4) upper]
      show ?thesis using unf greater by (simp add: less_not_sym)
    next
      case equal
      then show ?thesis using unf in_range by simp
    qed
  qed
qed

definition bisection :: "bytes list \<Rightarrow> bytes \<Rightarrow> nat + nat" where
  "bisection ks k = bisect ks k 0 (length ks)"

interpretation bisection: binary_search bisection
  using bisect_correct [where lo = 0]
  by unfold_locales (fastforce simp: bisection_def split: sum.splits)+

section \<open>Pages\<close>

datatype BTreePageType = Meta | Root | Internal | Leaf | Overflow

record IndexTuple =
  it_key :: bytes
  it_heap_pointer :: "u32 \<times> u16"
  it_heap_oid :: oid

record BTreePage =
  page_type :: BTreePageType
  bt_page_id :: pid
  bt_level :: u16
  bt_keys :: "IndexTuple list"
  left_sibling :: "pid option"
  right_sibling :: "pid option"

definition new_btree_page :: "BTreePageType \<Rightarrow> pid \<Rightarrow> BTreePage" where
  "new_btree_page t p =
     \<lparr>page_type = t, bt_page_id = p, bt_level = 0, bt_keys = [], left_sibling = None, right_sibling = None\<rparr>"

definition is_full :: "nat \<Rightarrow> BTreePage \<Rightarrow> bool" where
  "is_full psz page \<longleftrightarrow> length (bt_keys page) \<ge> psz div 64"

definition insert_pos :: "(bytes list \<Rightarrow> bytes \<Rightarrow> nat + nat) \<Rightarrow> bytes list \<Rightarrow> bytes \<Rightarrow> nat" where
  "insert_pos bs ks k = (case bs ks k of Inr i \<Rightarrow> i | Inl i \<Rightarrow> i)"

definition insert_sorted ::
    "(bytes list \<Rightarrow> bytes \<Rightarrow> nat + nat) \<Rightarrow> IndexTuple \<Rightarrow> BTreePage \<Rightarrow> BTreePage" where
  "insert_sorted bs t page =
     (let pos = insert_pos bs (map it_key (bt_keys page)) (it_key t)
      in page\<lparr>bt_keys := take pos (bt_keys page) @ t # drop pos (bt_keys page)\<rparr>)"

text \<open>\<open>split_off\<close> panics past the end; the callers split at half the length.\<close>

definition split_at :: "nat \<Rightarrow> BTreePage \<Rightarrow> BTreePage \<times> BTreePage" where
  "split_at n page =
     (page\<lparr>bt_keys := take n (bt_keys page)\<rparr>,
      (new_btree_page (page_type page) 0)\<lparr>bt_keys := drop n (bt_keys page), bt_level := bt_level page\<rparr>)"

record BTreeMetaPage =
  magic :: u32
  version :: u32
  root_page :: pid
  fast_root :: "pid option"
  height :: u16
  meta_page_size :: u32

definition new_meta_page :: "pid \<Rightarrow> BTreeMetaPage" where
  "new_meta_page p =
     \<lparr>magic = 0x805842, version = 1, root_page = p, fast_root = None, height = 1, meta_page_size = 8192\<rparr>"

section \<open>The byte format\<close>

definition type_code :: "BTreePageType \<Rightarrow> byte" where
  "type_code t = (case t of Meta \<Rightarrow> 0 | Root \<Rightarrow> 1 | Internal \<Rightarrow> 2 | Leaf \<Rightarrow> 3 | Overflow \<Rightarrow> 4)"

definition code_type :: "byte \<Rightarrow> BTreePageType" where
  "code_type b =
     (if b = 0 then Leaf else if b = 1 then Root else if b = 2 then Internal
      else if b = 3 then Leaf else if b = 4 then Overflow else Leaf)"

definition sibling_code :: "pid option \<Rightarrow> u32" where
  "sibling_code s = (case s of Some p \<Rightarrow> p | None \<Rightarrow> 0)"

definition code_sibling :: "u32 \<Rightarrow> pid option" where
  "code_sibling v = (if v = 0 then None else Some v)"

text \<open>One entry: key length, key, heap page, heap offset. Keys are shorter than \<open>2 ^ 32\<close> bytes.\<close>

definition entry_bytes :: "IndexTuple \<Rightarrow> bytes" where
  "entry_bytes t =
     to_le 4 (word_of_nat (length (it_key t)) :: u32) @ it_key t @
     to_le 4 (fst (it_heap_pointer t)) @ to_le 2 (snd (it_heap_pointer t))"

fun write_entries :: "nat \<Rightarrow> IndexTuple list \<Rightarrow> nat \<Rightarrow> bytes \<Rightarrow> bytes res" where
  "write_entries psz [] pos data = Ok data"
| "write_entries psz (t # ts) pos data =
     (if pos + 4 + length (it_key t) + 6 > psz then Ok data
      else and_then (put_slice pos (entry_bytes t) data)
             (\<lambda>data'. write_entries psz ts (pos + length (entry_bytes t)) data'))"

definition serialize_page :: "BTreePage \<Rightarrow> nat \<Rightarrow> bytes res" where
  "serialize_page page psz =
     and_then (put_slice 0 ([type_code (page_type page)] @ to_le 2 (bt_level page) @
                            to_le 2 (word_of_nat (length (bt_keys page)) :: u16)) (replicate psz 0)) (\<lambda>d1.
     and_then (put_slice 8 (to_le 4 (sibling_code (left_sibling page))) d1) (\<lambda>d2.
     and_then (put_slice 12 (to_le 4 (sibling_code (right_sibling page))) d2) (\<lambda>d3.
     write_entries psz (bt_keys page) 64 d3)))"

text \<open>The loop over the entries; \<open>rest\<close> are the bytes from the current position on.\<close>

fun read_entries :: "nat \<Rightarrow> bytes \<Rightarrow> IndexTuple list" where
  "read_entries 0 rest = []"
| "read_entries (Suc n) rest =
     (if length rest < 10 then []
      else let len = unat (field_le 0 4 rest :: u32)
           in if len = 0 \<or> 4 + len + 6 > length rest then []
              else \<lparr>it_key = sub 4 len rest,
                    it_heap_pointer = (field_le (4 + len) 4 rest, field_le (4 + len + 4) 2 rest),
                    it_heap_oid = 0\<rparr>
                   # read_entries n (drop (4 + len + 6) rest))"

definition deserialize_page :: "pid \<Rightarrow> bytes \<Rightarrow> BTreePage" where
  "deserialize_page p data =
     (if length data < 16 then new_btree_page Leaf p
      else \<lparr>page_type = code_type (data ! 0), bt_page_id = p, bt_level = field_le 1 2 data,
            bt_keys = read_entries (unat (field_le 3 2 data :: u16)) (drop 64 data),
            left_sibling = code_sibling (field_le 8 4 data),
            right_sibling = code_sibling (field_le 12 4 data)\<rparr>)"

definition read_btree_page :: "'s StorageTrait \<Rightarrow> 's \<Rightarrow> pid \<Rightarrow> BTreePage res" where
  "read_btree_page st s p = and_then (read_page st s p) (\<lambda>data. Ok (deserialize_page p data))"

definition write_btree_page :: "'s StorageTrait \<Rightarrow> 's \<Rightarrow> pid \<Rightarrow> BTreePage \<Rightarrow> nat \<Rightarrow> 's res" where
  "write_btree_page st s p page psz =
     and_then (serialize_page page psz) (\<lambda>data. write_page st s p data)"

definition btree_insert ::
    "(bytes list \<Rightarrow> bytes \<Rightarrow> nat + nat) \<Rightarrow> 's StorageTrait \<Rightarrow> pid \<Rightarrow> IndexTuple \<Rightarrow> nat \<Rightarrow> 's \<Rightarrow> ('s \<times> pid) res" where
  "btree_insert bs st root t psz s =
     and_then (read_btree_page st s root) (\<lambda>page.
     and_then (write_btree_page st s root (insert_sorted bs t page) psz) (\<lambda>s'. Ok (s', root)))"

section \<open>Search\<close>

text \<open>The child to descend into: the last key that is not greater than the search key, or the first.\<close>

fun descend :: "pid \<Rightarrow> bytes \<Rightarrow> IndexTuple list \<Rightarrow> pid" where
  "descend child k [] = child"
| "descend child k (t # ts) =
     (if k \<ge> it_key t then descend (fst (it_heap_pointer t)) k ts else child)"

definition find_descend_child :: "BTreePage \<Rightarrow> bytes \<Rightarrow> pid" where
  "find_descend_child page k =
     (case bt_keys page of
        [] \<Rightarrow> bt_page_id page
      | t # _ \<Rightarrow> descend (fst (it_heap_pointer t)) k (bt_keys page))"

text \<open>
  The error context that the code attaches to a failed read is not modelled. The descent follows page pointers, which may form a cycle, so it carries fuel; \<open>None\<close> is a search that
  has not returned yet.
\<close>

fun search_page :: "nat \<Rightarrow> 's StorageTrait \<Rightarrow> 's \<Rightarrow> pid \<Rightarrow> bytes \<Rightarrow> IndexTuple list res option" where
  "search_page 0 st s p k = None"
| "search_page (Suc n) st s p k =
     (case read_btree_page st s p of
        Inl e \<Rightarrow> Some (Inl e)
      | Inr page \<Rightarrow>
          (if page_type page = Leaf \<or> page_type page = Overflow
           then Some (Ok (filter (\<lambda>t. it_key t = k) (bt_keys page)))
           else if page_type page = Meta then Some (Ok [])
           else search_page n st s (find_descend_child page k) k))"

definition btree_search ::
    "nat \<Rightarrow> 's StorageTrait \<Rightarrow> 's \<Rightarrow> pid \<Rightarrow> bytes \<Rightarrow> IndexTuple list res option" where
  "btree_search fuel st s root k = search_page fuel st s root k"

section \<open>Insert with page splits\<close>

text \<open>
  The state is the storage and the state of the caller's page number generator \<open>gen\<close> (the closure
  \<open>next_page_id\<close>).
\<close>

definition alloc_page :: "('g \<Rightarrow> pid \<times> 'g) \<Rightarrow> ('s \<times> 'g, pid) act" where
  "alloc_page gen = (\<lambda>(s, g). case gen g of (p, g') \<Rightarrow> ((s, g'), Ok p))"

definition fetch_btree :: "'s StorageTrait \<Rightarrow> pid \<Rightarrow> ('s \<times> 'g, BTreePage) act" where
  "fetch_btree st p = (\<lambda>(s, g). ((s, g), read_btree_page st s p))"

definition store_btree :: "'s StorageTrait \<Rightarrow> pid \<Rightarrow> BTreePage \<Rightarrow> nat \<Rightarrow> ('s \<times> 'g, unit) act" where
  "store_btree st p page psz =
     (\<lambda>(s, g). case write_btree_page st s p page psz of
        Inl e \<Rightarrow> ((s, g), Inl e) | Inr s' \<Rightarrow> ((s', g), Ok ()))"

definition first_key :: "BTreePage \<Rightarrow> bytes" where
  "first_key page = (case bt_keys page of [] \<Rightarrow> [] | t # _ \<Rightarrow> it_key t)"

definition first_tuple :: "BTreePage \<Rightarrow> IndexTuple option" where
  "first_tuple page = (case bt_keys page of [] \<Rightarrow> None | t # _ \<Rightarrow> Some t)"

text \<open>The two halves of a full leaf with the new tuple in one of them, and the key to push up.\<close>

definition split_leaf ::
    "(bytes list \<Rightarrow> bytes \<Rightarrow> nat + nat) \<Rightarrow> IndexTuple \<Rightarrow> pid \<Rightarrow> BTreePage \<Rightarrow>
       BTreePage \<times> BTreePage \<times> IndexTuple option" where
  "split_leaf bs t rid page =
     (let (left, right0) = split_at (length (bt_keys page) div 2) page;
          right = right0\<lparr>bt_page_id := rid, bt_level := bt_level left\<rparr>;
          (left', right', up) =
            (if it_key t < first_key right then (insert_sorted bs t left, right, first_tuple right)
             else (left, insert_sorted bs t right, first_tuple (insert_sorted bs t right)))
      in (left', right'\<lparr>left_sibling := Some (bt_page_id left)\<rparr>, up))"

definition new_root_page :: "pid \<Rightarrow> u16 \<Rightarrow> IndexTuple \<Rightarrow> pid \<Rightarrow> pid \<Rightarrow> BTreePage" where
  "new_root_page nid lvl sep l r =
     (new_btree_page Root nid)\<lparr>bt_level := lvl,
        bt_keys := [sep\<lparr>it_heap_pointer := (l, 0)\<rparr>, sep\<lparr>it_heap_pointer := (r, 0)\<rparr>]\<rparr>"

definition insert_leaf ::
    "bool \<Rightarrow> (bytes list \<Rightarrow> bytes \<Rightarrow> nat + nat) \<Rightarrow> 's StorageTrait \<Rightarrow> ('g \<Rightarrow> pid \<times> 'g) \<Rightarrow> nat \<Rightarrow> IndexTuple \<Rightarrow>
       bool \<Rightarrow> pid \<Rightarrow> BTreePage \<Rightarrow> ('s \<times> 'g, pid option) act" where
  "insert_leaf oc bs st gen psz t is_root p page0 =
     (let page = (if bt_keys page0 = [] then page0\<lparr>page_type := Leaf\<rparr> else page0)
      in if is_full psz page then
           act_then (alloc_page gen) (\<lambda>rid.
           let (left, right, up) = split_leaf bs t rid page
           in act_then (store_btree st p left psz) (\<lambda>_.
              act_then (store_btree st rid right psz) (\<lambda>_.
              if is_root then
                act_then (alloc_page gen) (\<lambda>nid.
                act_then (lift_res (word_add oc (bt_level left) 1)) (\<lambda>lvl.
                let sep = (case up of Some u \<Rightarrow> u
                           | None \<Rightarrow> \<lparr>it_key = [], it_heap_pointer = (0, 0), it_heap_oid = 0\<rparr>)
                in act_then (store_btree st nid (new_root_page nid lvl sep (bt_page_id left) rid) psz) (\<lambda>_.
                   ret (Some nid))))
              else ret (Some rid))))
         else act_then (store_btree st p (insert_sorted bs t page) psz) (\<lambda>_. ret None))"

text \<open>The first key that points to the old child now points to the new one.\<close>

fun replace_child :: "pid \<Rightarrow> pid \<Rightarrow> IndexTuple list \<Rightarrow> IndexTuple list" where
  "replace_child old new [] = []"
| "replace_child old new (t # ts) =
     (if fst (it_heap_pointer t) = old then t\<lparr>it_heap_pointer := (new, 0)\<rparr> # ts
      else t # replace_child old new ts)"

definition split_internal ::
    "bool \<Rightarrow> 's StorageTrait \<Rightarrow> ('g \<Rightarrow> pid \<times> 'g) \<Rightarrow> nat \<Rightarrow> BTreePage \<Rightarrow> pid \<Rightarrow> ('s \<times> 'g, pid option) act" where
  "split_internal oc st gen psz page0 child =
     act_then (alloc_page gen) (\<lambda>rid.
     let (page, right0) = split_at (length (bt_keys page0) div 2) page0;
         right = right0\<lparr>bt_page_id := rid, bt_level := bt_level page, left_sibling := Some (bt_page_id page),
                        bt_keys := (case bt_keys right0 of
                                      [] \<Rightarrow> [] | k # ks \<Rightarrow> k\<lparr>it_heap_pointer := (child, 0)\<rparr> # ks),
                        page_type := Internal\<rparr>;
         left = page\<lparr>page_type := Internal\<rparr>
     in act_then (store_btree st (bt_page_id left) left psz) (\<lambda>_.
        act_then (store_btree st rid right psz) (\<lambda>_.
        act_then (alloc_page gen) (\<lambda>nid.
        act_then (lift_res (word_add oc (bt_level left) 1)) (\<lambda>lvl.
        case first_tuple right of
          None \<Rightarrow> lift_res panic
        | Some up \<Rightarrow>
            act_then (store_btree st nid (new_root_page nid lvl up (bt_page_id left) rid) psz) (\<lambda>_.
            ret (Some nid)))))))"

definition attach_child ::
    "bool \<Rightarrow> 's StorageTrait \<Rightarrow> ('g \<Rightarrow> pid \<times> 'g) \<Rightarrow> nat \<Rightarrow> pid \<Rightarrow> pid \<Rightarrow> pid \<Rightarrow> ('s \<times> 'g, pid option) act" where
  "attach_child oc st gen psz p old new =
     act_then (fetch_btree st p) (\<lambda>page.
     let updated = page\<lparr>bt_keys := replace_child old new (bt_keys page)\<rparr>
     in if \<not> is_full psz updated
        then act_then (store_btree st p updated psz) (\<lambda>_. ret None)
        else split_internal oc st gen psz updated new)"

text \<open>\<open>find_child_page_id\<close> keeps the tuple it descends into where the search keeps the page number.\<close>

fun descend_tuple :: "IndexTuple \<Rightarrow> bytes \<Rightarrow> IndexTuple list \<Rightarrow> IndexTuple" where
  "descend_tuple child k [] = child"
| "descend_tuple child k (t # ts) = (if k \<ge> it_key t then descend_tuple t k ts else child)"

definition find_child_page_id :: "BTreePage \<Rightarrow> bytes \<Rightarrow> pid" where
  "find_child_page_id page k =
     (case bt_keys page of
        [] \<Rightarrow> bt_page_id page
      | t # _ \<Rightarrow> fst (it_heap_pointer (descend_tuple t k (bt_keys page))))"

lemma find_child_same [simp]: "find_child_page_id page k = find_descend_child page k"
proof -
  have "fst (it_heap_pointer (descend_tuple t k ts)) = descend (fst (it_heap_pointer t)) k ts" for t ts
    by (induction ts arbitrary: t) auto
  then show ?thesis by (simp add: find_child_page_id_def find_descend_child_def split: list.splits)
qed

fun insert_recursive ::
    "nat \<Rightarrow> bool \<Rightarrow> (bytes list \<Rightarrow> bytes \<Rightarrow> nat + nat) \<Rightarrow> 's StorageTrait \<Rightarrow> ('g \<Rightarrow> pid \<times> 'g) \<Rightarrow> nat \<Rightarrow> IndexTuple \<Rightarrow>
       bool \<Rightarrow> pid \<Rightarrow> 's \<times> 'g \<Rightarrow> (('s \<times> 'g) \<times> pid option res) option" where
  "insert_recursive 0 oc bs st gen psz t is_root p sg = None"
| "insert_recursive (Suc n) oc bs st gen psz t is_root p sg =
     (case fetch_btree st p sg of
        (sg1, Inl e) \<Rightarrow> Some (sg1, Inl e)
      | (sg1, Inr page) \<Rightarrow>
          (if page_type page = Leaf \<or> bt_keys page = []
           then Some (insert_leaf oc bs st gen psz t is_root p page sg1)
           else
             let child = find_child_page_id page (it_key t)
             in case insert_recursive n oc bs st gen psz t False child sg1 of
                 None \<Rightarrow> None
               | Some (sg2, Inl e) \<Rightarrow> Some (sg2, Inl e)
               | Some (sg2, Inr None) \<Rightarrow> Some (sg2, Ok None)
               | Some (sg2, Inr (Some new)) \<Rightarrow> Some (attach_child oc st gen psz p child new sg2)))"

definition btree_insert_multipage ::
    "nat \<Rightarrow> bool \<Rightarrow> (bytes list \<Rightarrow> bytes \<Rightarrow> nat + nat) \<Rightarrow> 's StorageTrait \<Rightarrow> ('g \<Rightarrow> pid \<times> 'g) \<Rightarrow> nat \<Rightarrow> pid \<Rightarrow>
       IndexTuple \<Rightarrow> 's \<times> 'g \<Rightarrow> (('s \<times> 'g) \<times> pid res) option" where
  "btree_insert_multipage fuel oc bs st gen psz root t sg =
     (case insert_recursive fuel oc bs st gen psz t True root sg of
        None \<Rightarrow> None
      | Some (sg', r) \<Rightarrow> Some (sg', and_then r (\<lambda>new. Ok (case new of Some p \<Rightarrow> p | None \<Rightarrow> root))))"

section \<open>Composite keys\<close>

datatype SortDirection = Asc | Desc

datatype IndexType = BTreeIndexType | HashIndexType | GiSTIndexType | GINIndexType | BRINIndexType

record IndexColumn =
  col_name :: string
  direction :: SortDirection
  nulls_first :: bool

record BTreeIndex =
  bi_index_oid :: u32
  bi_rel_oid :: u32
  bi_root_page :: pid
  bi_page_size :: nat
  unique :: bool
  columns :: "IndexColumn list"
  index_type :: IndexType

definition new_btree_index :: "u32 \<Rightarrow> u32 \<Rightarrow> pid \<Rightarrow> nat \<Rightarrow> BTreeIndex" where
  "new_btree_index i r p psz =
     \<lparr>bi_index_oid = i, bi_rel_oid = r, bi_root_page = p, bi_page_size = psz, unique = False, columns = [],
      index_type = BTreeIndexType\<rparr>"

definition with_columns :: "IndexColumn list \<Rightarrow> BTreeIndex \<Rightarrow> BTreeIndex" where
  "with_columns cs idx = idx\<lparr>columns := cs\<rparr>"

definition with_unique :: "bool \<Rightarrow> BTreeIndex \<Rightarrow> BTreeIndex" where
  "with_unique u idx = idx\<lparr>unique := u\<rparr>"

definition with_index_type :: "IndexType \<Rightarrow> BTreeIndex \<Rightarrow> BTreeIndex" where
  "with_index_type ty idx = idx\<lparr>index_type := ty\<rparr>"

definition is_unique :: "BTreeIndex \<Rightarrow> bool" where
  "is_unique idx = unique idx"

definition column_count :: "BTreeIndex \<Rightarrow> nat" where
  "column_count idx = length (columns idx)"

definition NULL_str :: str where
  "NULL_str = [78, 85, 76, 76]"

definition encode_column :: "IndexColumn option \<Rightarrow> str \<Rightarrow> bytes" where
  "encode_column col v =
     (if v = [] \<or> v = NULL_str
      then [0, (case col of Some c \<Rightarrow> if nulls_first c then 1 else 0 | None \<Rightarrow> 0), 0xFF]
      else [1, (case col of Some c \<Rightarrow> if direction c = Desc then 1 else 0 | None \<Rightarrow> 0)] @
           to_le 4 (word_of_nat (length v) :: u32) @ v @ [0xFF])"

definition encode_composite_key :: "BTreeIndex \<Rightarrow> str list \<Rightarrow> bytes" where
  "encode_composite_key idx vals =
     concat (map (\<lambda>(i, v). encode_column (if i < length (columns idx) then Some (columns idx ! i) else None) v)
       (zip [0..<length vals] vals))"

text \<open>
  The loop of \<open>decode_composite_key\<close> on the remaining bytes. Reading the direction byte of a value past
  the end panics; a null may end before its second byte.
\<close>

function decode_key :: "bytes \<Rightarrow> str list res" where
  "decode_key [] = Ok []"
| "decode_key (b # rest) =
     (let skip = (\<lambda>bs. case bs of c # cs \<Rightarrow> if c = 0xFF then cs else bs | [] \<Rightarrow> [])
      in if b = 0 then and_then (decode_key (skip (drop 1 rest))) (\<lambda>vs. Ok (NULL_str # vs))
         else if rest = [] then panic
         else
           let rest' = drop 1 rest
           in if length rest' < 4 then Ok []
              else
                let len = unat (field_le 0 4 rest' :: u32); body = drop 4 rest'
                in if length body < len then Ok []
                   else and_then (decode_key (skip (drop len body)))
                          (\<lambda>vs. Ok (from_utf8_lossy (take len body) # vs)))"
  by pat_completeness auto
termination
  by (relation "measure length") (auto split: list.splits simp: drop_Cons' less_Suc_eq_le dest!: arg_cong [of _ _ length])

definition decode_composite_key :: "bytes \<Rightarrow> str list res" where
  "decode_composite_key key = decode_key key"

section \<open>Scan helpers\<close>

type_synonym scan_entry = "bytes \<times> u32 \<times> u16"

datatype ScanDirection = Forward | Backward

record BTreeScan =
  scan_index_oid :: u32
  scan_key :: "bytes option"
  scan_direction :: ScanDirection
  skip_duplicates :: bool
  distinct_mode :: bool

definition new_btree_scan :: "u32 \<Rightarrow> bytes option \<Rightarrow> ScanDirection \<Rightarrow> BTreeScan" where
  "new_btree_scan i k d =
     \<lparr>scan_index_oid = i, scan_key = k, scan_direction = d, skip_duplicates = False, distinct_mode = False\<rparr>"

definition with_skip_duplicates :: "bool \<Rightarrow> BTreeScan \<Rightarrow> BTreeScan" where
  "with_skip_duplicates b sc = sc\<lparr>skip_duplicates := b\<rparr>"

definition with_distinct_mode :: "bool \<Rightarrow> BTreeScan \<Rightarrow> BTreeScan" where
  "with_distinct_mode b sc = sc\<lparr>distinct_mode := b\<rparr>"

definition should_skip :: "bytes \<Rightarrow> bytes \<Rightarrow> BTreeScan \<Rightarrow> bool" where
  "should_skip cur nxt sc =
     (if \<not> skip_duplicates sc \<and> \<not> distinct_mode sc then False else cur = nxt)"

record SkipScanIterator =
  ss_entries :: "scan_entry list"
  ss_position :: nat
  ss_skip :: bool

definition new_skip_scan :: "scan_entry list \<Rightarrow> bool \<Rightarrow> SkipScanIterator" where
  "new_skip_scan es skip = \<lparr>ss_entries = es, ss_position = 0, ss_skip = skip\<rparr>"

definition count_remaining :: "SkipScanIterator \<Rightarrow> nat" where
  "count_remaining it = length (ss_entries it) - ss_position it"

definition next_distinct :: "SkipScanIterator \<Rightarrow> SkipScanIterator \<times> scan_entry option" where
  "next_distinct it =
     (let es = ss_entries it; pos = ss_position it
      in if pos \<ge> length es then (it, None)
         else
           let skipped = (if ss_skip it
                          then length (takeWhile (\<lambda>e. fst e = fst (es ! pos)) (drop (Suc pos) es)) else 0)
           in (it\<lparr>ss_position := Suc (pos + skipped)\<rparr>, Some (es ! (pos + skipped))))"

definition reset_iterator :: "SkipScanIterator \<Rightarrow> SkipScanIterator" where
  "reset_iterator it = it\<lparr>ss_position := 0\<rparr>"

function deduplicate_entries :: "scan_entry list \<Rightarrow> scan_entry list \<times> nat" where
  "deduplicate_entries [] = ([], 0)"
| "deduplicate_entries (e # es) =
     (let same = takeWhile (\<lambda>x. fst x = fst e) es;
          (rest, n) = deduplicate_entries (dropWhile (\<lambda>x. fst x = fst e) es)
      in (e # rest, length same + n))"
  by pat_completeness auto
termination
  by (relation "measure length") (auto simp: less_Suc_eq_le length_dropWhile_le)

definition skip_to_next_key :: "scan_entry list \<Rightarrow> nat \<Rightarrow> nat" where
  "skip_to_next_key es pos =
     (if pos \<ge> length es then length es
      else Suc pos + length (takeWhile (\<lambda>e. fst e = fst (es ! pos)) (drop (Suc pos) es)))"

section \<open>The page format is read back\<close>

lemma field_le_take: "o1 + m \<le> n \<Longrightarrow> field_le o1 m (sub 0 n xs) = field_le o1 m xs"
  by (simp add: field_le_def sub_def take_drop min_def)

lemma nth_sub: "i < n \<Longrightarrow> off + n \<le> length xs \<Longrightarrow> xs ! (off + i) = sub off n xs ! i"
  by (simp add: sub_def)

lemma length_entry [simp]: "length (entry_bytes t) = length (it_key t) + 10"
  by (simp add: entry_bytes_def)

abbreviation entries_bytes :: "IndexTuple list \<Rightarrow> bytes" where
  "entries_bytes ts \<equiv> concat (map entry_bytes ts)"

lemma put_at_put_at:
  "pos + length a + length b \<le> length xs \<Longrightarrow> put_at (pos + length a) b (put_at pos a xs) = put_at pos (a @ b) xs"
  by (simp add: put_at_def ac_simps)

text \<open>The entries that the loop writes before the first one that has no room.\<close>

fun fitting :: "nat \<Rightarrow> IndexTuple list \<Rightarrow> IndexTuple list" where
  "fitting room [] = []"
| "fitting room (t # ts) =
     (if length (it_key t) + 10 > room then [] else t # fitting (room - (length (it_key t) + 10)) ts)"

lemma length_fitting: "length (entries_bytes (fitting room ts)) \<le> room"
  by (induction room ts rule: fitting.induct) auto

lemma fitting_all: "length (entries_bytes ts) \<le> room \<Longrightarrow> fitting room ts = ts"
  by (induction room ts rule: fitting.induct) auto

lemma fitting_key: "t \<in> set (fitting room ts) \<Longrightarrow> length (it_key t) + 10 \<le> room"
  by (induction room ts rule: fitting.induct) (auto split: if_splits)

lemma write_entries_fitting:
  "length data = psz \<Longrightarrow> write_entries psz ts pos data = Ok (put_at pos (entries_bytes (fitting (psz - pos) ts)) data)"
proof (induction ts arbitrary: pos data)
  case Nil
  then show ?case by (simp add: put_at_def)
next
  case (Cons t ts)
  show ?case
  proof (cases "pos + 4 + length (it_key t) + 6 > psz")
    case True
    then have "length (it_key t) + 10 > psz - pos" by linarith
    then show ?thesis using True by (simp add: put_at_def)
  next
    case False
    let ?d = "put_at pos (entry_bytes t) data" and ?fs = "fitting (psz - (pos + length (entry_bytes t))) ts"
    have room: "pos + length (entry_bytes t) \<le> psz" using False by simp
    have rest: "write_entries psz ts (pos + length (entry_bytes t)) ?d =
        Ok (put_at (pos + length (entry_bytes t)) (entries_bytes ?fs) ?d)"
      using Cons.prems room by (intro Cons.IH) simp
    have step: "put_at (pos + length (entry_bytes t)) (entries_bytes ?fs) ?d =
        put_at pos (entry_bytes t @ entries_bytes ?fs) data"
      using room Cons.prems length_fitting [of "psz - (pos + length (entry_bytes t))" ts]
      by (intro put_at_put_at) linarith
    have first: "fitting (psz - pos) (t # ts) = t # ?fs" using False by (simp add: diff_diff_left)
    have "write_entries psz (t # ts) pos data = write_entries psz ts (pos + length (entry_bytes t)) ?d"
      using False room Cons.prems by (simp add: put_slice_put_at del: put_slice_ok)
    then show ?thesis unfolding first using rest step by simp
  qed
qed

text \<open>What reading gives for an entry: the format has no field for the heap oid.\<close>

definition read_form :: "IndexTuple \<Rightarrow> IndexTuple" where
  "read_form t = t\<lparr>it_heap_oid := 0\<rparr>"

lemma read_entries_zeros: "read_entries n (replicate m 0) = []"
proof (cases n)
  case (Suc k)
  have "le_nat (replicate j 0) = 0" for j by (induction j) simp_all
  then have "unat (field_le 0 4 (replicate m 0) :: u32) = 0" by (simp add: field_le_def sub_def from_le_def)
  then show ?thesis using Suc by simp
qed simp

lemma read_entries_eq:
  "\<forall>t \<in> set ts. length (it_key t) < 4294967296 \<Longrightarrow>
     read_entries n (entries_bytes ts @ replicate m 0) =
       map read_form (takeWhile (\<lambda>t. it_key t \<noteq> []) (take n ts))"
proof (induction ts arbitrary: n)
  case Nil
  then show ?case by (simp add: read_entries_zeros)
next
  case (Cons t ts)
  obtain p q where pq: "it_heap_pointer t = (p, q)" by fastforce
  let ?k = "it_key t" and ?rest = "entries_bytes ts @ replicate m 0"
  let ?all = "entries_bytes (t # ts) @ replicate m 0"
  have all: "?all = to_le 4 (word_of_nat (length ?k) :: u32) @ ?k @ to_le 4 p @ to_le 2 q @ ?rest"
    by (simp add: entry_bytes_def pq)
  have len: "unat (field_le 0 4 ?all :: u32) = length ?k" unfolding all using Cons.prems by simp
  have key: "sub 4 (length ?k) ?all = ?k" unfolding all by (simp add: sub_def)
  have ptr: "field_le (4 + length ?k) 4 ?all = p" "field_le (4 + length ?k + 4) 2 ?all = q"
    unfolding all by (simp_all add: field_le_skip field_le_0)
  have rest: "drop (4 + length ?k + 6) ?all = ?rest" unfolding all by simp
  have big: "10 + length ?k \<le> length ?all" by simp
  show ?case
  proof (cases n)
    case (Suc j)
    have IH: "read_entries j ?rest = map read_form (takeWhile (\<lambda>t. it_key t \<noteq> []) (take j ts))"
      using Cons by simp
    show ?thesis
      using big unfolding Suc read_entries.simps Let_def len key ptr rest IH
      by (auto simp: read_form_def IndexTuple.equality pq)
  qed simp
qed

text \<open>
  \<open>stored_form psz p page\<close>: the page that reading gives after \<open>page\<close> was written on \<open>psz\<close> bytes under the
  number \<open>p\<close>. The entry count is a 16-bit number, entries without room are not written, reading stops at
  the first empty key, the sibling number zero means no sibling, and a meta page becomes a leaf.
\<close>

definition kept_sibling :: "pid option \<Rightarrow> pid option" where
  "kept_sibling s = (if s = Some 0 then None else s)"

definition kept_type :: "BTreePageType \<Rightarrow> BTreePageType" where
  "kept_type t = (if t = Meta then Leaf else t)"

definition stored_form :: "nat \<Rightarrow> pid \<Rightarrow> BTreePage \<Rightarrow> BTreePage" where
  "stored_form psz p page =
     \<lparr>page_type = kept_type (page_type page), bt_page_id = p, bt_level = bt_level page,
      bt_keys = map read_form (takeWhile (\<lambda>t. it_key t \<noteq> [])
        (take (length (bt_keys page) mod 65536) (fitting (psz - 64) (bt_keys page)))),
      left_sibling = kept_sibling (left_sibling page),
      right_sibling = kept_sibling (right_sibling page)\<rparr>"

lemma code_roundtrips [simp]:
  "code_type (type_code t) = kept_type t"
  "code_sibling (sibling_code s) = kept_sibling s"
  by (cases t; simp add: code_type_def type_code_def kept_type_def)
     (cases s; simp add: kept_sibling_def code_sibling_def sibling_code_def)

text \<open>The image of a page: the header fields at their offsets, then the entries that fit.\<close>

definition page_image :: "BTreePage \<Rightarrow> nat \<Rightarrow> bytes" where
  "page_image page psz =
     put_at 64 (entries_bytes (fitting (psz - 64) (bt_keys page)))
       (put_at 12 (to_le 4 (sibling_code (right_sibling page)))
         (put_at 8 (to_le 4 (sibling_code (left_sibling page)))
           (put_at 0 ([type_code (page_type page)] @ to_le 2 (bt_level page) @
                      to_le 2 (word_of_nat (length (bt_keys page)) :: u16)) (replicate psz 0))))"

lemma drop_put_at: "off \<le> length xs \<Longrightarrow> drop off (put_at off bs xs) = bs @ drop (off + length bs) xs"
  by (simp add: put_at_def)

lemma serialize_image: "16 \<le> psz \<Longrightarrow> serialize_page page psz = Ok (page_image page psz)"
  by (simp add: serialize_page_def page_image_def put_slice_put_at write_entries_fitting del: put_slice_ok)

lemma length_image: "64 \<le> psz \<Longrightarrow> length (page_image page psz) = psz"
  using length_fitting [of "psz - 64" "bt_keys page"] by (simp add: page_image_def)

lemma field_le_put_at:
  "off + length bs \<le> length xs \<Longrightarrow> n = length bs \<Longrightarrow> field_le off n (put_at off bs xs) = from_le bs"
  "off' + n \<le> off \<Longrightarrow> off + length bs \<le> length xs \<Longrightarrow> field_le off' n (put_at off bs xs) = field_le off' n xs"
  "off + length bs \<le> off' \<Longrightarrow> off + length bs \<le> length xs \<Longrightarrow> field_le off' n (put_at off bs xs) = field_le off' n xs"
  by (simp_all add: field_le_def)

lemma field_le_Cons: "0 < off \<Longrightarrow> field_le off n (x # xs) = field_le (off - 1) n xs"
  by (cases off) (simp_all add: field_le_def sub_def)

lemma deserialize_image:
  assumes "64 \<le> psz" and "\<forall>t \<in> set (fitting (psz - 64) (bt_keys page)). length (it_key t) < 4294967296"
  shows "deserialize_page p (page_image page psz) = stored_form psz p page"
proof -
  let ?n = "word_of_nat (length (bt_keys page)) :: u16" and ?fs = "fitting (psz - 64) (bt_keys page)"
  let ?hdr = "[type_code (page_type page)] @ to_le 2 (bt_level page) @ to_le 2 ?n"
  let ?img = "page_image page psz"
  have room: "64 + length (entries_bytes ?fs) \<le> psz" using length_fitting [of "psz - 64" "bt_keys page"] assms(1) by linarith
  have hdr: "sub 0 5 ?img = ?hdr" using room by (simp add: page_image_def)
  have "?img ! 0 = type_code (page_type page)"
    using nth_sub [of 0 5 0 ?img] length_image [OF assms(1), of page] assms(1) by (simp add: hdr)
  moreover have "field_le 1 2 ?img = bt_level page" "field_le 3 2 ?img = ?n"
    using field_le_take [where ?'a = 16, of 1 2 5 ?img] field_le_take [where ?'a = 16, of 3 2 5 ?img]
    by (simp_all add: hdr field_le_Cons field_le_skip)
  moreover have "field_le 8 4 ?img = sibling_code (left_sibling page)"
    "field_le 12 4 ?img = sibling_code (right_sibling page)"
    using room by (simp_all add: page_image_def field_le_put_at)
  moreover have "read_entries (unat ?n) (drop 64 ?img) =
      map read_form (takeWhile (\<lambda>t. it_key t \<noteq> []) (take (length (bt_keys page) mod 65536) ?fs))"
  proof -
    have "drop 64 ?img = entries_bytes ?fs @ replicate (psz - 64 - length (entries_bytes ?fs)) 0"
    proof -
      let ?base = "put_at 12 (to_le 4 (sibling_code (right_sibling page)))
         (put_at 8 (to_le 4 (sibling_code (left_sibling page))) (put_at 0 ?hdr (replicate psz 0)))"
      have "drop 64 ?base = replicate (psz - 64) 0" using assms(1) by (simp add: put_at_def)
      then have "drop (length (entries_bytes ?fs)) (drop 64 ?base) =
          replicate (psz - 64 - length (entries_bytes ?fs)) 0" by (simp only: drop_replicate)
      then have "drop (64 + length (entries_bytes ?fs)) ?base = replicate (psz - 64 - length (entries_bytes ?fs)) 0"
        by (simp only: drop_drop add.commute)
      moreover have "64 \<le> length ?base" using assms(1) by simp
      ultimately show ?thesis unfolding page_image_def by (simp only: drop_put_at)
    qed
    then show ?thesis using read_entries_eq [OF assms(2)] by (simp add: unat_of_nat)
  qed
  ultimately show ?thesis
    using length_image [OF assms(1), of page] assms(1) by (simp add: deserialize_page_def stored_form_def)
qed

text \<open>A tuple that the format keeps: a key that is not empty and has a 32-bit length, no heap oid.\<close>

definition storable :: "IndexTuple \<Rightarrow> bool" where
  "storable t \<longleftrightarrow> it_key t \<noteq> [] \<and> length (it_key t) < 4294967296 \<and> it_heap_oid t = 0"

definition sibling_ok :: "pid option \<Rightarrow> bool" where
  "sibling_ok s \<longleftrightarrow> s \<noteq> Some 0"

text \<open>The pages that the format keeps unchanged on \<open>psz\<close> bytes.\<close>

definition page_storable :: "nat \<Rightarrow> BTreePage \<Rightarrow> bool" where
  "page_storable psz page \<longleftrightarrow>
     page_type page \<noteq> Meta \<and> sibling_ok (left_sibling page) \<and> sibling_ok (right_sibling page) \<and>
     length (bt_keys page) < 65536 \<and> list_all storable (bt_keys page) \<and>
     64 + length (entries_bytes (bt_keys page)) \<le> psz"

lemma kept_entries:
  assumes "length fs \<le> length ts"
  shows "map read_form (takeWhile (\<lambda>t. it_key t \<noteq> []) (take n fs)) = ts \<longleftrightarrow>
    length ts \<le> n \<and> map read_form fs = ts \<and> (\<forall>t \<in> set fs. it_key t \<noteq> [])"
proof
  let ?w = "takeWhile (\<lambda>t. it_key t \<noteq> []) (take n fs)"
  assume eq: "map read_form ?w = ts"
  then have len: "length ?w = length ts" by (metis length_map)
  moreover have "length ?w \<le> length (take n fs)" by (rule length_takeWhile_le)
  ultimately have n: "length ts \<le> n" "length fs = length ts" using assms by simp_all
  then have all: "take n fs = fs" by simp
  then have "?w = fs" using len n(2) by (metis takeWhile_eq_take take_all order_refl)
  then show "length ts \<le> n \<and> map read_form fs = ts \<and> (\<forall>t \<in> set fs. it_key t \<noteq> [])"
    using n eq by (metis set_takeWhileD)
next
  assume "length ts \<le> n \<and> map read_form fs = ts \<and> (\<forall>t \<in> set fs. it_key t \<noteq> [])"
  then show "map read_form (takeWhile (\<lambda>t. it_key t \<noteq> []) (take n fs)) = ts"
    using assms by (metis (mono_tags, lifting) length_map order_refl order_trans take_all takeWhile_eq_all_conv)
qed

lemma read_form_same: "map read_form ts = ts \<longleftrightarrow> (\<forall>t \<in> set ts. it_heap_oid t = 0)"
proof (induction ts)
  case (Cons t ts)
  have "read_form t = t \<longleftrightarrow> it_heap_oid t = 0" by (cases t) (simp add: read_form_def)
  then show ?case using Cons by simp
qed simp

lemma fitting_short: "length (fitting room ts) \<le> length ts"
  by (induction room ts rule: fitting.induct) auto

lemma fitting_same: "length (fitting room ts) = length ts \<longleftrightarrow> length (entries_bytes ts) \<le> room"
  by (induction room ts rule: fitting.induct) auto

lemma stored_form_same:
  assumes "64 \<le> psz"
  shows "stored_form psz p page = page \<longleftrightarrow>
    page_type page \<noteq> Meta \<and> bt_page_id page = p \<and> left_sibling page \<noteq> Some 0 \<and> right_sibling page \<noteq> Some 0 \<and>
    (\<forall>t \<in> set (bt_keys page). it_key t \<noteq> [] \<and> it_heap_oid t = 0) \<and>
    length (bt_keys page) < 65536 \<and> 64 + length (entries_bytes (bt_keys page)) \<le> psz"
proof -
  let ?ks = "bt_keys page" and ?fs = "fitting (psz - 64) (bt_keys page)"
  have room: "64 + length (entries_bytes ?ks) \<le> psz \<longleftrightarrow> length ?fs = length ?ks"
    using assms by (auto simp: fitting_same)
  have count: "length ?ks \<le> length ?ks mod 65536 \<longleftrightarrow> length ?ks < 65536"
  proof (cases "length ?ks < 65536")
    case False
    have "length ?ks mod 65536 < 65536" by simp
    with False show ?thesis by linarith
  qed simp
  have fs: "?fs = ?ks" if "length ?fs = length ?ks"
    using that by (simp add: fitting_same fitting_all)
  have "map read_form (takeWhile (\<lambda>t. it_key t \<noteq> []) (take (length ?ks mod 65536) ?fs)) = ?ks \<longleftrightarrow>
      (\<forall>t \<in> set ?ks. it_key t \<noteq> [] \<and> it_heap_oid t = 0) \<and> length ?ks < 65536 \<and> length ?fs = length ?ks"
  proof (cases "length ?fs = length ?ks")
    case True
    then show ?thesis
      unfolding fs [OF True] kept_entries [OF order_refl] count read_form_same by blast
  next
    case False
    then have "map read_form ?fs \<noteq> ?ks" by (metis length_map)
    then show ?thesis using False unfolding kept_entries [OF fitting_short] by blast
  qed
  moreover have "stored_form psz p page = page \<longleftrightarrow>
      kept_type (page_type page) = page_type page \<and> bt_page_id page = p \<and>
      map read_form (takeWhile (\<lambda>t. it_key t \<noteq> []) (take (length ?ks mod 65536) ?fs)) = ?ks \<and>
      kept_sibling (left_sibling page) = left_sibling page \<and>
      kept_sibling (right_sibling page) = right_sibling page"
    by (cases page) (auto simp: stored_form_def simp del: fitting.simps)
  moreover have "kept_type (page_type page) = page_type page \<longleftrightarrow> page_type page \<noteq> Meta"
    by (auto simp: kept_type_def)
  moreover have "kept_sibling x = x \<longleftrightarrow> x \<noteq> Some 0" for x by (auto simp: kept_sibling_def)
  ultimately show ?thesis unfolding room by blast
qed

lemma stored_form_storable:
  assumes "page_storable psz page" and "bt_page_id page = p"
  shows "stored_form psz p page = page"
  using assms by (auto simp: page_storable_def sibling_ok_def storable_def list_all_iff stored_form_same)

lemma serialize_page_image: "page_storable psz page \<Longrightarrow> serialize_page page psz = Ok (page_image page psz)"
  by (simp add: serialize_image page_storable_def)

lemma length_page_image: "page_storable psz page \<Longrightarrow> length (page_image page psz) = psz"
  by (simp add: length_image page_storable_def)

lemma deserialize_page_image:
  assumes "page_storable psz page"
  shows "deserialize_page (bt_page_id page) (page_image page psz) = page"
proof -
  have "64 \<le> psz" "fitting (psz - 64) (bt_keys page) = bt_keys page" "list_all storable (bt_keys page)"
    using assms by (auto simp: page_storable_def fitting_all)
  then show ?thesis
    using deserialize_image [of psz page] stored_form_storable [OF assms] by (auto simp: list_all_iff storable_def)
qed

definition sample_leaf :: BTreePage where
  "sample_leaf =
     \<lparr>page_type = Leaf, bt_page_id = 7, bt_level = 2,
      bt_keys = [\<lparr>it_key = [97], it_heap_pointer = (10, 1), it_heap_oid = 0\<rparr>],
      left_sibling = Some 3, right_sibling = None\<rparr>"

text \<open>A page that does not survive: a meta page whose second entry has an empty key.\<close>

definition sample_torn :: BTreePage where
  "sample_torn =
     \<lparr>page_type = Meta, bt_page_id = 9, bt_level = 0,
      bt_keys = [\<lparr>it_key = [97], it_heap_pointer = (10, 1), it_heap_oid = 0\<rparr>,
                 \<lparr>it_key = [], it_heap_pointer = (11, 1), it_heap_oid = 0\<rparr>,
                 \<lparr>it_key = [98], it_heap_pointer = (12, 1), it_heap_oid = 0\<rparr>],
      left_sibling = None, right_sibling = None\<rparr>"

text \<open>
  C21: Writing a B-tree page through the in-memory storage and reading it back, for every page and every
  page size from 64 bytes up to 32-bit sizes. The write succeeds and reading gives \<open>stored_form\<close>: the level
  and the page type (a meta page becomes a leaf), the siblings (number zero becomes no sibling), and of the
  entries those before the first that has no room and before the first with an empty key, each without its
  heap oid; with 65,536 entries or more the count wraps. A page of another type than meta, whose keys are not
  empty and all fit, with heap oid 0 and no sibling 0 is read back unchanged.
\<close>

theorem btree_page_roundtrip:
  assumes "64 \<le> psz" and "psz < 4294967296"
  shows "(\<exists>s'. write_btree_page ephemeral s p page psz = Ok s' \<and>
       read_btree_page ephemeral s' p = Ok (stored_form psz p page)) \<and>
    (stored_form psz p page = page \<longleftrightarrow>
       page_type page \<noteq> Meta \<and> bt_page_id page = p \<and> left_sibling page \<noteq> Some 0 \<and> right_sibling page \<noteq> Some 0 \<and>
       (\<forall>t \<in> set (bt_keys page). it_key t \<noteq> [] \<and> it_heap_oid t = 0) \<and>
       length (bt_keys page) < 65536 \<and> 64 + length (entries_bytes (bt_keys page)) \<le> psz)"
proof -
  obtain s' where w: "write_page ephemeral s p (page_image page psz) = Ok s'"
    using ephemeral.write_ok by blast
  then have r: "read_page ephemeral s' p = Ok (page_image page psz)" using ephemeral.read_write by blast
  have "\<forall>t \<in> set (fitting (psz - 64) (bt_keys page)). length (it_key t) < 4294967296"
    using fitting_key assms(2) by fastforce
  then have "deserialize_page p (page_image page psz) = stored_form psz p page"
    by (rule deserialize_image [OF assms(1)])
  then have "write_btree_page ephemeral s p page psz = Ok s' \<and>
      read_btree_page ephemeral s' p = Ok (stored_form psz p page)"
    using w r assms(1) by (simp add: write_btree_page_def read_btree_page_def serialize_image)
  then show ?thesis using stored_form_same [OF assms(1), of p page] by blast
qed

theorem btree_page_roundtrip_witness:
  "(\<exists>s'. write_btree_page ephemeral new_ephemeral 7 sample_leaf 128 = Ok s' \<and>
     read_btree_page ephemeral s' 7 = Ok sample_leaf) \<and>
   (\<exists>s'. write_btree_page ephemeral new_ephemeral 9 sample_torn 128 = Ok s' \<and>
     read_btree_page ephemeral s' 9 = Ok (sample_torn\<lparr>page_type := Leaf, bt_keys := take 1 (bt_keys sample_torn)\<rparr>))"
proof -
  have leaf: "stored_form 128 7 sample_leaf = sample_leaf"
    using btree_page_roundtrip [of 128 new_ephemeral 7 sample_leaf] by (simp add: sample_leaf_def)
  have torn: "stored_form 128 9 sample_torn =
      sample_torn\<lparr>page_type := Leaf, bt_keys := take 1 (bt_keys sample_torn)\<rparr>"
    by (simp add: sample_torn_def stored_form_def kept_type_def kept_sibling_def read_form_def)
  show ?thesis
    using btree_page_roundtrip [of 128 new_ephemeral 7 sample_leaf]
      btree_page_roundtrip [of 128 new_ephemeral 9 sample_torn] unfolding leaf torn by simp
qed

section \<open>A single-page index\<close>

text \<open>
  \<open>leaf_holds psz page ts\<close>: the page is a leaf whose sorted entries are the tuples \<open>ts\<close> in some order.
\<close>

definition leaf_holds :: "BTreePage \<Rightarrow> IndexTuple list \<Rightarrow> bool" where
  "leaf_holds page ts \<longleftrightarrow>
     page_type page = Leaf \<and> sorted (map it_key (bt_keys page)) \<and> mset (bt_keys page) = mset ts \<and>
     sibling_ok (left_sibling page) \<and> sibling_ok (right_sibling page)"

definition index_fits :: "nat \<Rightarrow> IndexTuple list \<Rightarrow> bool" where
  "index_fits psz ts \<longleftrightarrow>
     list_all storable ts \<and> length ts < 65536 \<and> 64 + length (entries_bytes ts) \<le> psz"

lemma length_entries: "length (entries_bytes ts) = sum_mset (image_mset (\<lambda>t. length (it_key t) + 10) (mset ts))"
  by (induction ts) simp_all

lemma index_fits_perm: "mset xs = mset ys \<Longrightarrow> index_fits psz xs \<longleftrightarrow> index_fits psz ys"
  unfolding index_fits_def length_entries list_all_iff
  by (metis set_mset_mset size_mset)

lemma index_fits_Cons: "index_fits psz (t # ts) \<Longrightarrow> index_fits psz ts"
  by (simp add: index_fits_def)

lemma index_fits_page:
  assumes "\<forall>t \<in> set ts. it_key t \<noteq> [] \<and> it_heap_oid t = 0"
    and "64 + (\<Sum>t \<leftarrow> ts. length (it_key t) + 10) \<le> psz" and "psz \<le> 65536"
  shows "index_fits psz ts"
proof -
  have sum: "length (entries_bytes ts) = (\<Sum>t \<leftarrow> ts. length (it_key t) + 10)" by (induction ts) simp_all
  have "length ts \<le> (\<Sum>t \<leftarrow> ts. length (it_key t) + 10)" by (induction ts) simp_all
  moreover have "length (it_key t) \<le> (\<Sum>t \<leftarrow> ts. length (it_key t) + 10)" if "t \<in> set ts" for t
    using that by (induction ts) fastforce+
  ultimately show ?thesis using assms unfolding index_fits_def sum list_all_iff storable_def by fastforce
qed

lemma leaf_holds_storable: "leaf_holds page ts \<Longrightarrow> index_fits psz ts \<Longrightarrow> page_storable psz page"
  using index_fits_perm [of "bt_keys page" ts psz]
  by (simp add: leaf_holds_def page_storable_def index_fits_def)

context binary_search
begin

lemma insert_pos_splits: "case bs ks k of Inr i \<Rightarrow> insert_pos bs ks k = i | Inl i \<Rightarrow> insert_pos bs ks k = i"
  by (simp add: insert_pos_def split: sum.splits)

lemma leaf_insert:
  assumes "leaf_holds page ts"
  shows "leaf_holds (insert_sorted bs t page) (t # ts)"
proof -
  let ?ks = "map it_key (bt_keys page)" and ?p = "insert_pos bs (map it_key (bt_keys page)) (it_key t)"
  have srt: "sorted ?ks" using assms by (simp add: leaf_holds_def)
  have "sorted (take ?p ?ks @ it_key t # drop ?p ?ks)"
    using insert_keeps_sorted [OF srt insert_pos_splits] .
  moreover have "mset (take ?p (bt_keys page) @ t # drop ?p (bt_keys page)) = add_mset t (mset (bt_keys page))"
    by (metis append_take_drop_id mset.simps(2) mset_append union_mset_add_mset_right)
  ultimately show ?thesis
    using assms by (simp add: leaf_holds_def insert_sorted_def Let_def take_map drop_map)
qed

end

text \<open>The B-tree as the client of a page store and of a binary search.\<close>

locale btree_store = page_store st inv fits + binary_search bs
  for st :: "'s StorageTrait" and inv :: "'s \<Rightarrow> bool" and fits :: "'s \<Rightarrow> pid \<Rightarrow> bytes \<Rightarrow> bool"
    and bs :: "bytes list \<Rightarrow> bytes \<Rightarrow> nat + nat"
begin

lemma insert_leaf_page:
  assumes "inv s" and "\<forall>d. length d = psz \<longrightarrow> fits s p d"
    and "read_btree_page st s p = Ok page" and "bt_page_id page = p"
    and "leaf_holds page ts" and "index_fits psz (t # ts)"
  shows "\<exists>s' page'. btree_insert bs st p t psz s = Ok (s', p) \<and> inv s' \<and> fits s' = fits s \<and>
    read_btree_page st s' p = Ok page' \<and> bt_page_id page' = p \<and> leaf_holds page' (t # ts)"
proof -
  let ?page = "insert_sorted bs t page"
  have new: "leaf_holds ?page (t # ts)" by (rule leaf_insert [OF assms(5)])
  have store: "page_storable psz ?page" by (rule leaf_holds_storable [OF new assms(6)])
  have f: "fits s p (page_image ?page psz)" using assms(2) length_page_image [OF store] by simp
  obtain s' where w: "write_page st s p (page_image ?page psz) = Ok s'" using write_ok [OF assms(1) f] by blast
  have id: "bt_page_id ?page = p" using assms(4) by (simp add: insert_sorted_def Let_def)
  have "read_btree_page st s' p = Ok ?page"
    using read_write [OF assms(1) f w] deserialize_page_image [OF store] id by (simp add: read_btree_page_def)
  then show ?thesis
    using new id w write_inv [OF assms(1) f w] write_fits [OF assms(1) f w] assms(3) serialize_page_image [OF store]
    by (simp add: btree_insert_def write_btree_page_def)
qed

lemma insert_all:
  assumes "inv s" and "\<forall>d. length d = psz \<longrightarrow> fits s p d"
    and "read_btree_page st s p = Ok page" and "bt_page_id page = p"
    and "leaf_holds page ts0" and "index_fits psz (rev ts @ ts0)"
  shows "\<exists>s' page'. foldl (\<lambda>r t. and_then r (\<lambda>s. map_sum id fst (btree_insert bs st p t psz s))) (Ok s) ts = Ok s' \<and>
    read_btree_page st s' p = Ok page' \<and> leaf_holds page' (rev ts @ ts0)"
  using assms
proof (induction ts arbitrary: s page ts0)
  case Nil
  then show ?case by auto
next
  case (Cons t ts)
  have fit: "index_fits psz (rev ts @ t # ts0)" using Cons.prems(6) by simp
  have "index_fits psz (t # ts0)"
    using fit by (auto simp: index_fits_def)
  from insert_leaf_page [OF Cons.prems(1-5) this]
  obtain s1 page1 where s1: "btree_insert bs st p t psz s = Ok (s1, p)" "inv s1" "fits s1 = fits s"
    "read_btree_page st s1 p = Ok page1" "bt_page_id page1 = p" "leaf_holds page1 (t # ts0)" by blast
  have "\<forall>d. length d = psz \<longrightarrow> fits s1 p d" using Cons.prems(2) s1(3) by simp
  from Cons.IH [OF s1(2) this s1(4-6) fit] show ?case using s1(1) by simp
qed

lemma search_leaf:
  assumes "read_btree_page st s p = Ok page" and "leaf_holds page ts"
  shows "\<exists>rs. btree_search (Suc n) st s p k = Some (Ok rs) \<and> mset rs = mset (filter (\<lambda>t. it_key t = k) ts)"
  using assms by (simp add: btree_search_def leaf_holds_def mset_filter)

end

interpretation ephemeral_btree: btree_store ephemeral "\<lambda>_. True" "\<lambda>_ _ _. True" bisection
  by unfold_locales

lemma le_nat_zeros: "le_nat (replicate n 0) = 0"
  by (induction n) simp_all

lemma fresh_page [simp]: "deserialize_page p (replicate 8192 0) = new_btree_page Leaf p"
  by (simp add: deserialize_page_def field_le_def sub_def from_le_def code_type_def code_sibling_def le_nat_zeros
      new_btree_page_def)

text \<open>
  C20: A single-page index answers every lookup exactly. Insert any tuples with non-empty keys and heap oid 0
  (the only heap oid the executor inserts) one after the other into an empty index; when the entries fit on
  the page, at most 64 KiB large, every insert succeeds and a search for any key returns precisely the
  inserted tuples with that key, duplicates included. The code's \<open>binary_search_by\<close> is instantiated by a
  bisection. Without the first condition the claim fails: reading a page back stops at an empty key and the
  heap oid is not stored.
\<close>

theorem btree_single_page_correct:
  assumes "\<forall>t \<in> set ts. it_key t \<noteq> [] \<and> it_heap_oid t = 0"
    and "64 + (\<Sum>t \<leftarrow> ts. length (it_key t) + 10) \<le> psz" and "psz \<le> 65536"
  shows "\<exists>s rs. foldl (\<lambda>r t. and_then r (\<lambda>s. map_sum id fst (btree_insert bisection ephemeral root t psz s)))
        (Ok new_ephemeral) ts = Ok s \<and>
      btree_search 1 ephemeral s root k = Some (Ok rs) \<and> mset rs = mset (filter (\<lambda>t. it_key t = k) ts)"
proof -
  let ?page = "new_btree_page Leaf root"
  have fresh: "read_btree_page ephemeral new_ephemeral root = Ok ?page" and id: "bt_page_id ?page = root"
    by (simp_all add: read_btree_page_def ephemeral_def ephemeral_read_def new_ephemeral_def new_btree_page_def)
  have empty: "leaf_holds ?page []" by (simp add: leaf_holds_def sibling_ok_def new_btree_page_def)
  have "index_fits psz ts" using assms by (rule index_fits_page)
  then have "index_fits psz (rev ts @ [])" using index_fits_perm [of "rev ts" ts psz] by simp
  from ephemeral_btree.insert_all [OF _ _ fresh id empty this]
  obtain s page where run: "foldl (\<lambda>r t. and_then r (\<lambda>s. map_sum id fst (btree_insert bisection ephemeral root t psz s)))
        (Ok new_ephemeral) ts = Ok s"
    "read_btree_page ephemeral s root = Ok page" "leaf_holds page (rev ts @ [])" by auto
  then show ?thesis using ephemeral_btree.search_leaf [OF run(2,3), of 0 k] by (auto simp: rev_filter [symmetric])
qed

theorem btree_single_page_correct_witness:
  "\<exists>s rs. foldl (\<lambda>r t. and_then r (\<lambda>s. map_sum id fst (btree_insert bisection ephemeral 1 t 8192 s)))
        (Ok new_ephemeral) [\<lparr>it_key = [98], it_heap_pointer = (20, 0), it_heap_oid = 0\<rparr>,
          \<lparr>it_key = [97], it_heap_pointer = (10, 0), it_heap_oid = 0\<rparr>] = Ok s \<and>
      btree_search 1 ephemeral s 1 [97] = Some (Ok rs) \<and>
      mset rs = {#\<lparr>it_key = [97], it_heap_pointer = (10, 0), it_heap_oid = 0\<rparr>#}"
  using btree_single_page_correct [of "[\<lparr>it_key = [98], it_heap_pointer = (20, 0), it_heap_oid = 0\<rparr>,
      \<lparr>it_key = [97], it_heap_pointer = (10, 0), it_heap_oid = 0\<rparr>]" 8192 1 "[97]"]
  by simp

section \<open>Searching a tree\<close>

text \<open>Every child that a search can descend into has a smaller level than its parent.\<close>

definition levels_decrease :: "'s StorageTrait \<Rightarrow> 's \<Rightarrow> bool" where
  "levels_decrease st s \<longleftrightarrow>
     (\<forall>p page. read_btree_page st s p = Ok page \<longrightarrow> page_type page \<in> {Root, Internal} \<longrightarrow>
        (\<forall>k child. read_btree_page st s (find_descend_child page k) = Ok child \<longrightarrow>
           bt_level child < bt_level page))"

lemma search_page_returns:
  assumes "levels_decrease st s" and "read_btree_page st s p = Ok page" and "Suc (unat (bt_level page)) < n"
  shows "\<exists>r. search_page n st s p k = Some r"
  using assms(2,3)
proof (induction n arbitrary: p page)
  case 0
  then show ?case by simp
next
  case (Suc n)
  let ?child = "find_descend_child page k"
  have inner: "\<exists>r. search_page n st s ?child k = Some r" if "page_type page \<in> {Root, Internal}"
  proof (cases "read_btree_page st s ?child")
    case (Inl e)
    then show ?thesis using Suc.prems(2) by (cases n) simp_all
  next
    case (Inr child)
    then have "bt_level child < bt_level page"
      using assms(1) Suc.prems(1) that unfolding levels_decrease_def by blast
    then show ?thesis using Suc.IH [OF Inr] Suc.prems(2) by (simp add: word_less_nat_alt)
  qed
  show ?case using inner Suc.prems(1) by (cases "page_type page") auto
qed

text \<open>
  The search terminates on a tree whose levels decrease towards the leaves: from a root of level
  \<open>l\<close>, following at most \<open>l + 2\<close> pages gives an answer or the storage's error.
\<close>

theorem btree_search_terminates:
  assumes "levels_decrease st s" and "read_btree_page st s root = Ok page" and "unat (bt_level page) + 2 \<le> fuel"
  shows "\<exists>r. btree_search fuel st s root k = Some r"
  using search_page_returns [OF assms(1,2)] assms(3) by (simp add: btree_search_def)

text \<open>A tree of two levels: a root on page 3 over the leaves 1 and 2.\<close>

definition two_level_root :: BTreePage where
  "two_level_root = new_root_page 3 1 \<lparr>it_key = [5], it_heap_pointer = (0, 0), it_heap_oid = 0\<rparr> 1 2"

definition two_level_store :: EphemeralStorage where
  "two_level_store = [3 \<mapsto> page_image two_level_root 128]"

lemma two_level_reads:
  "read_btree_page ephemeral two_level_store p =
     Ok (if p = 3 then two_level_root else new_btree_page Leaf p)"
proof -
  have "page_storable 128 two_level_root" "bt_page_id two_level_root = 3"
    by (simp_all add: page_storable_def two_level_root_def new_root_page_def new_btree_page_def storable_def sibling_ok_def)
  then have "deserialize_page 3 (page_image two_level_root 128) = two_level_root"
    using deserialize_page_image by metis
  then show ?thesis
    by (simp add: read_btree_page_def ephemeral_def ephemeral_read_def two_level_store_def)
qed

theorem btree_search_terminates_witness:
  "\<exists>r. btree_search 3 ephemeral two_level_store 3 [7] = Some r"
proof (rule btree_search_terminates [where page = two_level_root])
  show "read_btree_page ephemeral two_level_store 3 = Ok two_level_root" by (simp add: two_level_reads)
  show "unat (bt_level two_level_root) + 2 \<le> 3" by (simp add: two_level_root_def new_root_page_def new_btree_page_def)
  show "levels_decrease ephemeral two_level_store"
    by (auto simp: levels_decrease_def two_level_reads two_level_root_def new_root_page_def new_btree_page_def
        find_descend_child_def split: if_splits)
qed

section \<open>Page splits\<close>

lemma ephemeral_store_btree:
  assumes "page_storable psz page" and "bt_page_id page = p"
  shows "store_btree ephemeral p page psz (s, g) = ((s(p \<mapsto> page_image page psz), g), Ok ())"
    and "read_btree_page ephemeral (s(p \<mapsto> page_image page psz)) q =
      (if q = p then Ok page else read_btree_page ephemeral s q)"
  using serialize_page_image [OF assms(1)] deserialize_page_image [OF assms(1)] assms(2)
  by (auto simp: store_btree_def write_btree_page_def read_btree_page_def ephemeral_def ephemeral_write_def ephemeral_read_def)

definition children :: "BTreePage \<Rightarrow> pid list" where
  "children page = map (\<lambda>t. fst (it_heap_pointer t)) (bt_keys page)"

lemma children_replace:
  "distinct (map (\<lambda>t. fst (it_heap_pointer t)) ts) \<Longrightarrow> old \<noteq> new \<Longrightarrow>
     old \<notin> set (map (\<lambda>t. fst (it_heap_pointer t)) (replace_child old new ts))"
  by (induction ts) auto

lemma replace_child_entries [simp]:
  "length (replace_child old new ts) = length ts"
  "map it_key (replace_child old new ts) = map it_key ts"
  "list_all storable (replace_child old new ts) \<longleftrightarrow> list_all storable ts"
  by (induction ts) (auto simp: storable_def)

lemma length_entries_keys: "length (entries_bytes ts) = sum_list (map (\<lambda>k. length k + 10) (map it_key ts))"
  by (induction ts) simp_all

lemma replace_child_storable:
  "page_storable psz page \<Longrightarrow> page_storable psz (page\<lparr>bt_keys := replace_child old new (bt_keys page)\<rparr>)"
  by (simp add: page_storable_def length_entries_keys del: map_map)

lemma find_descend_child_in:
  "bt_keys page \<noteq> [] \<Longrightarrow> find_descend_child page k \<in> set (children page)"
proof -
  have "descend c k ts \<in> insert c (set (map (\<lambda>t. fst (it_heap_pointer t)) ts))" for c ts
    by (induction ts arbitrary: c) auto
  then show "bt_keys page \<noteq> [] \<Longrightarrow> ?thesis"
    by (fastforce simp: find_descend_child_def children_def split: list.splits)
qed

lemma index_fits_sub:
  assumes "index_fits psz ys" and "mset ys = mset xs + mset zs"
  shows "index_fits psz xs"
proof -
  have "index_fits psz (xs @ zs)" using assms index_fits_perm [of ys "xs @ zs" psz] by simp
  then show ?thesis by (auto simp: index_fits_def)
qed

lemma read_btree_page_id [simp]: "read_btree_page st s p = Ok page \<Longrightarrow> bt_page_id page = p"
  by (auto simp: read_btree_page_def deserialize_page_def new_btree_page_def and_then_eq_Inr split: if_splits)

text \<open>The halves before the new tuple goes in.\<close>

definition left_half :: "BTreePage \<Rightarrow> BTreePage" where
  "left_half page = page\<lparr>bt_keys := take (length (bt_keys page) div 2) (bt_keys page)\<rparr>"

definition right_half :: "pid \<Rightarrow> BTreePage \<Rightarrow> BTreePage" where
  "right_half rid page =
     \<lparr>page_type = page_type page, bt_page_id = rid, bt_level = bt_level page,
      bt_keys = drop (length (bt_keys page) div 2) (bt_keys page), left_sibling = None, right_sibling = None\<rparr>"

lemma split_leaf_eq:
  "split_leaf bs t rid page =
     (if it_key t < first_key (right_half rid page)
      then (insert_sorted bs t (left_half page), (right_half rid page)\<lparr>left_sibling := Some (bt_page_id page)\<rparr>,
            first_tuple (right_half rid page))
      else (left_half page, (insert_sorted bs t (right_half rid page))\<lparr>left_sibling := Some (bt_page_id page)\<rparr>,
            first_tuple (insert_sorted bs t (right_half rid page))))"
  by (simp add: split_leaf_def split_at_def new_btree_page_def left_half_def right_half_def insert_sorted_def Let_def)

context binary_search
begin

lemma split_leaf_holds:
  assumes "leaf_holds page ts" and "bt_page_id page \<noteq> 0" and "split_leaf bs t rid page = (l, r, up)"
  shows "\<exists>xs ys. leaf_holds l xs \<and> leaf_holds r ys \<and> mset (t # ts) = mset xs + mset ys \<and>
    bt_page_id l = bt_page_id page \<and> bt_page_id r = rid \<and>
    set (take (length (bt_keys page) div 2) (bt_keys page)) \<subseteq> set (bt_keys l)"
proof -
  let ?n = "length (bt_keys page) div 2"
  have l: "leaf_holds (left_half page) (take ?n (bt_keys page))"
    and r: "leaf_holds (right_half rid page) (drop ?n (bt_keys page))"
    using assms(1) by (auto simp: leaf_holds_def left_half_def right_half_def sibling_ok_def sorted_wrt_take
        sorted_wrt_drop take_map [symmetric] drop_map [symmetric])
  have ts: "mset ts = mset (take ?n (bt_keys page)) + mset (drop ?n (bt_keys page))"
    using assms(1) by (simp add: leaf_holds_def flip: mset_append)
  have sib: "leaf_holds q zs \<Longrightarrow> leaf_holds (q\<lparr>left_sibling := Some (bt_page_id page)\<rparr>) zs" for q zs
    using assms(2) by (simp add: leaf_holds_def sibling_ok_def)
  have keep: "set (take ?n (bt_keys page)) \<subseteq> set (bt_keys (insert_sorted bs t (left_half page)))"
    using leaf_insert [OF l, of t] unfolding leaf_holds_def by (metis set_mset_mset set_subset_Cons)
  have ids: "bt_page_id (insert_sorted bs t q) = bt_page_id q" "bt_page_id (left_half page) = bt_page_id page"
    "bt_page_id (right_half rid page) = rid" "bt_keys (left_half page) = take ?n (bt_keys page)" for q
    by (simp_all add: insert_sorted_def Let_def left_half_def right_half_def)
  show ?thesis
  proof (cases "it_key t < first_key (right_half rid page)")
    case True
    then have "l = insert_sorted bs t (left_half page)"
      "r = (right_half rid page)\<lparr>left_sibling := Some (bt_page_id page)\<rparr>"
      using assms(3) by (simp_all add: split_leaf_eq)
    then show ?thesis
      using leaf_insert [OF l, of t] sib [OF r] ts keep ids
      by (intro exI [of _ "t # take ?n (bt_keys page)"] exI [of _ "drop ?n (bt_keys page)"]) simp
  next
    case False
    then have "l = left_half page"
      "r = (insert_sorted bs t (right_half rid page))\<lparr>left_sibling := Some (bt_page_id page)\<rparr>"
      using assms(3) by (simp_all add: split_leaf_eq)
    then show ?thesis
      using sib [OF leaf_insert [OF r, of t]] l ts ids
      by (intro exI [of _ "take ?n (bt_keys page)"] exI [of _ "t # drop ?n (bt_keys page)"]) simp
  qed
qed

end

text \<open>
  C22: A leaf that splits below a parent page is lost. When an insert descends from a parent into a full
  leaf, the tree insert reports success and leaves the lower half of the leaf on its old page, but the
  parent's pointer to that page has been replaced by the pointer to the new right half, so no key leads a
  search from the parent to the tuples of the left half any more.
\<close>

theorem leaf_split_orphans_left_half:
  assumes parent: "read_btree_page ephemeral s p = Ok P" "page_storable psz P" "page_type P \<noteq> Leaf"
      "bt_keys P \<noteq> []" "distinct (children P)" "\<not> is_full psz P"
    and leaf: "find_descend_child P (it_key t) = c" "read_btree_page ephemeral s c = Ok C" "leaf_holds C ts"
      "is_full psz C" "bt_keys C \<noteq> []" "index_fits psz (t # ts)"
    and fresh: "gen g = (rid, g')" "rid \<noteq> p" "rid \<noteq> c" "c \<noteq> p" "c \<noteq> 0"
  shows "\<exists>s' P' L. insert_recursive (Suc (Suc n)) oc bisection ephemeral gen psz t is_root p (s, g) =
        Some ((s', g'), Ok None) \<and>
      read_btree_page ephemeral s' p = Ok P' \<and> (\<forall>k. find_descend_child P' k \<noteq> c) \<and>
      read_btree_page ephemeral s' c = Ok L \<and>
      set (take (length (bt_keys C) div 2) (bt_keys C)) \<subseteq> set (bt_keys L)"
proof -
  obtain l r up where split: "split_leaf bisection t rid C = (l, r, up)" by (metis prod_cases3)
  have C_id: "bt_page_id C = c" "page_type C = Leaf" using leaf(2,3) by (simp_all add: leaf_holds_def)
  obtain xs ys where halves: "leaf_holds l xs" "leaf_holds r ys" "mset (t # ts) = mset xs + mset ys"
    "bt_page_id l = c" "bt_page_id r = rid" "set (take (length (bt_keys C) div 2) (bt_keys C)) \<subseteq> set (bt_keys l)"
    using bisection.split_leaf_holds [OF leaf(3) _ split] fresh(5) C_id by auto
  have l: "page_storable psz l"
    by (rule leaf_holds_storable [OF halves(1) index_fits_sub [OF leaf(6) halves(3)]])
  have r: "page_storable psz r"
    using leaf_holds_storable [OF halves(2) index_fits_sub [OF leaf(6), of ys xs]] halves(3) by (simp add: add.commute)
  let ?P = "P\<lparr>bt_keys := replace_child c rid (bt_keys P)\<rparr>"
  have P: "page_storable psz ?P" "bt_page_id ?P = p" using replace_child_storable [OF parent(2)] parent(1) by simp_all
  let ?s1 = "s(c \<mapsto> page_image l psz, rid \<mapsto> page_image r psz)" and ?s2 = "\<lambda>s. s(p \<mapsto> page_image ?P psz)"
  note writes = ephemeral_store_btree [OF l halves(4)] ephemeral_store_btree [OF r halves(5)] ephemeral_store_btree [OF P]
  have child: "insert_recursive (Suc n) oc bisection ephemeral gen psz t False c (s, g) = Some ((?s1, g'), Ok (Some rid))"
    using leaf(2,4,5) C_id(2) fresh(1) split
    by (simp add: fetch_btree_def insert_leaf_def act_then_def alloc_page_def writes)
  have "\<not> is_full psz ?P" using parent(6) by (simp add: is_full_def)
  then have "attach_child oc ephemeral gen psz p c rid (?s1, g') = ((?s2 ?s1, g'), Ok None)"
    using parent(1) fresh(2,4) by (simp add: attach_child_def act_then_def fetch_btree_def writes Let_def)
  then have "insert_recursive (Suc (Suc n)) oc bisection ephemeral gen psz t is_root p (s, g) =
      Some ((?s2 ?s1, g'), Ok None)"
    unfolding insert_recursive.simps(2) [of "Suc n"]
    using parent(1,3,4) leaf(1) child by (simp add: fetch_btree_def del: insert_recursive.simps)
  moreover have "find_descend_child ?P k \<noteq> c" for k
    using find_descend_child_in [of ?P k] children_replace [of "bt_keys P" c rid] parent(4,5) fresh(3)
    by (auto simp: children_def simp flip: length_greater_0_conv)
  ultimately show ?thesis
    using halves(6) fresh writes by (intro exI conjI allI) (assumption | simp)+
qed

definition full_leaf :: BTreePage where
  "full_leaf = (new_btree_page Leaf 2)\<lparr>bt_keys := map (\<lambda>b. \<lparr>it_key = [b], it_heap_pointer = (9, 0), it_heap_oid = 0\<rparr>) [5, 6, 7]\<rparr>"

definition split_store :: EphemeralStorage where
  "split_store = [2 \<mapsto> page_image full_leaf 192, 3 \<mapsto> page_image two_level_root 192]"

theorem leaf_split_orphans_left_half_witness:
  "\<exists>s' P' L. insert_recursive 2 True bisection ephemeral (\<lambda>g. (g, g + 1)) 192
        \<lparr>it_key = [8], it_heap_pointer = (9, 0), it_heap_oid = 0\<rparr> True 3 (split_store, 4) =
        Some ((s', 5), Ok None) \<and>
      read_btree_page ephemeral s' 3 = Ok P' \<and> (\<forall>k. find_descend_child P' k \<noteq> 2) \<and>
      read_btree_page ephemeral s' 2 = Ok L \<and>
      \<lparr>it_key = [5], it_heap_pointer = (9, 0), it_heap_oid = 0\<rparr> \<in> set (bt_keys L)"
proof -
  let ?t = "\<lparr>it_key = [8 :: byte], it_heap_pointer = (9 :: u32, 0 :: u16), it_heap_oid = 0 :: u32\<rparr>"
  note pages = full_leaf_def two_level_root_def new_root_page_def new_btree_page_def
  have C: "page_storable 192 full_leaf" "bt_page_id full_leaf = 2"
    and P: "page_storable 192 two_level_root" "bt_page_id two_level_root = 3"
    by (simp_all add: pages page_storable_def storable_def sibling_ok_def)
  have rd: "read_btree_page ephemeral split_store 3 = Ok two_level_root"
    "read_btree_page ephemeral split_store 2 = Ok full_leaf"
    unfolding split_store_def using ephemeral_store_btree(2) [OF C] ephemeral_store_btree(2) [OF P] by simp_all
  have "\<exists>s' P' L. insert_recursive (Suc (Suc 0)) True bisection ephemeral (\<lambda>g. (g, g + 1)) 192 ?t True 3 (split_store, 4) =
        Some ((s', 5), Ok None) \<and> read_btree_page ephemeral s' 3 = Ok P' \<and> (\<forall>k. find_descend_child P' k \<noteq> 2) \<and>
      read_btree_page ephemeral s' 2 = Ok L \<and>
      set (take (length (bt_keys full_leaf) div 2) (bt_keys full_leaf)) \<subseteq> set (bt_keys L)"
    by (rule leaf_split_orphans_left_half [where P = two_level_root and C = full_leaf and ts = "bt_keys full_leaf"
          and rid = 4, OF rd(1) P(1) _ _ _ _ _ rd(2)])
      (simp_all add: pages children_def is_full_def find_descend_child_def leaf_holds_def sibling_ok_def
        index_fits_def storable_def)
  moreover have "set (take (length (bt_keys full_leaf) div 2) (bt_keys full_leaf)) =
      {\<lparr>it_key = [5], it_heap_pointer = (9, 0), it_heap_oid = 0\<rparr>}"
    by (simp add: full_leaf_def)
  ultimately show ?thesis unfolding numeral_2_eq_2 by (simp only: insert_subset) blast
qed

section \<open>Composite keys are read back\<close>

lemma decode_encode_column:
  assumes "utf8_valid v" and "length v < 4294967296"
  shows "decode_key (encode_column col v @ rest) =
     and_then (decode_key rest) (\<lambda>vs. Ok ((if v = [] then NULL_str else v) # vs))"
proof (cases "v = [] \<or> v = NULL_str")
  case True
  then show ?thesis by (auto simp: encode_column_def Let_def)
next
  case False
  let ?len = "to_le 4 (word_of_nat (length v) :: u32)"
  have "field_le 0 4 (?len @ v @ 255 # rest) = (word_of_nat (length v) :: u32)" by simp
  then show ?thesis
    using False assms by (simp add: encode_column_def Let_def lossy_valid)
qed

text \<open>
  A composite key decodes to the column values it was built from, in order, where an empty string
  comes back as \<open>NULL\<close>. The values are strings (valid UTF-8) of less than \<open>2 ^ 32\<close> bytes; any number of
  columns, with any directions and null orders.
\<close>

theorem composite_key_roundtrip:
  assumes "\<forall>v \<in> set vals. utf8_valid v \<and> length v < 4294967296"
  shows "decode_composite_key (encode_composite_key idx vals) =
    Ok (map (\<lambda>v. if v = [] then NULL_str else v) vals)"
proof -
  have "decode_key (concat (map (\<lambda>(i, v). encode_column (f i) v) (zip is vals))) =
      Ok (map (\<lambda>v. if v = [] then NULL_str else v) vals)"
    if "length is = length vals" for f and "is" :: "nat list"
    using that assms by (induction "is" vals rule: list_induct2) (simp_all add: decode_encode_column)
  then show ?thesis by (simp add: encode_composite_key_def decode_composite_key_def)
qed

theorem composite_key_roundtrip_witness:
  "decode_composite_key (encode_composite_key (new_btree_index 1 2 3 8192) [[97, 98], [], [99]]) =
     Ok [[97, 98], NULL_str, [99]]"
  using composite_key_roundtrip [of "[[97, 98], [], [99]]" "new_btree_index 1 2 3 8192"]
  by (simp add: utf8_valid_ascii)

section \<open>Duplicate keys in a scan\<close>

lemma deduplicate_keys:
  "map fst (fst (deduplicate_entries es)) = remdups_adj (map fst es) \<and>
   length (fst (deduplicate_entries es)) + snd (deduplicate_entries es) = length es"
proof (induction es rule: deduplicate_entries.induct)
  case 1
  then show ?case by simp
next
  case (2 e es)
  let ?rest = "dropWhile (\<lambda>x. fst x = fst e) es"
  have len: "length (takeWhile (\<lambda>x. fst x = fst e) es) + length ?rest = length es"
    by (metis length_append takeWhile_dropWhile_id)
  have "remdups_adj (map fst (e # es)) = fst e # remdups_adj (map fst ?rest)"
    by (induction es) (auto split: list.splits)
  then show ?case using 2 len by (auto simp: Let_def split: prod.splits)
qed

text \<open>
  Deduplicating the entries of a scan in key order leaves exactly one entry for each key, in strictly
  increasing key order, loses no key, and the reported number of removed entries accounts for all the others.
\<close>

theorem deduplicate_sorted_scan:
  assumes "sorted (map fst es)"
  shows "sorted_wrt (<) (map fst (fst (deduplicate_entries es))) \<and>
    set (map fst (fst (deduplicate_entries es))) = set (map fst es) \<and>
    length (fst (deduplicate_entries es)) + snd (deduplicate_entries es) = length es"
proof -
  have "sorted_wrt (<) (remdups_adj ks)" if "sorted ks" for ks :: "bytes list"
    using that by (induction ks rule: remdups_adj.induct) (auto simp: less_le dest: order_trans)
  then show ?thesis
    using assms deduplicate_keys [of es] by (metis remdups_adj_set)
qed

theorem deduplicate_sorted_scan_witness:
  "sorted_wrt (<) (map fst (fst (deduplicate_entries [([1], 1, 0), ([1], 2, 0), ([2], 3, 0)]))) \<and>
    set (map fst (fst (deduplicate_entries [([1], 1, 0), ([1], 2, 0), ([2], 3, 0)]))) = {[1], [2]}"
  using deduplicate_sorted_scan [of "[([1], 1, 0), ([1], 2, 0), ([2], 3, 0)]"] by simp

end
