(* ===== verification/Indexes.thy ===== *)
theory Indexes
  imports BTree
begin

text \<open>
  The in-memory indexes: hash (\<open>btree/hash_index.rs\<close>), GIN (\<open>btree/gin_index.rs\<close>) and BRIN
  (\<open>btree/brin_index.rs\<close>). The locale \<open>tid_index\<close> is what a query relies on: a lookup returns the tuple
  identifiers inserted under the key and not deleted since. The hash index keeps it for keys up to equal
  hash values, the GIN index for keys after normalisation. The order in which a \<open>HashMap\<close> is traversed is
  the argument \<open>ks\<close>, a list of its keys.
\<close>

type_synonym tid = "pid \<times> u16"

section \<open>The contract\<close>

datatype 'k index_op = Add 'k tid | Del 'k tid

text \<open>The identifiers under a key after a sequence of operations, one occurrence removed at a time.\<close>

fun spec_tids :: "('k \<Rightarrow> 'c) \<Rightarrow> 'k index_op list \<Rightarrow> 'c \<Rightarrow> tid list \<Rightarrow> tid list" where
  "spec_tids cls [] c ts = ts"
| "spec_tids cls (Add k t # ops) c ts = spec_tids cls ops c (if cls k = c then ts @ [t] else ts)"
| "spec_tids cls (Del k t # ops) c ts = spec_tids cls ops c (if cls k = c then remove_first ((=) t) ts else ts)"

fun run_index :: "('k \<Rightarrow> tid \<Rightarrow> 'i \<Rightarrow> 'i) \<Rightarrow> ('k \<Rightarrow> tid \<Rightarrow> 'i \<Rightarrow> 'i \<times> bool) \<Rightarrow> 'k index_op list \<Rightarrow> 'i \<Rightarrow> 'i" where
  "run_index add del [] i = i"
| "run_index add del (Add k t # ops) i = run_index add del ops (add k t i)"
| "run_index add del (Del k t # ops) i = run_index add del ops (fst (del k t i))"

locale tid_index =
  fixes add :: "'k \<Rightarrow> tid \<Rightarrow> 'i \<Rightarrow> 'i"
    and find :: "'i \<Rightarrow> 'k \<Rightarrow> tid list"
    and del :: "'k \<Rightarrow> tid \<Rightarrow> 'i \<Rightarrow> 'i \<times> bool"
    and cls :: "'k \<Rightarrow> 'c"
    and good :: "'i \<Rightarrow> bool"
  assumes find_add: "good i \<Longrightarrow> find (add k t i) k' = (if cls k = cls k' then find i k' @ [t] else find i k')"
    and find_del: "good i \<Longrightarrow>
      find (fst (del k t i)) k' = (if cls k = cls k' then remove_first ((=) t) (find i k') else find i k')"
    and del_found: "good i \<Longrightarrow> snd (del k t i) \<longleftrightarrow> t \<in> set (find i k)"
    and good_add: "good i \<Longrightarrow> good (add k t i)"
    and good_del: "good i \<Longrightarrow> good (fst (del k t i))"
begin

lemma run_good: "good i \<Longrightarrow> good (run_index add del ops i)"
proof (induction ops arbitrary: i)
  case (Cons op ops)
  then show ?case by (cases op) (simp_all add: good_add good_del)
qed simp

lemma run_find: "good i \<Longrightarrow> find (run_index add del ops i) k = spec_tids cls ops (cls k) (find i k)"
proof (induction ops arbitrary: i)
  case (Cons op ops)
  then show ?case by (cases op) (simp_all add: find_add find_del good_add good_del)
qed simp

text \<open>A delete reports success exactly when the sequence left an occurrence to remove.\<close>

lemma run_del_found:
  "good i \<Longrightarrow> snd (del k t (run_index add del ops i)) \<longleftrightarrow> t \<in> set (spec_tids cls ops (cls k) (find i k))"
  by (simp add: del_found run_good run_find)

end

text \<open>\<open>position\<close> and \<open>remove\<close> on the vector under a key, which is dropped when it becomes empty.\<close>

definition vec_delete :: "('k \<rightharpoonup> 'v list) \<Rightarrow> 'k \<Rightarrow> 'v \<Rightarrow> ('k \<rightharpoonup> 'v list) \<times> bool" where
  "vec_delete m k t =
     (case m k of
        None \<Rightarrow> (m, False)
      | Some ts \<Rightarrow> (if t \<in> set ts then (vec_put m k (remove_first ((=) t) ts), True) else (m, False)))"

lemma remove_first_notin: "t \<notin> set ts \<Longrightarrow> remove_first ((=) t) ts = ts"
  by (induction ts) auto

lemma vec_at_delete:
  "vec_at (fst (vec_delete m k t)) k' = (if k = k' then remove_first ((=) t) (vec_at m k') else vec_at m k')"
  "snd (vec_delete m k t) \<longleftrightarrow> t \<in> set (vec_at m k)"
  by (auto simp: vec_delete_def remove_first_notin vec_at_def vec_put_def split: option.splits)

lemma no_empty_vec_delete: "no_empty_vec m \<Longrightarrow> no_empty_vec (fst (vec_delete m k t))"
  by (simp add: vec_delete_def split: option.splits)

definition vec_scan :: "'k list \<Rightarrow> ('k \<rightharpoonup> 'v list) \<Rightarrow> ('k \<times> 'v list) list" where
  "vec_scan ks m = concat (map (\<lambda>k. case m k of None \<Rightarrow> [] | Some ts \<Rightarrow> [(k, ts)]) ks)"

section \<open>The hash index\<close>

record HashIndex =
  hi_index_oid :: oid
  hi_rel_oid :: oid
  bucket_count :: u32
  hi_entries :: "u32 \<rightharpoonup> tid list"

definition new_hash_index :: "oid \<Rightarrow> oid \<Rightarrow> HashIndex" where
  "new_hash_index i r = \<lparr>hi_index_oid = i, hi_rel_oid = r, bucket_count = 256, hi_entries = Map.empty\<rparr>"

definition with_bucket_count :: "u32 \<Rightarrow> HashIndex \<Rightarrow> HashIndex" where
  "with_bucket_count n idx = idx\<lparr>bucket_count := n\<rparr>"

definition hash_value :: "bytes \<Rightarrow> u32" where
  "hash_value key = foldl (\<lambda>h b. h * 31 + ucast b) 0 key"

definition hash_insert :: "bytes \<Rightarrow> tid \<Rightarrow> HashIndex \<Rightarrow> HashIndex" where
  "hash_insert key t idx = idx\<lparr>hi_entries := vec_push (hi_entries idx) (hash_value key) t\<rparr>"

definition hash_lookup :: "HashIndex \<Rightarrow> bytes \<Rightarrow> tid list" where
  "hash_lookup idx key = vec_at (hi_entries idx) (hash_value key)"

definition hash_delete :: "bytes \<Rightarrow> tid \<Rightarrow> HashIndex \<Rightarrow> HashIndex \<times> bool" where
  "hash_delete key t idx =
     (let (m, b) = vec_delete (hi_entries idx) (hash_value key) t in (idx\<lparr>hi_entries := m\<rparr>, b))"

record HashIndexEntry =
  he_hash_value :: u32
  he_tids :: "tid list"

definition hash_scan :: "u32 list \<Rightarrow> HashIndex \<Rightarrow> HashIndexEntry list" where
  "hash_scan ks idx = map (\<lambda>(h, ts). \<lparr>he_hash_value = h, he_tids = ts\<rparr>) (vec_scan ks (hi_entries idx))"

definition hash_entry_count :: "u32 list \<Rightarrow> HashIndex \<Rightarrow> nat" where
  "hash_entry_count ks idx = length (vec_scan ks (hi_entries idx))"

definition hash_tid_count :: "u32 list \<Rightarrow> HashIndex \<Rightarrow> nat" where
  "hash_tid_count ks idx = sum_list (map (\<lambda>(h, ts). length ts) (vec_scan ks (hi_entries idx)))"

interpretation hash: tid_index hash_insert hash_lookup hash_delete hash_value "\<lambda>idx. no_empty_vec (hi_entries idx)"
  by unfold_locales
    (auto simp: hash_insert_def hash_lookup_def hash_delete_def vec_at_delete no_empty_vec_delete case_prod_beta)

text \<open>
  C25: The hash index is a multimap over hash values. After any sequence of inserts and deletes on a new
  index, a lookup returns the identifiers inserted under keys with the same hash value and not deleted
  since, in insertion order, and a delete reports success exactly when such an identifier is present.
\<close>

theorem hash_index_correct:
  "hash_lookup (run_index hash_insert hash_delete ops (new_hash_index i r)) key =
     spec_tids hash_value ops (hash_value key) [] \<and>
   snd (hash_delete key t (run_index hash_insert hash_delete ops (new_hash_index i r))) =
     (t \<in> set (spec_tids hash_value ops (hash_value key) []))"
proof -
  have "no_empty_vec (hi_entries (new_hash_index i r))" "hash_lookup (new_hash_index i r) key = []"
    by (simp_all add: new_hash_index_def hash_lookup_def)
  then show ?thesis
    using hash.run_find [of "new_hash_index i r" ops key] hash.run_del_found [of "new_hash_index i r" key t ops] by simp
qed

text \<open>
  Keys with equal hash values are not told apart: the index keeps only the hash, so after inserting the
  key \<open>Aa\<close> a lookup of \<open>BB\<close> returns its identifier, and deleting that identifier under \<open>BB\<close> removes \<open>Aa\<close>.
\<close>

theorem hash_collision_visible:
  "hash_lookup (hash_insert [65, 97] t (new_hash_index i r)) [66, 66] = [t] \<and>
   hash_lookup (fst (hash_delete [66, 66] t (hash_insert [65, 97] t (new_hash_index i r)))) [65, 97] = []"
proof -
  have eq: "hash_value [65, 97] = hash_value [66, 66]" by (simp add: hash_value_def)
  have "no_empty_vec (hi_entries (new_hash_index i r))" "hash_lookup (new_hash_index i r) k = []" for k
    by (simp_all add: new_hash_index_def hash_lookup_def)
  then show ?thesis using eq by (simp add: hash.find_add hash.find_del hash.good_add)
qed

section \<open>The GIN index\<close>

datatype GinIndexType = GinArray | GinFullText | GinJsonb

record GinIndex =
  gi_index_oid :: oid
  gi_rel_oid :: oid
  gi_index_type :: GinIndexType
  gi_entries :: "str \<rightharpoonup> tid list"

definition new_gin_index :: "oid \<Rightarrow> oid \<Rightarrow> GinIndexType \<Rightarrow> GinIndex" where
  "new_gin_index i r ty = \<lparr>gi_index_oid = i, gi_rel_oid = r, gi_index_type = ty, gi_entries = Map.empty\<rparr>"

definition gin_push :: "tid \<Rightarrow> GinIndex \<Rightarrow> str \<Rightarrow> GinIndex" where
  "gin_push t idx v = idx\<lparr>gi_entries := vec_push (gi_entries idx) v t\<rparr>"

definition insert_array_values :: "str list \<Rightarrow> tid \<Rightarrow> GinIndex \<Rightarrow> GinIndex" where
  "insert_array_values vs t idx = foldl (gin_push t) idx vs"

text \<open>\<open>to_lowercase\<close> follows the Unicode tables; it is the argument \<open>lower\<close>.\<close>

definition insert_full_text :: "(str \<Rightarrow> str) \<Rightarrow> str list \<Rightarrow> tid \<Rightarrow> GinIndex \<Rightarrow> GinIndex" where
  "insert_full_text lower terms t idx = foldl (\<lambda>i term. gin_push t i (lower term)) idx terms"

definition insert_jsonb_keys :: "str list \<Rightarrow> tid \<Rightarrow> GinIndex \<Rightarrow> GinIndex" where
  "insert_jsonb_keys vs t idx = foldl (gin_push t) idx vs"

definition gin_lookup :: "(str \<Rightarrow> str) \<Rightarrow> GinIndex \<Rightarrow> str \<Rightarrow> tid list" where
  "gin_lookup lower idx key =
     (if gi_index_type idx = GinFullText then vec_at (gi_entries idx) (lower key)
      else vec_at (gi_entries idx) key)"

definition gin_contains :: "GinIndex \<Rightarrow> str list \<Rightarrow> tid list" where
  "gin_contains idx vs =
     (case vs of
        [] \<Rightarrow> []
      | v # ws \<Rightarrow>
          (case gi_entries idx v of
             None \<Rightarrow> []
           | Some ts \<Rightarrow>
               filter (\<lambda>t. list_all (\<lambda>w. case gi_entries idx w of Some us \<Rightarrow> t \<in> set us | None \<Rightarrow> False) ws) ts))"

text \<open>Identifiers already in the result are the ones in the set \<open>seen\<close>.\<close>

fun add_unseen :: "tid list \<Rightarrow> tid list \<Rightarrow> tid list" where
  "add_unseen acc [] = acc"
| "add_unseen acc (t # ts) = add_unseen (if t \<in> set acc then acc else acc @ [t]) ts"

definition any_contains :: "GinIndex \<Rightarrow> str list \<Rightarrow> tid list" where
  "any_contains idx vs =
     foldl (\<lambda>acc v. case gi_entries idx v of Some ts \<Rightarrow> add_unseen acc ts | None \<Rightarrow> acc) [] vs"

definition gin_delete :: "str \<Rightarrow> tid \<Rightarrow> GinIndex \<Rightarrow> GinIndex \<times> bool" where
  "gin_delete key t idx =
     (let (m, b) = vec_delete (gi_entries idx) key t in (idx\<lparr>gi_entries := m\<rparr>, b))"

record GinIndexEntry =
  ge_key :: str
  ge_tids :: "tid list"

definition gin_scan :: "str list \<Rightarrow> GinIndex \<Rightarrow> GinIndexEntry list" where
  "gin_scan ks idx = map (\<lambda>(k, ts). \<lparr>ge_key = k, ge_tids = ts\<rparr>) (vec_scan ks (gi_entries idx))"

definition gin_entry_count :: "str list \<Rightarrow> GinIndex \<Rightarrow> nat" where
  "gin_entry_count ks idx = length (vec_scan ks (gi_entries idx))"

definition gin_tid_count :: "str list \<Rightarrow> GinIndex \<Rightarrow> nat" where
  "gin_tid_count ks idx = sum_list (map (\<lambda>(k, ts). length ts) (vec_scan ks (gi_entries idx)))"

text \<open>One value of an array or JSON index is a key of the contract.\<close>

interpretation gin: tid_index "\<lambda>v. insert_array_values [v]" "gin_lookup lower" gin_delete "\<lambda>v. v"
    "\<lambda>idx. gi_index_type idx \<noteq> GinFullText"
  by unfold_locales
    (auto simp: insert_array_values_def gin_push_def gin_lookup_def gin_delete_def vec_at_delete case_prod_beta)

lemma vec_at_insert_array:
  "vec_at (gi_entries (insert_array_values vs t idx)) v =
     vec_at (gi_entries idx) v @ replicate (count_list vs v) t"
proof (induction vs arbitrary: idx)
  case (Cons u vs)
  then show ?case by (simp add: insert_array_values_def gin_push_def)
qed (simp add: insert_array_values_def)

lemma insert_full_text_eq: "insert_full_text lower ts t idx = insert_array_values (map lower ts) t idx"
  by (simp add: insert_full_text_def insert_array_values_def foldl_map)

lemma set_add_unseen: "set (add_unseen acc ts) = set acc \<union> set ts" "distinct acc \<Longrightarrow> distinct (add_unseen acc ts)"
  by (induction acc ts rule: add_unseen.induct) auto

lemma any_contains_acc:
  "distinct acc \<Longrightarrow>
   distinct (foldl (\<lambda>acc v. case m v of Some ts \<Rightarrow> add_unseen acc ts | None \<Rightarrow> acc) acc vs) \<and>
   set (foldl (\<lambda>acc v. case m v of Some ts \<Rightarrow> add_unseen acc ts | None \<Rightarrow> acc) acc vs) =
     set acc \<union> (\<Union>v \<in> set vs. set (vec_at m v))"
proof (induction vs arbitrary: acc)
  case (Cons v vs)
  then show ?case by (cases "m v") (auto simp: vec_at_def set_add_unseen)
qed simp

text \<open>
  The rows of an array index: each row's values are inserted with the row's identifier.
\<close>

definition index_rows :: "(str list \<times> tid) list \<Rightarrow> GinIndex \<Rightarrow> GinIndex" where
  "index_rows rows idx = foldl (\<lambda>i (vs, t). insert_array_values vs t i) idx rows"

lemma set_index_rows:
  "set (vec_at (gi_entries (index_rows rows idx)) v) =
     set (vec_at (gi_entries idx) v) \<union> {t. \<exists>vs. (vs, t) \<in> set rows \<and> v \<in> set vs}"
proof (induction rows arbitrary: idx)
  case (Cons row rows)
  obtain us u where row: "row = (us, u)" by (cases row)
  have "set (vec_at (gi_entries (insert_array_values us u idx)) v) =
      set (vec_at (gi_entries idx) v) \<union> (if v \<in> set us then {u} else {})"
    by (auto simp: vec_at_insert_array count_list_0_iff)
  then show ?case using Cons.IH [of "insert_array_values us u idx"] by (auto simp: row index_rows_def split: if_splits)
qed (simp add: index_rows_def)

lemma set_gin_contains:
  "vs \<noteq> [] \<Longrightarrow> set (gin_contains idx vs) = (\<Inter>v \<in> set vs. set (vec_at (gi_entries idx) v))"
proof -
  have mem: "(case m w of Some us \<Rightarrow> t \<in> set us | None \<Rightarrow> False) \<longleftrightarrow> t \<in> set (vec_at m w)"
    for m :: "str \<rightharpoonup> tid list" and w t
    by (simp add: vec_at_def split: option.splits)
  show "vs \<noteq> [] \<Longrightarrow> ?thesis"
    by (cases vs) (auto simp: gin_contains_def list_all_iff mem, auto simp: vec_at_def split: option.splits)
qed

text \<open>
  The array index answers containment queries. When rows with distinct identifiers have been indexed,
  \<open>contains\<close> returns the rows whose arrays contain all the (one or more) queried values, and
  \<open>any_contains\<close> returns, without repetition, the rows that contain at least one.
\<close>

theorem gin_array_queries:
  assumes "distinct (map snd rows)" and "query \<noteq> []"
  shows "set (gin_contains (index_rows rows (new_gin_index i r GinArray)) query) =
      {t. \<exists>vs. (vs, t) \<in> set rows \<and> set query \<subseteq> set vs} \<and>
    distinct (any_contains (index_rows rows (new_gin_index i r GinArray)) query) \<and>
    set (any_contains (index_rows rows (new_gin_index i r GinArray)) query) =
      {t. \<exists>vs. (vs, t) \<in> set rows \<and> set query \<inter> set vs \<noteq> {}}"
proof -
  let ?idx = "index_rows rows (new_gin_index i r GinArray)"
  have at: "set (vec_at (gi_entries ?idx) v) = {t. \<exists>vs. (vs, t) \<in> set rows \<and> v \<in> set vs}" for v
    by (simp add: set_index_rows new_gin_index_def)
  have uniq: "vs = ws" if "(vs, t) \<in> set rows" "(ws, t) \<in> set rows" for vs ws t
    using assms(1) that unfolding distinct_map inj_on_def by (metis prod.inject snd_conv)
  have "set (gin_contains ?idx query) = {t. \<exists>vs. (vs, t) \<in> set rows \<and> set query \<subseteq> set vs}"
  proof (rule set_eqI, rule iffI)
    fix t assume "t \<in> set (gin_contains ?idx query)"
    then have all: "\<forall>v \<in> set query. \<exists>vs. (vs, t) \<in> set rows \<and> v \<in> set vs"
      using assms(2) by (simp add: set_gin_contains at)
    then obtain vs where vs: "(vs, t) \<in> set rows" using assms(2) by (meson last_in_set)
    then have "set query \<subseteq> set vs" using all uniq by (metis subsetI)
    then show "t \<in> {t. \<exists>vs. (vs, t) \<in> set rows \<and> set query \<subseteq> set vs}" using vs by blast
  next
    fix t assume "t \<in> {t. \<exists>vs. (vs, t) \<in> set rows \<and> set query \<subseteq> set vs}"
    then show "t \<in> set (gin_contains ?idx query)" using assms(2) by (auto simp: set_gin_contains at)
  qed
  moreover have "distinct (any_contains ?idx query)"
    "set (any_contains ?idx query) = (\<Union>v \<in> set query. set (vec_at (gi_entries ?idx) v))"
    using any_contains_acc [of "[]" "gi_entries ?idx" query] by (simp_all add: any_contains_def)
  ultimately show ?thesis by (auto simp: at)
qed

theorem gin_array_queries_witness:
  "set (gin_contains (index_rows [([[1], [2]], (1, 0)), ([[1]], (1, 1))] (new_gin_index 1 100 GinArray)) [[1], [2]])
     = {(1, 0)}"
  using gin_array_queries [of "[([[1], [2]], (1, 0)), ([[1]], (1, 1))]" "[[1], [2]]" 1 100] by auto

text \<open>
  Deleting from a full-text index does not normalise the key. A term whose lower-case form differs from
  it is found after the insert, a delete of the same term and identifier reports that there is nothing to
  delete, and the term is still found.
\<close>

theorem gin_full_text_delete_fails:
  assumes "lower term \<noteq> term"
  shows "gin_lookup lower (insert_full_text lower [term] t (new_gin_index i r GinFullText)) term = [t] \<and>
    gin_delete term t (insert_full_text lower [term] t (new_gin_index i r GinFullText)) =
      (insert_full_text lower [term] t (new_gin_index i r GinFullText), False)"
  using assms
  by (auto simp: gin_lookup_def gin_delete_def vec_delete_def insert_full_text_def gin_push_def new_gin_index_def
      vec_push_def vec_at_def)

theorem gin_full_text_delete_fails_witness:
  "gin_delete [72] (1, 0) (insert_full_text (map (\<lambda>b. if in_range 65 90 b then b + 32 else b)) [[72]] (1, 0)
       (new_gin_index 1 100 GinFullText)) =
     (insert_full_text (map (\<lambda>b. if in_range 65 90 b then b + 32 else b)) [[72]] (1, 0) (new_gin_index 1 100 GinFullText), False)"
  using gin_full_text_delete_fails [of "map (\<lambda>b. if in_range 65 90 b then b + 32 else b)" "[72]" "(1, 0)" 1 100]
  by (simp add: in_range_def)

end
