(* ===== verification/Brin.thy ===== *)
theory Brin
  imports Indexes
begin

text \<open>
  The block range index (\<open>btree/brin_index.rs\<close>): a summary for each range of blocks, and the entries of the
  range. Lookups visit only the ranges whose summary admits the value. The contract is a multiset of
  (value, identifier) pairs; \<open>brin_ok\<close> is the invariant that makes skipping a range safe.
\<close>

section \<open>Operations\<close>

record BlockRangeSummary =
  block_start :: u32
  block_end :: u32
  min_value :: "str option"
  max_value :: "str option"
  null_count :: u32
  distinct_count :: u32

record BrinIndex =
  br_index_oid :: oid
  br_rel_oid :: oid
  pages_per_range :: u32
  ranges :: "BlockRangeSummary list"
  br_values :: "u32 \<rightharpoonup> (str \<times> tid) list"

definition new_brin_index :: "oid \<Rightarrow> oid \<Rightarrow> BrinIndex" where
  "new_brin_index i r =
     \<lparr>br_index_oid = i, br_rel_oid = r, pages_per_range = 128, ranges = [], br_values = Map.empty\<rparr>"

definition with_pages_per_range :: "u32 \<Rightarrow> BrinIndex \<Rightarrow> BrinIndex" where
  "with_pages_per_range n idx = idx\<lparr>pages_per_range := n\<rparr>"

definition u32_mul :: "bool \<Rightarrow> u32 \<Rightarrow> u32 \<Rightarrow> u32 res" where
  "u32_mul oc a b = (if oc \<and> unat a * unat b \<ge> 2 ^ 32 then panic else Ok (a * b))"

definition u32_sub :: "bool \<Rightarrow> u32 \<Rightarrow> u32 \<Rightarrow> u32 res" where
  "u32_sub oc a b = (if oc \<and> a < b then panic else Ok (a - b))"

definition new_summary :: "bool \<Rightarrow> u32 \<Rightarrow> nat \<Rightarrow> BlockRangeSummary res" where
  "new_summary oc ppr n =
     and_then (u32_mul oc (word_of_nat n) ppr) (\<lambda>start.
     and_then (word_add oc (word_of_nat n) 1) (\<lambda>n1.
     and_then (u32_mul oc n1 ppr) (\<lambda>next_start.
     and_then (u32_sub oc next_start 1) (\<lambda>last.
     Ok \<lparr>block_start = start, block_end = last, min_value = None, max_value = None,
         null_count = 0, distinct_count = 0\<rparr>))))"

function grow_ranges :: "bool \<Rightarrow> u32 \<Rightarrow> nat \<Rightarrow> BlockRangeSummary list \<Rightarrow> BlockRangeSummary list res" where
  "grow_ranges oc ppr idx rs =
     (if length rs \<le> idx
      then and_then (new_summary oc ppr (length rs)) (\<lambda>r. grow_ranges oc ppr idx (rs @ [r]))
      else Ok rs)"
  by pat_completeness auto
termination
  by (relation "measure (\<lambda>(oc, ppr, idx, rs). Suc idx - length rs)") auto

declare grow_ranges.simps [simp del]

definition is_null :: "str \<Rightarrow> bool" where
  "is_null v \<longleftrightarrow> v = [] \<or> v = NULL_str"

definition widen_min :: "str \<Rightarrow> BlockRangeSummary \<Rightarrow> BlockRangeSummary" where
  "widen_min v r =
     (case min_value r of
        None \<Rightarrow> r\<lparr>min_value := Some v, max_value := Some v\<rparr>
      | Some m \<Rightarrow> if v < m then r\<lparr>min_value := Some v\<rparr> else r)"

definition widen_max :: "str \<Rightarrow> BlockRangeSummary \<Rightarrow> BlockRangeSummary" where
  "widen_max v r =
     (case max_value r of
        None \<Rightarrow> r\<lparr>max_value := Some v\<rparr>
      | Some m \<Rightarrow> if v > m then r\<lparr>max_value := Some v\<rparr> else r)"

definition summarize :: "bool \<Rightarrow> str \<Rightarrow> BlockRangeSummary \<Rightarrow> BlockRangeSummary res" where
  "summarize oc v r =
     (if is_null v then and_then (word_add oc (null_count r) 1) (\<lambda>n. Ok (r\<lparr>null_count := n\<rparr>))
      else let r' = widen_max v (widen_min v r)
           in and_then (word_add oc (distinct_count r') 1) (\<lambda>n. Ok (r'\<lparr>distinct_count := n\<rparr>)))"

definition brin_insert :: "bool \<Rightarrow> u32 \<Rightarrow> str \<Rightarrow> tid \<Rightarrow> BrinIndex \<Rightarrow> BrinIndex res" where
  "brin_insert oc block v t idx =
     (if pages_per_range idx = 0 then panic
      else
        let i = unat (block div pages_per_range idx)
        in and_then (grow_ranges oc (pages_per_range idx) i (ranges idx)) (\<lambda>rs.
           and_then (summarize oc v (rs ! i)) (\<lambda>r.
           Ok (idx\<lparr>ranges := rs[i := r], br_values := vec_push (br_values idx) (word_of_nat i) (v, t)\<rparr>))))"

definition might_contain :: "str \<Rightarrow> BlockRangeSummary \<Rightarrow> bool" where
  "might_contain v r =
     (case (min_value r, max_value r) of
        (Some mn, Some mx) \<Rightarrow> v \<ge> mn \<and> v \<le> mx
      | (Some mn, None) \<Rightarrow> v \<ge> mn
      | (None, Some mx) \<Rightarrow> v \<le> mx
      | (None, None) \<Rightarrow> null_count r > 0 \<and> is_null v)"

text \<open>Both lookups: the ranges that pass a test, and in them the entries that pass another.\<close>

definition brin_collect :: "(BlockRangeSummary \<Rightarrow> bool) \<Rightarrow> (str \<Rightarrow> bool) \<Rightarrow> BrinIndex \<Rightarrow> tid list" where
  "brin_collect visit keep idx =
     concat (map (\<lambda>i. if visit (ranges idx ! i)
                      then map snd (filter (\<lambda>e. keep (fst e)) (vec_at (br_values idx) (word_of_nat i)))
                      else [])
                 [0..<length (ranges idx)])"

definition brin_lookup :: "str \<Rightarrow> BrinIndex \<Rightarrow> tid list" where
  "brin_lookup v idx = brin_collect (might_contain v) (\<lambda>w. w = v) idx"

definition might_overlap :: "str \<Rightarrow> str \<Rightarrow> BlockRangeSummary \<Rightarrow> bool" where
  "might_overlap lo hi r =
     (case (min_value r, max_value r) of
        (Some mn, Some mx) \<Rightarrow> mn \<le> hi \<and> mx \<ge> lo
      | _ \<Rightarrow> True)"

definition lookup_range :: "str \<Rightarrow> str \<Rightarrow> BrinIndex \<Rightarrow> tid list" where
  "lookup_range lo hi idx = brin_collect (might_overlap lo hi) (\<lambda>w. w \<ge> lo \<and> w \<le> hi) idx"

text \<open>The ranges are visited in the order \<open>ks\<close> of the hash map.\<close>

fun delete_in :: "u32 list \<Rightarrow> str \<times> tid \<Rightarrow> (u32 \<rightharpoonup> (str \<times> tid) list) \<Rightarrow> (u32 \<rightharpoonup> (str \<times> tid) list) \<times> bool" where
  "delete_in [] e m = (m, False)"
| "delete_in (k # ks) e m =
     (case m k of
        None \<Rightarrow> delete_in ks e m
      | Some es \<Rightarrow> if e \<in> set es then (m(k \<mapsto> remove_first ((=) e) es), True) else delete_in ks e m)"

definition brin_delete :: "u32 list \<Rightarrow> str \<Rightarrow> tid \<Rightarrow> BrinIndex \<Rightarrow> BrinIndex \<times> bool" where
  "brin_delete ks v t idx =
     (let (m, b) = delete_in ks (v, t) (br_values idx) in (idx\<lparr>br_values := m\<rparr>, b))"

definition range_count :: "BrinIndex \<Rightarrow> nat" where
  "range_count idx = length (ranges idx)"

definition brin_entry_count :: "u32 list \<Rightarrow> BrinIndex \<Rightarrow> nat" where
  "brin_entry_count ks idx = sum_list (map (\<lambda>(k, es). length es) (vec_scan ks (br_values idx)))"

definition get_summary :: "BrinIndex \<Rightarrow> nat \<Rightarrow> BlockRangeSummary option" where
  "get_summary idx i = (if i < length (ranges idx) then Some (ranges idx ! i) else None)"

section \<open>The invariant\<close>

definition covers :: "BlockRangeSummary \<Rightarrow> str \<Rightarrow> bool" where
  "covers r v \<longleftrightarrow> (\<exists>mn mx. min_value r = Some mn \<and> max_value r = Some mx \<and> mn \<le> v \<and> v \<le> mx)"

definition counters_le :: "nat \<Rightarrow> BlockRangeSummary \<Rightarrow> bool" where
  "counters_le n r \<longleftrightarrow> unat (null_count r) \<le> n \<and> unat (distinct_count r) \<le> n"

definition both_bounds :: "BlockRangeSummary \<Rightarrow> bool" where
  "both_bounds r \<longleftrightarrow> (min_value r = None) = (max_value r = None)"

text \<open>
  After \<open>n\<close> inserts: entries only in existing ranges, every value other than null within its range's
  bounds, a range has both bounds or none, and counters of at most \<open>n\<close>.
\<close>

definition brin_ok :: "nat \<Rightarrow> BrinIndex \<Rightarrow> bool" where
  "brin_ok n idx \<longleftrightarrow>
     pages_per_range idx \<noteq> 0 \<and> length (ranges idx) \<le> 2 ^ 32 \<and>
     (\<forall>k. br_values idx k \<noteq> None \<longrightarrow> unat k < length (ranges idx)) \<and>
     (\<forall>k e. e \<in> set (vec_at (br_values idx) k) \<longrightarrow> \<not> is_null (fst e) \<longrightarrow> covers (ranges idx ! unat k) (fst e)) \<and>
     (\<forall>r \<in> set (ranges idx). counters_le n r \<and> both_bounds r)"

text \<open>The contents of the index.\<close>

definition brin_abs :: "BrinIndex \<Rightarrow> (str \<times> tid) multiset" where
  "brin_abs idx = (\<Sum>i < length (ranges idx). mset (vec_at (br_values idx) (word_of_nat i)))"

lemma counters_le_Suc: "counters_le n r \<Longrightarrow> counters_le (Suc n) r"
  by (auto simp: counters_le_def)

lemma summarize_correct:
  assumes "counters_le n r" and "n < 4294967295" and "both_bounds r"
  shows "\<exists>r'. summarize oc v r = Ok r' \<and> counters_le (Suc n) r' \<and> both_bounds r' \<and>
    (\<forall>w. covers r w \<longrightarrow> covers r' w) \<and> (\<not> is_null v \<longrightarrow> covers r' v)"
proof -
  have inc: "unat x \<le> n \<Longrightarrow> word_add oc x 1 = Ok (x + 1) \<and> unat (x + 1) \<le> Suc n" for x :: u32
    using assms(2) by (simp add: unat_Suc32)
  have keeps: "null_count (widen_max v (widen_min v r)) = null_count r"
    "distinct_count (widen_max v (widen_min v r)) = distinct_count r"
    by (simp_all add: widen_max_def widen_min_def split: option.splits)
  have "covers (widen_max v (widen_min v r)) v \<and> (covers r w \<longrightarrow> covers (widen_max v (widen_min v r)) w)" for w
    using assms(3) by (auto simp: both_bounds_def widen_max_def widen_min_def covers_def split: option.splits)
  then show ?thesis
    using assms(1,3) inc keeps
    by (auto simp: summarize_def counters_le_def covers_def both_bounds_def Let_def)
qed

lemma new_summary_ok:
  assumes "Suc n * unat ppr < 4294967296" and "ppr \<noteq> 0"
  shows "\<exists>r. new_summary oc ppr n = Ok r \<and> null_count r = 0 \<and> distinct_count r = 0 \<and>
    min_value r = None \<and> max_value r = None"
proof -
  have pos: "1 \<le> unat ppr" using assms(2) by (simp add: Suc_le_eq unat_gt_0)
  have "Suc n * 1 \<le> Suc n * unat ppr" using pos by (intro mult_le_mono2)
  then have n: "Suc n < 4294967296" using assms(1) by (metis mult.right_neutral le_less_trans)
  have un: "unat (word_of_nat n :: u32) = n" using n by simp
  have un1: "unat ((word_of_nat n :: u32) + 1) = Suc n" using n un by (subst unat_Suc32) simp_all
  have "n * unat ppr \<le> Suc n * unat ppr" by simp
  then have m0: "u32_mul oc (word_of_nat n) ppr = Ok (word_of_nat n * ppr)"
    using assms(1) un by (simp add: u32_mul_def)
  have m1: "u32_mul oc (word_of_nat n + 1) ppr = Ok ((word_of_nat n + 1) * ppr)"
    using assms(1) un1 by (simp add: u32_mul_def)
  have "unat ((word_of_nat n + 1) * ppr) = Suc n * unat ppr"
    using assms(1) un1 by (simp add: unat_word_ariths)
  then have s1: "u32_sub oc ((word_of_nat n + 1) * ppr) 1 = Ok ((word_of_nat n + 1) * ppr - 1)"
    using pos by (simp add: u32_sub_def word_less_nat_alt)
  have a1: "word_add oc (word_of_nat n :: u32) 1 = Ok (word_of_nat n + 1)" using n un by simp
  show ?thesis by (simp add: new_summary_def m0 a1 m1 s1)
qed

lemma grow_ranges_ok:
  assumes "Suc idx * unat ppr < 4294967296" and "ppr \<noteq> 0"
  shows "\<exists>new. grow_ranges oc ppr idx rs = Ok (rs @ new) \<and> idx < length (rs @ new) \<and>
    length (rs @ new) \<le> max (length rs) (Suc idx) \<and>
    (\<forall>r \<in> set new. null_count r = 0 \<and> distinct_count r = 0 \<and> min_value r = None \<and> max_value r = None)"
  using assms
proof (induction oc ppr idx rs rule: grow_ranges.induct)
  case step: (1 oc ppr idx rs)
  show ?case
  proof (cases "length rs \<le> idx")
    case False
    then show ?thesis by (simp add: grow_ranges.simps)
  next
    case True
    have "Suc (length rs) * unat ppr \<le> Suc idx * unat ppr" using True by (intro mult_le_mono1) simp
    then have "Suc (length rs) * unat ppr < 4294967296" using step.prems(1) by linarith
    from new_summary_ok [OF this step.prems(2)] obtain r where
      r: "new_summary oc ppr (length rs) = Ok r" "null_count r = 0" "distinct_count r = 0" "min_value r = None" "max_value r = None"
      by blast
    from step.IH [OF True step.prems, of r] obtain new where
      new: "grow_ranges oc ppr idx (rs @ [r]) = Ok ((rs @ [r]) @ new)" "idx < length ((rs @ [r]) @ new)"
        "length ((rs @ [r]) @ new) \<le> max (length (rs @ [r])) (Suc idx)"
        "\<forall>r \<in> set new. null_count r = 0 \<and> distinct_count r = 0 \<and> min_value r = None \<and> max_value r = None" by blast
    then show ?thesis
      using True r by (intro exI [of _ "r # new"]) (simp add: grow_ranges.simps [of oc ppr idx rs])
  qed
qed

lemma word_of_nat_inj32: "i < 4294967296 \<Longrightarrow> j < 4294967296 \<Longrightarrow> word_of_nat i = (word_of_nat j :: u32) \<longleftrightarrow> i = j"
  by (metis unat_word_of_nat32)

lemma brin_abs_push:
  assumes "\<forall>k. m k \<noteq> None \<longrightarrow> unat k < n" and "n \<le> n'" and "j < n'" and "n' \<le> 4294967296"
  shows "(\<Sum>i < n'. mset (vec_at (vec_push m (word_of_nat j :: u32) e) (word_of_nat i))) =
    add_mset e (\<Sum>i < n. mset (vec_at m (word_of_nat i)))"
proof -
  have old: "(\<Sum>i < n. mset (vec_at m (word_of_nat i :: u32))) = (\<Sum>i < n'. mset (vec_at m (word_of_nat i)))"
  proof (rule sum.mono_neutral_left)
    show "\<forall>i \<in> {..<n'} - {..<n}. mset (vec_at m (word_of_nat i :: u32)) = {#}"
    proof
      fix i assume "i \<in> {..<n'} - {..<n}"
      then have "unat (word_of_nat i :: u32) = i" "\<not> i < n" using assms(4) by auto
      then have "m (word_of_nat i) = None" using assms(1) by metis
      then show "mset (vec_at m (word_of_nat i)) = {#}" by (simp add: vec_at_def)
    qed
  qed (use assms(2) in auto)
  have "mset (vec_at (vec_push m (word_of_nat j) e) (word_of_nat i)) =
      mset (vec_at m (word_of_nat i :: u32)) + (if i = j then {#e#} else {#})" if "i < n'" for i
    using that assms(3,4) word_of_nat_inj32 [of i j] by auto
  then have "(\<Sum>i < n'. mset (vec_at (vec_push m (word_of_nat j :: u32) e) (word_of_nat i))) =
      (\<Sum>i < n'. mset (vec_at m (word_of_nat i :: u32)) + (if i = j then {#e#} else {#}))" by (intro sum.cong) auto
  also have "\<dots> = (\<Sum>i < n'. mset (vec_at m (word_of_nat i :: u32))) + {#e#}"
    using assms(3) by (simp add: sum.distrib)
  finally show ?thesis using old by simp
qed

lemma in_vec_push: "e \<in> set (vec_at (vec_push m j x) k) \<longleftrightarrow> e \<in> set (vec_at m k) \<or> k = j \<and> e = x"
  by auto

text \<open>An insert that stays within 32 bits succeeds, keeps the invariant and adds its entry.\<close>

lemma brin_insert_correct:
  assumes ok: "brin_ok n idx" and n: "n < 4294967295" and block: "unat block + unat (pages_per_range idx) < 4294967296"
  shows "\<exists>idx'. brin_insert oc block v t idx = Ok idx' \<and> brin_ok (Suc n) idx' \<and>
    brin_abs idx' = add_mset (v, t) (brin_abs idx) \<and> pages_per_range idx' = pages_per_range idx"
proof -
  let ?ppr = "pages_per_range idx" and ?i = "unat (block div pages_per_range idx)"
  have ppr: "?ppr \<noteq> 0" using ok by (simp add: brin_ok_def)
  have "?i * unat ?ppr \<le> unat block" by (simp add: unat_div)
  then have fit: "Suc ?i * unat ?ppr < 4294967296" using block by simp
  from grow_ranges_ok [OF fit ppr, of oc "ranges idx"] obtain new where
    grow: "grow_ranges oc ?ppr ?i (ranges idx) = Ok (ranges idx @ new)" "?i < length (ranges idx @ new)"
      "length (ranges idx @ new) \<le> max (length (ranges idx)) (Suc ?i)"
      "\<forall>r \<in> set new. null_count r = 0 \<and> distinct_count r = 0 \<and> min_value r = None \<and> max_value r = None" by blast
  let ?rs = "ranges idx @ new"
  have rs: "\<forall>r \<in> set ?rs. counters_le n r \<and> both_bounds r"
    using ok grow(4) by (auto simp: brin_ok_def counters_le_def both_bounds_def)
  then have "counters_le n (?rs ! ?i)" "both_bounds (?rs ! ?i)"
    using grow(2) nth_mem by blast+
  from summarize_correct [OF this(1) n this(2), of oc v] obtain r where
    r: "summarize oc v (?rs ! ?i) = Ok r" "counters_le (Suc n) r" "both_bounds r"
      "\<forall>w. covers (?rs ! ?i) w \<longrightarrow> covers r w" "\<not> is_null v \<longrightarrow> covers r v" by blast
  let ?m = "vec_push (br_values idx) (word_of_nat ?i) (v, t)"
  let ?idx = "idx\<lparr>ranges := ?rs[?i := r], br_values := ?m\<rparr>"
  have run: "brin_insert oc block v t idx = Ok ?idx"
    using ppr grow(1) r(1) by (simp add: brin_insert_def)
  have dom: "\<forall>k. br_values idx k \<noteq> None \<longrightarrow> unat k < length (ranges idx)" using ok by (simp add: brin_ok_def)
  have len: "length ?rs \<le> 4294967296"
    using grow(3) ok unat32_less [of "block div ?ppr"] unfolding brin_ok_def by (simp add: max_def split: if_splits)
  have abs: "brin_abs ?idx = add_mset (v, t) (brin_abs idx)"
    using brin_abs_push [OF dom, of "length ?rs" ?i "(v, t)"] grow(2) len by (simp add: brin_abs_def)
  have cov: "covers (?rs[?i := r] ! unat k) (fst e)"
    if mem: "e \<in> set (vec_at ?m k)" and nn: "\<not> is_null (fst e)" for k e
  proof -
    have old: "covers (?rs ! unat k) (fst e)" if e: "e \<in> set (vec_at (br_values idx) k)"
    proof -
      have "unat k < length (ranges idx)" using e dom by (cases "br_values idx k") (auto simp: vec_at_def)
      moreover have "covers (ranges idx ! unat k) (fst e)"
        using ok e nn unfolding brin_ok_def by blast
      ultimately show ?thesis by (simp add: nth_append)
    qed
    consider "e \<in> set (vec_at (br_values idx) k)" | "e = (v, t)" "k = word_of_nat ?i"
      using mem unfolding in_vec_push by blast
    then show ?thesis
    proof cases
      case 1
      then show ?thesis using old r(4) grow(2) by (cases "unat k = ?i") auto
    next
      case 2
      then show ?thesis using r(5) nn grow(2) by simp
    qed
  qed
  have "counters_le (Suc n) q \<and> both_bounds q" if "q \<in> set (?rs[?i := r])" for q
    using set_update_subset_insert [of ?rs ?i r] that rs r(2,3) counters_le_Suc by blast
  moreover have "unat k < length (?rs[?i := r])" if "?m k \<noteq> None" for k
    using that dom grow(2) by (auto simp: vec_push_def split: if_splits intro: trans_less_add1)
  ultimately have "brin_ok (Suc n) ?idx" using ppr len cov unfolding brin_ok_def by auto
  then show ?thesis using run abs by auto
qed

section \<open>Deletes and lookups\<close>

lemma delete_in_cases:
  assumes "delete_in ks e m = (m', b)" and "\<forall>k. m k \<noteq> None \<longrightarrow> k \<in> set ks"
  shows "(b \<and> (\<exists>k. e \<in> set (vec_at m k) \<and> m k \<noteq> None \<and> m' = m(k \<mapsto> remove_first ((=) e) (vec_at m k)))) \<or>
    (\<not> b \<and> m' = m \<and> (\<forall>k. e \<notin> set (vec_at m k)))"
proof -
  have "(b \<and> (\<exists>k. e \<in> set (vec_at m k) \<and> m k \<noteq> None \<and> m' = m(k \<mapsto> remove_first ((=) e) (vec_at m k)))) \<or>
      (\<not> b \<and> m' = m \<and> (\<forall>k \<in> set ks. e \<notin> set (vec_at m k)))"
    using assms(1)
  proof (induction ks)
    case (Cons k ks)
    show ?case
    proof (cases "\<exists>es. m k = Some es \<and> e \<in> set es")
      case True
      then obtain es where es: "m k = Some es" "e \<in> set es" by blast
      then have "b" "m' = m(k \<mapsto> remove_first ((=) e) (vec_at m k))" "e \<in> set (vec_at m k)" "m k \<noteq> None"
        using Cons.prems by (simp_all add: vec_at_def)
      then show ?thesis by blast
    next
      case False
      then have "delete_in ks e m = (m', b)" "e \<notin> set (vec_at m k)"
        using Cons.prems by (auto simp: vec_at_def split: option.splits if_splits)
      then show ?thesis using Cons.IH by auto
    qed
  qed simp
  moreover have "k \<in> set ks" if "e \<in> set (vec_at m k)" for k
    using that assms(2) by (cases "m k") (auto simp: vec_at_def)
  ultimately show ?thesis by blast
qed

lemma mset_remove_first: "e \<in> set es \<Longrightarrow> mset (remove_first ((=) e) es) = mset es - {#e#}"
  by (induction es) auto

lemma brin_delete_correct:
  assumes ok: "brin_ok n idx" and order: "enumerates ks (br_values idx)" and del: "brin_delete ks v t idx = (idx', b)"
  shows "brin_ok n idx' \<and> brin_abs idx' = brin_abs idx - {#(v, t)#} \<and> (b \<longleftrightarrow> (v, t) \<in># brin_abs idx) \<and>
    pages_per_range idx' = pages_per_range idx"
proof -
  let ?m = "br_values idx" and ?n = "length (ranges idx)"
  obtain m' where m': "delete_in ks (v, t) ?m = (m', b)" "idx' = idx\<lparr>br_values := m'\<rparr>"
    using del by (auto simp: brin_delete_def split: prod.splits)
  have "\<forall>k. ?m k \<noteq> None \<longrightarrow> k \<in> set ks" using order by (auto simp: enumerates_def)
  from delete_in_cases [OF m'(1) this] consider
    (hit) k where "b" "(v, t) \<in> set (vec_at ?m k)" "?m k \<noteq> None" "m' = ?m(k \<mapsto> remove_first ((=) (v, t)) (vec_at ?m k))"
  | (miss) "\<not> b" "m' = ?m" "\<forall>k. (v, t) \<notin> set (vec_at ?m k)" by blast
  then show ?thesis
  proof cases
    case hit
    have at: "vec_at m' j = (if j = k then remove_first ((=) (v, t)) (vec_at ?m k) else vec_at ?m j)" for j
      by (simp add: hit(4) vec_at_def)
    have sub: "set (vec_at m' j) \<subseteq> set (vec_at ?m j)" for j using set_remove_first_subset by (metis at order_refl)
    have k: "unat k < ?n" using ok hit(3) by (simp add: brin_ok_def)
    have le: "?n \<le> 4294967296" using ok by (simp add: brin_ok_def)
    have fin: "(\<Sum>i < ?n. f i) = f (unat k) + (\<Sum>i \<in> {..<?n} - {unat k}. f i)" for f :: "nat \<Rightarrow> (str \<times> tid) multiset"
      using k by (simp add: sum.remove)
    have other: "(\<Sum>i \<in> {..<?n} - {unat k}. mset (vec_at m' (word_of_nat i :: u32))) =
        (\<Sum>i \<in> {..<?n} - {unat k}. mset (vec_at ?m (word_of_nat i)))"
      using le by (intro sum.cong refl) (auto simp: at)
    have mem: "(v, t) \<in># mset (vec_at ?m k)" using hit(2) by simp
    have "brin_abs idx' = brin_abs idx - {#(v, t)#}"
      using mem by (simp add: brin_abs_def m'(2) fin other) (simp add: at mset_remove_first hit(2))
    moreover have "(v, t) \<in># brin_abs idx" using mem by (simp add: brin_abs_def fin)
    moreover have "brin_ok n idx'"
      using ok sub hit(3) unfolding brin_ok_def m'(2) by (auto simp: hit(4) split: if_splits) blast+
    ultimately show ?thesis using hit(1) by (simp add: m'(2))
  next
    case miss
    have "(v, t) \<notin># (\<Sum>i < n. mset (vec_at ?m (word_of_nat i :: u32)))" for n
      using miss(3) by (induction n) auto
    then show ?thesis using ok miss m'(2) by (simp add: brin_abs_def diff_single_trivial)
  qed
qed

lemma mset_concat_upt: "mset (concat (map f [0..<n])) = (\<Sum>i < n. mset (f i))"
  by (induction n) simp_all

lemma filter_mset_sum: "filter_mset P (\<Sum>i < n. f i) = (\<Sum>i < (n :: nat). filter_mset P (f i))"
  by (induction n) simp_all

lemma image_mset_sum: "image_mset g (\<Sum>i < n. f i) = (\<Sum>i < (n :: nat). image_mset g (f i))"
  by (induction n) simp_all

text \<open>Skipping a range is safe when none of its entries passes the test.\<close>

lemma brin_collect_exact:
  assumes "\<And>i e. i < length (ranges idx) \<Longrightarrow> e \<in> set (vec_at (br_values idx) (word_of_nat i)) \<Longrightarrow> keep (fst e) \<Longrightarrow>
      visit (ranges idx ! i)"
  shows "mset (brin_collect visit keep idx) = image_mset snd (filter_mset (\<lambda>e. keep (fst e)) (brin_abs idx))"
proof -
  have "mset (if visit (ranges idx ! i)
        then map snd (filter (\<lambda>e. keep (fst e)) (vec_at (br_values idx) (word_of_nat i))) else []) =
      image_mset snd (filter_mset (\<lambda>e. keep (fst e)) (mset (vec_at (br_values idx) (word_of_nat i))))"
    if "i < length (ranges idx)" for i
  proof (cases "visit (ranges idx ! i)")
    case True
    then show ?thesis by (simp flip: mset_filter mset_map)
  next
    case False
    then have "filter (\<lambda>e. keep (fst e)) (vec_at (br_values idx) (word_of_nat i)) = []"
      using assms [OF that] by (auto simp: filter_empty_conv)
    then show ?thesis using False by (simp flip: mset_filter)
  qed
  then show ?thesis
    unfolding brin_collect_def brin_abs_def mset_concat_upt filter_mset_sum image_mset_sum by (intro sum.cong) auto
qed

lemma brin_lookup_exact:
  assumes "brin_ok n idx" and "\<not> is_null v"
  shows "mset (brin_lookup v idx) = image_mset snd (filter_mset (\<lambda>e. fst e = v) (brin_abs idx))"
  unfolding brin_lookup_def
proof (rule brin_collect_exact)
  fix i e assume i: "i < length (ranges idx)" and e: "e \<in> set (vec_at (br_values idx) (word_of_nat i))" "fst e = v"
  have "covers (ranges idx ! unat (word_of_nat i :: u32)) v"
    using assms e unfolding brin_ok_def by blast
  then show "might_contain v (ranges idx ! i)"
    using i assms(1) by (auto simp: brin_ok_def covers_def might_contain_def)
qed

lemma lookup_range_complete:
  assumes ok: "brin_ok n idx" and e: "(v, t) \<in># brin_abs idx" "\<not> is_null v" "lo \<le> v" "v \<le> hi"
  shows "t \<in> set (lookup_range lo hi idx)"
proof -
  let ?keep = "\<lambda>w. \<not> is_null w \<and> lo \<le> w \<and> w \<le> hi"
  have "mset (brin_collect (might_overlap lo hi) ?keep idx) =
      image_mset snd (filter_mset (\<lambda>e. ?keep (fst e)) (brin_abs idx))"
  proof (rule brin_collect_exact)
    fix i e assume i: "i < length (ranges idx)" and e: "e \<in> set (vec_at (br_values idx) (word_of_nat i))" "?keep (fst e)"
    have "covers (ranges idx ! unat (word_of_nat i :: u32)) (fst e)" using ok e unfolding brin_ok_def by blast
    then have "covers (ranges idx ! i) (fst e)" using i ok by (simp add: brin_ok_def)
    then show "might_overlap lo hi (ranges idx ! i)"
      using e(2) by (auto simp: covers_def might_overlap_def intro: order_trans)
  qed
  moreover have "t \<in># image_mset snd (filter_mset (\<lambda>e. ?keep (fst e)) (brin_abs idx))" using e by force
  ultimately have "t \<in> set (brin_collect (might_overlap lo hi) ?keep idx)" by (metis set_mset_mset)
  then show ?thesis by (auto simp: lookup_range_def brin_collect_def split: if_splits)
qed

datatype brin_op = BInsert u32 str tid | BDelete str tid

text \<open>\<open>ord m\<close> is the order in which the hash map \<open>m\<close> is traversed.\<close>

fun run_brin :: "bool \<Rightarrow> ((u32 \<rightharpoonup> (str \<times> tid) list) \<Rightarrow> u32 list) \<Rightarrow> brin_op list \<Rightarrow> BrinIndex \<Rightarrow> BrinIndex res" where
  "run_brin oc ord [] idx = Ok idx"
| "run_brin oc ord (BInsert b v t # ops) idx = and_then (brin_insert oc b v t idx) (run_brin oc ord ops)"
| "run_brin oc ord (BDelete v t # ops) idx = run_brin oc ord ops (fst (brin_delete (ord (br_values idx)) v t idx))"

fun brin_spec :: "brin_op list \<Rightarrow> (str \<times> tid) multiset \<Rightarrow> (str \<times> tid) multiset" where
  "brin_spec [] M = M"
| "brin_spec (BInsert b v t # ops) M = brin_spec ops (add_mset (v, t) M)"
| "brin_spec (BDelete v t # ops) M = brin_spec ops (M - {#(v, t)#})"

definition block_fits :: "nat \<Rightarrow> brin_op \<Rightarrow> bool" where
  "block_fits ppr op = (case op of BInsert b v t \<Rightarrow> unat b + ppr < 4294967296 | BDelete v t \<Rightarrow> True)"

lemma brin_ok_mono: "brin_ok n idx \<Longrightarrow> brin_ok (Suc n) idx"
  by (simp add: brin_ok_def counters_le_Suc)

lemma run_brin_correct:
  assumes "\<forall>m. enumerates (ord m) m" and "brin_ok n idx" and "n + length ops < 4294967296"
    and "list_all (block_fits (unat (pages_per_range idx))) ops"
  shows "\<exists>idx'. run_brin oc ord ops idx = Ok idx' \<and> brin_ok (n + length ops) idx' \<and>
    brin_abs idx' = brin_spec ops (brin_abs idx)"
  using assms(2-4)
proof (induction ops arbitrary: idx n)
  case Nil
  then show ?case by simp
next
  case (Cons op ops)
  show ?case
  proof (cases op)
    case (BInsert b v t)
    have "unat b + unat (pages_per_range idx) < 4294967296" using Cons.prems(3) by (simp add: BInsert block_fits_def)
    from brin_insert_correct [OF Cons.prems(1) _ this, of oc v t] obtain idx1 where
      one: "brin_insert oc b v t idx = Ok idx1" "brin_ok (Suc n) idx1" "brin_abs idx1 = add_mset (v, t) (brin_abs idx)"
        "pages_per_range idx1 = pages_per_range idx" using Cons.prems(2) by auto
    then show ?thesis using Cons.IH [OF one(2)] Cons.prems(2,3) by (simp add: BInsert)
  next
    case (BDelete v t)
    obtain idx1 b where del: "brin_delete (ord (br_values idx)) v t idx = (idx1, b)" by fastforce
    have one: "brin_ok n idx1" "brin_abs idx1 = brin_abs idx - {#(v, t)#}" "pages_per_range idx1 = pages_per_range idx"
      using brin_delete_correct [OF Cons.prems(1) _ del] assms(1) by simp_all
    then show ?thesis using Cons.IH [OF brin_ok_mono [OF one(1)]] Cons.prems(2,3) del by (simp add: BDelete)
  qed
qed

text \<open>
  C24: The block range index never loses a value to its summaries. Any sequence of fewer than \<open>2 ^ 32\<close> inserts
  and deletes on a new index, on blocks below \<open>2 ^ 32 - 128\<close>, runs without a panic, whatever the hash-map order;
  afterwards a lookup of a value other than null returns exactly the identifiers stored with it, and a
  range lookup returns every identifier stored with a non-null value in the range.
\<close>

theorem brin_index_correct:
  assumes "\<forall>m. enumerates (ord m) m" and "length ops < 4294967296" and "list_all (block_fits 128) ops"
  shows "\<exists>idx. run_brin oc ord ops (new_brin_index i r) = Ok idx \<and>
    (\<forall>v. \<not> is_null v \<longrightarrow>
       mset (brin_lookup v idx) = image_mset snd (filter_mset (\<lambda>e. fst e = v) (brin_spec ops {#}))) \<and>
    (\<forall>v t lo hi. (v, t) \<in># brin_spec ops {#} \<and> \<not> is_null v \<and> lo \<le> v \<and> v \<le> hi \<longrightarrow>
       t \<in> set (lookup_range lo hi idx))"
proof -
  let ?new = "new_brin_index i r"
  have "brin_ok 0 ?new" "brin_abs ?new = {#}" "unat (pages_per_range ?new) = 128"
    by (simp_all add: brin_ok_def brin_abs_def new_brin_index_def)
  then obtain idx where "run_brin oc ord ops ?new = Ok idx" "brin_ok (length ops) idx" "brin_abs idx = brin_spec ops {#}"
    using run_brin_correct [of ord 0 ?new ops oc] assms by auto
  then show ?thesis using brin_lookup_exact lookup_range_complete by metis
qed

text \<open>An order for every map: the keys in increasing order.\<close>

definition key_order :: "(u32 \<rightharpoonup> 'v) \<Rightarrow> u32 list" where
  "key_order m = filter (\<lambda>k. m k \<noteq> None) (map word_of_nat [0..<4294967296])"

lemma key_order_enumerates: "enumerates (key_order m) m"
proof -
  have "inj_on (word_of_nat :: nat \<Rightarrow> u32) {0..<4294967296}"
    by (rule inj_onI) (simp add: word_of_nat_inj32)
  then have "distinct (map (word_of_nat :: nat \<Rightarrow> u32) [0..<4294967296])" by (simp add: distinct_map del: upt_rec_numeral)
  moreover have "k \<in> set (map word_of_nat [0..<4294967296])" for k :: u32
    using unat32_less [of k] by (auto simp del: upt_rec_numeral intro!: image_eqI [of _ _ "unat k"])
  ultimately show ?thesis unfolding enumerates_def key_order_def by (auto simp del: upt_rec_numeral)
qed

definition sample_ops :: "brin_op list" where
  "sample_ops = [BInsert 0 [98] (1, 0), BInsert 300 [97] (2, 0), BDelete [98] (1, 0)]"

theorem brin_index_correct_witness:
  "\<exists>idx. run_brin True key_order sample_ops (new_brin_index 1 100) = Ok idx \<and> mset (brin_lookup [97] idx) = {#(2, 0)#}"
proof -
  have pre: "\<forall>m. enumerates (key_order m) m" "length sample_ops < 4294967296" "list_all (block_fits 128) sample_ops"
    by (simp_all add: key_order_enumerates sample_ops_def block_fits_def)
  have "\<not> is_null [97]" by (simp add: is_null_def NULL_str_def)
  then obtain idx where "run_brin True key_order sample_ops (new_brin_index 1 100) = Ok idx"
    "mset (brin_lookup [97] idx) = image_mset snd (filter_mset (\<lambda>e. fst e = [97]) (brin_spec sample_ops {#}))"
    using brin_index_correct [OF pre, of True 1 100] by blast
  then show ?thesis by (simp add: sample_ops_def)
qed

text \<open>
  A null value is lost as soon as its range holds another value. After inserting \<open>NULL\<close> and then a value that
  sorts after the text \<open>
  NULL\<close> into the same range, a lookup of \<open>NULL\<close> returns nothing, although the range
  counts one null and holds the entry.
\<close>

theorem brin_null_lost:
  assumes "NULL_str < v"
  shows "\<exists>idx. and_then (brin_insert oc 0 NULL_str t (new_brin_index i r)) (brin_insert oc 0 v u) = Ok idx \<and>
    brin_lookup NULL_str idx = [] \<and> map null_count (ranges idx) = [1] \<and>
    br_values idx 0 = Some [(NULL_str, t), (v, u)]"
proof -
  have nn: "\<not> is_null v" "is_null NULL_str" using assms by (auto simp: is_null_def)
  obtain r0 where r0: "new_summary oc 128 0 = Ok r0" "null_count r0 = 0" "distinct_count r0 = 0"
    "min_value r0 = None" "max_value r0 = None"
    using new_summary_ok [of 0 128 oc] by auto
  have grow: "grow_ranges oc 128 0 [] = Ok [r0]" "grow_ranges oc 128 0 [x] = Ok [x]" for x
    using r0(1) by (simp_all add: grow_ranges.simps)
  show ?thesis
    using nn r0 assms
    by (simp add: brin_insert_def new_brin_index_def grow summarize_def widen_min_def widen_max_def vec_push_def
        vec_at_def brin_lookup_def brin_collect_def might_contain_def Let_def leD)
qed

theorem brin_null_lost_witness:
  "\<exists>idx. and_then (brin_insert True 0 NULL_str (1, 0) (new_brin_index 1 100)) (brin_insert True 0 [118] (1, 1)) = Ok idx \<and>
    brin_lookup NULL_str idx = []"
  using brin_null_lost [of "[118]" True "(1, 0)" 1 100 "(1, 1)"] by (auto simp: NULL_str_def)

end
