(* ===== verification/Protocol.thy ===== *)
theory Protocol
  imports Utf8
begin

text \<open>
  The wire protocol: decoding of client messages (\<open>protocol/frontend.rs\<close>) and encoding of server messages
  (\<open>protocol/backend.rs\<close>). Signed fields are words; their sign matters only for lengths. Reading past the
  end of a message body is an index panic of the code. The locale \<open>field_codec\<close> is the contract of one
  field: what the peer puts on the wire is what the reader gets, the rest of the buffer untouched.
\<close>

section \<open>Big-endian fields\<close>

definition to_be :: "nat \<Rightarrow> 'a::len word \<Rightarrow> bytes" where
  "to_be n w = rev (to_le n w)"

definition from_be :: "bytes \<Rightarrow> 'a::len word" where
  "from_be bs = from_le (rev bs)"

lemma length_to_be [simp]: "length (to_be n w) = n"
  by (simp add: to_be_def)

lemma from_be_to_be [simp]: "LENGTH('a) \<le> 8 * n \<Longrightarrow> from_be (to_be n (w :: 'a::len word)) = w"
  by (simp add: to_be_def from_be_def)

definition read_be :: "nat \<Rightarrow> bytes \<Rightarrow> ('a::len word \<times> bytes) res" where
  "read_be n rest = (if length rest < n then panic else Ok (from_be (take n rest), drop n rest))"

lemma read_be_to_be [simp]:
  "LENGTH('a) \<le> 8 * n \<Longrightarrow> read_be n (to_be n (w :: 'a::len word) @ rest) = Ok (w, rest)"
  by (simp add: read_be_def)

section \<open>Client messages\<close>

datatype Message =
    StartupMessage u32 "str \<rightharpoonup> str"
  | Query str
  | Parse str str "u32 list"
  | Bind str str "u16 list" "bytes option list" "u16 list"
  | Describe byte str
  | Execute str u32
  | Sync
  | Close byte str
  | Flush
  | Terminate

definition read_cstring :: "bytes \<Rightarrow> str \<times> bytes" where
  "read_cstring rest =
     (from_utf8_lossy (takeWhile (\<lambda>b. b \<noteq> 0) rest), drop 1 (dropWhile (\<lambda>b. b \<noteq> 0) rest))"

definition trim_zeros :: "str \<Rightarrow> str" where
  "trim_zeros s = rev (dropWhile (\<lambda>b. b = 0) (rev s))"

fun read_items :: "(bytes \<Rightarrow> ('a \<times> bytes) res) \<Rightarrow> nat \<Rightarrow> bytes \<Rightarrow> ('a list \<times> bytes) res" where
  "read_items rd 0 rest = Ok ([], rest)"
| "read_items rd (Suc n) rest =
     and_then (rd rest) (\<lambda>(x, rest1).
     and_then (read_items rd n rest1) (\<lambda>(xs, rest2). Ok (x # xs, rest2)))"

text \<open>A count of 16 bits, then that many items.\<close>

definition read_counted :: "(bytes \<Rightarrow> ('a \<times> bytes) res) \<Rightarrow> bytes \<Rightarrow> ('a list \<times> bytes) res" where
  "read_counted rd rest =
     and_then (read_be 2 rest) (\<lambda>(n, rest1). read_items rd (unat (n :: u16)) rest1)"

text \<open>A parameter value: length -1 is null; any other negative length makes the slice panic.\<close>

definition read_value :: "bytes \<Rightarrow> (bytes option \<times> bytes) res" where
  "read_value rest =
     and_then (read_be 4 rest) (\<lambda>(len, rest1).
       if len = (- 1 :: u32) then Ok (None, rest1)
       else if sint len < 0 \<or> length rest1 < unat len then panic
       else Ok (Some (take (unat len) rest1), drop (unat len) rest1))"

definition decode_parse :: "bytes \<Rightarrow> Message res" where
  "decode_parse body =
     (let (name, rest1) = read_cstring body; (sql, rest2) = read_cstring rest1
      in and_then (read_counted (read_be 4) rest2) (\<lambda>(types, _). Ok (Parse name sql types)))"

definition decode_bind :: "bytes \<Rightarrow> Message res" where
  "decode_bind body =
     (let (portal, rest1) = read_cstring body; (statement, rest2) = read_cstring rest1
      in and_then (read_counted (read_be 2) rest2) (\<lambda>(formats, rest3).
         and_then (read_counted read_value rest3) (\<lambda>(vals, rest4).
         and_then (read_counted (read_be 2) rest4) (\<lambda>(results, _).
         Ok (Bind portal statement formats vals results)))))"

definition decode_kind :: "(byte \<Rightarrow> str \<Rightarrow> Message) \<Rightarrow> bytes \<Rightarrow> Message res" where
  "decode_kind con body =
     (case body of [] \<Rightarrow> panic | k # name \<Rightarrow> Ok (con k (trim_zeros (from_utf8_lossy name))))"

definition decode_execute :: "bytes \<Rightarrow> Message res" where
  "decode_execute body =
     (let (portal, rest) = read_cstring body
      in and_then (read_be 4 rest) (\<lambda>(rows, _). Ok (Execute portal rows)))"

text \<open>The match on the type byte; \<open>None\<close> is a message that is skipped.\<close>

definition decode_body :: "byte \<Rightarrow> bytes \<Rightarrow> Message option res" where
  "decode_body ty body =
     (let some = (\<lambda>r. and_then r (\<lambda>m. Ok (Some m)))
      in if ty = 81 then Ok (Some (Query (trim_zeros (from_utf8_lossy body))))
         else if ty = 80 then some (decode_parse body)
         else if ty = 66 then some (decode_bind body)
         else if ty = 68 then some (decode_kind Describe body)
         else if ty = 69 then some (decode_execute body)
         else if ty = 83 then Ok (Some Sync)
         else if ty = 67 then some (decode_kind Close body)
         else if ty = 72 then Ok (Some Flush)
         else if ty = 88 then Ok (Some Terminate)
         else Ok None)"

text \<open>
  The loop of \<open>decode\<close>. The guard admits a position with exactly four bytes left, where reading the
  length indexes one byte past the end. A negative length \<open>- k\<close> is a huge \<open>usize\<close>: adding it to \<open>pos + 1\<close>
  overflows when \<open>k\<close> is at most \<open>pos + 1\<close> (a panic with overflow checks; without them the sum wraps to
  a smaller position and the slice of the body panics), and otherwise exceeds the buffer.
\<close>

function decode_from :: "bytes \<Rightarrow> nat \<Rightarrow> Message list res" where
  "decode_from data pos =
     (if pos \<ge> length data then Ok []
      else if pos + 4 > length data then Ok []
      else if pos + 4 = length data then panic
      else
        let len = from_be (sub (pos + 1) 4 data) :: u32
        in if sint len < 0 then (if nat (- sint len) \<le> pos + 1 then panic else Ok [])
           else if unat len < 4 \<or> pos + 1 + unat len > length data then Ok []
           else
             and_then (decode_body (data ! pos) (sub (pos + 5) (unat len - 4) data)) (\<lambda>m.
             and_then (decode_from data (pos + 1 + unat len)) (\<lambda>ms.
             Ok (case m of Some x \<Rightarrow> x # ms | None \<Rightarrow> ms))))"
  by pat_completeness auto
termination
  by (relation "measure (\<lambda>(data, pos). length data - pos)") auto

declare decode_from.simps [simp del]

definition decode_messages :: "bytes \<Rightarrow> Message list res" where
  "decode_messages data = decode_from data 0"

section \<open>Server messages\<close>

datatype TransactionStatus = Idle | InTransaction | InFailedTransaction

definition status_as_u8 :: "TransactionStatus \<Rightarrow> byte" where
  "status_as_u8 s = (case s of Idle \<Rightarrow> 73 | InTransaction \<Rightarrow> 84 | InFailedTransaction \<Rightarrow> 69)"

record FieldDescription =
  fd_name :: str
  fd_table_oid :: u32
  fd_column_attr :: u16
  fd_type_oid :: u32
  fd_type_size :: u16
  fd_type_mod :: u32
  fd_format :: u16

record ErrorField =
  ef_field_type :: byte
  ef_value :: str

datatype BackendMessage =
    AuthenticationOk
  | ParameterStatus str str
  | BackendKeyData u32 u32
  | ReadyForQuery TransactionStatus
  | RowDescription "FieldDescription list"
  | DataRow "bytes option list"
  | CommandComplete str
  | ErrorResponse "ErrorField list"
  | NoticeResponse "ErrorField list"
  | ParseComplete
  | BindComplete
  | CloseComplete
  | NoData
  | ParameterDescription "u32 list"
  | RowDescriptionEmpty

text \<open>The length field: the bytes after the type byte. Bodies of two gigabytes, whose length does not fit, are
  not told apart from shorter ones.\<close>

definition len_field :: "nat \<Rightarrow> bytes" where
  "len_field n = to_be 4 (word_of_nat n :: u32)"

definition with_len :: "byte \<Rightarrow> bytes \<Rightarrow> bytes" where
  "with_len ty body = ty # len_field (length body + 4) @ body"

definition field_bytes :: "FieldDescription \<Rightarrow> bytes" where
  "field_bytes f =
     fd_name f @ [0] @ to_be 4 (fd_table_oid f) @ to_be 2 (fd_column_attr f) @ to_be 4 (fd_type_oid f) @
     to_be 2 (fd_type_size f) @ to_be 4 (fd_type_mod f) @ to_be 2 (0 :: u16)"

definition value_bytes :: "bytes option \<Rightarrow> bytes" where
  "value_bytes v =
     (case v of Some d \<Rightarrow> to_be 4 (word_of_nat (length d) :: u32) @ d | None \<Rightarrow> to_be 4 (- 1 :: u32))"

definition count_field :: "'a list \<Rightarrow> bytes" where
  "count_field xs = to_be 2 (word_of_nat (length xs) :: u16)"

definition error_bytes :: "ErrorField list \<Rightarrow> bytes" where
  "error_bytes fs = concat (map (\<lambda>f. ef_field_type f # ef_value f @ [0]) fs) @ [0]"

fun encode_message :: "BackendMessage \<Rightarrow> bytes" where
  "encode_message AuthenticationOk = 82 # len_field 4 @ to_be 4 (0 :: u32)"
| "encode_message (ParameterStatus name val) = with_len 83 (name @ [0] @ val @ [0])"
| "encode_message (BackendKeyData p secret) = 75 # len_field 12 @ to_be 4 p @ to_be 4 secret"
| "encode_message (ReadyForQuery s) = 90 # len_field 5 @ [status_as_u8 s]"
| "encode_message (RowDescription fs) = with_len 84 (count_field fs @ concat (map field_bytes fs))"
| "encode_message (DataRow vs) = with_len 68 (count_field vs @ concat (map value_bytes vs))"
| "encode_message (CommandComplete tag) = with_len 67 (tag @ [0])"
| "encode_message (ErrorResponse fs) = with_len 69 (error_bytes fs)"
| "encode_message (NoticeResponse fs) = with_len 78 (error_bytes fs)"
| "encode_message ParseComplete = 49 # len_field 4"
| "encode_message BindComplete = 50 # len_field 4"
| "encode_message CloseComplete = 51 # len_field 4"
| "encode_message NoData = 110 # len_field 4"
| "encode_message (ParameterDescription ts) = with_len 116 (count_field ts @ concat (map (to_be 4) ts))"
| "encode_message RowDescriptionEmpty = 84 # len_field 4 @ to_be 2 (0 :: u16)"

definition encode_messages :: "BackendMessage list \<Rightarrow> bytes" where
  "encode_messages ms = concat (map encode_message ms)"

section \<open>Fields\<close>

locale field_codec =
  fixes wr :: "'a \<Rightarrow> bytes"
    and rd :: "bytes \<Rightarrow> ('a \<times> bytes) res"
    and fine :: "'a \<Rightarrow> bool"
  assumes read_written: "fine x \<Longrightarrow> rd (wr x @ rest) = Ok (x, rest)"
begin

lemma read_items_written:
  "list_all fine xs \<Longrightarrow> read_items rd (length xs) (concat (map wr xs) @ rest) = Ok (xs, rest)"
  by (induction xs) (simp_all add: read_written)

lemma read_counted_written:
  "list_all fine xs \<Longrightarrow> length xs < 65536 \<Longrightarrow>
     read_counted rd (count_field xs @ concat (map wr xs) @ rest) = Ok (xs, rest)"
  by (simp add: read_counted_def count_field_def read_items_written)

end

interpretation be16: field_codec "to_be 2" "read_be 2" "\<lambda>_ :: u16. True"
  by unfold_locales simp

interpretation be32: field_codec "to_be 4" "read_be 4" "\<lambda>_ :: u32. True"
  by unfold_locales simp

definition value_fits :: "bytes option \<Rightarrow> bool" where
  "value_fits v = (case v of Some d \<Rightarrow> length d < 2147483648 | None \<Rightarrow> True)"

lemma sint_small32: "n < 2147483648 \<Longrightarrow> sint (word_of_nat n :: u32) = int n"
  by (simp add: signed_of_nat signed_take_bit_int_eq_self)

lemma read_value_written:
  assumes "value_fits v"
  shows "read_value (value_bytes v @ rest) = Ok (v, rest)"
proof (cases v)
  case None
  then show ?thesis by (simp add: read_value_def value_bytes_def)
next
  case (Some d)
  then have len: "length d < 2147483648" using assms by (simp add: value_fits_def)
  have "sint (word_of_nat (length d) :: u32) \<noteq> sint (- 1 :: u32)" using sint_small32 [OF len] by simp
  then have "(word_of_nat (length d) :: u32) \<noteq> - 1" by metis
  then show ?thesis
    using len Some sint_small32 [OF len] by (simp add: read_value_def value_bytes_def)
qed

interpretation param_value: field_codec value_bytes read_value value_fits
  by unfold_locales (rule read_value_written)

lemma follow_bytes_append: "follow_bytes ps bs n = (True, m) \<Longrightarrow> follow_bytes ps (bs @ cs) n = (True, m)"
  by (induction ps bs n rule: follow_bytes.induct) (auto split: if_splits)

lemma utf8_head_append: "utf8_head a bs = (True, m) \<Longrightarrow> utf8_head a (bs @ cs) = (True, m)"
  unfolding utf8_head_def by (auto simp: follow_bytes_append split: if_splits)

lemma follow_bytes_len: "follow_bytes ps bs n = (True, m) \<Longrightarrow> m \<le> n + length bs"
  by (induction ps bs n rule: follow_bytes.induct) (auto split: if_splits)

lemma utf8_head_len: "utf8_head a bs = (True, m) \<Longrightarrow> m \<le> Suc (length bs)"
  unfolding utf8_head_def by (auto dest: follow_bytes_len split: if_splits)

lemma utf8_valid_append: "utf8_valid xs \<Longrightarrow> utf8_valid ys \<Longrightarrow> utf8_valid (xs @ ys)"
proof (induction xs rule: utf8_valid.induct)
  case (2 a bs)
  obtain n where h: "utf8_head a bs = (True, n)" and v: "utf8_valid (drop n (a # bs))"
    using 2(2) by (auto simp: utf8_valid.simps(2) split: prod.splits)
  have "utf8_valid (drop n (a # bs) @ ys)" using 2(1) [OF refl] h v 2(3) by simp
  moreover have "drop n ((a # bs) @ ys) = drop n (a # bs) @ ys" using utf8_head_len [OF h]
    by (metis diff_is_0_eq' drop0 drop_append length_Cons)
  ultimately show ?case using utf8_head_append [OF h] by (simp add: utf8_valid.simps(2))
qed simp

text \<open>A string that can be sent as a zero-terminated field.\<close>

definition cstring_ok :: "str \<Rightarrow> bool" where
  "cstring_ok s \<longleftrightarrow> utf8_valid s \<and> 0 \<notin> set s"

lemma read_cstring_written: "cstring_ok s \<Longrightarrow> read_cstring (s @ 0 # rest) = (s, rest)"
proof -
  assume ok: "cstring_ok s"
  have "0 \<notin> set s \<Longrightarrow> takeWhile (\<lambda>b. b \<noteq> 0) (s @ 0 # rest) = s \<and> dropWhile (\<lambda>b. b \<noteq> 0) (s @ 0 # rest) = 0 # rest"
    by (induction s) auto
  then have "takeWhile (\<lambda>b. b \<noteq> 0) (s @ 0 # rest) = s" "dropWhile (\<lambda>b. b \<noteq> 0) (s @ 0 # rest) = 0 # rest"
    using ok by (simp_all add: cstring_ok_def)
  then show ?thesis using ok by (simp add: read_cstring_def cstring_ok_def lossy_valid)
qed

lemma trim_terminated: "cstring_ok s \<Longrightarrow> trim_zeros (from_utf8_lossy (s @ [0])) = s"
proof -
  assume ok: "cstring_ok s"
  have "utf8_valid (s @ [0])" using ok by (simp add: cstring_ok_def utf8_valid_append utf8_valid_ascii)
  then have eq: "from_utf8_lossy (s @ [0]) = s @ [0]" by (rule lossy_valid)
  show ?thesis
  proof (cases s rule: rev_cases)
    case Nil
    then show ?thesis using eq by (simp add: trim_zeros_def)
  next
    case (snoc ys y)
    then show ?thesis using ok eq by (auto simp: trim_zeros_def cstring_ok_def)
  qed
qed

section \<open>What a client sends\<close>

text \<open>The frontend messages as the PostgreSQL protocol lays them out.\<close>

fun client_body :: "Message \<Rightarrow> byte \<times> bytes" where
  "client_body (Query sql) = (81, sql @ [0])"
| "client_body (Parse name sql types) =
     (80, name @ 0 # sql @ 0 # count_field types @ concat (map (to_be 4) types))"
| "client_body (Bind portal stmt formats vals results) =
     (66, portal @ 0 # stmt @ 0 # count_field formats @ concat (map (to_be 2) formats) @
          count_field vals @ concat (map value_bytes vals) @ count_field results @ concat (map (to_be 2) results))"
| "client_body (Describe k name) = (68, k # name @ [0])"
| "client_body (Execute portal rows) = (69, portal @ 0 # to_be 4 rows)"
| "client_body Sync = (83, [])"
| "client_body (Close k name) = (67, k # name @ [0])"
| "client_body Flush = (72, [])"
| "client_body Terminate = (88, [])"
| "client_body (StartupMessage v ps) = (0, [])"

definition client_bytes :: "Message \<Rightarrow> bytes" where
  "client_bytes m = (case client_body m of (ty, body) \<Rightarrow> with_len ty body)"

fun sendable_fields :: "Message \<Rightarrow> bool" where
  "sendable_fields (Query sql) = cstring_ok sql"
| "sendable_fields (Parse name sql types) = (cstring_ok name \<and> cstring_ok sql \<and> length types < 65536)"
| "sendable_fields (Bind portal stmt formats vals results) =
     (cstring_ok portal \<and> cstring_ok stmt \<and> length formats < 65536 \<and> length vals < 65536 \<and> length results < 65536 \<and>
      list_all value_fits vals)"
| "sendable_fields (Describe k name) = cstring_ok name"
| "sendable_fields (Execute portal rows) = cstring_ok portal"
| "sendable_fields (Close k name) = cstring_ok name"
| "sendable_fields (StartupMessage v ps) = False"
| "sendable_fields _ = True"

definition sendable :: "Message \<Rightarrow> bool" where
  "sendable m \<longleftrightarrow> sendable_fields m \<and> length (snd (client_body m)) + 4 < 2147483648"

lemma decode_client_body:
  assumes "sendable_fields m"
  shows "decode_body (fst (client_body m)) (snd (client_body m)) = Ok (Some m)"
proof (cases m)
  case (Parse name sql types)
  then show ?thesis using assms be32.read_counted_written [of types "[]"]
    by (simp add: decode_body_def decode_parse_def read_cstring_written list_all_iff)
next
  case (Bind portal stmt formats vals results)
  let ?r = "count_field results @ concat (map (to_be 2) results)"
  let ?v = "count_field vals @ concat (map value_bytes vals) @ ?r"
  have "read_counted (read_be 2) (count_field formats @ concat (map (to_be 2) formats) @ ?v) = Ok (formats, ?v)"
    "read_counted read_value ?v = Ok (vals, ?r)" "read_counted (read_be 2) ?r = Ok (results, [])"
    using assms Bind be16.read_counted_written [of formats ?v] param_value.read_counted_written [of vals ?r]
      be16.read_counted_written [of results "[]"] by (simp_all add: list_all_iff)
  then show ?thesis using assms Bind
    by (simp add: decode_body_def decode_bind_def read_cstring_written)
next
  case (Execute portal rows)
  then show ?thesis using assms be32.read_written [of rows "[]"]
    by (simp add: decode_body_def decode_execute_def read_cstring_written)
qed (use assms in \<open>simp_all add: decode_body_def decode_kind_def trim_terminated\<close>)

lemma decode_from_framed:
  assumes "length body + 4 < 2147483648" and "decode_body ty body = Ok m"
  shows "decode_from (pre @ with_len ty body @ rest) (length pre) =
    and_then (decode_from (pre @ with_len ty body @ rest) (length (pre @ with_len ty body)))
      (\<lambda>ms. Ok (case m of Some x \<Rightarrow> x # ms | None \<Rightarrow> ms))"
proof -
  let ?n = "word_of_nat (length body + 4) :: u32" and ?data = "pre @ with_len ty body @ rest"
  have n: "unat ?n = length body + 4" "sint ?n = int (length body + 4)"
    using assms(1) sint_small32 [OF assms(1)] by (simp_all del: of_nat_add)
  have fields: "sub (length pre + 1) 4 ?data = to_be 4 ?n" "?data ! length pre = ty"
    "sub (length pre + 5) (length body) ?data = body"
    by (simp_all add: sub_def with_len_def len_field_def nth_append)
  have len: "length ?data = length pre + 5 + length body + length rest"
    by (simp add: with_len_def len_field_def)
  show ?thesis
    using n fields len assms(2)
    by (subst decode_from.simps) (simp add: with_len_def len_field_def Let_def ac_simps del: of_nat_add)
qed

lemma decode_from_client:
  assumes "sendable m"
  shows "decode_from (pre @ client_bytes m @ rest) (length pre) =
    and_then (decode_from (pre @ client_bytes m @ rest) (length (pre @ client_bytes m))) (\<lambda>ms. Ok (m # ms))"
  using decode_from_framed [of "snd (client_body m)" "fst (client_body m)" "Some m" pre rest]
    decode_client_body [of m] assms
  by (simp add: client_bytes_def sendable_def case_prod_beta)

text \<open>
  C26: The server decodes what a client sends. Any sequence of complete, well-formed frontend messages, laid
  out as the PostgreSQL protocol prescribes and sent back to back, is decoded into exactly those messages,
  with all strings, counts, parameter values (nulls included) and formats.
\<close>

theorem frontend_decodes_stream:
  assumes "list_all sendable ms"
  shows "decode_messages (concat (map client_bytes ms)) = Ok ms"
proof -
  have "decode_from (pre @ concat (map client_bytes ms)) (length pre) = Ok ms" for pre
    using assms
  proof (induction ms arbitrary: pre)
    case Nil
    then show ?case by (simp add: decode_from.simps)
  next
    case (Cons m ms)
    have "sendable m" using Cons.prems by simp
    from decode_from_client [OF this, of pre "concat (map client_bytes ms)"]
    show ?case using Cons.IH [of "pre @ client_bytes m"] Cons.prems by simp
  qed
  from this [of "[]"] show ?thesis by (simp add: decode_messages_def)
qed

theorem frontend_decodes_stream_witness:
  "decode_messages (concat (map client_bytes [Parse [115] [83] [23], Bind [] [115] [0] [Some [49], None] [], Sync])) =
     Ok [Parse [115] [83] [23], Bind [] [115] [0] [Some [49], None] [], Sync]"
  by (rule frontend_decodes_stream)
    (simp add: sendable_def cstring_ok_def utf8_valid_ascii value_fits_def value_bytes_def count_field_def)

text \<open>
  Four stray bytes after any decodable messages crash the decoder: the guard asks for four bytes where
  the header has five, so the last length byte is read out of bounds.
\<close>

theorem decode_panics_on_short_header:
  assumes "list_all sendable ms" and "length rest = 4"
  shows "decode_messages (concat (map client_bytes ms) @ rest) = panic"
proof -
  have "decode_from (pre @ concat (map client_bytes ms) @ rest) (length pre) = panic" for pre
    using assms(1)
  proof (induction ms arbitrary: pre)
    case Nil
    then show ?case using assms(2) by (simp add: decode_from.simps)
  next
    case (Cons m ms)
    have "sendable m" using Cons.prems by simp
    from decode_from_client [OF this, of pre "concat (map client_bytes ms) @ rest"]
    show ?case using Cons.IH [of "pre @ client_bytes m"] Cons.prems by simp
  qed
  from this [of "[]"] show ?thesis by (simp add: decode_messages_def)
qed

theorem decode_panics_on_short_header_witness:
  "decode_messages (concat (map client_bytes [Sync]) @ [81, 0, 0, 0]) = panic"
  by (rule decode_panics_on_short_header) (simp_all add: sendable_def)

section \<open>What a client reads\<close>

text \<open>A client splits the server's bytes by the length fields; \<open>None\<close> when they do not add up.\<close>

function split_frames :: "bytes \<Rightarrow> (byte \<times> bytes) list option" where
  "split_frames data =
     (if data = [] then Some []
      else if length data < 5 then None
      else
        let n = unat (from_be (sub 1 4 data) :: u32)
        in if n < 4 \<or> length data < n + 1 then None
           else map_option ((#) (hd data, sub 5 (n - 4) data)) (split_frames (drop (n + 1) data)))"
  by pat_completeness auto
termination
  by (relation "measure length") auto

declare split_frames.simps [simp del]

lemma length_with_len: "length (with_len ty body) = length body + 5"
  by (simp add: with_len_def len_field_def)

lemma split_frames_with_len:
  assumes "length body + 4 < 4294967296"
  shows "split_frames (with_len ty body @ rest) = map_option ((#) (ty, body)) (split_frames rest)"
proof -
  let ?data = "with_len ty body @ rest"
  have n: "unat (from_be (sub 1 4 ?data) :: u32) = length body + 4"
    using assms by (simp add: with_len_def len_field_def sub_def del: of_nat_add)
  have l: "length body + 4 + 1 = length (with_len ty body)" by (simp add: length_with_len)
  have "drop (length body + 4 + 1) ?data = rest" unfolding l by simp
  moreover have "hd ?data = ty" "sub 5 (length body) ?data = body" "?data \<noteq> []"
    by (simp_all add: with_len_def len_field_def sub_def)
  ultimately show ?thesis
    by (subst split_frames.simps) (simp only: n Let_def, simp add: length_with_len)
qed

lemma split_frames_Cons:
  "split_frames (b # xs) = None \<or> (\<exists>fs body. split_frames (b # xs) = Some ((b, body) # fs))"
proof (cases "split_frames (b # xs)")
  case (Some r)
  then have "\<exists>body fs. r = (b, body) # fs" by (subst (asm) split_frames.simps) (auto simp: Let_def split: if_splits)
  then show ?thesis using Some by blast
qed simp

text \<open>The type byte and the body of a message.\<close>

definition frame_of :: "BackendMessage \<Rightarrow> byte \<times> bytes" where
  "frame_of m = (hd (encode_message m), drop 5 (encode_message m))"

definition frame_ok :: "BackendMessage \<Rightarrow> bool" where
  "frame_ok m \<longleftrightarrow> m \<noteq> AuthenticationOk \<and> m \<noteq> RowDescriptionEmpty \<and> length (encode_message m) < 4294967296"

lemma encode_with_len:
  "frame_ok m \<Longrightarrow> encode_message m = with_len (fst (frame_of m)) (snd (frame_of m))"
  by (cases m) (simp_all add: frame_ok_def frame_of_def with_len_def len_field_def)

text \<open>
  C27: The server's messages are framed correctly: for any sequence of messages without \<open>AuthenticationOk\<close> and
  \<open>RowDescriptionEmpty\<close>, a client that follows the length fields recovers exactly the type and the body of
  each message.
\<close>

theorem backend_stream_framed:
  assumes "list_all frame_ok ms"
  shows "split_frames (encode_messages ms) = Some (map frame_of ms)"
  using assms
proof (induction ms)
  case Nil
  then show ?case by (simp add: encode_messages_def split_frames.simps)
next
  case (Cons m ms)
  have eq: "encode_message m = with_len (fst (frame_of m)) (snd (frame_of m))"
    using Cons.prems encode_with_len by simp
  have "length (snd (frame_of m)) + 4 < 4294967296"
    using Cons.prems eq length_with_len by (simp add: frame_ok_def)
  from split_frames_with_len [OF this] show ?case
    using Cons eq by (simp add: encode_messages_def)
qed

theorem backend_stream_framed_witness:
  "split_frames (encode_messages [ReadyForQuery Idle, DataRow [Some [49], None], CommandComplete [79, 75]]) =
     Some (map frame_of [ReadyForQuery Idle, DataRow [Some [49], None], CommandComplete [79, 75]])"
  by (rule backend_stream_framed)
    (simp add: frame_ok_def with_len_def len_field_def value_bytes_def count_field_def)

text \<open>
  \<open>AuthenticationOk\<close> is framed wrongly: its length field says that it has no body, but four more bytes
  follow. Whatever is sent next, a client that follows the length fields does not read it as sent: after an
  empty authentication message it takes the four bytes for the header of the next message, of type zero.
\<close>

theorem authentication_ok_misframed:
  "split_frames (encode_messages (AuthenticationOk # ms)) = None \<or>
   (\<exists>fs body. split_frames (encode_messages (AuthenticationOk # ms)) = Some ((82, []) # (0, body) # fs))"
proof -
  let ?rest = "to_be 4 (0 :: u32) @ encode_messages ms"
  have zero: "to_be 4 (0 :: u32) = [0, 0, 0, 0]" 
  proof -
    have "nat_le n 0 = replicate n 0" for n by (induction n) simp_all
    then show ?thesis by (simp add: to_be_def to_le_def numeral_eq_Suc)
  qed
  have eq: "encode_messages (AuthenticationOk # ms) = with_len 82 [] @ ?rest"
    by (simp add: encode_messages_def with_len_def)
  have "split_frames (encode_messages (AuthenticationOk # ms)) = map_option ((#) (82, [])) (split_frames ?rest)"
    unfolding eq by (rule split_frames_with_len) simp
  moreover have "split_frames ?rest = None \<or> (\<exists>fs body. split_frames ?rest = Some ((0, body) # fs))"
    using split_frames_Cons [of 0 "[0, 0, 0] @ encode_messages ms"] by (simp add: zero)
  ultimately show ?thesis by (elim disjE exE) simp_all
qed

end
