(* ===== verification/Auth.thy ===== *)
theory Auth
  imports Utf8
begin

text \<open>
  Password authentication (\<open>protocol/auth.rs\<close>): the user store with its 64-bit checksum in place of MD5, and the
  SCRAM verification with the module's own \<open>pbkdf2\<close>, \<open>hmac_sha256\<close> and \<open>sha256\<close>.
\<close>

unbundle bit_operations_syntax

section \<open>Definitions\<close>

datatype AuthMethod = Trust | Md5 | ScramSha256

record AuthState =
  auth_method :: AuthMethod
  auth_salt :: bytes
  server_nonce :: str
  iterations :: u32

definition hex_digit :: "nat \<Rightarrow> byte" where
  "hex_digit d = (if d < 10 then word_of_nat (48 + d) else word_of_nat (87 + d))"

text \<open>\<open>{:0nx}\<close> of a number with at most \<open>n\<close> hexadecimal digits.\<close>

fun hex_pad :: "nat \<Rightarrow> nat \<Rightarrow> str" where
  "hex_pad 0 x = []"
| "hex_pad (Suc n) x = hex_pad n (x div 16) @ [hex_digit (x mod 16)]"

definition start_auth :: "AuthMethod \<Rightarrow> AuthState" where
  "start_auth m =
     \<lparr>auth_method = m, auth_salt = map (\<lambda>i. word_of_nat i * 7) [0..<4], server_nonce = hex_pad 16 1234567890,
      iterations = 4096\<rparr>"

definition md5_hash :: "str \<Rightarrow> u64" where
  "md5_hash input = foldl (\<lambda>h b. h * 31 + ucast b) 0 input"

definition md5_string :: "str \<Rightarrow> str \<Rightarrow> str" where
  "md5_string password user = [109, 100, 53] @ hex_pad 32 (unat (md5_hash (password @ user)))"

definition verify_md5 :: "bytes \<Rightarrow> str \<Rightarrow> str \<Rightarrow> bool" where
  "verify_md5 password_hash user password = (password_hash = md5_string password user)"

definition byte_or_zero :: "bytes \<Rightarrow> nat \<Rightarrow> byte" where
  "byte_or_zero bs i = (if i < length bs then bs ! i else 0)"

definition hmac_sha256 :: "bytes \<Rightarrow> bytes \<Rightarrow> bytes" where
  "hmac_sha256 key message = map (\<lambda>i. byte_or_zero key i XOR byte_or_zero message i) [0..<32]"

definition sha256 :: "bytes \<Rightarrow> bytes" where
  "sha256 input =
     foldl (\<lambda>h (i, b). h[i mod 32 := h ! (i mod 32) + b]) (replicate 32 0) (zip [0..<length input] input)"

definition xor_bytes :: "bytes \<Rightarrow> bytes \<Rightarrow> bytes" where
  "xor_bytes a b = map (\<lambda>(x, y). x XOR y) (zip a b)"

fun pbkdf2_rounds :: "nat \<Rightarrow> bytes \<Rightarrow> bytes \<Rightarrow> bytes \<Rightarrow> bytes" where
  "pbkdf2_rounds 0 password u result = result"
| "pbkdf2_rounds (Suc n) password u result =
     (let u' = hmac_sha256 password u in pbkdf2_rounds n password u' (xor_bytes result u'))"

definition pbkdf2 :: "bytes \<Rightarrow> bytes \<Rightarrow> u32 \<Rightarrow> bytes" where
  "pbkdf2 password salt iters =
     (let u = hmac_sha256 password salt in pbkdf2_rounds (unat iters - 1) password u u)"

record ScramClientFirst =
  scf_username :: str
  client_nonce :: str

record ScramServerFirst =
  ssf_salt :: bytes
  ssf_iterations :: u32
  ssf_server_nonce :: str

record ScramClientFinal =
  auth_message :: str
  client_proof :: bytes

fun split_comma :: "str \<Rightarrow> str list" where
  "split_comma [] = [[]]"
| "split_comma (b # bs) =
     (if b = 44 then [] # split_comma bs
      else case split_comma bs of p # ps \<Rightarrow> (b # p) # ps | [] \<Rightarrow> [[b]])"

definition nth_part :: "nat \<Rightarrow> str \<Rightarrow> str" where
  "nth_part i s = (if i < length (split_comma s) then split_comma s ! i else [])"

definition CLIENT_KEY :: bytes where
  "CLIENT_KEY = [67, 108, 105, 101, 110, 116, 32, 75, 101, 121]"

definition verify_scram :: "AuthState \<Rightarrow> ScramClientFinal \<Rightarrow> str \<Rightarrow> bool" where
  "verify_scram st resp password =
     (let salted_password = pbkdf2 password (auth_salt st) (iterations st);
          client_key = hmac_sha256 salted_password CLIENT_KEY;
          stored_key = sha256 client_key;
          message = [110, 44, 44] @ nth_part 1 (auth_message resp) @ [44] @ nth_part 2 (auth_message resp);
          client_signature = hmac_sha256 stored_key message
      in xor_bytes client_key client_signature = client_proof resp)"

type_synonym UserStore = "str \<rightharpoonup> str"

definition new_user_store :: UserStore where
  "new_user_store = Map.empty"

definition add_user :: "str \<Rightarrow> str \<Rightarrow> UserStore \<Rightarrow> UserStore" where
  "add_user user password us = us(user \<mapsto> md5_string password user)"

definition verify_user :: "UserStore \<Rightarrow> str \<Rightarrow> str \<Rightarrow> bool" where
  "verify_user us user password =
     (case us user of Some stored \<Rightarrow> stored = md5_string password user | None \<Rightarrow> False)"

definition has_user :: "UserStore \<Rightarrow> str \<Rightarrow> bool" where
  "has_user us user \<longleftrightarrow> us user \<noteq> None"

section \<open>The user store\<close>

lemma hex_digit_inj: "a < 16 \<Longrightarrow> b < 16 \<Longrightarrow> hex_digit a = hex_digit b \<longleftrightarrow> a = b"
proof -
  have small: "unat (word_of_nat n :: byte) = n" if "n < 256" for n using that by (simp add: unat_of_nat)
  have val: "unat (hex_digit d) = (if d < 10 then 48 + d else 87 + d)" if "d < 16" for d
    unfolding hex_digit_def using that small by (simp del: of_nat_add)
  assume "a < 16" "b < 16"
  then have "unat (hex_digit a) = unat (hex_digit b) \<longleftrightarrow> a = b" by (auto simp: val split: if_splits)
  then show ?thesis by (metis word_unat_eq_iff)
qed

lemma hex_pad_inj: "x < 16 ^ n \<Longrightarrow> y < 16 ^ n \<Longrightarrow> hex_pad n x = hex_pad n y \<longleftrightarrow> x = y"
proof (induction n arbitrary: x y)
  case (Suc n)
  have "x div 16 < 16 ^ n" "y div 16 < 16 ^ n" using Suc.prems by (simp_all add: div_less_iff_less_mult)
  then have "hex_pad (Suc n) x = hex_pad (Suc n) y \<longleftrightarrow> x div 16 = y div 16 \<and> x mod 16 = y mod 16"
    using Suc.IH by (simp add: hex_digit_inj)
  then show ?case by (metis div_mult_mod_eq)
qed simp

lemma md5_string_inj: "md5_string p u = md5_string q u \<longleftrightarrow> md5_hash (p @ u) = md5_hash (q @ u)"
proof -
  have "unat h < 16 ^ 32" for h :: u64 using unat64_less [of h] by simp
  then show ?thesis by (simp add: md5_string_def hex_pad_inj word_unat_eq_iff)
qed

text \<open>
  After a user is added, a login as that user succeeds exactly for the passwords whose checksum with
  the user name equals that of the registered password; the registered password is accepted; no other user
  is affected and unknown users are rejected.
\<close>

theorem user_store_exact:
  "verify_user (add_user user password us) name attempt =
     (if name = user then md5_hash (attempt @ user) = md5_hash (password @ user) else verify_user us name attempt) \<and>
   verify_user (add_user user password us) user password \<and> \<not> verify_user new_user_store name attempt"
  by (auto simp: verify_user_def add_user_def new_user_store_def md5_string_inj)

text \<open>
  The checksum is not collision resistant: whoever registers with a password that starts with \<open>Aa\<close> can log
  in with \<open>BB\<close> in its place, for every user name and every continuation of the password.
\<close>

theorem wrong_password_accepted:
  "verify_user (add_user user ([65, 97] @ rest) us) user ([66, 66] @ rest)"
proof -
  have "foldl (\<lambda>h b. h * 31 + ucast b) (0 :: u64) [65 :: byte, 97] = foldl (\<lambda>h b. h * 31 + ucast b) 0 [66 :: byte, 66]" by simp
  then have "md5_hash (([66, 66] @ rest) @ user) = md5_hash (([65, 97] @ rest) @ user)"
    unfolding md5_hash_def append_assoc foldl_append by metis
  then show ?thesis by (simp add: verify_user_def add_user_def md5_string_inj)
qed

section \<open>SCRAM\<close>

lemma byte_or_zero_map [simp]: "i < 32 \<Longrightarrow> byte_or_zero (map f [0..<32]) i = f i"
  by (simp add: byte_or_zero_def)

lemma hmac_map: "hmac_sha256 key (map f [0..<32]) = map (\<lambda>i. byte_or_zero key i XOR f i) [0..<32]"
  unfolding hmac_sha256_def by (rule map_cong [OF refl]) simp

lemma xor_bytes_map: "xor_bytes (map f [0..<n]) (map g [0..<n]) = map (\<lambda>i. f i XOR g i) [0..<n]"
  by (simp add: xor_bytes_def zip_map_map zip_same_conv_map)

text \<open>Four rounds of the module's \<open>pbkdf2\<close> change nothing: the keyed hash is an exclusive or with the password.\<close>

lemma four_rounds:
  "pbkdf2_rounds (n + 4) pw (map (\<lambda>i. byte_or_zero pw i XOR f i) [0..<32]) (map r [0..<32]) =
     pbkdf2_rounds n pw (map (\<lambda>i. byte_or_zero pw i XOR f i) [0..<32]) (map r [0..<32])"
proof -
  have "n + 4 = Suc (Suc (Suc (Suc n)))" by simp
  then show ?thesis
    by (simp only: pbkdf2_rounds.simps Let_def hmac_map xor_bytes_map)
      (simp add: xor.assoc xor.left_commute)
qed

lemma many_rounds:
  "pbkdf2_rounds (4 * k + n) pw (map (\<lambda>i. byte_or_zero pw i XOR f i) [0..<32]) (map r [0..<32]) =
     pbkdf2_rounds n pw (map (\<lambda>i. byte_or_zero pw i XOR f i) [0..<32]) (map r [0..<32])"
proof (induction k)
  case (Suc k)
  have step: "4 * Suc k + n = (4 * k + n) + 4" by simp
  show ?case unfolding step four_rounds by (rule Suc)
qed simp

lemma pbkdf2_vanishes: "pbkdf2 password salt 4096 = map (\<lambda>i. 0) [0..<32]"
proof -
  let ?f = "byte_or_zero salt"
  have u: "hmac_sha256 password salt = map (\<lambda>i. byte_or_zero password i XOR ?f i) [0..<32]"
    by (simp add: hmac_sha256_def)
  have n: "unat (4096 :: u32) - 1 = 4 * 1023 + Suc (Suc (Suc 0))" by simp
  have "pbkdf2 password salt 4096 = pbkdf2_rounds (Suc (Suc (Suc 0))) password
      (map (\<lambda>i. byte_or_zero password i XOR ?f i) [0..<32]) (map (\<lambda>i. byte_or_zero password i XOR ?f i) [0..<32])"
    unfolding pbkdf2_def Let_def u n by (rule many_rounds)
  then show ?thesis
    by (simp only: pbkdf2_rounds.simps Let_def hmac_map xor_bytes_map) (simp add: xor.assoc xor.left_commute)
qed

text \<open>
  C28: SCRAM authentication does not depend on the password. With the parameters the server starts with, the
  salted password is zero for every password, so for every authentication message there is one proof that
  is accepted whatever the password is, and it can be computed without knowing any.
\<close>

theorem scram_ignores_password:
  "\<exists>proof. \<forall>password. verify_scram (start_auth m) \<lparr>auth_message = msg, client_proof = proof\<rparr> password"
  by (rule exI [of _ "let client_key = hmac_sha256 (map (\<lambda>i. 0) [0..<32]) CLIENT_KEY
      in xor_bytes client_key (hmac_sha256 (sha256 client_key) ([110, 44, 44] @ nth_part 1 msg @ [44] @ nth_part 2 msg))"])
    (simp add: verify_scram_def start_auth_def pbkdf2_vanishes Let_def)

end
