(* ===== verification/Session.thy ===== *)
theory Session
  imports Utf8
begin

text \<open>
  The state of a client session: the line buffer of the query parser and the prepared statements and portals
  of the extended protocol (\<open>protocol/parser.rs\<close>, \<open>protocol/extended.rs\<close>), cursors (\<open>protocol/cursor.rs\<close>) and the
  connection limit (\<open>protocol/connection_pool.rs\<close>). The SQL parser proper is the argument \<open>parse\<close>; the facts
  hold for every such function.
\<close>

section \<open>Trimming\<close>

text \<open>
  \<open>str::trim\<close> removes Unicode white space: the ASCII controls 9 to 13 and the blank, and the code points
  U+0085, U+00A0, U+1680, U+2000 to U+200A, U+2028, U+2029, U+202F, U+205F and U+3000 in UTF-8.
\<close>

definition ws1 :: "byte \<Rightarrow> bool" where
  "ws1 a \<longleftrightarrow> in_range 9 13 a \<or> a = 32"

definition ws2 :: "byte \<Rightarrow> byte \<Rightarrow> bool" where
  "ws2 a b \<longleftrightarrow> a = 0xC2 \<and> (b = 0x85 \<or> b = 0xA0)"

definition ws3 :: "byte \<Rightarrow> byte \<Rightarrow> byte \<Rightarrow> bool" where
  "ws3 a b c \<longleftrightarrow>
     a = 0xE1 \<and> b = 0x9A \<and> c = 0x80 \<or>
     a = 0xE2 \<and> b = 0x80 \<and> (in_range 0x80 0x8A c \<or> c = 0xA8 \<or> c = 0xA9 \<or> c = 0xAF) \<or>
     a = 0xE2 \<and> b = 0x81 \<and> c = 0x9F \<or>
     a = 0xE3 \<and> b = 0x80 \<and> c = 0x80"

fun trim_start :: "str \<Rightarrow> str" where
  "trim_start (a # b # c # s) =
     (if ws1 a then trim_start (b # c # s) else if ws2 a b then trim_start (c # s)
      else if ws3 a b c then trim_start s else a # b # c # s)"
| "trim_start [a, b] = (if ws1 a then trim_start [b] else if ws2 a b then [] else [a, b])"
| "trim_start [a] = (if ws1 a then [] else [a])"
| "trim_start [] = []"

text \<open>The same from the end, on the reversed bytes.\<close>

fun trim_rev :: "str \<Rightarrow> str" where
  "trim_rev (c # b # a # s) =
     (if ws1 c then trim_rev (b # a # s) else if ws2 b c then trim_rev (a # s)
      else if ws3 a b c then trim_rev s else c # b # a # s)"
| "trim_rev [b, a] = (if ws1 b then trim_rev [a] else if ws2 a b then [] else [b, a])"
| "trim_rev [a] = (if ws1 a then [] else [a])"
| "trim_rev [] = []"

definition trim :: "str \<Rightarrow> str" where
  "trim s = rev (trim_rev (rev (trim_start s)))"

section \<open>The line buffer\<close>

record LineParser =
  lp_buffer :: bytes

definition new_parser :: LineParser where
  "new_parser = \<lparr>lp_buffer = []\<rparr>"

definition is_terminator :: "byte \<Rightarrow> bool" where
  "is_terminator b \<longleftrightarrow> b = 10 \<or> b = 59"

definition feed :: "(str \<Rightarrow> 'q option) \<Rightarrow> bytes \<Rightarrow> LineParser \<Rightarrow> LineParser \<times> 'q option" where
  "feed parse data p =
     (let buf = lp_buffer p @ data
      in case position is_terminator buf of
           None \<Rightarrow> (p\<lparr>lp_buffer := buf\<rparr>, None)
         | Some pos \<Rightarrow>
             let s = trim (from_utf8_lossy (take (Suc pos) buf))
             in if s = [] then (p\<lparr>lp_buffer := drop (Suc pos) buf\<rparr>, None)
                else (p\<lparr>lp_buffer := []\<rparr>, parse s))"

section \<open>Prepared statements and portals\<close>

record 'q PreparedStatement =
  ps_name :: str
  ps_sql :: str
  ps_query :: 'q
  ps_parameter_types :: "u32 list"

record 'q Portal =
  po_name :: str
  po_statement_name :: str
  po_query :: 'q
  po_parameter_values :: "bytes option list"
  po_result_formats :: "u16 list"

record 'q ExtendedQueryState =
  statements :: "str \<rightharpoonup> 'q PreparedStatement"
  portals :: "str \<rightharpoonup> 'q Portal"
  unnamed_statement :: "'q PreparedStatement option"
  unnamed_portal :: "'q Portal option"

definition new_extended_state :: "'q ExtendedQueryState" where
  "new_extended_state =
     \<lparr>statements = Map.empty, portals = Map.empty, unnamed_statement = None, unnamed_portal = None\<rparr>"

definition store_statement :: "str \<Rightarrow> 'q PreparedStatement \<Rightarrow> 'q ExtendedQueryState \<Rightarrow> 'q ExtendedQueryState" where
  "store_statement name stmt es =
     (if name = [] then es\<lparr>unnamed_statement := Some stmt\<rparr> else es\<lparr>statements := (statements es)(name \<mapsto> stmt)\<rparr>)"

definition prepare ::
    "(str \<Rightarrow> 'q option) \<Rightarrow> str \<Rightarrow> str \<Rightarrow> u32 list \<Rightarrow> 'q ExtendedQueryState \<Rightarrow> 'q ExtendedQueryState \<times> unit res" where
  "prepare parse name sql types es =
     (case snd (feed parse sql new_parser) of
        None \<Rightarrow> (es, Err ''Failed to parse SQL'')
      | Some query \<Rightarrow>
          (store_statement name
             \<lparr>ps_name = name, ps_sql = sql, ps_query = query, ps_parameter_types = types\<rparr> es, Ok ()))"

definition find_statement :: "'q ExtendedQueryState \<Rightarrow> str \<Rightarrow> 'q PreparedStatement option" where
  "find_statement es name = (if name = [] then unnamed_statement es else statements es name)"

definition store_portal :: "str \<Rightarrow> 'q Portal \<Rightarrow> 'q ExtendedQueryState \<Rightarrow> 'q ExtendedQueryState" where
  "store_portal name portal es =
     (if name = [] then es\<lparr>unnamed_portal := Some portal\<rparr> else es\<lparr>portals := (portals es)(name \<mapsto> portal)\<rparr>)"

definition bind_portal ::
    "str \<Rightarrow> str \<Rightarrow> bytes option list \<Rightarrow> u16 list \<Rightarrow> 'q ExtendedQueryState \<Rightarrow> 'q ExtendedQueryState \<times> unit res" where
  "bind_portal portal_name statement_name vals formats es =
     (case find_statement es statement_name of
        None \<Rightarrow> (es, if statement_name = [] then Err ''No unnamed prepared statement''
                     else Err ''Prepared statement not found'')
      | Some stmt \<Rightarrow>
          (store_portal portal_name
             \<lparr>po_name = portal_name, po_statement_name = statement_name, po_query = ps_query stmt,
              po_parameter_values = vals, po_result_formats = formats\<rparr> es, Ok ()))"

definition get_portal :: "'q ExtendedQueryState \<Rightarrow> str \<Rightarrow> 'q Portal option" where
  "get_portal es name = (if name = [] then unnamed_portal es else portals es name)"

definition close_statement :: "str \<Rightarrow> 'q ExtendedQueryState \<Rightarrow> 'q ExtendedQueryState" where
  "close_statement name es =
     (if name = [] then es\<lparr>unnamed_statement := None\<rparr> else es\<lparr>statements := (statements es)(name := None)\<rparr>)"

definition close_portal :: "str \<Rightarrow> 'q ExtendedQueryState \<Rightarrow> 'q ExtendedQueryState" where
  "close_portal name es =
     (if name = [] then es\<lparr>unnamed_portal := None\<rparr> else es\<lparr>portals := (portals es)(name := None)\<rparr>)"

definition close_all :: "'q ExtendedQueryState \<Rightarrow> 'q ExtendedQueryState" where
  "close_all es =
     es\<lparr>statements := Map.empty, portals := Map.empty, unnamed_statement := None, unnamed_portal := None\<rparr>"

subsection \<open>Named slots\<close>

text \<open>What both tables promise: a slot per name, the empty name included.\<close>

locale named_slots =
  fixes look :: "'s \<Rightarrow> str \<Rightarrow> 'v option"
    and put :: "str \<Rightarrow> 'v \<Rightarrow> 's \<Rightarrow> 's"
    and clear :: "str \<Rightarrow> 's \<Rightarrow> 's"
  assumes look_put: "look (put n v s) n' = (if n' = n then Some v else look s n')"
    and look_clear: "look (clear n s) n' = (if n' = n then None else look s n')"
begin

lemma put_put: "look (put n v (put n w s)) = look (put n v s)"
  by (auto simp: look_put)

lemma clear_put: "look s n = None \<Longrightarrow> look (clear n (put n v s)) = look s"
  by (auto simp: look_put look_clear)

lemma look_fold_put:
  "look (fold (\<lambda>(n, v). put n v) nvs s) n = (case map_of (rev nvs) n of Some v \<Rightarrow> Some v | None \<Rightarrow> look s n)"
  by (induction nvs arbitrary: s) (auto simp: look_put map_add_def split: option.splits)

end

interpretation stmt_slots: named_slots find_statement store_statement close_statement
  by unfold_locales (auto simp: find_statement_def store_statement_def close_statement_def)

interpretation portal_slots: named_slots get_portal store_portal close_portal
  by unfold_locales (auto simp: get_portal_def store_portal_def close_portal_def)

lemma tables_independent:
  "get_portal (store_statement n st es) = get_portal es" "get_portal (close_statement n es) = get_portal es"
  "find_statement (store_portal n po es) = find_statement es" "find_statement (close_portal n es) = find_statement es"
  by (auto simp: get_portal_def find_statement_def store_statement_def close_statement_def store_portal_def close_portal_def)

subsection \<open>Sessions\<close>

datatype session_op =
    SPrepare str str "u32 list"
  | SBind str str "bytes option list" "u16 list"
  | SCloseStatement str
  | SClosePortal str

fun session_step :: "(str \<Rightarrow> 'q option) \<Rightarrow> session_op \<Rightarrow> 'q ExtendedQueryState \<Rightarrow> 'q ExtendedQueryState" where
  "session_step parse (SPrepare n sql types) es = fst (prepare parse n sql types es)"
| "session_step parse (SBind p n vals formats) es = fst (bind_portal p n vals formats es)"
| "session_step parse (SCloseStatement n) es = close_statement n es"
| "session_step parse (SClosePortal p) es = close_portal p es"

fun touches_portal :: "str \<Rightarrow> session_op \<Rightarrow> bool" where
  "touches_portal p (SBind p' n vals formats) = (p' = p)"
| "touches_portal p (SClosePortal p') = (p' = p)"
| "touches_portal p _ = False"

lemma session_step_portal: "\<not> touches_portal p op \<Longrightarrow> get_portal (session_step parse op es) p = get_portal es p"
  by (cases op)
    (auto simp: prepare_def bind_portal_def tables_independent portal_slots.look_put portal_slots.look_clear
      split: option.splits)

text \<open>
  A portal keeps what it was bound to. Binding a portal to a prepared statement makes it carry the query
  of that statement with the given values and formats, and it keeps them through any further prepares,
  closes (of its statement too) and binds of other portals, until the portal itself is bound again or closed.
\<close>

theorem portal_keeps_binding:
  assumes "find_statement es n = Some stmt" and "list_all (\<lambda>op. \<not> touches_portal p op) ops"
  shows "get_portal (fold (session_step parse) ops (fst (bind_portal p n vals formats es))) p =
    Some \<lparr>po_name = p, po_statement_name = n, po_query = ps_query stmt, po_parameter_values = vals,
          po_result_formats = formats\<rparr>"
proof -
  have "get_portal (fold (session_step parse) ops es') p = get_portal es' p" for es' :: "'a ExtendedQueryState"
    using assms(2) by (induction ops arbitrary: es') (simp_all add: session_step_portal)
  then show ?thesis using assms(1) by (simp add: bind_portal_def portal_slots.look_put)
qed

theorem portal_keeps_binding_witness:
  "get_portal (fold (session_step Some) [SCloseStatement [115], SPrepare [115] [66, 59] []]
      (fst (bind_portal [112] [115] [None] []
        (store_statement [115] \<lparr>ps_name = [115], ps_sql = [65, 59], ps_query = [65], ps_parameter_types = []\<rparr>
          new_extended_state)))) [112] =
    Some \<lparr>po_name = [112], po_statement_name = [115], po_query = [65], po_parameter_values = [None],
          po_result_formats = []\<rparr>"
  by (subst portal_keeps_binding
      [where stmt = "\<lparr>ps_name = [115], ps_sql = [65, 59], ps_query = [65], ps_parameter_types = []\<rparr>"])
    (simp_all add: stmt_slots.look_put)

text \<open>
  A statement without a semicolon or a line end cannot be prepared: whatever the SQL parser accepts, the
  line buffer waits for a terminator, so \<open>prepare\<close> fails and leaves the session unchanged.
\<close>

theorem prepare_needs_terminator:
  assumes "\<forall>b \<in> set sql. \<not> is_terminator b"
  shows "prepare parse name sql types es = (es, Err ''Failed to parse SQL'')"
  using assms position_None [of is_terminator sql] by (simp add: prepare_def feed_def new_parser_def)

theorem prepare_needs_terminator_witness:
  "prepare Some [] [83, 69, 76] [] new_extended_state = (new_extended_state, Err ''Failed to parse SQL'')"
  by (rule prepare_needs_terminator) (simp add: is_terminator_def)

section \<open>Cursors\<close>

definition usize_add :: "bool \<Rightarrow> nat \<Rightarrow> nat \<Rightarrow> nat res" where
  "usize_add oc a b = (if a + b < 2 ^ 64 then Ok (a + b) else if oc then panic else Ok (a + b - 2 ^ 64))"

text \<open>\<open>as i32\<close> and then \<open>as usize\<close>: truncation to 32 bits, then sign extension.\<close>

definition i32_to_usize :: "u32 \<Rightarrow> nat" where
  "i32_to_usize w = (if sint w < 0 then nat (2 ^ 64 + sint w) else unat w)"

record 'r Cursor =
  cur_name :: str
  cur_rows :: "'r list"
  cur_position :: nat
  fetch_size :: nat
  cur_columns :: "str list"

definition new_cursor :: "str \<Rightarrow> 'r list \<Rightarrow> str list \<Rightarrow> nat \<Rightarrow> 'r Cursor" where
  "new_cursor name rs cols fs =
     \<lparr>cur_name = name, cur_rows = rs, cur_position = 0, fetch_size = fs, cur_columns = cols\<rparr>"

definition fetch :: "bool \<Rightarrow> u32 \<Rightarrow> 'r Cursor \<Rightarrow> ('r Cursor \<times> 'r list) res" where
  "fetch oc count c =
     (let n = i32_to_usize (if sint count < 0 then word_of_nat (fetch_size c) else count)
      in and_then (usize_add oc (cur_position c) n) (\<lambda>e.
         let last = min e (length (cur_rows c))
         in and_then (slice (cur_position c) last (cur_rows c)) (\<lambda>rs.
            Ok (c\<lparr>cur_position := last\<rparr>, rs))))"

definition move_to :: "u64 \<Rightarrow> 'r Cursor \<Rightarrow> 'r Cursor" where
  "move_to pos c =
     (if sint pos < 0 then c\<lparr>cur_position := 0\<rparr>
      else if unat pos \<ge> length (cur_rows c) then c\<lparr>cur_position := length (cur_rows c)\<rparr>
      else c\<lparr>cur_position := unat pos\<rparr>)"

definition close_cursor :: "'r Cursor \<Rightarrow> 'r Cursor" where
  "close_cursor c = c\<lparr>cur_rows := [], cur_position := 0\<rparr>"

definition is_eof :: "'r Cursor \<Rightarrow> bool" where
  "is_eof c \<longleftrightarrow> cur_position c \<ge> length (cur_rows c)"

definition total_rows :: "'r Cursor \<Rightarrow> nat" where
  "total_rows c = length (cur_rows c)"

type_synonym 'r CursorManager = "str \<rightharpoonup> 'r Cursor"

definition declare_cursor :: "str \<Rightarrow> 'r Cursor \<Rightarrow> 'r CursorManager \<Rightarrow> 'r CursorManager" where
  "declare_cursor name c m = m(name \<mapsto> c)"

definition get_cursor :: "'r CursorManager \<Rightarrow> str \<Rightarrow> 'r Cursor option" where
  "get_cursor m name = m name"

definition manager_close :: "str \<Rightarrow> 'r CursorManager \<Rightarrow> 'r CursorManager \<times> bool" where
  "manager_close name m = (m(name := None), m name \<noteq> None)"

definition manager_close_all :: "'r CursorManager \<Rightarrow> 'r CursorManager" where
  "manager_close_all m = Map.empty"

interpretation cursor_slots: named_slots get_cursor declare_cursor "\<lambda>n m. fst (manager_close n m)"
  by unfold_locales (auto simp: get_cursor_def declare_cursor_def manager_close_def)

text \<open>A cursor within its rows.\<close>

definition cursor_ok :: "'r Cursor \<Rightarrow> bool" where
  "cursor_ok c \<longleftrightarrow> cur_position c \<le> length (cur_rows c) \<and> length (cur_rows c) < 2 ^ 63 \<and> fetch_size c < 2 ^ 31"

definition fetch_count :: "'r Cursor \<Rightarrow> u32 \<Rightarrow> nat" where
  "fetch_count c count = (if sint count < 0 then fetch_size c else unat count)"

lemma fetch_correct:
  assumes "cursor_ok c"
  shows "fetch oc count c =
    Ok (c\<lparr>cur_position := min (cur_position c + fetch_count c count) (length (cur_rows c))\<rparr>,
        take (fetch_count c count) (drop (cur_position c) (cur_rows c)))"
proof -
  have fs: "sint (word_of_nat (fetch_size c) :: u32) = int (fetch_size c)" "unat (word_of_nat (fetch_size c) :: u32) = fetch_size c"
    using assms by (simp_all add: cursor_ok_def signed_of_nat signed_take_bit_int_eq_self)
  have n: "i32_to_usize (if sint count < 0 then word_of_nat (fetch_size c) else count) = fetch_count c count"
    using fs by (auto simp: i32_to_usize_def fetch_count_def)
  have "fetch_count c count < 4294967296"
    using assms unat32_less [of count] by (auto simp: fetch_count_def cursor_ok_def)
  then have "cur_position c + fetch_count c count < 2 ^ 64" using assms by (simp add: cursor_ok_def)
  then show ?thesis
    using assms unfolding fetch_def Let_def n
    by (auto simp: usize_add_def cursor_ok_def slice_def min_def)
qed

fun fetch_all :: "bool \<Rightarrow> u32 list \<Rightarrow> 'r Cursor \<Rightarrow> ('r Cursor \<times> 'r list) res" where
  "fetch_all oc [] c = Ok (c, [])"
| "fetch_all oc (n # ns) c =
     and_then (fetch oc n c) (\<lambda>(c1, rs). and_then (fetch_all oc ns c1) (\<lambda>(c2, rs'). Ok (c2, rs @ rs')))"

text \<open>
  C30: Fetching with a cursor returns each row once, in order. Any sequence of fetches on a cursor inside its
  rows runs without a panic and returns together the next rows up to the sum of the requested counts (a
  negative count standing for the fetch size); the cursor is at its end exactly when that sum reaches the
  remaining rows.
\<close>

theorem cursor_fetches_partition:
  assumes "cursor_ok c"
  shows "\<exists>c'. fetch_all oc ns c = Ok (c', take (sum_list (map (fetch_count c) ns)) (drop (cur_position c) (cur_rows c))) \<and>
    (is_eof c' \<longleftrightarrow> length (cur_rows c) - cur_position c \<le> sum_list (map (fetch_count c) ns))"
  using assms
proof (induction ns arbitrary: c)
  case Nil
  then show ?case by (auto simp: is_eof_def)
next
  case (Cons n ns)
  let ?k = "fetch_count c n" and ?len = "length (cur_rows c)"
  let ?c1 = "c\<lparr>cur_position := min (cur_position c + ?k) ?len\<rparr>"
  let ?sum = "sum_list (map (fetch_count c) ns)"
  have pos: "cur_position c \<le> ?len" using Cons.prems by (simp add: cursor_ok_def)
  have same: "map (fetch_count ?c1) ns = map (fetch_count c) ns" by (simp add: fetch_count_def)
  have "cursor_ok ?c1" using Cons.prems by (simp add: cursor_ok_def)
  from Cons.IH [OF this] obtain c' where c': "fetch_all oc ns ?c1 = Ok (c', take ?sum (drop (min (cur_position c + ?k) ?len) (cur_rows c)))"
    "is_eof c' \<longleftrightarrow> ?len - min (cur_position c + ?k) ?len \<le> ?sum" unfolding same by auto
  have "take ?k (drop (cur_position c) (cur_rows c)) @ take ?sum (drop (min (cur_position c + ?k) ?len) (cur_rows c)) =
      take (?k + ?sum) (drop (cur_position c) (cur_rows c))"
    by (simp add: take_add min_def add.commute)
  moreover have "?len - min (cur_position c + ?k) ?len \<le> ?sum \<longleftrightarrow> ?len - cur_position c \<le> ?k + ?sum" using pos by auto
  ultimately show ?case using c' fetch_correct [OF Cons.prems, of oc n] by simp
qed

theorem cursor_fetches_partition_witness:
  "\<exists>c'. fetch_all True [1, 2] (new_cursor [] [10, 20, 30, 40 :: nat] [] 5) = Ok (c', [10, 20, 30]) \<and> \<not> is_eof c'"
  using cursor_fetches_partition [of "new_cursor [] [10, 20, 30, 40 :: nat] [] 5" True "[1, 2]"]
  by (simp add: cursor_ok_def new_cursor_def fetch_count_def)

section \<open>The connection limit\<close>

record ConnectionPool =
  max_connections :: nat
  active_connections :: nat

definition new_connection_pool :: "nat \<Rightarrow> ConnectionPool" where
  "new_connection_pool n = \<lparr>max_connections = n, active_connections = 0\<rparr>"

definition acquire :: "ConnectionPool \<Rightarrow> ConnectionPool \<times> bool" where
  "acquire cp =
     (if active_connections cp < max_connections cp
      then (cp\<lparr>active_connections := active_connections cp + 1\<rparr>, True) else (cp, False))"

definition release :: "ConnectionPool \<Rightarrow> ConnectionPool" where
  "release cp =
     (if active_connections cp > 0 then cp\<lparr>active_connections := active_connections cp - 1\<rparr> else cp)"

definition available :: "ConnectionPool \<Rightarrow> nat" where
  "available cp = max_connections cp - active_connections cp"

text \<open>Any interleaving of the atomic steps of the connections.\<close>

inductive pool_reachable :: "nat \<Rightarrow> ConnectionPool \<Rightarrow> bool" for n where
  start: "pool_reachable n (new_connection_pool n)"
| acquired: "pool_reachable n cp \<Longrightarrow> pool_reachable n (fst (acquire cp))"
| released: "pool_reachable n cp \<Longrightarrow> pool_reachable n (release cp)"

text \<open>
  C31: The number of active connections never exceeds the limit, in every reachable state of the pool; a
  connection is refused only when the limit is reached, and after a release one is accepted again.
\<close>

theorem connection_limit:
  assumes "pool_reachable n cp"
  shows "active_connections cp \<le> n \<and> available cp = n - active_connections cp \<and>
    (snd (acquire cp) \<longleftrightarrow> active_connections cp < n) \<and> (0 < n \<longrightarrow> snd (acquire (release cp)))"
proof -
  have "max_connections cp = n \<and> active_connections cp \<le> n"
    using assms by induction (auto simp: new_connection_pool_def acquire_def release_def)
  then show ?thesis by (auto simp: acquire_def release_def available_def)
qed

theorem connection_limit_witness:
  "active_connections (fst (acquire (new_connection_pool 1))) \<le> 1 \<and> \<not> snd (acquire (fst (acquire (new_connection_pool 1))))"
  using connection_limit [OF acquired [OF start], of 1] by (simp add: acquire_def new_connection_pool_def)

end
