(* ===== verification/Security.thy ===== *)
theory Security
  imports Utf8
begin

text \<open>
  Access control: roles and privileges (\<open>security/rbac.rs\<close>), row-level security policies (\<open>security/rls.rs\<close>) and the
  audit log (\<open>security/auditing.rs\<close>). Object identifiers are words. The order in which the role map is
  traversed is an argument. A policy's expressions are values of a type \<open>'e\<close> with the constructor of
  a conjunction as an argument; the time stamps of the audit log are arguments.
\<close>

section \<open>Roles and privileges\<close>

record Role =
  rolname :: str
  rolsuper :: bool
  rolinherit :: bool
  rolcreaterole :: bool
  rolcreatedb :: bool
  rolcanlogin :: bool
  rolconnlimit :: u32
  rolpassword :: "str option"

definition new_role :: "str \<Rightarrow> Role" where
  "new_role name =
     \<lparr>rolname = name, rolsuper = False, rolinherit = True, rolcreaterole = False, rolcreatedb = False,
      rolcanlogin = True, rolconnlimit = - 1, rolpassword = None\<rparr>"

definition superuser :: "str \<Rightarrow> Role" where
  "superuser name = (new_role name)\<lparr>rolsuper := True, rolcreaterole := True, rolcreatedb := True\<rparr>"

definition ROLE_POSTGRES :: str where
  "ROLE_POSTGRES = [112, 111, 115, 116, 103, 114, 101, 115]"

definition ROLE_PUBLIC :: str where
  "ROLE_PUBLIC = [112, 117, 98, 108, 105, 99]"

record PrivilegeSet =
  p_select :: bool
  p_insert :: bool
  p_update :: bool
  p_delete :: bool
  p_truncate :: bool
  p_references :: bool
  p_trigger :: bool

definition priv_all :: PrivilegeSet where
  "priv_all = \<lparr>p_select = True, p_insert = True, p_update = True, p_delete = True, p_truncate = True,
               p_references = True, p_trigger = True\<rparr>"

definition priv_none :: PrivilegeSet where
  "priv_none = \<lparr>p_select = False, p_insert = False, p_update = False, p_delete = False, p_truncate = False,
                p_references = False, p_trigger = False\<rparr>"

definition priv_read :: PrivilegeSet where
  "priv_read = priv_none\<lparr>p_select := True\<rparr>"

definition priv_write :: PrivilegeSet where
  "priv_write = \<lparr>p_select = True, p_insert = True, p_update = True, p_delete = True, p_truncate = False,
                 p_references = False, p_trigger = False\<rparr>"

definition priv_check :: "PrivilegeSet \<Rightarrow> PrivilegeSet \<Rightarrow> bool" where
  "priv_check held required =
     (if p_select required \<and> \<not> p_select held then False
      else if p_insert required \<and> \<not> p_insert held then False
      else if p_update required \<and> \<not> p_update held then False
      else if p_delete required \<and> \<not> p_delete held then False
      else if p_truncate required \<and> \<not> p_truncate held then False
      else if p_references required \<and> \<not> p_references held then False
      else if p_trigger required \<and> \<not> p_trigger held then False
      else True)"

record AccessControlList =
  grantee :: u32
  grantor :: u32
  acl_rel_oid :: u32
  privileges :: PrivilegeSet

definition acl_check :: "AccessControlList \<Rightarrow> PrivilegeSet \<Rightarrow> bool" where
  "acl_check acl required = priv_check (privileges acl) required"

record RbacManager =
  roles :: "str \<rightharpoonup> Role"
  acls :: "AccessControlList list"

definition new_rbac :: RbacManager where
  "new_rbac =
     \<lparr>roles = [ROLE_POSTGRES \<mapsto> superuser ROLE_POSTGRES,
              ROLE_PUBLIC \<mapsto> (new_role ROLE_PUBLIC)\<lparr>rolcanlogin := False\<rparr>], acls = []\<rparr>"

definition create_role :: "Role \<Rightarrow> RbacManager \<Rightarrow> RbacManager \<times> unit res" where
  "create_role role rm =
     (if roles rm (rolname role) \<noteq> None then (rm, Err ''role already exists'')
      else (rm\<lparr>roles := (roles rm)(rolname role \<mapsto> role)\<rparr>, Ok ()))"

definition drop_role :: "str \<Rightarrow> RbacManager \<Rightarrow> RbacManager \<times> unit res" where
  "drop_role name rm =
     (if name = ROLE_POSTGRES then (rm, Err ''cannot drop role postgres'')
      else if roles rm name = None then (rm, Err ''role does not exist'')
      else (rm\<lparr>roles := (roles rm)(name := None)\<rparr>, Ok ()))"

definition get_role :: "RbacManager \<Rightarrow> str \<Rightarrow> Role option" where
  "get_role rm name = roles rm name"

definition list_roles :: "str list \<Rightarrow> RbacManager \<Rightarrow> Role list" where
  "list_roles ks rm = List.map_filter (roles rm) ks"

definition grant :: "u32 \<Rightarrow> u32 \<Rightarrow> PrivilegeSet \<Rightarrow> RbacManager \<Rightarrow> RbacManager" where
  "grant who rel ps rm =
     rm\<lparr>acls := acls rm @ [\<lparr>grantee = who, grantor = 0, acl_rel_oid = rel, privileges = ps\<rparr>]\<rparr>"

definition revoke :: "u32 \<Rightarrow> u32 \<Rightarrow> PrivilegeSet \<Rightarrow> RbacManager \<Rightarrow> RbacManager" where
  "revoke who rel ps rm = rm\<lparr>acls := filter (\<lambda>acl. grantee acl \<noteq> who \<or> acl_rel_oid acl \<noteq> rel) (acls rm)\<rparr>"

text \<open>
  The test of the closure is \<open>Oid(0) == role_oid\<close>, which does not look at the role: for the
  identifier zero \<open>find\<close> returns the first role of the map's order, for any other none.
\<close>

definition check_privilege :: "str list \<Rightarrow> u32 \<Rightarrow> u32 \<Rightarrow> PrivilegeSet \<Rightarrow> RbacManager \<Rightarrow> bool" where
  "check_privilege ks role rel required rm =
     (case List.find (\<lambda>_. role = 0) (list_roles ks rm) of
        Some r \<Rightarrow> if rolsuper r then True
                  else list_ex (\<lambda>acl. acl_check acl required)
                         (filter (\<lambda>acl. grantee acl = role \<and> acl_rel_oid acl = rel) (acls rm))
      | None \<Rightarrow> list_ex (\<lambda>acl. acl_check acl required)
                  (filter (\<lambda>acl. grantee acl = role \<and> acl_rel_oid acl = rel) (acls rm)))"

subsection \<open>Privileges as sets\<close>

datatype privilege = Select | Insert | Update | Delete | Truncate | References | Trigger

definition priv_set :: "PrivilegeSet \<Rightarrow> privilege set" where
  "priv_set ps =
     {p. case p of Select \<Rightarrow> p_select ps | Insert \<Rightarrow> p_insert ps | Update \<Rightarrow> p_update ps | Delete \<Rightarrow> p_delete ps
       | Truncate \<Rightarrow> p_truncate ps | References \<Rightarrow> p_references ps | Trigger \<Rightarrow> p_trigger ps}"

lemma all_privileges:
  "(\<forall>p. P p) \<longleftrightarrow> P Select \<and> P Insert \<and> P Update \<and> P Delete \<and> P Truncate \<and> P References \<and> P Trigger"
  by (metis privilege.exhaust)

lemma priv_check_subset: "priv_check held required \<longleftrightarrow> priv_set required \<subseteq> priv_set held"
  by (simp add: subset_iff all_privileges priv_set_def priv_check_def)

datatype rbac_op = Grant u32 u32 PrivilegeSet | Revoke u32 u32 PrivilegeSet | CreateRole Role | DropRole str

fun rbac_step :: "rbac_op \<Rightarrow> RbacManager \<Rightarrow> RbacManager" where
  "rbac_step (Grant w r ps) rm = grant w r ps rm"
| "rbac_step (Revoke w r ps) rm = revoke w r ps rm"
| "rbac_step (CreateRole role) rm = fst (create_role role rm)"
| "rbac_step (DropRole name) rm = fst (drop_role name rm)"

text \<open>The privilege sets granted to a role on a relation since its last revocation there.\<close>

fun granted :: "u32 \<Rightarrow> u32 \<Rightarrow> rbac_op list \<Rightarrow> privilege set list \<Rightarrow> privilege set list" where
  "granted who rel [] gs = gs"
| "granted who rel (Grant w r ps # ops) gs =
     granted who rel ops (if w = who \<and> r = rel then gs @ [priv_set ps] else gs)"
| "granted who rel (Revoke w r ps # ops) gs = granted who rel ops (if w = who \<and> r = rel then [] else gs)"
| "granted who rel (_ # ops) gs = granted who rel ops gs"

definition grants_of :: "u32 \<Rightarrow> u32 \<Rightarrow> RbacManager \<Rightarrow> privilege set list" where
  "grants_of who rel rm =
     map (\<lambda>acl. priv_set (privileges acl)) (filter (\<lambda>acl. grantee acl = who \<and> acl_rel_oid acl = rel) (acls rm))"

lemma grants_of_run: "grants_of who rel (fold rbac_step ops rm) = granted who rel ops (grants_of who rel rm)"
proof (induction ops arbitrary: rm)
  case (Cons op ops)
  have "grants_of who rel (revoke w r ps rm) = (if w = who \<and> r = rel then [] else grants_of who rel rm)" for w r ps
    by (auto simp: grants_of_def revoke_def intro!: arg_cong [where f = "map _"] filter_cong)
  then show ?case using Cons
    by (cases op) (auto simp: grants_of_def grant_def create_role_def drop_role_def)
qed simp

lemma find_none: "List.find (\<lambda>_. False) rs = None"
  by (simp add: find_None_iff)

text \<open>
  C29: For every role identifier except zero a privilege check is exact: after any sequence of grants,
  revocations and role changes, it succeeds precisely when a single grant to that role on that relation, made
  after the last revocation there, includes all the required privileges. The order of the role map
  does not matter.
\<close>

theorem privilege_check_exact:
  assumes "role \<noteq> 0"
  shows "check_privilege ks role rel required (fold rbac_step ops new_rbac) \<longleftrightarrow>
    (\<exists>S \<in> set (granted role rel ops []). priv_set required \<subseteq> S)"
proof -
  let ?rm = "fold rbac_step ops new_rbac"
  have "check_privilege ks role rel required ?rm \<longleftrightarrow> (\<exists>S \<in> set (grants_of role rel ?rm). priv_set required \<subseteq> S)"
    using assms by (auto simp: check_privilege_def find_none list_ex_iff acl_check_def priv_check_subset grants_of_def)
  moreover have "grants_of role rel new_rbac = []" by (simp add: grants_of_def new_rbac_def)
  ultimately show ?thesis by (simp add: grants_of_run)
qed

theorem privilege_check_exact_witness:
  "check_privilege [] 7 100 priv_read (fold rbac_step [Grant 7 100 priv_write, Revoke 8 100 priv_all] new_rbac)"
  by (subst privilege_check_exact) (simp_all add: priv_set_def priv_read_def priv_none_def priv_write_def subset_iff all_privileges)

text \<open>
  The identifier zero is a superuser or nobody depending on the order of a hash map: with the built-in roles
  alone, a check for role zero on any relation and any privileges succeeds for one order of the role map,
  and, when a privilege is required, fails for the other.
\<close>

theorem role_zero_by_hash_order:
  "enumerates [ROLE_POSTGRES, ROLE_PUBLIC] (roles new_rbac) \<and> enumerates [ROLE_PUBLIC, ROLE_POSTGRES] (roles new_rbac) \<and>
   check_privilege [ROLE_POSTGRES, ROLE_PUBLIC] 0 rel required new_rbac \<and>
   \<not> check_privilege [ROLE_PUBLIC, ROLE_POSTGRES] 0 rel required new_rbac"
proof -
  have ne: "ROLE_POSTGRES \<noteq> ROLE_PUBLIC" by (simp add: ROLE_POSTGRES_def ROLE_PUBLIC_def)
  then show ?thesis
    by (auto simp: enumerates_def new_rbac_def check_privilege_def list_roles_def map_filter_simps superuser_def
        new_role_def dom_def)
qed

text \<open>
  A revocation removes every grant, whatever privileges it names: after all privileges are granted and
  only \<open>TRIGGER\<close> (or even nothing) is revoked, the role can no longer read.
\<close>

theorem revoke_takes_everything:
  assumes "role \<noteq> 0"
  shows "\<not> check_privilege ks role rel priv_read (revoke role rel ps (grant role rel priv_all rm))"
  using assms by (simp add: check_privilege_def find_none revoke_def grant_def list_ex_iff)

theorem revoke_takes_everything_witness:
  "\<not> check_privilege [] 7 100 priv_read (revoke 7 100 priv_none (grant 7 100 priv_all new_rbac))"
  by (rule revoke_takes_everything) simp

section \<open>Row-level security\<close>

datatype PolicyCommand = PAll | PSelect | PInsert | PUpdate | PDelete

datatype PolicyPermissive = Permissive | Restrictive

record 'e Policy =
  policy_name :: str
  pol_table_oid :: u32
  pol_command :: PolicyCommand
  permissive :: PolicyPermissive
  pol_roles :: "str list"
  using_expr :: "'e option"
  check_expr :: "'e option"

definition new_policy :: "str \<Rightarrow> u32 \<Rightarrow> PolicyCommand \<Rightarrow> 'e Policy" where
  "new_policy name table cmd =
     \<lparr>policy_name = name, pol_table_oid = table, pol_command = cmd, permissive = Permissive, pol_roles = [],
      using_expr = None, check_expr = None\<rparr>"

definition with_roles :: "str list \<Rightarrow> 'e Policy \<Rightarrow> 'e Policy" where
  "with_roles rs p = p\<lparr>pol_roles := rs\<rparr>"

definition with_using :: "'e \<Rightarrow> 'e Policy \<Rightarrow> 'e Policy" where
  "with_using e p = p\<lparr>using_expr := Some e\<rparr>"

definition with_check :: "'e \<Rightarrow> 'e Policy \<Rightarrow> 'e Policy" where
  "with_check e p = p\<lparr>check_expr := Some e\<rparr>"

definition applies_to_command :: "'e Policy \<Rightarrow> PolicyCommand \<Rightarrow> bool" where
  "applies_to_command p cmd \<longleftrightarrow> pol_command p = PAll \<or> pol_command p = cmd"

definition applies_to_role :: "'e Policy \<Rightarrow> str \<Rightarrow> bool" where
  "applies_to_role p role \<longleftrightarrow> pol_roles p = [] \<or> role \<in> set (pol_roles p)"

record 'e RlsFilter =
  policies :: "'e Policy list"
  rls_command :: PolicyCommand

definition new_rls_filter :: "PolicyCommand \<Rightarrow> 'e RlsFilter" where
  "new_rls_filter cmd = \<lparr>policies = [], rls_command = cmd\<rparr>"

definition add_policy :: "'e Policy \<Rightarrow> 'e RlsFilter \<Rightarrow> 'e RlsFilter" where
  "add_policy p f =
     (if applies_to_command p (rls_command f) then f\<lparr>policies := policies f @ [p]\<rparr> else f)"

definition has_policies :: "'e RlsFilter \<Rightarrow> bool" where
  "has_policies f \<longleftrightarrow> policies f \<noteq> []"

definition get_using_expressions :: "'e RlsFilter \<Rightarrow> 'e list" where
  "get_using_expressions f = List.map_filter using_expr (policies f)"

definition get_check_expressions :: "'e RlsFilter \<Rightarrow> 'e list" where
  "get_check_expressions f = List.map_filter check_expr (policies f)"

definition combine_using_expressions :: "('e \<Rightarrow> 'e \<Rightarrow> 'e) \<Rightarrow> 'e RlsFilter \<Rightarrow> 'e option" where
  "combine_using_expressions mk_and f =
     (case get_using_expressions f of
        [] \<Rightarrow> None
      | [e] \<Rightarrow> Some e
      | e # es \<Rightarrow> Some (foldl mk_and e es))"

text \<open>
  The combined row filter is the conjunction of the policies of the command. For any sequence of policies, the
  filter of a command has a combined expression exactly when some policy for this command (or for all
  commands) has a \<open>USING\<close> expression, and a row satisfies the combined expression exactly when it satisfies
  each of these: permissive policies included, which are combined like restrictive ones.
\<close>

theorem rls_combined_is_conjunction:
  assumes "\<And>a b. sat (mk_and a b) \<longleftrightarrow> sat a \<and> sat b"
  shows "case combine_using_expressions mk_and (fold add_policy ps (new_rls_filter cmd)) of
      None \<Rightarrow> \<forall>p \<in> set ps. applies_to_command p cmd \<longrightarrow> using_expr p = None
    | Some e \<Rightarrow> sat e \<longleftrightarrow> (\<forall>p \<in> set ps. applies_to_command p cmd \<longrightarrow> (\<forall>u. using_expr p = Some u \<longrightarrow> sat u))"
proof -
  have pol: "policies (fold add_policy ps f) = policies f @ filter (\<lambda>p. applies_to_command p (rls_command f)) ps" for f
    by (induction ps arbitrary: f) (auto simp: add_policy_def)
  let ?es = "get_using_expressions (fold add_policy ps (new_rls_filter cmd))"
  have es: "?es = List.map_filter using_expr (filter (\<lambda>p. applies_to_command p cmd) ps)"
    by (simp add: get_using_expressions_def pol new_rls_filter_def)
  have mem: "set ?es = {u. \<exists>p \<in> set ps. applies_to_command p cmd \<and> using_expr p = Some u}"
    unfolding es by (force simp: map_filter_def)
  have folded: "sat (foldl mk_and e xs) \<longleftrightarrow> sat e \<and> (\<forall>u \<in> set xs. sat u)" for e xs
    by (induction xs arbitrary: e) (auto simp: assms)
  have "case combine_using_expressions mk_and (fold add_policy ps (new_rls_filter cmd)) of
      None \<Rightarrow> ?es = [] | Some e \<Rightarrow> sat e \<longleftrightarrow> (\<forall>u \<in> set ?es. sat u)"
    by (auto simp: combine_using_expressions_def folded assms split: list.splits)
  moreover have "?es = [] \<longleftrightarrow> (\<forall>p \<in> set ps. applies_to_command p cmd \<longrightarrow> using_expr p = None)"
    using mem by (auto simp flip: set_empty)
  moreover have "(\<forall>u \<in> set ?es. sat u) \<longleftrightarrow>
      (\<forall>p \<in> set ps. applies_to_command p cmd \<longrightarrow> (\<forall>u. using_expr p = Some u \<longrightarrow> sat u))" unfolding mem by blast
  ultimately show ?thesis by (auto split: option.splits)
qed

theorem rls_combined_is_conjunction_witness:
  "case combine_using_expressions (\<and>) (fold add_policy [with_using True (new_policy [97] 1 PSelect),
      with_using False (new_policy [98] 1 PAll)] (new_rls_filter PSelect)) of
      None \<Rightarrow> False | Some e \<Rightarrow> \<not> e"
  using rls_combined_is_conjunction [of "\<lambda>b. b" "(\<and>)" "[with_using True (new_policy [97] 1 PSelect),
      with_using False (new_policy [98] 1 PAll)]" PSelect]
  by (auto simp: applies_to_command_def with_using_def new_policy_def split: option.splits)

section \<open>The audit log\<close>

text \<open>Time stamps are strings, durations are milliseconds.\<close>

record AuditLog =
  al_timestamp :: str
  al_user :: str
  al_database :: str
  al_statement :: str
  al_duration :: nat
  al_rows_affected :: "u64 option"
  al_connection_id :: u32
  al_success :: bool
  al_error_message :: "str option"

definition new_audit_log :: "str \<Rightarrow> str \<Rightarrow> str \<Rightarrow> str \<Rightarrow> u32 \<Rightarrow> AuditLog" where
  "new_audit_log now user db stmt conn =
     \<lparr>al_timestamp = now, al_user = user, al_database = db, al_statement = stmt, al_duration = 0,
      al_rows_affected = None, al_connection_id = conn, al_success = True, al_error_message = None\<rparr>"

definition with_duration :: "nat \<Rightarrow> AuditLog \<Rightarrow> AuditLog" where
  "with_duration d a = a\<lparr>al_duration := d\<rparr>"

definition with_rows :: "u64 \<Rightarrow> AuditLog \<Rightarrow> AuditLog" where
  "with_rows n a = a\<lparr>al_rows_affected := Some n\<rparr>"

definition with_error :: "str \<Rightarrow> AuditLog \<Rightarrow> AuditLog" where
  "with_error e a = a\<lparr>al_success := False, al_error_message := Some e\<rparr>"

record AuditLogger =
  audit_logs :: "AuditLog list"
  audit_enabled :: bool

definition new_audit_logger :: AuditLogger where
  "new_audit_logger = \<lparr>audit_logs = [], audit_enabled = True\<rparr>"

definition with_enabled :: "bool \<Rightarrow> AuditLogger" where
  "with_enabled b = \<lparr>audit_logs = [], audit_enabled = b\<rparr>"

definition log_statement :: "AuditLog \<Rightarrow> AuditLogger \<Rightarrow> AuditLogger" where
  "log_statement a lg = (if \<not> audit_enabled lg then lg else lg\<lparr>audit_logs := audit_logs lg @ [a]\<rparr>)"

definition CONNECTION_FROM :: str where
  "CONNECTION_FROM = [99, 111, 110, 110, 101, 99, 116, 105, 111, 110, 32, 102, 114, 111, 109, 32]"

definition log_connection :: "str \<Rightarrow> str \<Rightarrow> str \<Rightarrow> bool \<Rightarrow> AuditLogger \<Rightarrow> AuditLogger" where
  "log_connection now user addr connected lg =
     (if \<not> audit_enabled lg then lg
      else lg\<lparr>audit_logs := audit_logs lg @
        [new_audit_log now user [] ((if connected then CONNECTION_FROM else [100, 105, 115] @ CONNECTION_FROM) @ addr) 0]\<rparr>)"

definition get_logs :: "AuditLogger \<Rightarrow> AuditLog list" where
  "get_logs lg = audit_logs lg"

definition clear_logs :: "AuditLogger \<Rightarrow> AuditLogger" where
  "clear_logs lg = lg\<lparr>audit_logs := []\<rparr>"

definition log_count :: "AuditLogger \<Rightarrow> nat" where
  "log_count lg = length (audit_logs lg)"

lemma audit_appends:
  "get_logs (fold log_statement es lg) = get_logs lg @ (if audit_enabled lg then es else [])"
  by (induction es arbitrary: lg) (auto simp: get_logs_def log_statement_def)

end
