(* ===== verification/Sql_Ast.thy ===== *)
theory Sql_Ast
  imports Prelude "HOL-Library.Char_ord"
begin

text \<open>
  The syntax tree of SQL (\<open>sql/ast.rs\<close>). In the layers above the heap a \<open>String\<close> is a list of characters, one
  for each byte of its UTF-8 form: this keeps the order, the equality and the length of Rust's strings.

  In the code the types are all mutually recursive, because an expression may hold a query and a query's common
  table expression may hold any statement. Here an expression takes the type \<open>'s\<close> of queries as a parameter and
  a query the type \<open>'t\<close> of statements; the knot is tied in the theory of the statements, where the parameters
  are instantiated.
\<close>

section \<open>Leaves\<close>

datatype SetOperator = Union | UnionAll | Intersect | IntersectAll | Except | ExceptAll

datatype LockingClause = ForUpdate | ForNoKeyUpdate | ForShare | ForKeyShare

datatype ReferentialAction = Restrict | Cascade | SetNull | SetDefault | NoAction

datatype JoinType = Inner | Left | Right | Full | Cross | Lateral

datatype SortDirection = Asc | Desc | DefaultDirection

datatype NullsOrder = First | Last | DefaultNulls

record ObjectName =
  parts :: "string list"

definition object_name :: "string list \<Rightarrow> ObjectName" where
  "object_name ps = \<lparr>parts = ps\<rparr>"

definition single_name :: "string \<Rightarrow> ObjectName" where
  "single_name nm = \<lparr>parts = [nm]\<rparr>"

datatype DataType =
    Int | BigInt | SmallInt | Float | Double | Numeric u32 u32 | Varchar u32 | CharType u32 | Text | Boolean
  | Date | Time | TimeTz | Timestamp | TimestampTz | Interval | Json | JsonB | Uuid | Serial | BigSerial
  | SmallSerial | Money | Inet | Cidr | MacAddr | Bit u32 | BitVarying u32 | TsVector | TsQuery
  | ArrayOf DataType | Custom "string list"

datatype Literal =
    LNumber string | LString string | LBool bool | LNull | LBlob bytes | LDate string | LTime string
  | LTimestamp string | LTimestampTz string | LInterval string | LJson string | LJsonB string
  | LUuid string | LMoney string | LBit string | LHex string

datatype DatePart =
    Year | Month | Day | Hour | Minute | Second | Millisecond | Microsecond | Dow | Doy | IsoDow | Week
  | Quarter | Epoch | IsoYear | Timezone | TimezoneHour | TimezoneMinute

datatype BinaryOperator =
    Plus | Minus | Multiply | Divide | Modulo | Equals | NotEquals | LessThan | GreaterThan | LessOrEqual
  | GreaterOrEqual | And | Or | BitwiseAnd | BitwiseOr | BitwiseXor | BitwiseShiftLeft | BitwiseShiftRight
  | Like | ILike | SimilarTo | Regex | RegexCaseInsensitive | NotRegex | NotRegexCaseInsensitive

datatype UnaryOperator = UPlus | UMinus | UNot | UBitwiseNot

section \<open>Expressions\<close>

datatype 'e FunctionArg = ArgExpr 'e | ArgStar

datatype 'e OrderByItem = OrderByItem (order_expr: 'e) (direction: SortDirection) (nulls: NullsOrder)

datatype 'e FrameBound = CurrentRow | Preceding 'e | Following 'e | UnboundedPreceding | UnboundedFollowing

datatype 'e FrameClause = FrameClause (frame_start: "'e FrameBound") (frame_end: "'e FrameBound option")

datatype 'e WindowSpec =
  WindowSpec (partition_by: "'e list") (window_order_by: "'e OrderByItem list") (frame: "'e FrameClause option")

datatype 'e FunctionCall =
  FunctionCall (fn_name: ObjectName) (fn_args: "'e FunctionArg list") (fn_filter: "'e option")
    (fn_over: "'e WindowSpec option")

datatype 'e WhenClause = WhenClause (when_expr: 'e) (then_expr: 'e)

datatype 's Expr =
    Identifier string
  | QualifiedIdentifier string string
  | Lit Literal
  | Parameter u32
  | IsNull "'s Expr"
  | IsNotNull "'s Expr"
  | InList "'s Expr" bool "'s Expr list"
  | InSubquery "'s Expr" bool 's
  | Between "'s Expr" bool "'s Expr" "'s Expr"
  | BinaryOp "'s Expr" BinaryOperator "'s Expr"
  | UnaryOp UnaryOperator "'s Expr"
  | NestedSelect 's
  | Function "'s Expr FunctionCall"
  | Array "'s Expr list"
  | Row "'s Expr list"
  | TypeCast "'s Expr" DataType
  | Case "'s Expr option" "'s Expr WhenClause list" "'s Expr option"
  | Collate "'s Expr" ObjectName
  | AnyComparison BinaryOperator "'s Expr" "'s Expr"
  | SomeComparison BinaryOperator "'s Expr" "'s Expr"
  | AtTimeZone "'s Expr" "'s Expr"
  | IntervalExpr "'s Expr"
  | Extract DatePart "'s Expr"
  | DateTrunc DatePart "'s Expr" "'s Expr option"

section \<open>Queries\<close>

datatype 'e DistinctClause = AllRows | Distinct | DistinctOn "'e list"

datatype 'e SelectItem = SelExpr 'e | ExprAs 'e string | Star | TableStar string

datatype 'e LimitClause = LimitAll | LimitExpr 'e

datatype 'e JoinConstraint = On 'e | Using "string list" | NoConstraint

datatype 's TableRef = TableName ObjectName | Subquery 's | TableFunction "'s Expr FunctionCall"

datatype 's Join =
  Join (join_table: "'s TableRef") (join_alias: "string option") (join_type: JoinType)
    (join_constraint: "'s Expr JoinConstraint")

datatype 's FromClause = FromClause (joins: "'s Join list")

datatype 't CommonTableExpr =
  CommonTableExpr (cte_name: string) (cte_columns: "string list option") (cte_materialized: "bool option")
    (cte_query: 't)

datatype 't WithClause = WithClause (recursive: bool) (ctes: "'t CommonTableExpr list")

datatype 's SetOperation = SetOperation (set_operator: SetOperator) (set_select: 's)

datatype 't SelectStatement =
  SelectStatement
    (sel_with: "'t WithClause option")
    (sel_distinct: "'t SelectStatement Expr DistinctClause")
    (select_list: "'t SelectStatement Expr SelectItem list")
    (sel_from: "'t SelectStatement FromClause option")
    (sel_where: "'t SelectStatement Expr option")
    (group_by: "'t SelectStatement Expr list")
    (having: "'t SelectStatement Expr option")
    (sel_order_by: "'t SelectStatement Expr OrderByItem list")
    (sel_limit: "'t SelectStatement Expr LimitClause option")
    (sel_offset: "'t SelectStatement Expr option")
    (locking: "LockingClause list")
    (set_operations: "'t SelectStatement SetOperation list")

end
