(* ===== verification/Sql_Stmt.thy ===== *)
theory Sql_Stmt
  imports Sql_Ast
begin

text \<open>
  The statements of SQL (\<open>sql/ast.rs\<close>). The types \<open>select\<close> and \<open>expr\<close> at the end are the queries and
  expressions of the program, with statements inside their common table expressions.
\<close>

section \<open>Statements that change rows\<close>

datatype 'e SetClause = SetClause (set_column: string) (set_value: 'e)

datatype 'e OnConflict = DoNothing | DoUpdate "string list option" "'e option" "'e SetClause list"

datatype 's InsertSource = Values "'s Expr list list" | InsertSelect 's

datatype 's InsertStatement =
  InsertStatement (ins_table: ObjectName) (ins_columns: "string list option") (ins_source: "'s InsertSource")
    (on_conflict: "'s Expr OnConflict option") (ins_returning: "'s Expr SelectItem list")

datatype 's UpdateStatement =
  UpdateStatement (upd_table: ObjectName) (upd_from: "'s FromClause option") (set_clauses: "'s Expr SetClause list")
    (upd_where: "'s Expr option") (upd_returning: "'s Expr SelectItem list")

datatype 's DeleteStatement =
  DeleteStatement (del_table: ObjectName) (del_using: "'s FromClause option") (del_where: "'s Expr option")
    (del_returning: "'s Expr SelectItem list")

datatype 'e MergeInsertSource = MergeValues "'e list list" | DefaultValues

datatype 'e MergeAction =
  MergeUpdate "'e SetClause list" | MergeDelete | MergeDoNothing | MergeInsert "string list option" "'e MergeInsertSource"

datatype 'e MergeClause = WhenMatched "'e option" "'e MergeAction" | WhenNotMatched "'e option" "'e MergeAction"

datatype 's MergeSource = MergeTable ObjectName | MergeSubquery 's

datatype 's MergeStatement =
  MergeStatement (merge_target: ObjectName) (merge_source: "'s MergeSource") (join_condition: "'s Expr")
    (merge_clauses: "'s Expr MergeClause list")

section \<open>Statements that change the schema or the session\<close>

datatype 'e ColumnConstraint =
    NotNull | NullAllowed | Default 'e | PrimaryKey | Unique
  | References ObjectName string "ReferentialAction option" "ReferentialAction option"
  | Check 'e

datatype 'e TableConstraint =
    TablePrimaryKey "string list" | TableUnique "string list"
  | ForeignKey "string list" ObjectName "string list" "ReferentialAction option" "ReferentialAction option"
  | TableCheck 'e

datatype 'e ColumnDef =
  ColumnDef (col_name: string) (col_type: DataType) (col_constraints: "'e ColumnConstraint list")

datatype 'e CreateTableStatement =
  CreateTableStatement (ct_table: ObjectName) (ct_columns: "'e ColumnDef list")
    (ct_constraints: "'e TableConstraint list") (ct_if_not_exists: bool)

datatype 'e IndexColumn = IndexColumn (ic_expr: 'e) (ic_direction: SortDirection) (ic_nulls: NullsOrder)

datatype 'e CreateIndexStatement =
  CreateIndexStatement (ci_name: ObjectName) (ci_table: ObjectName) (ci_columns: "'e IndexColumn list")
    (ci_unique: bool) (ci_if_not_exists: bool)

datatype 's CreateViewStatement =
  CreateViewStatement (cv_name: ObjectName) (cv_columns: "string list option") (cv_query: 's) (cv_or_replace: bool)

datatype 's CreateMaterializedViewStatement =
  CreateMaterializedViewStatement (cm_name: ObjectName) (cm_columns: "string list option") (cm_query: 's)
    (cm_or_replace: bool)

record CreateSequenceStatement =
  seq_name :: ObjectName
  seq_if_not_exists :: bool
  seq_data_type :: "DataType option"
  increment :: "int option"
  min_value :: "int option"
  max_value :: "int option"
  seq_start :: "int option"
  seq_cache :: "int option"
  seq_cycle :: bool
  owned_by :: "ObjectName option"

record CompositeAttribute =
  ca_name :: string
  ca_data_type :: DataType
  ca_collation :: "ObjectName option"

datatype TypeDefinition = Composite "CompositeAttribute list" | Enum "string list" | Range DataType

record CreateTypeStatement =
  type_name :: ObjectName
  type_definition :: TypeDefinition

record CreateSchemaStatement =
  schema_name :: "string option"
  schema_if_not_exists :: bool
  authorization :: "string option"

datatype SetValue = SetIdentifier string | SetString string | SetNumber string | SetToDefault

record SetStatement =
  setting :: string
  setting_values :: "SetValue list"

datatype 'e AlterColumnAction = SetDataType DataType | SetDefaultTo 'e | DropDefault | SetNotNull | DropNotNull

datatype 'e AlterTableAction =
    AddColumn "'e ColumnDef" | DropColumn string bool bool | RenameColumn string string
  | AlterColumn string "'e AlterColumnAction" | RenameTable ObjectName

datatype 'e AlterTableStatement = AlterTableStatement (alter_table: ObjectName) (alter_action: "'e AlterTableAction")

record DropTableStatement =
  dt_table :: ObjectName
  dt_if_exists :: bool
  dt_cascade :: bool

record DropIndexStatement =
  di_name :: ObjectName
  di_if_exists :: bool
  di_cascade :: bool

datatype SqlIsolationLevel = SqlSerializable | SqlRepeatableRead | SqlReadCommitted | SqlReadUncommitted

record BeginStatement =
  isolation_level :: "SqlIsolationLevel option"
  begin_read_only :: bool
  begin_deferrable :: bool

datatype Statement =
    Select "Statement SelectStatement"
  | Insert "Statement SelectStatement InsertStatement"
  | Update "Statement SelectStatement UpdateStatement"
  | Delete "Statement SelectStatement DeleteStatement"
  | CreateTable "Statement SelectStatement Expr CreateTableStatement"
  | CreateIndex "Statement SelectStatement Expr CreateIndexStatement"
  | CreateView "Statement SelectStatement CreateViewStatement"
  | CreateMaterializedView "Statement SelectStatement CreateMaterializedViewStatement"
  | CreateSequence CreateSequenceStatement
  | CreateType CreateTypeStatement
  | CreateSchema CreateSchemaStatement
  | AlterTable "Statement SelectStatement Expr AlterTableStatement"
  | DropTable DropTableStatement
  | DropIndex DropIndexStatement
  | Merge "Statement SelectStatement MergeStatement"
  | Set SetStatement
  | Begin BeginStatement
  | Commit
  | Rollback
  | Explain Statement

type_synonym select = "Statement SelectStatement"
type_synonym expr = "Statement SelectStatement Expr"

end
