(* ===== verification/Rust_Str.thy ===== *)
theory Rust_Str
  imports Utf8 "HOL-Library.Char_ord"
begin

text \<open>
  Rust's \<open>str\<close> as the SQL layers use it. A \<open>String\<close> is a list of characters, one for each byte of its UTF-8 form.
  What depends on the Unicode tables (\<open>to_uppercase\<close>, \<open>to_lowercase\<close>) or on the floating-point unit (\<open>f64\<close>) is a
  field of the record \<open>std\<close>, which every definition that uses it takes as an argument. \<open>f64_sum_start\<close> is the value
  \<open>Iterator::sum\<close> starts from, \<open>0.0\<close> or \<open>-0.0\<close> depending on the version of the library.
\<close>

record 'f std =
  to_uppercase :: "string \<Rightarrow> string"
  to_lowercase :: "string \<Rightarrow> string"
  f64_parse :: "string \<Rightarrow> 'f option"
  f64_show :: "'f \<Rightarrow> string"
  f64_add :: "'f \<Rightarrow> 'f \<Rightarrow> 'f"
  f64_sub :: "'f \<Rightarrow> 'f \<Rightarrow> 'f"
  f64_mul :: "'f \<Rightarrow> 'f \<Rightarrow> 'f"
  f64_div :: "'f \<Rightarrow> 'f \<Rightarrow> 'f"
  f64_rem :: "'f \<Rightarrow> 'f \<Rightarrow> 'f"
  f64_neg :: "'f \<Rightarrow> 'f"
  f64_of_nat :: "nat \<Rightarrow> 'f"
  f64_sum_start :: 'f
  f64_eq :: "'f \<Rightarrow> 'f \<Rightarrow> bool"
  f64_le :: "'f \<Rightarrow> 'f \<Rightarrow> bool"

section \<open>ASCII case\<close>

definition ascii_upper :: "char \<Rightarrow> char" where
  "ascii_upper c = (if CHR ''a'' \<le> c \<and> c \<le> CHR ''z'' then char_of (of_char c - (32 :: nat)) else c)"

definition ascii_lower :: "char \<Rightarrow> char" where
  "ascii_lower c = (if CHR ''A'' \<le> c \<and> c \<le> CHR ''Z'' then char_of (of_char c + (32 :: nat)) else c)"

definition to_ascii_uppercase :: "string \<Rightarrow> string" where
  "to_ascii_uppercase s = map ascii_upper s"

definition eq_ignore_ascii_case :: "string \<Rightarrow> string \<Rightarrow> bool" where
  "eq_ignore_ascii_case s t \<longleftrightarrow> map ascii_lower s = map ascii_lower t"

definition is_ascii :: "char \<Rightarrow> bool" where
  "is_ascii c \<longleftrightarrow> of_char c < (128 :: nat)"

definition is_ascii_digit :: "char \<Rightarrow> bool" where
  "is_ascii_digit c \<longleftrightarrow> CHR ''0'' \<le> c \<and> c \<le> CHR ''9''"

definition is_ascii_alphabetic :: "char \<Rightarrow> bool" where
  "is_ascii_alphabetic c \<longleftrightarrow> (CHR ''A'' \<le> c \<and> c \<le> CHR ''Z'') \<or> (CHR ''a'' \<le> c \<and> c \<le> CHR ''z'')"

section \<open>Numbers as text\<close>

text \<open>\<open>to_string\<close> of an unsigned and of a signed integer.\<close>

definition digit_char :: "nat \<Rightarrow> char" where
  "digit_char d = char_of (48 + d)"

fun nat_show :: "nat \<Rightarrow> string" where
  "nat_show n = (if n < 10 then [digit_char n] else nat_show (n div 10) @ [digit_char (n mod 10)])"

declare nat_show.simps [simp del]

definition int_show :: "int \<Rightarrow> string" where
  "int_show i = (if i < 0 then CHR ''-'' # nat_show (nat (- i)) else nat_show (nat i))"

definition bool_show :: "bool \<Rightarrow> string" where
  "bool_show b = (if b then ''true'' else ''false'')"

definition parse_bool :: "string \<Rightarrow> bool option" where
  "parse_bool s = (if s = ''true'' then Some True else if s = ''false'' then Some False else None)"

text \<open>The digits of \<open>from_str_radix(10)\<close>: at least one digit, and nothing else.\<close>

definition digits_value :: "string \<Rightarrow> nat option" where
  "digits_value s =
     (if s = [] \<or> \<not> list_all is_ascii_digit s then None
      else Some (foldl (\<lambda>n c. 10 * n + (of_char c - 48)) 0 s))"

text \<open>\<open>parse::<usize>\<close> on a 64-bit target and \<open>parse::<u32>\<close>: an optional plus sign, no overflow.\<close>

definition parse_unsigned :: "nat \<Rightarrow> string \<Rightarrow> nat option" where
  "parse_unsigned bits s =
     (case digits_value (case s of [] \<Rightarrow> [] | c # cs \<Rightarrow> if c = CHR ''+'' then cs else s) of
        None \<Rightarrow> None
      | Some n \<Rightarrow> if n < 2 ^ bits then Some n else None)"

definition parse_usize :: "string \<Rightarrow> nat option" where
  "parse_usize = parse_unsigned 64"

definition parse_i64 :: "string \<Rightarrow> int option" where
  "parse_i64 s =
     (case s of
        [] \<Rightarrow> None
      | c # cs \<Rightarrow>
          if c = CHR ''-'' then
            (case digits_value cs of
               None \<Rightarrow> None
             | Some n \<Rightarrow> if n \<le> 2 ^ 63 then Some (- int n) else None)
          else
            (case digits_value (if c = CHR ''+'' then cs else s) of
               None \<Rightarrow> None
             | Some n \<Rightarrow> if n < 2 ^ 63 then Some (int n) else None))"

section \<open>Parts of strings\<close>

text \<open>\<open>chars\<close>: a character starts at every byte that is not a continuation byte.\<close>

definition continuation_byte :: "char \<Rightarrow> bool" where
  "continuation_byte c \<longleftrightarrow> 128 \<le> (of_char c :: nat) \<and> (of_char c :: nat) < 192"

function str_chars :: "string \<Rightarrow> string list" where
  "str_chars [] = []"
| "str_chars (c # cs) = (c # takeWhile continuation_byte cs) # str_chars (dropWhile continuation_byte cs)"
  by pat_completeness auto
termination by (relation "measure length") (auto simp: le_imp_less_Suc length_dropWhile_le)

text \<open>
  \<open>trim\<close>: the characters with the property \<open>White_Space\<close>, each as its bytes.
\<close>

definition bytes_of :: "nat list \<Rightarrow> string" where
  "bytes_of = map char_of"

definition whitespace :: "string list" where
  "whitespace =
     map bytes_of
       ([[9], [10], [11], [12], [13], [32], [0xC2, 0x85], [0xC2, 0xA0], [0xE1, 0x9A, 0x80]] @
        map (\<lambda>b. [0xE2, 0x80, b]) [0x80..<0x8B] @
        [[0xE2, 0x80, 0xA8], [0xE2, 0x80, 0xA9], [0xE2, 0x80, 0xAF], [0xE2, 0x81, 0x9F], [0xE3, 0x80, 0x80]])"

definition is_whitespace :: "string \<Rightarrow> bool" where
  "is_whitespace c \<longleftrightarrow> c \<in> set whitespace"

definition trim :: "string \<Rightarrow> string" where
  "trim s = concat (rev (dropWhile is_whitespace (rev (dropWhile is_whitespace (str_chars s)))))"

text \<open>\<open>s.replace(c, "")\<close>; \<open>s.contains(t)\<close> is \<open>str_contains\<close>.\<close>

definition remove_char :: "char \<Rightarrow> string \<Rightarrow> string" where
  "remove_char c s = filter (\<lambda>d. d \<noteq> c) s"

section \<open>Lemmas\<close>

lemma concat_str_chars [simp]: "concat (str_chars s) = s"
  by (induction s rule: str_chars.induct) simp_all

lemma str_contains_iff: "str_contains s t \<longleftrightarrow> (\<exists>u v. s = u @ t @ v)"
proof (induction s)
  case Nil
  then show ?case by auto
next
  case (Cons c cs)
  have "take (length t) (c # cs) = t \<longleftrightarrow> (\<exists>v. c # cs = t @ v)"
    by (metis append_eq_conv_conj)
  then show ?case unfolding str_contains.simps Cons.IH by (metis append_Cons append_Nil list.exhaust list.inject)
qed

lemma str_contains_Nil [simp]: "str_contains s []"
  by (cases s) simp_all

lemma parse_bool_show [simp]: "parse_bool (bool_show b) = Some b"
  by (simp add: parse_bool_def bool_show_def)

lemma parse_bool_eq_Some: "parse_bool s = Some b \<longleftrightarrow> s = bool_show b"
  by (auto simp: parse_bool_def bool_show_def)

lemma bool_show_inj [simp]: "bool_show a = bool_show b \<longleftrightarrow> a = b"
  by (simp add: bool_show_def)

lemma eq_ignore_ascii_case_refl [simp]: "eq_ignore_ascii_case s s"
  by (simp add: eq_ignore_ascii_case_def)

lemma eq_ignore_ascii_case_sym: "eq_ignore_ascii_case s t \<longleftrightarrow> eq_ignore_ascii_case t s"
  by (auto simp: eq_ignore_ascii_case_def)

lemma eq_ignore_ascii_case_trans:
  "eq_ignore_ascii_case s t \<Longrightarrow> eq_ignore_ascii_case t u \<Longrightarrow> eq_ignore_ascii_case s u"
  by (simp add: eq_ignore_ascii_case_def)

lemma of_char_digit: "d < 10 \<Longrightarrow> (of_char (digit_char d) :: nat) = 48 + d"
  by (simp add: digit_char_def)

lemma is_digit_digit_char: "d < 10 \<Longrightarrow> is_ascii_digit (digit_char d)"
  by (simp add: is_ascii_digit_def less_eq_char_def of_char_digit)

lemma nat_show_digits: "nat_show n \<noteq> [] \<and> list_all is_ascii_digit (nat_show n)"
proof (induction n rule: nat_show.induct)
  case (1 n)
  then show ?case
    by (subst (1 2) nat_show.simps) (simp add: is_digit_digit_char)
qed

lemma nat_show_value: "foldl (\<lambda>n c. 10 * n + (of_char c - 48)) 0 (nat_show n) = n"
proof (induction n rule: nat_show.induct)
  case (1 n)
  then show ?case
    by (subst nat_show.simps) (simp add: of_char_digit)
qed

lemma digits_value_show [simp]: "digits_value (nat_show n) = Some n"
  using nat_show_digits [of n] by (simp add: digits_value_def nat_show_value)

lemma hd_not_sign:
  assumes "nat_show n = c # cs"
  shows "c \<noteq> CHR ''+'' \<and> c \<noteq> CHR ''-''"
  using nat_show_digits [of n] assms by (auto simp: is_ascii_digit_def less_eq_char_def)

lemma parse_unsigned_show: "n < 2 ^ bits \<Longrightarrow> parse_unsigned bits (nat_show n) = Some n"
proof -
  assume n: "n < 2 ^ bits"
  obtain c cs where s: "nat_show n = c # cs" using nat_show_digits [of n] by (cases "nat_show n") auto
  have "digits_value (c # cs) = Some n" using digits_value_show [of n] by (simp only: s)
  then show ?thesis using n hd_not_sign [OF s] by (simp add: parse_unsigned_def s)
qed

lemma parse_usize_show: "n < 2 ^ 64 \<Longrightarrow> parse_usize (nat_show n) = Some n"
  by (simp add: parse_usize_def parse_unsigned_show)

lemma parse_i64_show:
  assumes "- (2 ^ 63) \<le> i" "i < 2 ^ 63"
  shows "parse_i64 (int_show i) = Some i"
proof (cases "i < 0")
  case True
  with assms show ?thesis by (simp add: parse_i64_def int_show_def nat_le_iff)
next
  case False
  obtain c cs where s: "nat_show (nat i) = c # cs" using nat_show_digits [of "nat i"] by (cases "nat_show (nat i)") auto
  have "digits_value (c # cs) = Some (nat i)" using digits_value_show [of "nat i"] by (simp only: s)
  then show ?thesis
    using False assms hd_not_sign [OF s] by (simp add: parse_i64_def int_show_def s nat_less_iff)
qed

lemma parse_usize_bound: "parse_usize s = Some n \<Longrightarrow> n < 2 ^ 64"
  by (auto simp: parse_usize_def parse_unsigned_def split: option.splits if_splits)

end
