(* ===== verification/Eval.thy ===== *)
theory Eval
  imports Sql_Ast Rust_Str Types
begin

text \<open>
  The expression evaluator (\<open>server/eval.rs\<close>). A row is a list of strings, a value that cannot be computed is
  \<open>None\<close>, SQL's null is the string \<open>NULL\<close> or the empty string.
\<close>

type_synonym row = "string list"

fun join_str :: "string \<Rightarrow> string list \<Rightarrow> string" where
  "join_str sep [] = []"
| "join_str sep [s] = s"
| "join_str sep (s # t # ts) = s @ sep @ join_str sep (t # ts)"

text \<open>\<open>format!("{:?}", b)\<close> of a \<open>Vec<u8>\<close>.\<close>

definition debug_bytes :: "bytes \<Rightarrow> string" where
  "debug_bytes b = ''['' @ join_str '', '' (map (\<lambda>x. nat_show (unat x)) b) @ '']''"

fun literal_text :: "Literal \<Rightarrow> string" where
  "literal_text (LNumber n) = n"
| "literal_text (LString s) = s"
| "literal_text (LBool b) = bool_show b"
| "literal_text LNull = ''NULL''"
| "literal_text (LBlob b) = debug_bytes b"
| "literal_text (LDate d) = d"
| "literal_text (LTime t) = t"
| "literal_text (LTimestamp t) = t"
| "literal_text (LTimestampTz t) = t"
| "literal_text (LInterval i) = i"
| "literal_text (LJson j) = j"
| "literal_text (LJsonB j) = j"
| "literal_text (LUuid u) = u"
| "literal_text (LMoney m) = m"
| "literal_text (LBit b) = b"
| "literal_text (LHex h) = h"

text \<open>The first field with the name, ignoring case, and \<open>row.get(idx)\<close>.\<close>

definition column_index :: "TupleDesc \<Rightarrow> string \<Rightarrow> nat option" where
  "column_index d col = position (\<lambda>a. eq_ignore_ascii_case (att_name a) col) (td_fields d)"

definition nth_opt :: "'a list \<Rightarrow> nat \<Rightarrow> 'a option" where
  "nth_opt xs i = (if i < length xs then Some (xs ! i) else None)"

definition column_value :: "TupleDesc option \<Rightarrow> row \<Rightarrow> string \<Rightarrow> string option" where
  "column_value td row col =
     (case td of None \<Rightarrow> None
      | Some d \<Rightarrow> (case column_index d col of None \<Rightarrow> None | Some i \<Rightarrow> nth_opt row i))"

text \<open>\<open>str::parse::<f64>\<close> of both operands, then an operation on them.\<close>

definition arith :: "'f std \<Rightarrow> ('f \<Rightarrow> 'f \<Rightarrow> 'f) \<Rightarrow> string \<Rightarrow> string \<Rightarrow> string option" where
  "arith S f l r =
     (case f64_parse S l of None \<Rightarrow> None
      | Some x \<Rightarrow> (case f64_parse S r of None \<Rightarrow> None | Some y \<Rightarrow> Some (f64_show S (f x y))))"

definition arith_nonzero :: "'f std \<Rightarrow> ('f \<Rightarrow> 'f \<Rightarrow> 'f) \<Rightarrow> string \<Rightarrow> string \<Rightarrow> string option" where
  "arith_nonzero S f l r =
     (case f64_parse S l of None \<Rightarrow> None
      | Some x \<Rightarrow> (case f64_parse S r of None \<Rightarrow> None
                   | Some y \<Rightarrow> if f64_eq S y (f64_of_nat S 0) then None else Some (f64_show S (f x y))))"

definition logic :: "(bool \<Rightarrow> bool \<Rightarrow> bool) \<Rightarrow> string \<Rightarrow> string \<Rightarrow> string option" where
  "logic f l r =
     (case parse_bool l of None \<Rightarrow> None
      | Some x \<Rightarrow> (case parse_bool r of None \<Rightarrow> None | Some y \<Rightarrow> Some (bool_show (f x y))))"

definition like_match :: "string \<Rightarrow> string \<Rightarrow> bool" where
  "like_match l r \<longleftrightarrow> str_contains l (remove_char CHR ''%'' r)"

definition binary_op :: "'f std \<Rightarrow> BinaryOperator \<Rightarrow> string \<Rightarrow> string \<Rightarrow> string option" where
  "binary_op S op l r =
     (case op of
        Equals \<Rightarrow> Some (bool_show (l = r))
      | NotEquals \<Rightarrow> Some (bool_show (l \<noteq> r))
      | LessThan \<Rightarrow> Some (bool_show (l < r))
      | LessOrEqual \<Rightarrow> Some (bool_show (l \<le> r))
      | GreaterThan \<Rightarrow> Some (bool_show (l > r))
      | GreaterOrEqual \<Rightarrow> Some (bool_show (l \<ge> r))
      | And \<Rightarrow> logic (\<and>) l r
      | Or \<Rightarrow> logic (\<or>) l r
      | Plus \<Rightarrow> arith S (f64_add S) l r
      | Minus \<Rightarrow> arith S (f64_sub S) l r
      | Multiply \<Rightarrow> arith S (f64_mul S) l r
      | Divide \<Rightarrow> arith_nonzero S (f64_div S) l r
      | Modulo \<Rightarrow> arith_nonzero S (f64_rem S) l r
      | Like \<Rightarrow> Some (bool_show (like_match l r))
      | ILike \<Rightarrow> Some (bool_show (str_contains (to_lowercase S l) (to_lowercase S (remove_char CHR ''%'' r))))
      | _ \<Rightarrow> None)"

definition unary_op :: "'f std \<Rightarrow> UnaryOperator \<Rightarrow> string \<Rightarrow> string option" where
  "unary_op S op v =
     (case op of
        UNot \<Rightarrow> map_option (\<lambda>b. bool_show (\<not> b)) (parse_bool v)
      | UMinus \<Rightarrow> map_option (\<lambda>n. f64_show S (f64_neg S n)) (f64_parse S v)
      | UPlus \<Rightarrow> map_option (f64_show S) (f64_parse S v)
      | UBitwiseNot \<Rightarrow> map_option (\<lambda>n. int_show (- n - 1)) (parse_i64 v))"

definition null_text :: "string \<Rightarrow> bool" where
  "null_text v \<longleftrightarrow> v = [] \<or> eq_ignore_ascii_case v ''NULL''"

text \<open>The test of \<open>BETWEEN\<close>: by value when all three are numbers, by text otherwise.\<close>

definition in_between :: "'f std \<Rightarrow> string \<Rightarrow> string \<Rightarrow> string \<Rightarrow> bool" where
  "in_between S v l h =
     (case (f64_parse S v, f64_parse S l, f64_parse S h) of
        (Some x, Some a, Some b) \<Rightarrow> f64_le S a x \<and> f64_le S x b
      | _ \<Rightarrow> l \<le> v \<and> v \<le> h)"

definition function_name :: "'f std \<Rightarrow> ObjectName \<Rightarrow> string" where
  "function_name S nm = (if parts nm = [] then [] else to_uppercase S (last (parts nm)))"

definition or_default :: "string option \<Rightarrow> string" where
  "or_default x = (case x of None \<Rightarrow> [] | Some s \<Rightarrow> s)"

definition substring :: "string option \<Rightarrow> string option \<Rightarrow> string option \<Rightarrow> string" where
  "substring a0 a1 a2 =
     (let s = or_default a0;
          start = (case parse_usize (case a1 of None \<Rightarrow> ''1'' | Some t \<Rightarrow> t) of None \<Rightarrow> 1 | Some n \<Rightarrow> n);
          cs = drop (start - 1) (str_chars s)
      in case a2 of
           Some t \<Rightarrow> concat (take (case parse_usize t of None \<Rightarrow> 0 | Some n \<Rightarrow> n) cs)
         | None \<Rightarrow> concat cs)"

definition call_function :: "'f std \<Rightarrow> string \<Rightarrow> string option list \<Rightarrow> string option" where
  "call_function S nm args =
     (let arg0 = (case args of [] \<Rightarrow> None | a # _ \<Rightarrow> a);
          arg1 = (if 1 < length args then args ! 1 else None);
          arg2 = (if 2 < length args then args ! 2 else None)
      in if nm = ''COUNT'' then Some ''1''
         else if nm \<in> {''SUM'', ''AVG'', ''MIN'', ''MAX''} then arg0
         else if nm = ''LENGTH'' then map_option (\<lambda>v. nat_show (length v)) arg0
         else if nm = ''UPPER'' then map_option (to_uppercase S) arg0
         else if nm = ''LOWER'' then map_option (to_lowercase S) arg0
         else if nm = ''TRIM'' then map_option trim arg0
         else if nm = ''SUBSTRING'' then Some (substring arg0 arg1 arg2)
         else if nm = ''CONCAT'' then Some (concat (map the (filter (\<lambda>a. a \<noteq> None) args)))
         else arg0)"

lemma size_arg: "ArgExpr e \<in> set args \<Longrightarrow> size e < Suc (size_list (size_FunctionArg size) args)"
  by (induction args) (auto simp: less_Suc_eq)

lemma size_list_member: "x \<in> set xs \<Longrightarrow> f x \<le> size_list f xs"
  by (induction xs) auto

function (sequential) evaluate_expr ::
    "'f std \<Rightarrow> 's Expr \<Rightarrow> row \<Rightarrow> TupleDesc option \<Rightarrow> string option"
  and evaluate_whens ::
    "'f std \<Rightarrow> string option \<Rightarrow> 's Expr WhenClause list \<Rightarrow> 's Expr option \<Rightarrow> row \<Rightarrow> TupleDesc option \<Rightarrow> string option"
where
  "evaluate_expr S (Lit l) row td = Some (literal_text l)"
| "evaluate_expr S (Identifier col) row td = column_value td row col"
| "evaluate_expr S (QualifiedIdentifier t col) row td = column_value td row col"
| "evaluate_expr S (BinaryOp l op r) row td =
     (case evaluate_expr S l row td of None \<Rightarrow> None
      | Some a \<Rightarrow> (case evaluate_expr S r row td of None \<Rightarrow> None | Some b \<Rightarrow> binary_op S op a b))"
| "evaluate_expr S (UnaryOp op e) row td =
     (case evaluate_expr S e row td of None \<Rightarrow> None | Some a \<Rightarrow> unary_op S op a)"
| "evaluate_expr S (IsNull e) row td =
     map_option (\<lambda>v. bool_show (null_text (trim v))) (evaluate_expr S e row td)"
| "evaluate_expr S (IsNotNull e) row td =
     map_option (\<lambda>v. bool_show (\<not> null_text (trim v))) (evaluate_expr S e row td)"
| "evaluate_expr S (TypeCast e ty) row td = evaluate_expr S e row td"
| "evaluate_expr S (Case operand ws els) row td =
     evaluate_whens S (case operand of None \<Rightarrow> None | Some e \<Rightarrow> evaluate_expr S e row td) ws els row td"
| "evaluate_expr S (Function (FunctionCall nm args flt ov)) row td =
     call_function S (function_name S nm)
       (map (\<lambda>a. case a of ArgExpr e \<Rightarrow> evaluate_expr S e row td | ArgStar \<Rightarrow> Some ''*'') args)"
| "evaluate_expr S (Between e neg lo hi) row td =
     (case evaluate_expr S e row td of None \<Rightarrow> None
      | Some v \<Rightarrow> (case evaluate_expr S lo row td of None \<Rightarrow> None
        | Some l \<Rightarrow> (case evaluate_expr S hi row td of None \<Rightarrow> None
          | Some h \<Rightarrow> Some (bool_show (if neg then \<not> in_between S v l h else in_between S v l h)))))"
| "evaluate_expr S (InList e neg es) row td =
     (case evaluate_expr S e row td of None \<Rightarrow> None
      | Some v \<Rightarrow>
          let hit = list_ex (\<lambda>x. evaluate_expr S x row td = Some v) es
          in Some (bool_show (if neg then \<not> hit else hit)))"
| "evaluate_expr S e row td = None"
| "evaluate_whens S op [] els row td =
     (case els of Some e \<Rightarrow> evaluate_expr S e row td | None \<Rightarrow> Some ''NULL'')"
| "evaluate_whens S op (WhenClause w t # ws) els row td =
     (case evaluate_expr S w row td of
        None \<Rightarrow> None
      | Some c \<Rightarrow>
          if (case op of Some o' \<Rightarrow> c = o' | None \<Rightarrow> c = ''true'' \<or> c = ''t'')
          then evaluate_expr S t row td
          else evaluate_whens S op ws els row td)"
  by pat_completeness auto

termination
proof (relation "measure (\<lambda>x. case x of Inl (S, e, row, td) \<Rightarrow> 2 * size e
      | Inr (S, op, ws, els, row, td) \<Rightarrow> 2 * (size_list (size_WhenClause size) ws + size_option size els) + 1)", goal_cases)
  case (2 S l op r row td)
  then show ?case by simp
qed (auto dest: size_arg size_list_member [where f = size])

definition evaluate_where :: "'f std \<Rightarrow> 's Expr \<Rightarrow> row \<Rightarrow> TupleDesc option \<Rightarrow> bool" where
  "evaluate_where S e row td =
     (case evaluate_expr S e row td of Some r \<Rightarrow> r = ''true'' \<or> r = ''t'' | None \<Rightarrow> False)"

section \<open>Well-typed expressions have a value\<close>

text \<open>
  The fragment in which every expression has a value: columns that exist, literals, comparisons, the logical
  connectives on truth values, case distinctions and functions with a first argument. Arithmetic is left out,
  because an operand may be no number.
\<close>

datatype ty = TBool | TText

definition comparison :: "BinaryOperator \<Rightarrow> bool" where
  "comparison op \<longleftrightarrow>
     op \<in> {Equals, NotEquals, LessThan, LessOrEqual, GreaterThan, GreaterOrEqual, Like, ILike}"

inductive has_type :: "TupleDesc \<Rightarrow> 's Expr \<Rightarrow> ty \<Rightarrow> bool" for d where
  lit: "has_type d (Lit l) TText"
| truth: "has_type d (Lit (LBool b)) TBool"
| ident: "column_index d col \<noteq> None \<Longrightarrow> has_type d (Identifier col) TText"
| qualid: "column_index d col \<noteq> None \<Longrightarrow> has_type d (QualifiedIdentifier t col) TText"
| compare: "comparison op \<Longrightarrow> has_type d l TText \<Longrightarrow> has_type d r TText \<Longrightarrow> has_type d (BinaryOp l op r) TBool"
| connect: "op \<in> {And, Or} \<Longrightarrow> has_type d l TBool \<Longrightarrow> has_type d r TBool \<Longrightarrow> has_type d (BinaryOp l op r) TBool"
| negate: "has_type d e TBool \<Longrightarrow> has_type d (UnaryOp UNot e) TBool"
| isnull: "has_type d e TText \<Longrightarrow> has_type d (IsNull e) TBool"
| isnotnull: "has_type d e TText \<Longrightarrow> has_type d (IsNotNull e) TBool"
| between: "has_type d e TText \<Longrightarrow> has_type d lo TText \<Longrightarrow> has_type d hi TText \<Longrightarrow>
    has_type d (Between e neg lo hi) TBool"
| inlist: "has_type d e TText \<Longrightarrow> has_type d (InList e neg es) TBool"
| cast: "has_type d e t \<Longrightarrow> has_type d (TypeCast e dt) t"
| call: "has_type d e TText \<Longrightarrow> has_type d (Function (FunctionCall nm (ArgExpr e # args) flt ov)) TText"
| case_nil: "has_type d (Case operand [] None) TText"
| case_else: "has_type d e TText \<Longrightarrow> has_type d (Case operand [] (Some e)) TText"
| case_when: "has_type d w TText \<Longrightarrow> has_type d t TText \<Longrightarrow> has_type d (Case operand ws els) TText \<Longrightarrow>
    has_type d (Case operand (WhenClause w t # ws) els) TText"
| as_text: "has_type d e TBool \<Longrightarrow> has_type d e TText"

lemma column_value_some:
  assumes "column_index d col \<noteq> None" "length row = length (td_fields d)"
  shows "\<exists>v. column_value (Some d) row col = Some v"
proof -
  obtain i where i: "column_index d col = Some i" using assms(1) by auto
  then have "i < length row" using assms(2) by (simp add: column_index_def position_Some)
  with i show ?thesis by (simp add: column_value_def nth_opt_def)
qed

lemma comparison_value:
  assumes "comparison op"
  shows "\<exists>b. binary_op S op l r = Some (bool_show b)"
  using assms by (auto simp: comparison_def binary_op_def)

lemma connective_value:
  assumes "op \<in> {And, Or}"
  shows "\<exists>b. binary_op S op (bool_show x) (bool_show y) = Some (bool_show b)"
  using assms by (auto simp: binary_op_def logic_def)

lemma call_function_first: "\<exists>v. call_function S nm (Some a # args) = Some v"
  by (simp add: call_function_def Let_def)

definition value_of :: "ty \<Rightarrow> string option \<Rightarrow> bool" where
  "value_of t r = (case t of TText \<Rightarrow> (\<exists>v. r = Some v) | TBool \<Rightarrow> (\<exists>b. r = Some (bool_show b)))"

lemma value_of_simps [simp]:
  "value_of TText r = (\<exists>v. r = Some v)"
  "value_of TBool r = (\<exists>b. r = Some (bool_show b))"
  by (simp_all add: value_of_def)

lemma has_type_value:
  assumes "has_type d e t" "length row = length (td_fields d)"
  shows "value_of t (evaluate_expr S e row (Some d))"
  using assms
proof (induction rule: has_type.induct)
  case (ident col)
  then show ?case using column_value_some by simp
next
  case (qualid col t)
  then show ?case using column_value_some by simp
next
  case (compare op l r)
  then show ?case using comparison_value by fastforce
next
  case (connect op l r)
  then show ?case using connective_value by fastforce
next
  case (call e nm args flt ov)
  then show ?case using call_function_first by fastforce
next
  case (negate e)
  then show ?case by (auto simp: unary_op_def)
next
  case (case_when w t operand ws els)
  then show ?case by (auto split: option.splits)
qed (auto simp: Let_def)

text \<open>
  C14: a well-typed expression has a value on every row of its relation, and one of type \<open>TBool\<close> has the value \<open>true\<close>
  or \<open>false\<close>: in this fragment no row is lost because an expression cannot be evaluated.
\<close>

theorem typed_evaluation:
  assumes "has_type d e t" and "length row = length (td_fields d)"
  shows "\<exists>v. evaluate_expr S e row (Some d) = Some v \<and> (t = TBool \<longrightarrow> v \<in> {''true'', ''false''})"
  using has_type_value [OF assms, of S] by (cases t) (auto simp: bool_show_def)

lemma where_bool_show:
  "evaluate_expr S e row td = Some (bool_show b) \<Longrightarrow> evaluate_where S e row td = b"
  by (simp add: evaluate_where_def bool_show_def)

lemma typed_bool:
  assumes "has_type d e TBool" "length row = length (td_fields d)"
  shows "evaluate_expr S e row (Some d) = Some (bool_show (evaluate_where S e row (Some d)))"
  using has_type_value [OF assms, of S] where_bool_show by fastforce

text \<open>
  C15: on well-typed conditions the connectives of a \<open>WHERE\<close> clause are those of logic.
\<close>

theorem where_connectives:
  assumes "has_type d a TBool" and "has_type d b TBool" and "length row = length (td_fields d)"
  shows "(evaluate_where S (BinaryOp a And b) row (Some d) \<longleftrightarrow>
           evaluate_where S a row (Some d) \<and> evaluate_where S b row (Some d)) \<and>
         (evaluate_where S (BinaryOp a Or b) row (Some d) \<longleftrightarrow>
           evaluate_where S a row (Some d) \<or> evaluate_where S b row (Some d)) \<and>
         (evaluate_where S (UnaryOp UNot a) row (Some d) \<longleftrightarrow> \<not> evaluate_where S a row (Some d))"
proof -
  note v = typed_bool [OF assms(1,3), of S] typed_bool [OF assms(2,3), of S]
  show ?thesis
    by (intro conjI; rule where_bool_show) (simp_all add: v binary_op_def logic_def unary_op_def)
qed

section \<open>An expression reads only its columns\<close>

lemma size_when:
  "w \<in> set ws \<Longrightarrow> size (when_expr w) < size_list (size_WhenClause size) ws"
  "w \<in> set ws \<Longrightarrow> size (then_expr w) < size_list (size_WhenClause size) ws"
proof -
  assume w: "w \<in> set ws"
  have "size (when_expr w) + size (then_expr w) < size_WhenClause size w" by (cases w) simp
  then show "size (when_expr w) < size_list (size_WhenClause size) ws"
    "size (then_expr w) < size_list (size_WhenClause size) ws"
    using size_list_member [OF w, of "size_WhenClause size"] by simp_all
qed

lemma size_call_arg:
  "ArgExpr e \<in> set (fn_args f) \<Longrightarrow> size e < Suc (size_FunctionCall size f)"
  by (cases f) (auto dest: size_arg)

function (sequential) expr_columns :: "'s Expr \<Rightarrow> string set" where
  "expr_columns (Identifier col) = {col}"
| "expr_columns (QualifiedIdentifier t col) = {col}"
| "expr_columns (BinaryOp l op r) = expr_columns l \<union> expr_columns r"
| "expr_columns (UnaryOp op e) = expr_columns e"
| "expr_columns (IsNull e) = expr_columns e"
| "expr_columns (IsNotNull e) = expr_columns e"
| "expr_columns (TypeCast e ty) = expr_columns e"
| "expr_columns (Case operand ws els) =
     (case operand of None \<Rightarrow> {} | Some e \<Rightarrow> expr_columns e) \<union>
     (\<Union>w \<in> set ws. expr_columns (when_expr w) \<union> expr_columns (then_expr w)) \<union>
     (case els of None \<Rightarrow> {} | Some e \<Rightarrow> expr_columns e)"
| "expr_columns (Function f) =
     (\<Union>a \<in> set (fn_args f). case a of ArgExpr e \<Rightarrow> expr_columns e | ArgStar \<Rightarrow> {})"
| "expr_columns (Between e neg lo hi) = expr_columns e \<union> expr_columns lo \<union> expr_columns hi"
| "expr_columns (InList e neg es) = expr_columns e \<union> (\<Union>x \<in> set es. expr_columns x)"
| "expr_columns _ = {}"
  by pat_completeness auto
termination
  by (relation "measure size") (auto dest: size_when size_call_arg size_list_member [where f = size])

definition agree :: "TupleDesc option \<Rightarrow> row \<Rightarrow> TupleDesc option \<Rightarrow> row \<Rightarrow> string set \<Rightarrow> bool" where
  "agree td row td' row' cs \<longleftrightarrow> (\<forall>c \<in> cs. column_value td row c = column_value td' row' c)"

lemma agree_simps [simp]:
  "agree td row td' row' {}"
  "agree td row td' row' {c} \<longleftrightarrow> column_value td row c = column_value td' row' c"
  "agree td row td' row' (A \<union> B) \<longleftrightarrow> agree td row td' row' A \<and> agree td row td' row' B"
  "agree td row td' row' (\<Union>x \<in> X. f x) \<longleftrightarrow> (\<forall>x \<in> X. agree td row td' row' (f x))"
  by (auto simp: agree_def)

lemma evaluate_columns_aux:
  fixes e :: "'s Expr" and ws :: "'s Expr WhenClause list"
  shows "agree td row td' row' (expr_columns e) \<Longrightarrow> evaluate_expr S e row td = evaluate_expr S e row' td'"
    and "agree td row td' row' (\<Union>w \<in> set ws. expr_columns (when_expr w) \<union> expr_columns (then_expr w)) \<Longrightarrow>
      agree td row td' row' (case els of None \<Rightarrow> {} | Some x \<Rightarrow> expr_columns x) \<Longrightarrow>
      evaluate_whens S op ws els row td = evaluate_whens S op ws els row' td'"
proof (induction S e row td and S op ws els row td rule: evaluate_expr_evaluate_whens.induct)
  case (9 S operand ws els row td)
  have "(case operand of None \<Rightarrow> None | Some e \<Rightarrow> evaluate_expr S e row td) =
      (case operand of None \<Rightarrow> None | Some e \<Rightarrow> evaluate_expr S e row' td')"
    using 9(1,3) by (cases operand) auto
  then show ?case using 9(2,3) by simp
next
  case (10 S nm args flt ov row td)
  have "map (\<lambda>a. case a of ArgExpr e \<Rightarrow> evaluate_expr S e row td | ArgStar \<Rightarrow> Some ''*'') args =
      map (\<lambda>a. case a of ArgExpr e \<Rightarrow> evaluate_expr S e row' td' | ArgStar \<Rightarrow> Some ''*'') args"
    using 10 by (intro map_cong refl) (force split: FunctionArg.splits)
  then show ?case by (simp only: evaluate_expr.simps)
next
  case (12 S e neg es row td)
  have e: "evaluate_expr S e row td = evaluate_expr S e row' td'" using 12(1,3) by simp
  show ?case
  proof (cases "evaluate_expr S e row td")
    case (Some v)
    have "list_ex (\<lambda>x. evaluate_expr S x row td = Some v) es = list_ex (\<lambda>x. evaluate_expr S x row' td' = Some v) es"
      using 12(2) [OF Some] 12(3) by (intro list_ex_cong) auto
    then show ?thesis using Some e by simp
  qed (use e in simp)
qed (auto split: option.splits)

text \<open>
  An expression reads nothing of a row but the columns it names: two rows, even of two relations, that agree on
  them give the same value.
\<close>

theorem evaluate_reads_columns:
  assumes "\<forall>c \<in> expr_columns e. column_value td row c = column_value td' row' c"
  shows "evaluate_expr S e row td = evaluate_expr S e row' td'"
  using assms by (intro evaluate_columns_aux(1)) (simp add: agree_def)

section \<open>Order and matching\<close>

text \<open>
  \<open>BETWEEN\<close> is the conjunction of its two comparisons when one of the three values is no number. When all are
  numbers it compares them by value, which the comparison operators never do.
\<close>

theorem between_is_two_comparisons:
  assumes "evaluate_expr S e row td = Some v" "evaluate_expr S lo row td = Some l" "evaluate_expr S hi row td = Some h"
    and "f64_parse S v = None \<or> f64_parse S l = None \<or> f64_parse S h = None"
  shows "evaluate_expr S (Between e neg lo hi) row td =
      evaluate_expr S (let c = BinaryOp (BinaryOp e GreaterOrEqual lo) And (BinaryOp e LessOrEqual hi)
                       in if neg then UnaryOp UNot c else c) row td"
  using assms by (auto simp: in_between_def binary_op_def logic_def unary_op_def Let_def split: option.splits)

text \<open>
  The comparison operators order numbers as text: for every table and row \<open>10 < 9\<close> holds, while
  \<open>10 BETWEEN 0 AND 9\<close> does not as soon as numbers are read as numbers.
\<close>

theorem numbers_compared_as_text:
  assumes "f64_parse S ''10'' = Some a" "f64_parse S ''0'' = Some z" "f64_parse S ''9'' = Some b"
    and "\<not> f64_le S a b"
  shows "evaluate_where S (BinaryOp (Lit (LNumber ''10'')) LessThan (Lit (LNumber ''9''))) row td \<and>
         \<not> evaluate_where S (Between (Lit (LNumber ''10'')) False (Lit (LNumber ''0'')) (Lit (LNumber ''9''))) row td"
proof -
  have "''10'' < ''9''" by (simp add: less_char_def)
  then show ?thesis using assms by (simp add: evaluate_where_def binary_op_def in_between_def bool_show_def)
qed

text \<open>
  \<open>LIKE\<close> accepts a text exactly when the pattern without its per cent signs occurs somewhere in it. The position of
  the signs does not matter, and the underscore stands for itself.
\<close>

theorem like_is_substring:
  assumes "evaluate_expr S e row td = Some v" "evaluate_expr S p row td = Some q"
  shows "evaluate_where S (BinaryOp e Like p) row td \<longleftrightarrow> (\<exists>a b. v = a @ remove_char CHR ''%'' q @ b)"
  using assms by (simp add: evaluate_where_def binary_op_def like_match_def bool_show_def str_contains_iff)

text \<open>A null is a text like any other: \<open>NULL = NULL\<close> holds, and a condition on a value that has none fails both ways.\<close>

theorem null_logic:
  "evaluate_where S (BinaryOp (Lit LNull) Equals (Lit LNull)) row td \<and>
   (evaluate_expr S e row td = None \<longrightarrow>
     \<not> evaluate_where S (IsNull e) row td \<and> \<not> evaluate_where S (IsNotNull e) row td \<and>
     \<not> evaluate_where S (BinaryOp (Lit (LBool True)) Or (IsNull e)) row td)"
  by (simp add: evaluate_where_def binary_op_def bool_show_def)

section \<open>Instances\<close>

text \<open>A record \<open>std\<close> whose numbers are the integers and whose case mapping is that of ASCII.\<close>

definition int_std :: "int std" where
  "int_std = \<lparr>to_uppercase = to_ascii_uppercase, to_lowercase = map ascii_lower, f64_parse = parse_i64,
     f64_show = int_show, f64_add = (+), f64_sub = (-), f64_mul = (*), f64_div = (div), f64_rem = (mod),
     f64_neg = uminus, f64_of_nat = int, f64_sum_start = 0, f64_eq = (=), f64_le = (\<le>)\<rparr>"

definition ab_desc :: TupleDesc where
  "ab_desc = \<lparr>td_fields = [\<lparr>att_name = ''a'', att_type_oid = 25, att_attnum = 0, att_typmod = - 1\<rparr>,
                           \<lparr>att_name = ''b'', att_type_oid = 25, att_attnum = 1, att_typmod = - 1\<rparr>]\<rparr>"

lemma ab_columns: "column_index ab_desc ''a'' = Some 0" "column_index ab_desc ''B'' = Some 1"
  by code_simp+

abbreviation a_is_x :: "unit Expr" where
  "a_is_x \<equiv> BinaryOp (Identifier ''a'') Equals (Lit (LString ''x''))"

lemma a_is_x_type: "has_type ab_desc a_is_x TBool"
  by (intro has_type.intros) (simp_all add: comparison_def ab_columns)

theorem typed_evaluation_witness:
  "\<exists>v. evaluate_expr int_std (UnaryOp UNot a_is_x) [''x'', ''y''] (Some ab_desc) = Some v \<and>
     (TBool = TBool \<longrightarrow> v \<in> {''true'', ''false''})"
  by (rule typed_evaluation [OF has_type.negate [OF a_is_x_type]]) (simp add: ab_desc_def)

theorem where_connectives_witness:
  "\<not> evaluate_where int_std (BinaryOp a_is_x And (UnaryOp UNot a_is_x)) [''x'', ''y''] (Some ab_desc)"
  using where_connectives [OF a_is_x_type has_type.negate [OF a_is_x_type], of "[''x'', ''y'']" int_std]
    where_connectives [OF a_is_x_type a_is_x_type, of "[''x'', ''y'']" int_std]
  by (simp add: ab_desc_def)

theorem evaluate_reads_columns_witness:
  "evaluate_expr int_std a_is_x [''x'', ''y''] (Some ab_desc) = evaluate_expr int_std a_is_x [''x'', ''z''] (Some ab_desc)"
  by (rule evaluate_reads_columns) (simp add: column_value_def ab_columns nth_opt_def)

theorem numbers_compared_as_text_witness:
  "evaluate_where int_std (BinaryOp (Lit (LNumber ''10'')) LessThan (Lit (LNumber ''9'')) :: unit Expr) [] None \<and>
   \<not> evaluate_where int_std
       (Between (Lit (LNumber ''10'')) False (Lit (LNumber ''0'')) (Lit (LNumber ''9'')) :: unit Expr) [] None"
  by (rule numbers_compared_as_text [where a = 10 and z = 0 and b = 9])
    (simp_all add: int_std_def parse_i64_def digits_value_def is_ascii_digit_def less_eq_char_def)

theorem like_is_substring_witness:
  "evaluate_where int_std (BinaryOp (Lit (LString ''xay'')) Like (Lit (LString ''a%'')) :: unit Expr) [] None"
  using like_is_substring [of int_std "Lit (LString ''xay'') :: unit Expr" "[]" None "''xay''" "Lit (LString ''a%'')" "''a%''"]
  by (auto simp: remove_char_def intro: exI [of _ "''x''"])

theorem between_is_two_comparisons_witness:
  "evaluate_expr int_std (Between (Lit (LString ''b'')) True (Lit (LString ''a'')) (Lit (LString ''c'')) :: unit Expr) [] None =
   Some ''false''"
  using between_is_two_comparisons [of int_std "Lit (LString ''b'') :: unit Expr" "[]" None "''b''" "Lit (LString ''a'')"
      "''a''" "Lit (LString ''c'')" "''c''" True]
  by (simp add: int_std_def parse_i64_def digits_value_def is_ascii_digit_def less_eq_char_def less_char_def
      binary_op_def logic_def unary_op_def parse_bool_def bool_show_def)

end
