(* ===== verification/Join.thy ===== *)
theory Join
  imports Eval "HOL-Library.Multiset"
begin

text \<open>
  The join algorithms (\<open>executor/select/algorithms.rs\<close>, \<open>executor/select/joins.rs\<close>). A missing value is the empty
  string.
\<close>

type_synonym trow = "ItemPointerData \<times> row"

datatype JoinAlgorithm = NestedLoop | Hash | Merge

definition choose_join_algorithm :: "nat \<Rightarrow> nat \<Rightarrow> JoinType \<Rightarrow> JoinAlgorithm" where
  "choose_join_algorithm left_size right_size jt =
     (if left_size \<le> 1000 \<or> right_size \<le> 1000 then Hash else Merge)"

text \<open>\<open>rows.first().map(|(_, r)| r.len()).unwrap_or(0)\<close>\<close>

definition col_count :: "trow list \<Rightarrow> nat" where
  "col_count rows = (case rows of [] \<Rightarrow> 0 | r # _ \<Rightarrow> length (snd r))"

definition right_cols :: "trow list \<Rightarrow> trow list \<Rightarrow> nat" where
  "right_cols left right = (if right = [] then col_count left else col_count right)"

definition pad :: "nat \<Rightarrow> row" where
  "pad n = replicate n []"

text \<open>The two sides of the condition: of an equality, and of any binary operator.\<close>

fun equi_sides :: "'s Expr \<Rightarrow> ('s Expr \<times> 's Expr) option" where
  "equi_sides (BinaryOp l op r) = (if op = Equals then Some (l, r) else None)"
| "equi_sides _ = None"

fun op_sides :: "'s Expr \<Rightarrow> ('s Expr \<times> 's Expr) option" where
  "op_sides (BinaryOp l op r) = Some (l, r)"
| "op_sides _ = None"

definition side_key :: "'f std \<Rightarrow> TupleDesc option \<Rightarrow> 's Expr option \<Rightarrow> row \<Rightarrow> string option" where
  "side_key S td side row = (case side of None \<Rightarrow> None | Some e \<Rightarrow> evaluate_expr S e row td)"

section \<open>Hash join\<close>

definition build_table :: "(row \<Rightarrow> string option) \<Rightarrow> trow list \<Rightarrow> (string \<rightharpoonup> row list)" where
  "build_table key right =
     foldl (\<lambda>m tr. case key (snd tr) of Some k \<Rightarrow> vec_push m k (snd tr) | None \<Rightarrow> m) Map.empty right"

definition probe :: "(row \<Rightarrow> string option) \<Rightarrow> (string \<rightharpoonup> row list) \<Rightarrow> JoinType \<Rightarrow> nat \<Rightarrow> trow \<Rightarrow> trow list" where
  "probe key table jt rcc tr =
     (case key (snd tr) of
        None \<Rightarrow> []
      | Some k \<Rightarrow>
          (case table k of
             Some rs \<Rightarrow> map (\<lambda>r. (fst tr, snd tr @ r)) rs
           | None \<Rightarrow> if jt = Left then [(fst tr, snd tr @ pad rcc)] else []))"

text \<open>The test that a row has a partner: its key is evaluated, and some row of the other side has the same one.\<close>

definition has_partner :: "(row \<Rightarrow> string option) \<Rightarrow> (row \<Rightarrow> string option) \<Rightarrow> trow list \<Rightarrow> row \<Rightarrow> bool" where
  "has_partner key other rows row =
     (case key row of None \<Rightarrow> False | Some k \<Rightarrow> list_ex (\<lambda>tr. other (snd tr) = Some k) rows)"

definition zero_tid :: ItemPointerData where
  "zero_tid = \<lparr>ip_page_id = 0, ip_offset = 0\<rparr>"

definition hash_join ::
    "'f std \<Rightarrow> trow list \<Rightarrow> trow list \<Rightarrow> 's Expr \<Rightarrow> JoinType \<Rightarrow> TupleDesc option \<Rightarrow> trow list" where
  "hash_join S left right on_expr jt left_desc =
     (let rcc = right_cols left right;
          kl = side_key S left_desc (map_option fst (equi_sides on_expr));
          kr = side_key S left_desc (map_option snd (equi_sides on_expr));
          ml = side_key S left_desc (map_option fst (op_sides on_expr));
          mr = side_key S left_desc (map_option snd (op_sides on_expr));
          table = build_table kr right;
          probed = concat (map (probe kl table jt rcc) left);
          rights = (if jt = Right \<or> jt = Full
                    then map (\<lambda>tr. (zero_tid, pad (col_count left) @ snd tr))
                           (filter (\<lambda>tr. \<not> has_partner mr ml left (snd tr)) right)
                    else []);
          lefts = (if jt = Full
                   then map (\<lambda>tr. (fst tr, snd tr @ pad rcc))
                          (filter (\<lambda>tr. \<not> has_partner ml mr right (snd tr)) left)
                   else [])
      in probed @ rights @ lefts)"

section \<open>Merge join\<close>

type_synonym krow = "ItemPointerData \<times> row \<times> string"

abbreviation krow_key :: "krow \<Rightarrow> string" where
  "krow_key x \<equiv> snd (snd x)"

definition with_keys :: "(row \<Rightarrow> string option) \<Rightarrow> trow list \<Rightarrow> krow list" where
  "with_keys key rows = map (\<lambda>tr. (fst tr, snd tr, or_default (key (snd tr)))) rows"

definition pad_right :: "nat \<Rightarrow> krow \<Rightarrow> trow" where
  "pad_right n x = (fst x, fst (snd x) @ pad n)"

definition pad_left :: "nat \<Rightarrow> krow \<Rightarrow> trow" where
  "pad_left n x = (fst x, pad n @ fst (snd x))"

definition combine :: "krow \<Rightarrow> krow \<Rightarrow> trow" where
  "combine x y = (fst x, fst (snd x) @ fst (snd y))"

text \<open>
  The loop on the sorted rows from the positions \<open>i\<close> and \<open>j\<close> on. A row behind the positions is marked as matched,
  a row at or after them never is, so the flags need no representation: at every test they are still false.
\<close>

function merge_loop :: "JoinType \<Rightarrow> nat \<Rightarrow> nat \<Rightarrow> krow list \<Rightarrow> krow list \<Rightarrow> trow list" where
  "merge_loop jt rcc lcc ls rs =
     (case (ls, rs) of
        (x # xs, y # ys) \<Rightarrow>
          (if krow_key x = krow_key y then
             concat (map (\<lambda>u. map (combine u) (takeWhile (\<lambda>v. krow_key v = krow_key x) rs))
                         (takeWhile (\<lambda>u. krow_key u = krow_key x) ls)) @
             merge_loop jt rcc lcc (dropWhile (\<lambda>u. krow_key u = krow_key x) ls)
               (dropWhile (\<lambda>v. krow_key v = krow_key x) rs)
           else if krow_key x < krow_key y then
             (if jt = Left \<or> jt = Full then [pad_right rcc x] else []) @ merge_loop jt rcc lcc xs rs
           else (if jt = Right \<or> jt = Full then [pad_left lcc y] else []) @ merge_loop jt rcc lcc ls ys)
      | _ \<Rightarrow> (if jt = Left \<or> jt = Full then map (pad_right rcc) ls else []) @
             (if jt = Right \<or> jt = Full then map (pad_left lcc) rs else []))"
  by pat_completeness auto
termination
  by (relation "measure (\<lambda>(jt, rcc, lcc, ls, rs). length ls + length rs)")
    (auto simp: less_Suc_eq_le intro: le_trans [OF add_le_mono [OF length_dropWhile_le length_dropWhile_le]])

declare merge_loop.simps [simp del]

definition merge_join ::
    "'f std \<Rightarrow> trow list \<Rightarrow> trow list \<Rightarrow> 's Expr \<Rightarrow> JoinType \<Rightarrow> TupleDesc option \<Rightarrow> trow list" where
  "merge_join S left right on_expr jt left_desc =
     (let rcc = right_cols left right; lcc = col_count left;
          ls = with_keys (side_key S left_desc (map_option fst (op_sides on_expr))) left;
          rs = with_keys (side_key S left_desc (map_option snd (op_sides on_expr))) right
      in if left = [] \<or> right = [] then
           (if jt = Left \<or> jt = Full then map (pad_right rcc) ls else []) @
           (if jt = Right \<or> jt = Full then map (pad_left lcc) rs else [])
         else merge_loop jt rcc lcc (sort_key krow_key ls) (sort_key krow_key rs))"

section \<open>Nested loop, \<open>USING\<close>, and the choice\<close>

definition evaluate_join_condition :: "'f std \<Rightarrow> 's Expr \<Rightarrow> row \<Rightarrow> TupleDesc option \<Rightarrow> bool" where
  "evaluate_join_condition S e row td =
     (case evaluate_expr S e row td of Some v \<Rightarrow> v = ''true'' \<or> v = ''t'' | None \<Rightarrow> False)"

definition nested_loop_join ::
    "'f std \<Rightarrow> trow list \<Rightarrow> trow list \<Rightarrow> 's Expr \<Rightarrow> JoinType \<Rightarrow> TupleDesc option \<Rightarrow> nat \<Rightarrow> trow list" where
  "nested_loop_join S left right on_expr jt left_desc rcc =
     (let ok = (\<lambda>x y. evaluate_join_condition S on_expr (snd x @ snd y) left_desc);
          hits = (\<lambda>x. map (\<lambda>y. (fst x, snd x @ snd y)) (filter (ok x) right));
          outer = (\<lambda>x. if hits x = [] then [(fst x, snd x @ pad rcc)] else hits x)
      in case jt of
           Inner \<Rightarrow> concat (map hits left)
         | Left \<Rightarrow> concat (map outer left)
         | Right \<Rightarrow>
             concat (map (\<lambda>y.
               let hs = map (\<lambda>x. (fst y, snd x @ snd y)) (filter (\<lambda>x. ok x y) left)
               in if hs = [] then [(fst y, pad (col_count left) @ snd y)] else hs) right)
         | Full \<Rightarrow>
             concat (map outer left) @
             map (\<lambda>y. (fst y, pad (col_count left) @ snd y)) (filter (\<lambda>y. \<not> list_ex (\<lambda>x. ok x y) left) right)
         | Cross \<Rightarrow> concat (map (\<lambda>x. map (\<lambda>y. (fst x, snd x @ snd y)) right) left)
         | Lateral \<Rightarrow> concat (map (\<lambda>x. map (\<lambda>y. (fst x, snd x @ snd y)) right) left))"

text \<open>
  \<open>USING\<close> looks a column up twice in the same list of names, so both rows are compared at the same index; the
  bounds test of the right row is \<open>start + ri < start + rrow.len()\<close>.
\<close>

definition using_match :: "string list \<Rightarrow> string list \<Rightarrow> nat \<Rightarrow> row \<Rightarrow> row \<Rightarrow> bool" where
  "using_match col_names cols right_start lrow rrow =
     list_all (\<lambda>col.
       case (position (\<lambda>n. eq_ignore_ascii_case n col) col_names, position (\<lambda>n. eq_ignore_ascii_case n col) col_names) of
         (Some li, Some ri) \<Rightarrow>
           \<not> (li < length lrow \<and> right_start + ri < right_start + length rrow \<and> lrow ! li \<noteq> rrow ! ri)
       | _ \<Rightarrow> True) cols"

definition using_join :: "string list \<Rightarrow> trow list \<Rightarrow> trow list \<Rightarrow> string list \<Rightarrow> trow list" where
  "using_join col_names left right cols =
     concat (map (\<lambda>x. map (\<lambda>y. (fst x, snd x @ snd y))
       (filter (\<lambda>y. using_match col_names cols (col_count left) (snd x) (snd y)) right)) left)"

definition is_equi_join :: "'s Expr \<Rightarrow> bool" where
  "is_equi_join e = (case e of BinaryOp l op r \<Rightarrow> op = Equals | _ \<Rightarrow> False)"

definition execute_join ::
    "'f std \<Rightarrow> string list \<Rightarrow> trow list \<Rightarrow> trow list \<Rightarrow> 's Join \<Rightarrow> TupleDesc option \<Rightarrow> trow list" where
  "execute_join S col_names left right j left_desc =
     (let rcc = col_count right
      in case join_constraint j of
           On on_expr \<Rightarrow>
             (case (if is_equi_join on_expr
                    then choose_join_algorithm (length left) (length right) (join_type j) else NestedLoop) of
                Hash \<Rightarrow> hash_join S left right on_expr (join_type j) left_desc
              | Merge \<Rightarrow> merge_join S left right on_expr (join_type j) left_desc
              | NestedLoop \<Rightarrow> nested_loop_join S left right on_expr (join_type j) left_desc rcc)
         | NoConstraint \<Rightarrow> concat (map (\<lambda>x. map (\<lambda>y. (fst x, snd x @ snd y)) right) left)
         | Using cols \<Rightarrow> using_join col_names left right cols)"

section \<open>The join as a multiset\<close>

text \<open>
  The rows of a join in no particular order, over elements of any type: \<open>f\<close> combines two matching elements, \<open>g\<close> and
  \<open>h\<close> complete an element of the left or right side that has no match.
\<close>

definition mjoin ::
    "JoinType \<Rightarrow> ('a \<Rightarrow> 'b \<Rightarrow> 'c) \<Rightarrow> ('a \<Rightarrow> 'c) \<Rightarrow> ('b \<Rightarrow> 'c) \<Rightarrow> ('a \<Rightarrow> 'k) \<Rightarrow> ('b \<Rightarrow> 'k) \<Rightarrow>
      'a multiset \<Rightarrow> 'b multiset \<Rightarrow> 'c multiset" where
  "mjoin jt f g h kl kr L R =
     (\<Sum>x\<in>#L. image_mset (f x) {#y \<in># R. kr y = kl x#}) +
     (if jt = Left \<or> jt = Full then image_mset g {#x \<in># L. \<forall>y \<in># R. kr y \<noteq> kl x#} else {#}) +
     (if jt = Right \<or> jt = Full then image_mset h {#y \<in># R. \<forall>x \<in># L. kl x \<noteq> kr y#} else {#})"

lemma mset_concat_map: "mset (concat (map f xs)) = (\<Sum>x\<in>#mset xs. mset (f x))"
  by (induction xs) simp_all

lemma mjoin_empty [simp]:
  "mjoin jt f g h kl kr {#} R = (if jt = Right \<or> jt = Full then image_mset h R else {#})"
  "mjoin jt f g h kl kr L {#} = (if jt = Left \<or> jt = Full then image_mset g L else {#})"
  by (simp_all add: mjoin_def)

lemma mjoin_map:
  "image_mset p (mjoin jt f g h kl kr (image_mset a L) (image_mset b R)) =
     mjoin jt (\<lambda>x y. p (f (a x) (b y))) (p \<circ> g \<circ> a) (p \<circ> h \<circ> b) (kl \<circ> a) (kr \<circ> b) L R"
proof -
  have "image_mset p (\<Sum>x\<in>#image_mset a L. image_mset (f x) {#y \<in># image_mset b R. kr y = kl x#}) =
      (\<Sum>x\<in>#L. image_mset (\<lambda>y. p (f (a x) (b y))) {#y \<in># R. (kr \<circ> b) y = (kl \<circ> a) x#})"
    by (induction L) (simp_all add: filter_mset_image_mset image_mset.compositionality comp_def)
  then show ?thesis
    by (simp add: mjoin_def filter_mset_image_mset image_mset.compositionality comp_def)
qed

lemma mjoin_skip_left:
  assumes "\<forall>y \<in># R. kr y \<noteq> kl x"
  shows "mjoin jt f g h kl kr (add_mset x L) R =
    (if jt = Left \<or> jt = Full then {#g x#} else {#}) + mjoin jt f g h kl kr L R"
proof -
  have "{#y \<in># R. kr y = kl x#} = {#}" using assms by auto
  moreover have "{#y \<in># R. kl x \<noteq> kr y \<and> (\<forall>x \<in># L. kl x \<noteq> kr y)#} = {#y \<in># R. \<forall>x \<in># L. kl x \<noteq> kr y#}"
    using assms by (intro filter_mset_cong) auto
  ultimately show ?thesis using assms by (simp add: mjoin_def)
qed

lemma mjoin_skip_right:
  assumes "\<forall>x \<in># L. kl x \<noteq> kr y"
  shows "mjoin jt f g h kl kr L (add_mset y R) =
    (if jt = Right \<or> jt = Full then {#h y#} else {#}) + mjoin jt f g h kl kr L R"
proof -
  have "(\<Sum>x\<in>#L. image_mset (f x) {#z \<in># add_mset y R. kr z = kl x#}) =
      (\<Sum>x\<in>#L. image_mset (f x) {#z \<in># R. kr z = kl x#})"
    using assms by (intro arg_cong [where f = sum_mset] image_mset_cong) auto
  moreover have "{#x \<in># L. kr y \<noteq> kl x \<and> (\<forall>z \<in># R. kr z \<noteq> kl x)#} = {#x \<in># L. \<forall>z \<in># R. kr z \<noteq> kl x#}"
    using assms by (intro filter_mset_cong) auto
  ultimately show ?thesis using assms by (simp add: mjoin_def)
qed

lemma filter_mset_all: "\<forall>x \<in># M. P x \<Longrightarrow> filter_mset P M = M"
  by (simp add: filter_mset_eq_conv)

lemma filter_mset_none: "\<forall>x \<in># M. \<not> P x \<Longrightarrow> filter_mset P M = {#}"
  by simp

lemma filter_mset_block:
  assumes "\<forall>x \<in># A. \<not> P x" "\<forall>x \<in># L. P x = Q x"
  shows "filter_mset P (A + L) = filter_mset Q L"
proof -
  have "filter_mset P L = filter_mset Q L" using assms(2) by (intro filter_mset_cong) auto
  then show ?thesis using assms(1) by simp
qed

lemma mjoin_block:
  assumes A: "\<forall>x \<in># A. kl x = k" "A \<noteq> {#}" and B: "\<forall>y \<in># B. kr y = k" "B \<noteq> {#}"
    and L: "\<forall>x \<in># L. kl x \<noteq> k" and R: "\<forall>y \<in># R. kr y \<noteq> k"
  shows "mjoin jt f g h kl kr (A + L) (B + R) = (\<Sum>x\<in>#A. image_mset (f x) B) + mjoin jt f g h kl kr L R"
proof -
  obtain a b where ab: "a \<in># A" "b \<in># B" using A(2) B(2) by (meson multiset_nonemptyE)
  have 1: "(\<Sum>x\<in>#A. image_mset (f x) {#y \<in># B + R. kr y = kl x#}) = (\<Sum>x\<in>#A. image_mset (f x) B)"
    using A(1) B(1) R by (intro arg_cong [where f = sum_mset] image_mset_cong)
      (simp add: filter_mset_all filter_mset_none)
  have 2: "(\<Sum>x\<in>#L. image_mset (f x) {#y \<in># B + R. kr y = kl x#}) =
      (\<Sum>x\<in>#L. image_mset (f x) {#y \<in># R. kr y = kl x#})"
    using B(1) L by (intro arg_cong [where f = sum_mset] image_mset_cong) (auto simp: filter_mset_none)
  have 3: "{#x \<in># A + L. \<forall>y \<in># B + R. kr y \<noteq> kl x#} = {#x \<in># L. \<forall>y \<in># R. kr y \<noteq> kl x#}"
    using A(1) B(1) L ab(2) by (intro filter_mset_block) auto
  have 4: "{#y \<in># B + R. \<forall>x \<in># A + L. kl x \<noteq> kr y#} = {#y \<in># R. \<forall>x \<in># L. kl x \<noteq> kr y#}"
    using A(1) B(1) R ab(1) by (intro filter_mset_block) auto
  have 12: "(\<Sum>x\<in>#A + L. image_mset (f x) {#y \<in># B + R. kr y = kl x#}) =
      (\<Sum>x\<in>#A. image_mset (f x) B) + (\<Sum>x\<in>#L. image_mset (f x) {#y \<in># R. kr y = kl x#})"
    by (simp only: image_mset_union sum_mset.union 1 2)
  show ?thesis unfolding mjoin_def 12 3 4 by (simp only: add.assoc)
qed

section \<open>The algorithms compute the join\<close>

text \<open>A sorted list splits at its first key into a block with that key and the larger rest.\<close>

lemma sorted_block:
  assumes "sorted (map key (x # xs))"
  shows "\<forall>u \<in> set (takeWhile (\<lambda>u. key u = key x) (x # xs)). key u = key x"
    and "\<forall>u \<in> set (dropWhile (\<lambda>u. key u = key x) (x # xs)). (key u :: 'k :: linorder) \<noteq> key x"
    and "sorted (map key (dropWhile (\<lambda>u. key u = key x) (x # xs)))"
proof -
  show "\<forall>u \<in> set (takeWhile (\<lambda>u. key u = key x) (x # xs)). key u = key x" by (auto dest: set_takeWhileD)
  show sorted: "sorted (map key (dropWhile (\<lambda>u. key u = key x) (x # xs)))"
    using assms sorted_dropWhile [of "map key (x # xs)" "\<lambda>k. k = key x"]
    by (simp only: dropWhile_map comp_def)
  show "\<forall>u \<in> set (dropWhile (\<lambda>u. key u = key x) (x # xs)). key u \<noteq> key x"
  proof (cases "dropWhile (\<lambda>u. key u = key x) (x # xs)")
    case (Cons d ds)
    then have "key d \<noteq> key x" and d: "d \<in> set (x # xs)"
      using hd_dropWhile [of "\<lambda>u. key u = key x" "x # xs"] set_dropWhileD [of d "\<lambda>u. key u = key x" "x # xs"]
      by auto
    then have "key x < key d" using assms by auto
    moreover have "key d \<le> key u" if "u \<in> set (d # ds)" for u using sorted that Cons by auto
    ultimately show ?thesis unfolding Cons by fastforce
  qed (simp only: list.set, simp)
qed

lemma merge_loop_mjoin:
  assumes "sorted (map krow_key ls)" "sorted (map krow_key rs)"
  shows "mset (merge_loop jt rcc lcc ls rs) =
    mjoin jt combine (pad_right rcc) (pad_left lcc) krow_key krow_key (mset ls) (mset rs)"
  using assms
proof (induction jt rcc lcc ls rs rule: merge_loop.induct)
  case (1 jt rcc lcc ls rs)
  show ?case
  proof (cases "ls = [] \<or> rs = []")
    case True
    then show ?thesis by (auto simp: merge_loop.simps [of jt rcc lcc ls rs] split: list.splits)
  next
    case False
    then obtain x xs y ys where ls: "ls = x # xs" and rs: "rs = y # ys" by (meson list.exhaust)
    consider (eq) "krow_key x = krow_key y" | (less) "krow_key x < krow_key y" | (greater) "krow_key y < krow_key x"
      by (meson linorder_less_linear)
    then show ?thesis
    proof cases
      case eq
      let ?p = "\<lambda>u. krow_key u = krow_key x"
      note bl = sorted_block [of krow_key x xs, folded ls, OF 1(4)]
      note br = sorted_block [of krow_key y ys, folded rs, OF 1(5), folded eq]
      have ih: "mset (merge_loop jt rcc lcc (dropWhile ?p ls) (dropWhile ?p rs)) =
          mjoin jt combine (pad_right rcc) (pad_left lcc) krow_key krow_key
            (mset (dropWhile ?p ls)) (mset (dropWhile ?p rs))"
        using 1(1) [OF _ ls rs eq] bl(3) br(3) by (simp add: ls rs)
      have "mset (merge_loop jt rcc lcc ls rs) =
          (\<Sum>u\<in>#mset (takeWhile ?p ls). image_mset (combine u) (mset (takeWhile ?p rs))) +
          mset (merge_loop jt rcc lcc (dropWhile ?p ls) (dropWhile ?p rs))"
        by (subst merge_loop.simps) (simp add: ls rs eq mset_concat_map del: takeWhile.simps dropWhile.simps)
      also have "\<dots> = mjoin jt combine (pad_right rcc) (pad_left lcc) krow_key krow_key
          (mset (takeWhile ?p ls) + mset (dropWhile ?p ls)) (mset (takeWhile ?p rs) + mset (dropWhile ?p rs))"
        unfolding ih
      proof (rule mjoin_block [symmetric, where k = "krow_key x"])
        show "mset (takeWhile ?p ls) \<noteq> {#}" "mset (takeWhile ?p rs) \<noteq> {#}" by (simp_all add: ls rs eq)
        show "\<forall>u \<in># mset (takeWhile ?p ls). krow_key u = krow_key x" "\<forall>u \<in># mset (dropWhile ?p ls). krow_key u \<noteq> krow_key x"
          unfolding set_mset_mset by (rule bl)+
        show "\<forall>u \<in># mset (takeWhile ?p rs). krow_key u = krow_key x" "\<forall>u \<in># mset (dropWhile ?p rs). krow_key u \<noteq> krow_key x"
          unfolding set_mset_mset by (rule br)+
      qed
      finally show ?thesis by (metis mset_append takeWhile_dropWhile_id)
    next
      case less
      then have "\<forall>v \<in># mset rs. krow_key v \<noteq> krow_key x" using 1(5) by (auto simp: rs)
      note skip = mjoin_skip_left [where kl = krow_key and kr = krow_key, OF this]
      have "mset (merge_loop jt rcc lcc xs rs) =
          mjoin jt combine (pad_right rcc) (pad_left lcc) krow_key krow_key (mset xs) (mset rs)"
        using 1(2) [OF _ ls rs _ less] less 1(4,5) by (simp add: ls rs)
      moreover have "merge_loop jt rcc lcc ls rs =
          (if jt = Left \<or> jt = Full then [pad_right rcc x] else []) @ merge_loop jt rcc lcc xs rs"
        unfolding ls rs by (subst merge_loop.simps) (use less in \<open>simp add: less_imp_neq\<close>)
      moreover have "mset ls = add_mset x (mset xs)" by (simp add: ls)
      ultimately show ?thesis by (simp add: skip)
    next
      case greater
      then have "\<forall>u \<in># mset ls. krow_key u \<noteq> krow_key y" using 1(4) by (auto simp: ls)
      note skip = mjoin_skip_right [where kl = krow_key and kr = krow_key, OF this]
      have "mset (merge_loop jt rcc lcc ls ys) =
          mjoin jt combine (pad_right rcc) (pad_left lcc) krow_key krow_key (mset ls) (mset ys)"
        using 1(3) [OF _ ls rs] greater 1(4,5) by (simp add: ls rs)
      moreover have neq: "(krow_key x = krow_key y) = False" using greater by auto
      have "merge_loop jt rcc lcc ls rs =
          (if jt = Right \<or> jt = Full then [pad_left lcc y] else []) @ merge_loop jt rcc lcc ls ys"
        unfolding ls rs by (subst merge_loop.simps) (simp only: list.case prod.case less_not_sym [OF greater] neq if_False)
      moreover have "mset rs = add_mset y (mset ys)" by (simp add: rs)
      ultimately show ?thesis by (simp add: skip)
    qed
  qed
qed

text \<open>The same for an arbitrary condition.\<close>

definition pjoin ::
    "JoinType \<Rightarrow> ('a \<Rightarrow> 'b \<Rightarrow> 'c) \<Rightarrow> ('a \<Rightarrow> 'c) \<Rightarrow> ('b \<Rightarrow> 'c) \<Rightarrow> ('a \<Rightarrow> 'b \<Rightarrow> bool) \<Rightarrow>
      'a multiset \<Rightarrow> 'b multiset \<Rightarrow> 'c multiset" where
  "pjoin jt f g h ok L R =
     (\<Sum>x\<in>#L. image_mset (f x) (filter_mset (ok x) R)) +
     (if jt = Left \<or> jt = Full then image_mset g {#x \<in># L. \<forall>y \<in># R. \<not> ok x y#} else {#}) +
     (if jt = Right \<or> jt = Full then image_mset h {#y \<in># R. \<forall>x \<in># L. \<not> ok x y#} else {#})"

lemma mjoin_pjoin: "mjoin jt f g h kl kr = pjoin jt f g h (\<lambda>x y. kl x = kr y)"
  by (intro ext) (simp add: mjoin_def pjoin_def eq_commute)

lemma sum_singletons: "(\<Sum>x\<in>#M. if P x then {#g x#} else {#}) = image_mset g (filter_mset P M)"
  by (induction M) simp_all

lemma outer_rows:
  "(\<Sum>x\<in>#L. if \<forall>y \<in># R. \<not> ok x y then {#g x#} else image_mset (f x) (filter_mset (ok x) R)) =
     (\<Sum>x\<in>#L. image_mset (f x) (filter_mset (ok x) R)) + image_mset g {#x \<in># L. \<forall>y \<in># R. \<not> ok x y#}"
proof -
  have "(if \<forall>y \<in># R. \<not> ok x y then {#g x#} else image_mset (f x) (filter_mset (ok x) R)) =
      image_mset (f x) (filter_mset (ok x) R) + (if \<forall>y \<in># R. \<not> ok x y then {#g x#} else {#})" for x
    by (simp add: filter_mset_none)
  then show ?thesis by (simp only: sum_mset.distrib sum_singletons)
qed

lemma mjoin_key_cong:
  assumes "\<And>x y. x \<in># L \<Longrightarrow> y \<in># R \<Longrightarrow> (kr y = kl x) = (kr' y = kl' x)"
  shows "mjoin jt f g h kl kr L R = mjoin jt f g h kl' kr' L R"
proof -
  have "{#y \<in># R. kr y = kl x#} = {#y \<in># R. kr' y = kl' x#}" if "x \<in># L" for x
    using assms [OF that] by (rule filter_mset_cong [OF refl])
  then have 1: "(\<Sum>x\<in>#L. image_mset (f x) {#y \<in># R. kr y = kl x#}) =
      (\<Sum>x\<in>#L. image_mset (f x) {#y \<in># R. kr' y = kl' x#})"
    by (intro arg_cong [where f = sum_mset] image_mset_cong) simp
  have 2: "{#x \<in># L. \<forall>y \<in># R. kr y \<noteq> kl x#} = {#x \<in># L. \<forall>y \<in># R. kr' y \<noteq> kl' x#}"
    using assms by (intro filter_mset_cong ball_cong refl) simp
  have "(\<forall>x \<in># L. kl x \<noteq> kr y) = (\<forall>x \<in># L. kl' x \<noteq> kr' y)" if "y \<in># R" for y
    using assms [OF _ that] by (intro ball_cong refl) (metis (full_types))
  then have 3: "{#y \<in># R. \<forall>x \<in># L. kl x \<noteq> kr y#} = {#y \<in># R. \<forall>x \<in># L. kl' x \<noteq> kr' y#}"
    by (intro filter_mset_cong refl)
  show ?thesis unfolding mjoin_def 1 2 3 ..
qed

lemma build_table_at:
  "vec_at (build_table key right) k = filter (\<lambda>r. key r = Some k) (map snd right) \<and>
   no_empty_vec (build_table key right)"
  unfolding build_table_def
proof (induction right rule: rev_induct)
  case Nil
  then show ?case by (simp add: no_empty_vec_def)
next
  case (snoc tr right)
  then show ?case by (auto split: option.splits)
qed

lemma build_table_lookup:
  "build_table key right k =
     (let rs = filter (\<lambda>r. key r = Some k) (map snd right) in if rs = [] then None else Some rs)"
proof (cases "build_table key right k")
  case None
  then show ?thesis using build_table_at [of key right k] by (auto simp: vec_at_def Let_def split: option.splits)
next
  case (Some rs)
  then have "rs \<noteq> []" using build_table_at [of key right k] by (metis no_empty_vec_def)
  then show ?thesis using Some build_table_at [of key right k] by (auto simp: vec_at_def Let_def)
qed

text \<open>What a join of two tables on \<open>a = b\<close> should be: keys are compared by value, missing sides are empty strings.\<close>

definition join_spec ::
    "'f std \<Rightarrow> trow list \<Rightarrow> trow list \<Rightarrow> 's Expr \<Rightarrow> 's Expr \<Rightarrow> JoinType \<Rightarrow> TupleDesc option \<Rightarrow> row multiset" where
  "join_spec S left right a b jt td =
     mjoin jt (\<lambda>x y. snd x @ snd y) (\<lambda>x. snd x @ pad (right_cols left right)) (\<lambda>y. pad (col_count left) @ snd y)
       (\<lambda>x. evaluate_expr S a (snd x) td) (\<lambda>y. evaluate_expr S b (snd y) td) (mset left) (mset right)"

lemma side_key_simps [simp]:
  "side_key S td None = (\<lambda>_. None)"
  "side_key S td (Some e) = (\<lambda>row. evaluate_expr S e row td)"
  by (auto simp: side_key_def)

text \<open>The rows a probe yields, when the key of the probed row has a value.\<close>

lemma probe_rows:
  assumes "key (snd x) \<noteq> None"
  shows "mset (map snd (probe key (build_table other right) jt rcc x)) =
    (if \<forall>y \<in># mset right. other (snd y) \<noteq> key (snd x) then (if jt = Left then {#snd x @ pad rcc#} else {#})
     else image_mset (\<lambda>y. snd x @ snd y) {#y \<in># mset right. other (snd y) = key (snd x)#})"
proof -
  obtain k where k: "key (snd x) = Some k" using assms by auto
  have "filter (\<lambda>r. other r = Some k) (map snd right) = [] \<longleftrightarrow> (\<forall>y \<in># mset right. other (snd y) \<noteq> Some k)"
    by (auto simp: filter_empty_conv)
  moreover have "mset (map snd (map (\<lambda>r. (fst x, snd x @ r)) (filter (\<lambda>r. other r = Some k) (map snd right)))) =
      image_mset (\<lambda>y. snd x @ snd y) {#y \<in># mset right. other (snd y) = Some k#}"
    by (simp add: filter_map comp_def image_mset.compositionality)
  ultimately show ?thesis
    by (simp add: probe_def k build_table_lookup Let_def del: map_map)
qed

lemma no_partner:
  assumes "key (snd x) \<noteq> None"
  shows "(\<not> has_partner key other rows (snd x)) = (\<forall>y \<in># mset rows. other (snd y) \<noteq> key (snd x))"
proof -
  obtain k where "key (snd x) = Some k" using assms by auto
  then show ?thesis by (simp add: has_partner_def list_ex_iff)
qed

lemma hash_join_correct:
  assumes l: "\<forall>x \<in> set left. evaluate_expr S a (snd x) td \<noteq> None"
    and r: "\<forall>y \<in> set right. evaluate_expr S b (snd y) td \<noteq> None"
  shows "mset (map snd (hash_join S left right (BinaryOp a Equals b) jt td)) = join_spec S left right a b jt td"
proof -
  let ?kl = "\<lambda>row. evaluate_expr S a row td" and ?kr = "\<lambda>row. evaluate_expr S b row td"
  let ?rcc = "right_cols left right" and ?L = "mset left" and ?R = "mset right"
  let ?f = "\<lambda>x y. snd x @ snd y" and ?g = "\<lambda>x. snd x @ pad ?rcc"
  let ?ok = "\<lambda>x y. ?kr (snd y) = ?kl (snd x)"
  have "mset (map snd (concat (map (probe ?kl (build_table ?kr right) jt ?rcc) left))) =
      (\<Sum>x\<in>#?L. mset (map snd (probe ?kl (build_table ?kr right) jt ?rcc x)))"
    by (simp add: map_concat mset_concat_map comp_def)
  also have "\<dots> = (\<Sum>x\<in>#?L. if \<forall>y \<in># ?R. \<not> ?ok x y then (if jt = Left then {#?g x#} else {#})
      else image_mset (?f x) (filter_mset (?ok x) ?R))"
    using l by (intro arg_cong [where f = sum_mset] image_mset_cong probe_rows) simp
  also have "\<dots> = (\<Sum>x\<in>#?L. image_mset (?f x) (filter_mset (?ok x) ?R)) +
      (if jt = Left then image_mset ?g {#x \<in># ?L. \<forall>y \<in># ?R. \<not> ?ok x y#} else {#})"
    (is "?sum = _")
  proof (cases "jt = Left")
    case True
    then show ?thesis by (simp only: outer_rows if_True refl)
  next
    case False
    have "?sum = (\<Sum>x\<in>#?L. image_mset (?f x) (filter_mset (?ok x) ?R))"
      using False by (intro arg_cong [where f = sum_mset] image_mset_cong) (simp add: filter_mset_none)
    then show ?thesis using False by simp
  qed
  finally have probed: "mset (map snd (concat (map (probe ?kl (build_table ?kr right) jt ?rcc) left))) = \<dots>" .
  have lefts: "mset (map snd (map (\<lambda>tr. (fst tr, ?g tr)) (filter (\<lambda>tr. \<not> has_partner ?kl ?kr right (snd tr)) left))) =
      image_mset ?g {#x \<in># ?L. \<forall>y \<in># ?R. \<not> ?ok x y#}"
  proof -
    have "filter (\<lambda>tr. \<not> has_partner ?kl ?kr right (snd tr)) left = filter (\<lambda>x. \<forall>y \<in># ?R. \<not> ?ok x y) left"
      using l by (intro filter_cong no_partner refl) simp
    then show ?thesis by (simp add: comp_def mset_filter)
  qed
  have rights: "mset (map snd (map (\<lambda>tr. (zero_tid, pad (col_count left) @ snd tr))
      (filter (\<lambda>tr. \<not> has_partner ?kr ?kl left (snd tr)) right))) =
      image_mset (\<lambda>y. pad (col_count left) @ snd y) {#y \<in># ?R. \<forall>x \<in># ?L. ?kl (snd x) \<noteq> ?kr (snd y)#}"
  proof -
    have "filter (\<lambda>tr. \<not> has_partner ?kr ?kl left (snd tr)) right =
        filter (\<lambda>y. \<forall>x \<in># ?L. ?kl (snd x) \<noteq> ?kr (snd y)) right"
      using r by (intro filter_cong no_partner refl) simp
    then show ?thesis by (simp add: comp_def mset_filter)
  qed
  show ?thesis
    using probed lefts rights
    by (cases jt) (simp_all add: hash_join_def join_spec_def mjoin_def Let_def del: map_map)
qed

lemma with_keys_mset:
  "mset (with_keys key rows) = image_mset (\<lambda>tr. (fst tr, snd tr, or_default (key (snd tr)))) (mset rows)"
  by (simp add: with_keys_def)

lemma merge_join_mjoin:
  "mset (map snd (merge_join S left right (BinaryOp a Equals b) jt td)) =
     mjoin jt (\<lambda>x y. snd x @ snd y) (\<lambda>x. snd x @ pad (right_cols left right)) (\<lambda>y. pad (col_count left) @ snd y)
       (\<lambda>x. or_default (evaluate_expr S a (snd x) td)) (\<lambda>y. or_default (evaluate_expr S b (snd y) td))
       (mset left) (mset right)"
proof -
  let ?ls = "with_keys (\<lambda>row. evaluate_expr S a row td) left" and ?rs = "with_keys (\<lambda>row. evaluate_expr S b row td) right"
  let ?g = "pad_right (right_cols left right)" and ?h = "pad_left (col_count left)"
  have "mset (merge_join S left right (BinaryOp a Equals b) jt td) = mjoin jt combine ?g ?h krow_key krow_key (mset ?ls) (mset ?rs)"
  proof (cases "left = [] \<or> right = []")
    case True
    then show ?thesis by (auto simp: merge_join_def Let_def with_keys_def image_mset.compositionality)
  next
    case False
    then show ?thesis
      using merge_loop_mjoin [of "sort_key krow_key ?ls" "sort_key krow_key ?rs"]
      by (simp add: merge_join_def Let_def)
  qed
  then show ?thesis
    by (simp add: with_keys_mset mjoin_map combine_def pad_right_def pad_left_def comp_def)
qed

lemma or_default_inj: "a \<noteq> None \<Longrightarrow> b \<noteq> None \<Longrightarrow> (or_default a = or_default b) = (a = b)"
  by (auto simp: or_default_def)

text \<open>
  C12: on an equality whose sides have values on all rows, the hash join and the merge join return the same rows for
  every kind of join, and they are the rows the join should have: every pair with equal keys, and in outer joins
  every row without partner once, completed with empty strings.
\<close>

theorem join_algorithms_agree:
  assumes "\<forall>x \<in> set left. evaluate_expr S a (snd x) td \<noteq> None"
    and "\<forall>y \<in> set right. evaluate_expr S b (snd y) td \<noteq> None"
  shows "mset (map snd (hash_join S left right (BinaryOp a Equals b) jt td)) = join_spec S left right a b jt td \<and>
         mset (map snd (merge_join S left right (BinaryOp a Equals b) jt td)) = join_spec S left right a b jt td"
proof
  show "mset (map snd (merge_join S left right (BinaryOp a Equals b) jt td)) = join_spec S left right a b jt td"
    unfolding merge_join_mjoin join_spec_def
    using assms by (intro mjoin_key_cong or_default_inj) auto
qed (rule hash_join_correct [OF assms])

text \<open>
  Where a key has no value the two algorithms part, and a query changes its answer when its tables grow: the hash
  join drops the row from a left join, the merge join keeps it, and joins it with every row whose key is empty or
  has no value either.
\<close>

theorem missing_key_by_algorithm:
  assumes "evaluate_expr S a row td = None" and "evaluate_expr S b row' td = None"
  shows "hash_join S [(t, row)] [(t', row')] (BinaryOp a Equals b) Left td = [] \<and>
         merge_join S [(t, row)] [(t', row')] (BinaryOp a Equals b) Left td = [(t, row @ row')]"
  using assms
  by (simp add: hash_join_def merge_join_def Let_def probe_def with_keys_def or_default_def merge_loop.simps combine_def)

lemma swap_pairs:
  "(\<Sum>x\<in>#L. image_mset (f x) (filter_mset (ok x) R)) = (\<Sum>y\<in>#R. image_mset (\<lambda>x. f x y) {#x \<in># L. ok x y#})"
proof (induction L)
  case empty
  then show ?case by simp
next
  case (add a L)
  have "(\<Sum>y\<in>#R. image_mset (\<lambda>x. f x y) {#x \<in># add_mset a L. ok x y#}) =
      (\<Sum>y\<in>#R. (if ok a y then {#f a y#} else {#}) + image_mset (\<lambda>x. f x y) {#x \<in># L. ok x y#})"
    by (intro arg_cong [where f = sum_mset] image_mset_cong) simp
  then show ?case by (simp add: sum_mset.distrib sum_singletons add)
qed

lemma where_is_condition: "evaluate_join_condition = evaluate_where"
  by (intro ext) (simp add: evaluate_join_condition_def evaluate_where_def)

lemma outer_list:
  "mset (map snd (concat (map (\<lambda>x. if filter (ok x) right = [] then [g x]
      else map (f x) (filter (ok x) right)) left))) =
   (\<Sum>x\<in>#mset left. image_mset (\<lambda>y. snd (f x y)) (filter_mset (ok x) (mset right))) +
   image_mset (\<lambda>x. snd (g x)) {#x \<in># mset left. \<forall>y \<in># mset right. \<not> ok x y#}"
proof -
  have "mset (map snd (if filter (ok x) right = [] then [g x] else map (f x) (filter (ok x) right))) =
      (if \<forall>y \<in># mset right. \<not> ok x y then {#snd (g x)#} else
       image_mset (\<lambda>y. snd (f x y)) (filter_mset (ok x) (mset right)))" for x
    by (simp add: filter_empty_conv image_mset.compositionality comp_def)
  then show ?thesis
    by (simp only: map_concat map_map comp_def mset_concat_map outer_rows)
qed

text \<open>
  C13: the nested loop computes the join for any condition, inner and outer.
\<close>

theorem nested_loop_correct:
  assumes "jt \<in> {Inner, Left, Right, Full}"
  shows "mset (map snd (nested_loop_join S left right e jt td rcc)) =
    pjoin jt (\<lambda>x y. snd x @ snd y) (\<lambda>x. snd x @ pad rcc) (\<lambda>y. pad (col_count left) @ snd y)
      (\<lambda>x y. evaluate_where S e (snd x @ snd y) td) (mset left) (mset right)"
proof -
  let ?ok = "\<lambda>x y. evaluate_where S e (snd x @ snd y) td"
  note outer = outer_list [of ?ok right "\<lambda>x. (fst x, snd x @ pad rcc)" "\<lambda>x y. (fst x, snd x @ snd y)" left]
    outer_list [of "\<lambda>y x. ?ok x y" left "\<lambda>y. (fst y, pad (col_count left) @ snd y)" "\<lambda>y x. (fst y, snd x @ snd y)" right]
  consider "jt = Inner" | "jt = Left" | "jt = Right" | "jt = Full" using assms by auto
  then show ?thesis
  proof cases
    case 1
    then show ?thesis
      by (simp add: nested_loop_join_def where_is_condition pjoin_def map_concat mset_concat_map comp_def
          image_mset.compositionality)
  next
    case 2
    then show ?thesis using outer(1)
      by (simp add: nested_loop_join_def where_is_condition pjoin_def Let_def)
  next
    case 3
    have "(\<Sum>x\<in>#mset left. image_mset (\<lambda>y. snd x @ snd y) (filter_mset (?ok x) (mset right))) =
        (\<Sum>y\<in>#mset right. image_mset (\<lambda>x. snd x @ snd y) {#x \<in># mset left. ?ok x y#})"
      by (rule swap_pairs)
    then show ?thesis using 3 outer(2)
      by (simp add: nested_loop_join_def where_is_condition pjoin_def Let_def)
  next
    case 4
    have "{#y \<in># mset right. \<not> list_ex (\<lambda>x. ?ok x y) left#} = {#y \<in># mset right. \<forall>x \<in># mset left. \<not> ?ok x y#}"
      by (intro filter_mset_cong refl) (simp add: list_ex_iff)
    then show ?thesis using 4 outer(1)
      by (simp add: nested_loop_join_def where_is_condition pjoin_def Let_def comp_def image_mset.compositionality)
  qed
qed

text \<open>
  When the right side of a left join is empty, the hash join completes a row with as many empty strings as the row
  itself has columns, the nested loop with none: the width of the result depends on the algorithm and on the data.
\<close>

theorem empty_right_width:
  assumes "evaluate_expr S a row td \<noteq> None" and "\<not> is_equi_join e"
  shows "execute_join S cs [(t, row)] [] (Join tbl al Left (On (BinaryOp a Equals b))) td =
           [(t, row @ replicate (length row) [])] \<and>
         execute_join S cs [(t, row)] [] (Join tbl al Left (On e)) td = [(t, row)]"
  using assms
  by (auto simp: execute_join_def is_equi_join_def choose_join_algorithm_def hash_join_def probe_def build_table_def
      right_cols_def col_count_def pad_def nested_loop_join_def Let_def)

text \<open>
  \<open>USING\<close> resolves a column in the list of the last table only and compares both rows at that index, so a join of
  tables with the column at different places compares unrelated values.
\<close>

theorem using_compares_same_index:
  assumes "position (\<lambda>n. eq_ignore_ascii_case n col) col_names = Some i"
    and "i < length lrow" "i < length rrow"
  shows "using_join col_names [(t, lrow)] [(t', rrow)] [col] = (if lrow ! i = rrow ! i then [(t, lrow @ rrow)] else [])"
  using assms by (simp add: using_join_def using_match_def)

section \<open>Instances\<close>

lemma ab_values [simp]:
  "column_value (Some ab_desc) (v # vs) ''a'' = Some v"
  "column_value (Some ab_desc) [v, w] ''B'' = Some w"
  by (simp_all add: column_value_def ab_columns nth_opt_def)

theorem join_algorithms_agree_witness:
  "mset (map snd (hash_join int_std [(zero_tid, [''1'', ''x''])] [(zero_tid, [''2'', ''y''])]
      (BinaryOp (Identifier ''a'') Equals (Identifier ''a'') :: unit Expr) Full (Some ab_desc))) =
   {#[''1'', ''x'', '''', ''''], ['''', '''', ''2'', ''y'']#}"
  using join_algorithms_agree [of "[(zero_tid, [''1'', ''x''])]" int_std "Identifier ''a'' :: unit Expr" "Some ab_desc"
      "[(zero_tid, [''2'', ''y''])]" "Identifier ''a''" Full]
  by (simp add: join_spec_def mjoin_def pad_def right_cols_def col_count_def numeral_2_eq_2)

theorem missing_key_by_algorithm_witness:
  "hash_join int_std [(zero_tid, [''1''])] [(zero_tid, [''2''])]
      (BinaryOp (Identifier ''a'') Equals (Identifier ''a'') :: unit Expr) Left None = [] \<and>
   merge_join int_std [(zero_tid, [''1''])] [(zero_tid, [''2''])]
      (BinaryOp (Identifier ''a'') Equals (Identifier ''a'') :: unit Expr) Left None = [(zero_tid, [''1'', ''2''])]"
  using missing_key_by_algorithm [of int_std "Identifier ''a'' :: unit Expr" "[''1'']" None "Identifier ''a''" "[''2'']"
      zero_tid zero_tid]
  by (simp add: column_value_def)

theorem nested_loop_correct_witness:
  "mset (map snd (nested_loop_join int_std [(zero_tid, [''1''])] [(zero_tid, [''2''])]
      (Lit (LBool False) :: unit Expr) Left None 1)) = {#[''1'', '''']#}"
  using nested_loop_correct [of Left int_std "[(zero_tid, [''1''])]" "[(zero_tid, [''2''])]" "Lit (LBool False) :: unit Expr" None 1]
  by (simp add: pjoin_def evaluate_where_def bool_show_def pad_def)

theorem empty_right_width_witness:
  "execute_join int_std [] [(zero_tid, [''1'', ''x''])] []
     (Join (Subquery ()) None Left (On (BinaryOp (Identifier ''a'') Equals (Identifier ''a'')))) (Some ab_desc) =
   [(zero_tid, [''1'', ''x'', '''', ''''])]"
  using empty_right_width [of int_std "Identifier ''a'' :: unit Expr" "[''1'', ''x'']" "Some ab_desc" "Lit LNull" "[]"
      zero_tid "Subquery ()" None "Identifier ''a''"]
  by (simp add: is_equi_join_def numeral_2_eq_2)

theorem using_compares_same_index_witness:
  "using_join [''id'', ''v''] [(zero_tid, [''x'', ''1''])] [(zero_tid, [''1'', ''y''])] [''id''] = []"
  using using_compares_same_index [of "''id''" "[''id'', ''v'']" 0 "[''x'', ''1'']" "[''1'', ''y'']" zero_tid zero_tid]
  by simp

end
