(* ===== verification/Select_Ops.thy ===== *)
theory Select_Ops
  imports Join "HOL-Library.Sorting_Algorithms"
begin

text \<open>
  The row operations of the executor of \<open>SELECT\<close>: filters, duplicates, order, limit and offset
  (\<open>executor/select/filter_limit.rs\<close>), set operations (\<open>executor/select/set_ops.rs\<close>) and materialisation
  (\<open>executor/select/materialize.rs\<close>). \<open>sort_by\<close> is the stable sort of the library of comparators.
\<close>

section \<open>Filters\<close>

definition apply_where :: "'f std \<Rightarrow> TupleDesc option \<Rightarrow> trow list \<Rightarrow> 's Expr \<Rightarrow> trow list" where
  "apply_where S td rows e = filter (\<lambda>tr. evaluate_where S e (snd tr) td) rows"

definition apply_having :: "'f std \<Rightarrow> TupleDesc option \<Rightarrow> trow list \<Rightarrow> 's Expr \<Rightarrow> trow list" where
  "apply_having S td rows e = filter (\<lambda>tr. evaluate_where S e (snd tr) td) rows"

text \<open>A filter with a \<open>HashSet\<close> of the keys seen so far.\<close>

fun keep_new :: "('a \<Rightarrow> 'k) \<Rightarrow> 'k set \<Rightarrow> 'a list \<Rightarrow> 'a list" where
  "keep_new kf seen [] = []"
| "keep_new kf seen (x # xs) =
     (if kf x \<in> seen then keep_new kf seen xs else x # keep_new kf (insert (kf x) seen) xs)"

definition apply_distinct :: "trow list \<Rightarrow> trow list" where
  "apply_distinct rows = keep_new snd {} rows"

definition distinct_key :: "'f std \<Rightarrow> TupleDesc option \<Rightarrow> 's Expr list \<Rightarrow> row \<Rightarrow> string list" where
  "distinct_key S td es row = map (\<lambda>e. or_default (evaluate_expr S e row td)) es"

definition apply_distinct_on :: "'f std \<Rightarrow> TupleDesc option \<Rightarrow> trow list \<Rightarrow> 's Expr list \<Rightarrow> trow list" where
  "apply_distinct_on S td rows es = keep_new (\<lambda>tr. distinct_key S td es (snd tr)) {} rows"

section \<open>Order\<close>

definition str_cmp :: "string \<Rightarrow> string \<Rightarrow> comp" where
  "str_cmp a b = (if a < b then Less else if a = b then Equiv else Greater)"

fun reverse_cmp :: "comp \<Rightarrow> comp" where
  "reverse_cmp Less = Greater"
| "reverse_cmp Equiv = Equiv"
| "reverse_cmp Greater = Less"

definition nulls_first :: "'e OrderByItem \<Rightarrow> bool" where
  "nulls_first item = (case nulls item of First \<Rightarrow> True | _ \<Rightarrow> False)"

text \<open>The comparison of two values by one item; two nulls are equivalent.\<close>

definition item_cmp :: "'e OrderByItem \<Rightarrow> string \<Rightarrow> string \<Rightarrow> comp" where
  "item_cmp item a b =
     (if null_text a \<and> null_text b then Equiv
      else if null_text a then (if nulls_first item then Less else Greater)
      else if null_text b then (if nulls_first item then Greater else Less)
      else (case direction item of Asc \<Rightarrow> str_cmp a b | _ \<Rightarrow> reverse_cmp (str_cmp a b)))"

fun order_cmp :: "'f std \<Rightarrow> TupleDesc option \<Rightarrow> 's Expr OrderByItem list \<Rightarrow> row \<Rightarrow> row \<Rightarrow> comp" where
  "order_cmp S td [] a b = Equiv"
| "order_cmp S td (item # items) a b =
     (let c = item_cmp item (or_default (evaluate_expr S (order_expr item) a td))
                (or_default (evaluate_expr S (order_expr item) b td))
      in if c = Equiv then order_cmp S td items a b else c)"

section \<open>The order is a comparator\<close>

lemma item_cmp_comparator: "comparator (\<lambda>a b. item_cmp item (v a) (v b))"
  by unfold_locales (auto simp: item_cmp_def str_cmp_def split: SortDirection.splits if_splits)

lemma lex_comparator:
  assumes "comparator c" "comparator d"
  shows "comparator (\<lambda>a b. if c a b = Equiv then d a b else c a b)"
proof -
  show ?thesis
    by unfold_locales
      (use assms in \<open>auto simp: comparator.refl comparator.sym comparator.greater_iff_sym_less split: if_splits
        dest: comparator.trans_equiv comparator.trans_less comparator.trans_equiv_less comparator.trans_less_equiv\<close>)
qed

lemma order_cmp_comparator: "comparator (\<lambda>a b. order_cmp S td items (r a) (r b))"
proof (induction items)
  case Nil
  then show ?case by unfold_locales simp_all
next
  case (Cons item items)
  then show ?case
    using lex_comparator [OF item_cmp_comparator [of item "\<lambda>a. or_default (evaluate_expr S (order_expr item) (r a) td)"] Cons]
    by (simp add: Let_def)
qed

lift_definition row_order :: "'f std \<Rightarrow> TupleDesc option \<Rightarrow> 's Expr OrderByItem list \<Rightarrow> ('t \<times> row) comparator"
  is "\<lambda>S td items a b. order_cmp S td items (snd a) (snd b)"
  by (rule order_cmp_comparator)

definition apply_order_by :: "'f std \<Rightarrow> TupleDesc option \<Rightarrow> trow list \<Rightarrow> 's Expr OrderByItem list \<Rightarrow> trow list" where
  "apply_order_by S td rows items = sort (row_order S td items) rows"

section \<open>Limit and offset\<close>

definition count_value :: "'f std \<Rightarrow> TupleDesc option \<Rightarrow> 's Expr \<Rightarrow> nat" where
  "count_value S td e =
     (case evaluate_expr S e [] td of None \<Rightarrow> 0
      | Some v \<Rightarrow> (case parse_usize v of None \<Rightarrow> 0 | Some n \<Rightarrow> n))"

definition apply_offset :: "'f std \<Rightarrow> TupleDesc option \<Rightarrow> trow list \<Rightarrow> 's Expr \<Rightarrow> trow list" where
  "apply_offset S td rows e = drop (count_value S td e) rows"

definition apply_limit_offset :: "'f std \<Rightarrow> TupleDesc option \<Rightarrow> trow list \<Rightarrow> 's Expr LimitClause \<Rightarrow> trow list" where
  "apply_limit_offset S td rows lim =
     (case lim of LimitAll \<Rightarrow> rows | LimitExpr e \<Rightarrow> take (count_value S td e) rows)"

definition materialize :: "trow list \<Rightarrow> trow list" where
  "materialize rows = rows"

definition materialize_with_limit :: "trow list \<Rightarrow> nat \<Rightarrow> trow list" where
  "materialize_with_limit rows limit = take limit rows"

section \<open>A query without \<open>FROM\<close>\<close>

definition is_star :: "'e SelectItem \<Rightarrow> bool" where
  "is_star item = (case item of Star \<Rightarrow> True | TableStar _ \<Rightarrow> True | _ \<Rightarrow> False)"

definition execute_select_without_from :: "'f std \<Rightarrow> 's Expr SelectItem list \<Rightarrow> trow list" where
  "execute_select_without_from S items =
     (if list_ex is_star items then []
      else [(zero_tid,
             map (\<lambda>item. case item of
                 SelExpr e \<Rightarrow> or_default (evaluate_expr S e [] None)
               | ExprAs e _ \<Rightarrow> or_default (evaluate_expr S e [] None)
               | _ \<Rightarrow> []) items)])"

section \<open>Set operations\<close>

record SelectResult =
  columns :: "string list"
  result_rows :: "row list"

definition count_rows :: "row list \<Rightarrow> (row \<rightharpoonup> nat)" where
  "count_rows rows = foldl (\<lambda>m r. m(r \<mapsto> (case m r of None \<Rightarrow> 0 | Some n \<Rightarrow> n) + 1)) Map.empty rows"

fun intersect_all :: "(row \<rightharpoonup> nat) \<Rightarrow> row list \<Rightarrow> row list" where
  "intersect_all m [] = []"
| "intersect_all m (r # rs) =
     (case m r of
        Some n \<Rightarrow> if n > 0 then r # intersect_all (m(r \<mapsto> n - 1)) rs else intersect_all m rs
      | None \<Rightarrow> intersect_all m rs)"

fun except_all :: "(row \<rightharpoonup> nat) \<Rightarrow> row list \<Rightarrow> row list" where
  "except_all m [] = []"
| "except_all m (r # rs) =
     (case m r of
        Some n \<Rightarrow> if n > 0 then except_all (m(r \<mapsto> n - 1)) rs else r # except_all m rs
      | None \<Rightarrow> r # except_all m rs)"

definition apply_set_operation :: "SelectResult \<Rightarrow> SelectResult \<Rightarrow> SetOperator \<Rightarrow> SelectResult" where
  "apply_set_operation left right op =
     (let ls = result_rows left; rs = result_rows right
      in \<lparr>columns = columns left,
          result_rows =
            (case op of
               Union \<Rightarrow> keep_new (\<lambda>r. r) {} ls @ keep_new (\<lambda>r. r) (set ls) rs
             | UnionAll \<Rightarrow> ls @ rs
             | Intersect \<Rightarrow> filter (\<lambda>r. r \<in> set rs) ls
             | IntersectAll \<Rightarrow> intersect_all (count_rows rs) ls
             | Except \<Rightarrow> filter (\<lambda>r. r \<notin> set rs) ls
             | ExceptAll \<Rightarrow> except_all (count_rows rs) ls)\<rparr>)"

section \<open>Duplicates\<close>

lemma keep_new_snoc:
  "keep_new kf seen (xs @ [x]) = keep_new kf seen xs @ (if kf x \<in> seen \<union> kf ` set xs then [] else [x])"
  by (induction kf seen xs rule: keep_new.induct) auto

lemma set_keep_new: "kf ` set (keep_new kf seen xs) = kf ` set xs - seen"
  by (induction kf seen xs rule: keep_new.induct) auto

lemma distinct_keep_new: "distinct (map kf (keep_new kf seen xs))"
  by (induction kf seen xs rule: keep_new.induct) (auto simp: set_keep_new)

text \<open>
  \<open>DISTINCT\<close> and \<open>DISTINCT ON\<close> keep of every group of rows with the same key exactly the first: a row is kept if no
  row before it has its key.
\<close>

theorem distinct_keeps_first:
  "apply_distinct [] = [] \<and> apply_distinct_on S td [] es = [] \<and>
   apply_distinct (rows @ [x]) = apply_distinct rows @ (if snd x \<in> snd ` set rows then [] else [x]) \<and>
   apply_distinct_on S td (rows @ [x]) es = apply_distinct_on S td rows es @
     (if distinct_key S td es (snd x) \<in> (\<lambda>y. distinct_key S td es (snd y)) ` set rows then [] else [x])"
  by (simp add: apply_distinct_def apply_distinct_on_def keep_new_snoc)

section \<open>Set operations\<close>

definition row_count :: "(row \<rightharpoonup> nat) \<Rightarrow> row \<Rightarrow> nat" where
  "row_count m r = (case m r of None \<Rightarrow> 0 | Some n \<Rightarrow> n)"

lemma row_count_simps [simp]:
  "m r = Some n \<Longrightarrow> row_count m r = n"
  "m r = None \<Longrightarrow> row_count m r = 0"
  "row_count (m(r \<mapsto> n)) r' = (if r' = r then n else row_count m r')"
  by (simp_all add: row_count_def)

lemma row_count_rows: "row_count (count_rows rs) r = count (mset rs) r"
  unfolding count_rows_def
  by (induction rs rule: rev_induct) (auto simp: row_count_def split: option.splits)

lemma count_intersect_all: "count (mset (intersect_all m ls)) r = min (count (mset ls) r) (row_count m r)"
proof (induction m ls rule: intersect_all.induct)
  case (2 m x xs)
  then show ?case by (cases "m x") (auto simp del: fun_upd_apply)
qed simp

lemma count_except_all: "count (mset (except_all m ls)) r = count (mset ls) r - row_count m r"
proof (induction m ls rule: except_all.induct)
  case (2 m x xs)
  then show ?case by (cases "m x") (auto simp del: fun_upd_apply)
qed simp

text \<open>
  C38: \<open>UNION\<close> is the set union of the rows without duplicates, the three forms with \<open>ALL\<close> are the sum, the intersection
  and the difference of multisets. The columns are those of the left query.
\<close>

theorem set_operations_correct:
  "set (result_rows (apply_set_operation l r Union)) = set (result_rows l) \<union> set (result_rows r) \<and>
   distinct (result_rows (apply_set_operation l r Union)) \<and>
   mset (result_rows (apply_set_operation l r UnionAll)) = mset (result_rows l) + mset (result_rows r) \<and>
   mset (result_rows (apply_set_operation l r IntersectAll)) = mset (result_rows l) \<inter># mset (result_rows r) \<and>
   mset (result_rows (apply_set_operation l r ExceptAll)) = mset (result_rows l) - mset (result_rows r) \<and>
   columns (apply_set_operation l r op) = columns l"
proof (intro conjI)
  let ?ls = "result_rows l" and ?rs = "result_rows r"
  note keep = set_keep_new [of "\<lambda>r. r", simplified] distinct_keep_new [of "\<lambda>r. r", simplified]
  show "set (result_rows (apply_set_operation l r Union)) = set ?ls \<union> set ?rs"
    "distinct (result_rows (apply_set_operation l r Union))"
    by (auto simp: apply_set_operation_def Let_def keep)
  show "mset (result_rows (apply_set_operation l r IntersectAll)) = mset ?ls \<inter># mset ?rs"
    "mset (result_rows (apply_set_operation l r ExceptAll)) = mset ?ls - mset ?rs"
    by (rule multiset_eqI, simp add: apply_set_operation_def count_intersect_all count_except_all row_count_rows)+
qed (simp_all add: apply_set_operation_def Let_def)

text \<open>
  \<open>INTERSECT\<close> and \<open>EXCEPT\<close> do not remove duplicates: a row of the left query that qualifies is returned as often as it
  occurs there.
\<close>

theorem intersect_keeps_duplicates:
  "count (mset (result_rows (apply_set_operation l r Intersect))) x =
     (if x \<in> set (result_rows r) then count (mset (result_rows l)) x else 0) \<and>
   count (mset (result_rows (apply_set_operation l r Except))) x =
     (if x \<in> set (result_rows r) then 0 else count (mset (result_rows l)) x)"
  by (simp add: apply_set_operation_def Let_def)

section \<open>The order of \<open>ORDER BY\<close>\<close>

text \<open>
  What the items mean, without reference to the comparison of the code. Values that are null tie with each other; a
  null goes before a value exactly under \<open>NULLS FIRST\<close>; of two values the smaller goes first under \<open>ASC\<close>, the larger
  otherwise. A row precedes another when it goes before it in the first item on which they do not tie.
\<close>

definition sort_value :: "'f std \<Rightarrow> TupleDesc option \<Rightarrow> 's Expr OrderByItem \<Rightarrow> row \<Rightarrow> string" where
  "sort_value S td item row = or_default (evaluate_expr S (order_expr item) row td)"

definition same_value :: "string \<Rightarrow> string \<Rightarrow> bool" where
  "same_value v w \<longleftrightarrow> v = w \<or> null_text v \<and> null_text w"

definition goes_before :: "'e OrderByItem \<Rightarrow> string \<Rightarrow> string \<Rightarrow> bool" where
  "goes_before item v w \<longleftrightarrow>
     (null_text v \<and> \<not> null_text w \<and> nulls item = First) \<or>
     (\<not> null_text v \<and> null_text w \<and> nulls item \<noteq> First) \<or>
     (\<not> null_text v \<and> \<not> null_text w \<and> direction item = Asc \<and> v < w) \<or>
     (\<not> null_text v \<and> \<not> null_text w \<and> direction item \<noteq> Asc \<and> w < v)"

definition ties :: "'f std \<Rightarrow> TupleDesc option \<Rightarrow> 's Expr OrderByItem list \<Rightarrow> row \<Rightarrow> row \<Rightarrow> bool" where
  "ties S td items a b \<longleftrightarrow> (\<forall>item \<in> set items. same_value (sort_value S td item a) (sort_value S td item b))"

definition precedes :: "'f std \<Rightarrow> TupleDesc option \<Rightarrow> 's Expr OrderByItem list \<Rightarrow> row \<Rightarrow> row \<Rightarrow> bool" where
  "precedes S td items a b \<longleftrightarrow>
     (\<exists>k < length items. ties S td (take k items) a b \<and>
        goes_before (items ! k) (sort_value S td (items ! k) a) (sort_value S td (items ! k) b))"

text \<open>
  The stable order of some rows, as the list of their positions: of two rows in the list the first precedes the
  second, or they tie and the first was the first before.
\<close>

definition stable_order :: "'f std \<Rightarrow> TupleDesc option \<Rightarrow> 's Expr OrderByItem list \<Rightarrow> row list \<Rightarrow> nat list \<Rightarrow> bool" where
  "stable_order S td items rows perm \<longleftrightarrow>
     mset perm = mset [0..<length rows] \<and>
     (\<forall>j < length perm. \<forall>i < j. precedes S td items (rows ! (perm ! i)) (rows ! (perm ! j)) \<or>
        ties S td items (rows ! (perm ! i)) (rows ! (perm ! j)) \<and> perm ! i < perm ! j)"

lemma precedes_Cons:
  "precedes S td (item # items) a b \<longleftrightarrow>
     goes_before item (sort_value S td item a) (sort_value S td item b) \<or>
     same_value (sort_value S td item a) (sort_value S td item b) \<and> precedes S td items a b"
  unfolding precedes_def ties_def by (simp add: Ex_less_Suc2) blast

lemma item_cmp_spec:
  "item_cmp item v w = Less \<longleftrightarrow> goes_before item v w" "item_cmp item v w = Equiv \<longleftrightarrow> same_value v w"
  by (auto simp: item_cmp_def goes_before_def same_value_def nulls_first_def str_cmp_def
      split: NullsOrder.split SortDirection.split)

lemma order_cmp_spec:
  "(order_cmp S td items a b = Less \<longleftrightarrow> precedes S td items a b) \<and> (order_cmp S td items a b = Equiv \<longleftrightarrow> ties S td items a b)"
proof (induction items)
  case Nil
  then show ?case by (simp add: precedes_def ties_def)
next
  case (Cons item items)
  have "\<not> (goes_before item v w \<and> same_value v w)" for v w using item_cmp_spec [of item v w] by auto
  then show ?case
    using Cons item_cmp_spec [of item "sort_value S td item a" "sort_value S td item b"]
    by (auto simp: Let_def precedes_Cons ties_def sort_value_def)
qed

lemma comparator_sorted_wrt: "sorted cmp xs \<Longrightarrow> sorted_wrt (\<lambda>x y. compare cmp x y \<noteq> Greater) xs"
  by (induction xs) (auto dest: sorted_Cons_imp_sorted sorted_Cons_imp_not_less)

lemma filter_sorted_nth:
  "sorted_wrt R (filter P ys) \<Longrightarrow> i < j \<Longrightarrow> j < length ys \<Longrightarrow> P (ys ! i) \<Longrightarrow> P (ys ! j) \<Longrightarrow> R (ys ! i) (ys ! j)"
proof (induction ys arbitrary: i j)
  case (Cons y ys)
  then obtain j' where j: "j = Suc j'" by (cases j) auto
  show ?case
  proof (cases i)
    case 0
    then have "ys ! j' \<in> set (filter P ys)" "P y" using Cons.prems j by auto
    then show ?thesis using Cons.prems(1) 0 j by simp
  next
    case (Suc i')
    then show ?thesis using Cons.IH [of i' j'] Cons.prems j by (cases "P y") simp_all
  qed
qed simp

text \<open>Sorting rows that carry their position gives the stable order.\<close>

lemma sort_stable_order:
  assumes pos: "map pos xs = [0..<length rows]" and rows: "map snd xs = rows"
  shows "stable_order S td items rows (map pos (sort (row_order S td items) xs)) \<and>
    (\<forall>y \<in> set (sort (row_order S td items) xs). rows ! pos y = snd y \<and> pos y < length rows)"
proof -
  let ?c = "row_order S td items"
  let ?ys = "sort ?c xs"
  have len: "length xs = length rows" using rows by auto
  have at: "rows ! pos y = snd y \<and> pos y < length rows" if "y \<in> set ?ys" for y
  proof -
    from that obtain k where k: "k < length xs" "y = xs ! k" by (auto simp: in_set_conv_nth)
    have "pos (xs ! k) = k" "rows ! k = snd (xs ! k)"
      using nth_map [OF k(1), of pos] nth_map [OF k(1), of snd] k(1) pos rows len by simp_all
    then show ?thesis unfolding k(2) using k(1) len by simp
  qed
  have "sorted_wrt (\<lambda>a b. pos a < pos b) xs"
    using sorted_wrt_upt [of 0 "length rows"] unfolding pos [symmetric] sorted_wrt_map .
  then have stable: "sorted_wrt (\<lambda>a b. pos a < pos b) (filter (\<lambda>y. compare ?c z y = Equiv) ?ys)" for z
    unfolding stable_sort by (rule sorted_wrt_filter)
  have pair: "precedes S td items (snd a) (snd b) \<or> ties S td items (snd a) (snd b) \<and> pos a < pos b"
    if "i < j" "j < length ?ys" "a = ?ys ! i" "b = ?ys ! j" for i j a b
  proof -
    have "compare ?c a b \<noteq> Greater"
      using sorted_wrt_nth_less [OF comparator_sorted_wrt [OF sorted_sort [of ?c xs]] that(1,2)] that by simp
    then consider "compare ?c a b = Less" | "compare ?c a b = Equiv" by (cases "compare ?c a b") auto
    then show ?thesis
    proof cases
      case 1
      then show ?thesis using order_cmp_spec [of S td items "snd a" "snd b"] by (simp add: row_order.rep_eq)
    next
      case 2
      then have "pos a < pos b" using filter_sorted_nth [OF stable [of a] that(1,2)] that(3,4) by simp
      then show ?thesis using 2 order_cmp_spec [of S td items "snd a" "snd b"] by (simp add: row_order.rep_eq)
    qed
  qed
  have "mset (map pos ?ys) = mset (map pos xs)" by simp
  then have "mset (map pos ?ys) = mset [0..<length rows]" by (simp only: pos)
  moreover have "precedes S td items (rows ! (map pos ?ys ! i)) (rows ! (map pos ?ys ! j)) \<or>
      ties S td items (rows ! (map pos ?ys ! i)) (rows ! (map pos ?ys ! j)) \<and> map pos ?ys ! i < map pos ?ys ! j"
    if "j < length (map pos ?ys)" "i < j" for i j
  proof -
    have ij: "i < length ?ys" "j < length ?ys" using that by simp_all
    from at [OF nth_mem [OF ij(1)]] at [OF nth_mem [OF ij(2)]] show ?thesis
      using pair [OF that(2) ij(2) refl refl] ij by (simp del: length_sort)
  qed
  ultimately show ?thesis unfolding stable_order_def using at by blast
qed

lemma insort_map:
  "(\<And>a b. compare c (f a) (f b) = compare c' a b) \<Longrightarrow> insort c (f x) (map f xs) = map f (insort c' x xs)"
  by (induction xs) simp_all

lemma sort_map:
  assumes "\<And>a b. compare c (f a) (f b) = compare c' a b"
  shows "sort c (map f xs) = map f (sort c' xs)"
  using insort_map [of c f c'] assms by (induction xs) simp_all

text \<open>
  C17: \<open>ORDER BY\<close> returns the rows in their stable order: of two rows of the result the first precedes the second
  (by the first item on which they differ, upwards under \<open>ASC\<close> and downwards otherwise, nulls first only under \<open>NULLS
  FIRST\<close>), or no item distinguishes them and they keep the order they had.
\<close>

theorem order_by_correct:
  "\<exists>perm. stable_order S td items (map snd rows) perm \<and> apply_order_by S td rows items = map ((!) rows) perm"
proof -
  define xs where "xs = map (\<lambda>(i, (t, r)). ((i, t), r)) (zip [0..<length rows] rows)"
  define f :: "(nat \<times> ItemPointerData) \<times> row \<Rightarrow> trow" where "f x = (snd (fst x), snd x)" for x
  let ?c = "row_order S td items :: ((nat \<times> ItemPointerData) \<times> row) comparator"
  have xs: "map (fst \<circ> fst) xs = [0..<length (map snd rows)]" "map snd xs = map snd rows" "map f xs = rows"
    by (auto simp: xs_def f_def split_beta intro!: nth_equalityI)
  from sort_stable_order [OF xs(1,2), of S td items] have
    stable: "stable_order S td items (map snd rows) (map (fst \<circ> fst) (sort ?c xs))" by blast
  have at: "f y = rows ! (fst \<circ> fst) y" if "y \<in> set xs" for y
  proof -
    from that obtain k where "k < length xs" "y = xs ! k" unfolding in_set_conv_nth by blast
    then show ?thesis by (simp add: xs_def f_def split_beta)
  qed
  have "apply_order_by S td rows items = map f (sort ?c xs)"
    unfolding apply_order_by_def xs(3) [symmetric] by (rule sort_map) (simp add: row_order.rep_eq f_def)
  then have "apply_order_by S td rows items = map ((!) rows) (map (fst \<circ> fst) (sort ?c xs))" using at by simp
  then show ?thesis using stable by blast
qed

text \<open>
  An item without direction sorts downwards: of two rows with different values, none of them null, the larger
  comes first.
\<close>

theorem default_order_descends:
  assumes "evaluate_expr S e (snd x) td = Some v" "evaluate_expr S e (snd y) td = Some w" and "v < w"
    and "\<not> null_text v" "\<not> null_text w"
  shows "apply_order_by S td [x, y] [OrderByItem e DefaultDirection DefaultNulls] = [y, x] \<and>
         apply_order_by S td [x, y] [OrderByItem e Asc DefaultNulls] = [x, y]"
  using assms by (auto simp: apply_order_by_def row_order.rep_eq item_cmp_def str_cmp_def or_default_def)

section \<open>Pages\<close>

lemma take_drop_pages: "0 < n \<Longrightarrow> concat (map (\<lambda>k. take n (drop (k * n) xs)) [0..<m]) = take (m * n) xs"
  by (induction m) (simp_all add: take_add add.commute [of n])

text \<open>
  Queries with \<open>LIMIT n\<close> and \<open>OFFSET 0, n, 2n, ...\<close> return consecutive pages: together the first \<open>m * n\<close> rows, each
  once and in order.
\<close>

theorem pages_are_consecutive:
  assumes "0 < n" and "m * n < 2 ^ 64" and "n < 2 ^ 64"
  shows "concat (map (\<lambda>k. apply_limit_offset S td
             (apply_offset S td rows (Lit (LNumber (nat_show (k * n)))))
             (LimitExpr (Lit (LNumber (nat_show n))))) [0..<m]) = take (m * n) rows"
proof -
  have "k * n < 2 ^ 64" if "k < m" for k
    using assms(2) that by (meson le_less_trans less_imp_le mult_le_mono1)
  then have "map (\<lambda>k. apply_limit_offset S td (apply_offset S td rows (Lit (LNumber (nat_show (k * n)))))
      (LimitExpr (Lit (LNumber (nat_show n))))) [0..<m] = map (\<lambda>k. take n (drop (k * n) rows)) [0..<m]"
    using assms(3) by (simp add: apply_limit_offset_def apply_offset_def count_value_def parse_usize_show)
  then show ?thesis using take_drop_pages [OF assms(1)] by metis
qed

text \<open>
  A limit that is no number, as \<open>LIMIT NULL\<close>, is a limit of zero.
\<close>

theorem bad_limit_is_zero:
  "apply_limit_offset S td rows (LimitExpr (Lit LNull)) = []"
  by (simp add: apply_limit_offset_def count_value_def parse_usize_def parse_unsigned_def digits_value_def
      is_ascii_digit_def less_eq_char_def)

section \<open>Instances\<close>

theorem default_order_descends_witness:
  "apply_order_by int_std (Some ab_desc) [(zero_tid, [''x'']), (zero_tid, [''y''])]
     [OrderByItem (Identifier ''a'' :: unit Expr) DefaultDirection DefaultNulls] =
   [(zero_tid, [''y'']), (zero_tid, [''x''])]"
  using default_order_descends [of int_std "Identifier ''a'' :: unit Expr" "(zero_tid, [''x''])" "Some ab_desc" "''x''"
      "(zero_tid, [''y''])" "''y''"]
  by (simp add: less_char_def null_text_def eq_ignore_ascii_case_def)

theorem pages_are_consecutive_witness:
  "concat (map (\<lambda>k. apply_limit_offset int_std None
       (apply_offset int_std None [(zero_tid, [''x'']), (zero_tid, [''y'']), (zero_tid, [''z''])]
          (Lit (LNumber (nat_show (k * 2))) :: unit Expr))
       (LimitExpr (Lit (LNumber (nat_show 2))))) [0..<2]) =
   [(zero_tid, [''x'']), (zero_tid, [''y'']), (zero_tid, [''z''])]"
  using pages_are_consecutive [of 2 2 int_std None "[(zero_tid, [''x'']), (zero_tid, [''y'']), (zero_tid, [''z''])]"]
  by simp

end
