(* ===== verification/Group_By.thy ===== *)
theory Group_By
  imports Select_Ops
begin

text \<open>
  Grouping and aggregates (\<open>executor/select/group_by.rs\<close>). The order in which the code visits the hash map of groups
  is the argument \<open>order\<close>, a list of the keys.
\<close>

section \<open>Recognising aggregates\<close>

definition aggregate_name :: "'f std \<Rightarrow> 'e FunctionCall \<Rightarrow> bool" where
  "aggregate_name S f \<longleftrightarrow> function_name S (fn_name f) \<in> {''COUNT'', ''SUM'', ''AVG'', ''MIN'', ''MAX''}"

fun expr_has_agg :: "'f std \<Rightarrow> 's Expr \<Rightarrow> bool" where
  "expr_has_agg S (Function f) = aggregate_name S f"
| "expr_has_agg S (BinaryOp l op r) \<longleftrightarrow> expr_has_agg S l \<or> expr_has_agg S r"
| "expr_has_agg S (UnaryOp op e) = expr_has_agg S e"
| "expr_has_agg S (Between e neg lo hi) \<longleftrightarrow> expr_has_agg S e \<or> expr_has_agg S lo \<or> expr_has_agg S hi"
| "expr_has_agg S (InList e neg es) \<longleftrightarrow> expr_has_agg S e \<or> list_ex (expr_has_agg S) es"
| "expr_has_agg S _ = False"

definition item_has_agg :: "'f std \<Rightarrow> 's Expr SelectItem \<Rightarrow> bool" where
  "item_has_agg S item =
     (case item of SelExpr e \<Rightarrow> expr_has_agg S e | ExprAs e _ \<Rightarrow> expr_has_agg S e | _ \<Rightarrow> False)"

definition has_aggregates :: "'f std \<Rightarrow> 's Expr SelectItem list \<Rightarrow> bool" where
  "has_aggregates S items = list_ex (item_has_agg S) items"

section \<open>Values of a group\<close>

definition first_arg :: "'s Expr FunctionCall \<Rightarrow> 's Expr option" where
  "first_arg f = (case fn_args f of ArgExpr e # _ \<Rightarrow> Some e | _ \<Rightarrow> None)"

definition group_values :: "'f std \<Rightarrow> TupleDesc option \<Rightarrow> 's Expr \<Rightarrow> row list \<Rightarrow> string list" where
  "group_values S td e rows = map the (filter (\<lambda>v. v \<noteq> None) (map (\<lambda>r. evaluate_expr S e r td) rows))"

definition group_numbers :: "'f std \<Rightarrow> TupleDesc option \<Rightarrow> 's Expr \<Rightarrow> row list \<Rightarrow> 'f list" where
  "group_numbers S td e rows = map the (filter (\<lambda>v. v \<noteq> None) (map (f64_parse S) (group_values S td e rows)))"

definition f64_sum :: "'f std \<Rightarrow> 'f list \<Rightarrow> 'f" where
  "f64_sum S xs = foldl (f64_add S) (f64_sum_start S) xs"

definition agg_count :: "'f std \<Rightarrow> TupleDesc option \<Rightarrow> 's Expr FunctionCall \<Rightarrow> row list \<Rightarrow> string" where
  "agg_count S td f rows =
     (case first_arg f of
        Some e \<Rightarrow> nat_show (length (group_values S td e rows))
      | None \<Rightarrow> nat_show (length rows))"

definition agg_sum :: "'f std \<Rightarrow> TupleDesc option \<Rightarrow> 's Expr FunctionCall \<Rightarrow> row list \<Rightarrow> string" where
  "agg_sum S td f rows =
     (case first_arg f of Some e \<Rightarrow> f64_show S (f64_sum S (group_numbers S td e rows)) | None \<Rightarrow> ''0'')"

definition agg_avg :: "'f std \<Rightarrow> TupleDesc option \<Rightarrow> 's Expr FunctionCall \<Rightarrow> row list \<Rightarrow> string" where
  "agg_avg S td f rows =
     (case first_arg f of
        Some e \<Rightarrow>
          (let vals = group_numbers S td e rows
           in if vals = [] then ''0''
              else f64_show S (f64_div S (f64_sum S vals) (f64_of_nat S (length vals))))
      | None \<Rightarrow> ''0'')"

definition agg_min :: "'f std \<Rightarrow> TupleDesc option \<Rightarrow> 's Expr FunctionCall \<Rightarrow> row list \<Rightarrow> string" where
  "agg_min S td f rows =
     (case first_arg f of
        Some e \<Rightarrow> (case List.sort (group_values S td e rows) of [] \<Rightarrow> [] | v # _ \<Rightarrow> v)
      | None \<Rightarrow> [])"

definition agg_max :: "'f std \<Rightarrow> TupleDesc option \<Rightarrow> 's Expr FunctionCall \<Rightarrow> row list \<Rightarrow> string" where
  "agg_max S td f rows =
     (case first_arg f of
        Some e \<Rightarrow> (case rev (List.sort (group_values S td e rows)) of [] \<Rightarrow> [] | v # _ \<Rightarrow> v)
      | None \<Rightarrow> [])"

text \<open>\<open>parse::<f64>().unwrap_or(d)\<close> and \<open>parse::<bool>().unwrap_or(false)\<close>\<close>

definition number_or :: "'f std \<Rightarrow> nat \<Rightarrow> string \<Rightarrow> 'f" where
  "number_or S d v = (case f64_parse S v of None \<Rightarrow> f64_of_nat S d | Some x \<Rightarrow> x)"

definition truth :: "string \<Rightarrow> bool" where
  "truth v = (parse_bool v = Some True)"

definition eval_binary_op :: "'f std \<Rightarrow> string \<Rightarrow> BinaryOperator \<Rightarrow> string \<Rightarrow> string" where
  "eval_binary_op S l op r =
     (case op of
        Plus \<Rightarrow> f64_show S (f64_add S (number_or S 0 l) (number_or S 0 r))
      | Minus \<Rightarrow> f64_show S (f64_sub S (number_or S 0 l) (number_or S 0 r))
      | Multiply \<Rightarrow> f64_show S (f64_mul S (number_or S 0 l) (number_or S 0 r))
      | Divide \<Rightarrow>
          if f64_eq S (number_or S 1 r) (f64_of_nat S 0) then ''NULL''
          else f64_show S (f64_div S (number_or S 0 l) (number_or S 1 r))
      | Modulo \<Rightarrow>
          if f64_eq S (number_or S 1 r) (f64_of_nat S 0) then ''NULL''
          else f64_show S (f64_rem S (number_or S 0 l) (number_or S 1 r))
      | Equals \<Rightarrow> bool_show (l = r)
      | NotEquals \<Rightarrow> bool_show (l \<noteq> r)
      | LessThan \<Rightarrow> bool_show (l < r)
      | LessOrEqual \<Rightarrow> bool_show (l \<le> r)
      | GreaterThan \<Rightarrow> bool_show (l > r)
      | GreaterOrEqual \<Rightarrow> bool_show (l \<ge> r)
      | And \<Rightarrow> bool_show (truth l \<and> truth r)
      | Or \<Rightarrow> bool_show (truth l \<or> truth r)
      | Like \<Rightarrow> bool_show (like_match l r)
      | ILike \<Rightarrow> bool_show (str_contains (to_lowercase S l) (to_lowercase S (remove_char CHR ''%'' r)))
      | _ \<Rightarrow> ''NULL'')"

definition on_first_row :: "(row \<Rightarrow> string option) \<Rightarrow> row list \<Rightarrow> string" where
  "on_first_row f rows = (case rows of [] \<Rightarrow> [] | r # _ \<Rightarrow> or_default (f r))"

fun evaluate_expr_with_group :: "'f std \<Rightarrow> TupleDesc option \<Rightarrow> 's Expr \<Rightarrow> row list \<Rightarrow> string" where
  "evaluate_expr_with_group S td (Function f) rows =
     (let nm = function_name S (fn_name f)
      in if nm = ''COUNT'' then agg_count S td f rows
         else if nm = ''SUM'' then agg_sum S td f rows
         else if nm = ''AVG'' then agg_avg S td f rows
         else if nm = ''MIN'' then agg_min S td f rows
         else if nm = ''MAX'' then agg_max S td f rows
         else on_first_row (\<lambda>r. evaluate_expr S (Function f) r td) rows)"
| "evaluate_expr_with_group S td (Identifier col) rows = on_first_row (\<lambda>r. column_value td r col) rows"
| "evaluate_expr_with_group S td (Lit l) rows =
     (case l of
        LNumber n \<Rightarrow> n | LString s \<Rightarrow> s | LBool b \<Rightarrow> bool_show b | LNull \<Rightarrow> ''NULL'' | _ \<Rightarrow> [])"
| "evaluate_expr_with_group S td (BinaryOp l op r) rows =
     eval_binary_op S (evaluate_expr_with_group S td l rows) op (evaluate_expr_with_group S td r rows)"
| "evaluate_expr_with_group S td e rows = on_first_row (\<lambda>r. evaluate_expr S e r td) rows"

definition evaluate_select_item_with_group ::
    "'f std \<Rightarrow> TupleDesc option \<Rightarrow> 's Expr SelectItem \<Rightarrow> row list \<Rightarrow> string" where
  "evaluate_select_item_with_group S td item rows =
     (case item of
        SelExpr e \<Rightarrow> evaluate_expr_with_group S td e rows
      | ExprAs e _ \<Rightarrow> evaluate_expr_with_group S td e rows
      | Star \<Rightarrow> on_first_row (\<lambda>r. Some (join_str '', '' r)) rows
      | TableStar _ \<Rightarrow> on_first_row (\<lambda>r. Some (join_str '', '' r)) rows)"

section \<open>Groups\<close>

definition group_key :: "'f std \<Rightarrow> TupleDesc option \<Rightarrow> 's Expr list \<Rightarrow> row \<Rightarrow> string list" where
  "group_key S td gb row =
     (if gb = [] then [''__all__''] else map (\<lambda>e. or_default (evaluate_expr S e row td)) gb)"

definition build_groups :: "'f std \<Rightarrow> TupleDesc option \<Rightarrow> 's Expr list \<Rightarrow> trow list \<Rightarrow> (string list \<rightharpoonup> row list)" where
  "build_groups S td gb rows = foldl (\<lambda>m tr. vec_push m (group_key S td gb (snd tr)) (snd tr)) Map.empty rows"

definition group_rows ::
    "'f std \<Rightarrow> TupleDesc option \<Rightarrow> string list list \<Rightarrow> (string list \<rightharpoonup> row list) \<Rightarrow> 's Expr SelectItem list \<Rightarrow> trow list" where
  "group_rows S td order groups items =
     map (\<lambda>k. (zero_tid, map (\<lambda>item. evaluate_select_item_with_group S td item (vec_at groups k)) items)) order"

definition hash_aggregate ::
    "'f std \<Rightarrow> TupleDesc option \<Rightarrow> string list list \<Rightarrow> trow list \<Rightarrow> 's Expr list \<Rightarrow> 's Expr SelectItem list \<Rightarrow> trow list" where
  "hash_aggregate S td order rows gb items =
     (if gb = [] \<and> rows = [] then [] else group_rows S td order (build_groups S td gb rows) items)"

definition sort_aggregate ::
    "'f std \<Rightarrow> TupleDesc option \<Rightarrow> string list list \<Rightarrow> trow list \<Rightarrow> 's Expr list \<Rightarrow> 's Expr SelectItem list \<Rightarrow> trow list" where
  "sort_aggregate S td order rows gb items =
     (if gb = [] \<and> rows = [] then []
      else if gb = [] \<and> \<not> has_aggregates S items then rows
      else group_rows S td order (build_groups S td gb rows) items)"

definition apply_group_by ::
    "'f std \<Rightarrow> TupleDesc option \<Rightarrow> string list list \<Rightarrow> trow list \<Rightarrow> 's Expr list \<Rightarrow> 's Expr SelectItem list \<Rightarrow> trow list" where
  "apply_group_by S td order rows gb items =
     (if gb = [] \<and> rows = [] then []
      else if gb = [] \<and> \<not> has_aggregates S items then rows
      else if length rows > 1000 then hash_aggregate S td order rows gb items
      else sort_aggregate S td order rows gb items)"

section \<open>Groups partition the rows\<close>

lemma dom_vec_push: "dom (vec_push m k v) = insert k (dom m)"
  by (simp add: vec_push_def)

lemma build_groups_at:
  "vec_at (build_groups S td gb rows) k = filter (\<lambda>r. group_key S td gb r = k) (map snd rows) \<and>
   dom (build_groups S td gb rows) = group_key S td gb ` snd ` set rows"
  unfolding build_groups_def by (induction rows rule: rev_induct) (auto simp: dom_vec_push)

text \<open>
  C16: whatever the order of the hash map and whichever of the two algorithms runs, a grouped query returns one row for
  every value of the grouping expressions that occurs, and computes it from exactly the rows with that value, in
  their order.
\<close>

theorem group_by_correct:
  assumes "enumerates order (build_groups S td gb rows)" and "gb \<noteq> [] \<or> rows \<noteq> [] \<and> has_aggregates S items"
  shows "map snd (apply_group_by S td order rows gb items) =
           map (\<lambda>k. map (\<lambda>item. evaluate_select_item_with_group S td item
                          (filter (\<lambda>r. group_key S td gb r = k) (map snd rows))) items) order \<and>
         distinct order \<and> set order = group_key S td gb ` snd ` set rows"
  using assms build_groups_at [of S td gb rows]
  by (auto simp: apply_group_by_def hash_aggregate_def sort_aggregate_def group_rows_def enumerates_def comp_def)

section \<open>Aggregates\<close>

text \<open>
  \<open>MIN\<close> and \<open>MAX\<close> return the least and the greatest value of the group in the order of texts.
\<close>

theorem min_max_of_group:
  assumes "first_arg f = Some e" and "group_values S td e rows \<noteq> []"
  shows "agg_min S td f rows = Min (set (group_values S td e rows)) \<and>
         agg_max S td f rows = Max (set (group_values S td e rows))"
proof -
  let ?vs = "group_values S td e rows"
  obtain v vs w ws where "List.sort ?vs = v # vs" "v = Min (set ?vs)" "rev (List.sort ?vs) = w # ws" "w = Max (set ?vs)"
    by (rule sort_ends [OF assms(2)])
  then show ?thesis using assms(1) by (simp add: agg_min_def agg_max_def)
qed

text \<open>
  \<open>COUNT\<close> of a column counts the rows of the group with or without a null in it.
\<close>

theorem count_counts_nulls:
  assumes "first_arg f = Some (Identifier col)" and "\<forall>r \<in> set rows. column_value td r col \<noteq> None"
  shows "agg_count S td f rows = nat_show (length rows)"
proof -
  have "filter (\<lambda>v. v \<noteq> None) (map (\<lambda>r. evaluate_expr S (Identifier col) r td) rows) =
      map (\<lambda>r. evaluate_expr S (Identifier col) r td) rows"
    using assms(2) by (simp add: filter_id_conv)
  then show ?thesis using assms(1) by (simp add: agg_count_def group_values_def)
qed

text \<open>An aggregate over an empty table has no row at all, where \<open>COUNT\<close> should return zero.\<close>

theorem aggregate_of_empty_table: "apply_group_by S td order [] [] items = []"
  by (simp add: apply_group_by_def)

text \<open>
  \<open>HAVING\<close> is evaluated on the result row with the scalar evaluator, for which every count is one: a condition on
  \<open>COUNT\<close> gives the same answer for all groups.
\<close>

theorem having_ignores_count:
  assumes "to_uppercase S ''COUNT'' = ''COUNT''"
  shows "apply_having S td rows (BinaryOp (Function (FunctionCall (single_name ''COUNT'') [ArgStar] None None)) op (Lit l)) =
    (case binary_op S op ''1'' (literal_text l) of
       Some v \<Rightarrow> (if v = ''true'' \<or> v = ''t'' then rows else [])
     | None \<Rightarrow> [])"
  using assms
  by (simp add: apply_having_def evaluate_where_def single_name_def function_name_def call_function_def Let_def
      split: option.splits)

section \<open>Instances\<close>

abbreviation min_b :: "unit Expr FunctionCall" where
  "min_b \<equiv> FunctionCall (single_name ''MIN'') [ArgExpr (Identifier ''B'')] None None"

theorem min_max_of_group_witness:
  "agg_min int_std (Some ab_desc) min_b [[''x'', ''9''], [''x'', ''10'']] = ''10''"
proof -
  have "Min {''9'', ''10''} = ''10''" by (rule Min_eqI) (auto simp: less_eq_char_def less_char_def)
  then show ?thesis
    using min_max_of_group [of min_b "Identifier ''B''" int_std "Some ab_desc" "[[''x'', ''9''], [''x'', ''10'']]"]
    by (simp add: first_arg_def group_values_def)
qed

theorem count_counts_nulls_witness:
  "agg_count int_std (Some ab_desc) min_b [[''x'', ''''], [''x'', ''NULL'']] = nat_show 2"
  using count_counts_nulls [of min_b "''B''" "[[''x'', ''''], [''x'', ''NULL'']]" "Some ab_desc" int_std]
  by (simp add: first_arg_def numeral_2_eq_2)

theorem having_ignores_count_witness:
  "apply_having int_std None [(zero_tid, [''eng'', ''7''])]
     (BinaryOp (Function (FunctionCall (single_name ''COUNT'') [ArgStar] None None)) GreaterThan (Lit (LNumber ''1'')) :: unit Expr) = []"
proof -
  have "to_uppercase int_std ''COUNT'' = ''COUNT''" by code_simp
  from having_ignores_count [OF this, of None "[(zero_tid, [''eng'', ''7''])]" GreaterThan "LNumber ''1''"]
  show ?thesis by (simp add: binary_op_def bool_show_def)
qed

theorem group_by_correct_witness:
  "map snd (apply_group_by int_std (Some ab_desc) [[''x''], [''y'']]
      [(zero_tid, [''x'', ''3'']), (zero_tid, [''y'', ''2'']), (zero_tid, [''x'', ''1''])]
      [Identifier ''a''] [SelExpr (Identifier ''a''), SelExpr (Identifier ''B'' :: unit Expr)]) =
   [[''x'', ''3''], [''y'', ''2'']]"
proof -
  let ?rows = "[(zero_tid, [''x'', ''3'']), (zero_tid, [''y'', ''2'']), (zero_tid, [''x'', ''1''])]"
  have "enumerates [[''x''], [''y'']] (build_groups int_std (Some ab_desc) [Identifier ''a'' :: unit Expr] ?rows)"
    using build_groups_at [of int_std "Some ab_desc" "[Identifier ''a'' :: unit Expr]" ?rows]
    by (auto simp: enumerates_def group_key_def or_default_def)
  from group_by_correct [OF this, of "[SelExpr (Identifier ''a''), SelExpr (Identifier ''B'')]"] show ?thesis
    by (simp add: evaluate_select_item_with_group_def on_first_row_def group_key_def or_default_def)
qed

end
