(* ===== verification/Window.thy ===== *)
theory Window
  imports Select_Ops
begin

text \<open>
  Window functions (\<open>executor/select/window.rs\<close>). The products and sums of \<open>NTILE\<close> and \<open>LEAD\<close> are on \<open>usize\<close>: they
  panic with overflow checks (\<open>oc\<close>) and wrap without.
\<close>

definition rows_equal_on_order_by :: "'f std \<Rightarrow> 's Expr OrderByItem list \<Rightarrow> row \<Rightarrow> row \<Rightarrow> bool" where
  "rows_equal_on_order_by S items a b =
     list_all (\<lambda>item. or_default (evaluate_expr S (order_expr item) a None) =
                      or_default (evaluate_expr S (order_expr item) b None)) items"

definition set_col :: "nat \<Rightarrow> string \<Rightarrow> row \<Rightarrow> row" where
  "set_col c v row = (if c < length row then row[c := v] else row @ [v])"

text \<open>The value of an argument on the empty row.\<close>

definition arg_value :: "'f std \<Rightarrow> TupleDesc option \<Rightarrow> 's Expr FunctionCall \<Rightarrow> nat \<Rightarrow> string option" where
  "arg_value S td f i =
     (case nth_opt (fn_args f) i of Some (ArgExpr e) \<Rightarrow> evaluate_expr S e [] td | _ \<Rightarrow> None)"

definition arg_usize :: "'f std \<Rightarrow> TupleDesc option \<Rightarrow> 's Expr FunctionCall \<Rightarrow> nat \<Rightarrow> nat" where
  "arg_usize S td f i =
     (case arg_value S td f i of None \<Rightarrow> 1
      | Some v \<Rightarrow> (case parse_usize v of None \<Rightarrow> 1 | Some n \<Rightarrow> n))"

definition ntile :: "bool \<Rightarrow> nat \<Rightarrow> nat \<Rightarrow> string list res" where
  "ntile oc n len =
     (if oc \<and> (len - 1) * n \<ge> 2 ^ 64 then panic
      else Ok (map (\<lambda>i. nat_show ((i * n mod 2 ^ 64) div len + 1)) [0..<len]))"

definition row_numbers :: "nat \<Rightarrow> string list" where
  "row_numbers len = map (\<lambda>i. nat_show (i + 1)) [0..<len]"

text \<open>Runs of rows equal to their first; the first number of a run is \<open>i + 1\<close>, or the number of the run.\<close>

function rank_values :: "(row \<Rightarrow> row \<Rightarrow> bool) \<Rightarrow> nat \<Rightarrow> row list \<Rightarrow> string list" where
  "rank_values eq i [] = []"
| "rank_values eq i (r # rs) =
     (let n = Suc (length (takeWhile (eq r) rs))
      in replicate n (nat_show (i + 1)) @ rank_values eq (i + n) (dropWhile (eq r) rs))"
  by pat_completeness auto
termination by (relation "measure (\<lambda>(eq, i, rs). length rs)") (auto simp: le_imp_less_Suc length_dropWhile_le)

function dense_values :: "(row \<Rightarrow> row \<Rightarrow> bool) \<Rightarrow> nat \<Rightarrow> row list \<Rightarrow> string list" where
  "dense_values eq rank [] = []"
| "dense_values eq rank (r # rs) =
     replicate (Suc (length (takeWhile (eq r) rs))) (nat_show rank) @ dense_values eq (rank + 1) (dropWhile (eq r) rs)"
  by pat_completeness auto
termination by (relation "measure (\<lambda>(eq, i, rs). length rs)") (auto simp: le_imp_less_Suc length_dropWhile_le)

definition col_of :: "nat \<Rightarrow> row \<Rightarrow> string" where
  "col_of c row = or_default (nth_opt row c)"

definition lag_values :: "nat \<Rightarrow> string \<Rightarrow> nat \<Rightarrow> row list \<Rightarrow> string list" where
  "lag_values c dflt offset rows =
     map (\<lambda>i. if i \<ge> offset then col_of c (rows ! (i - offset)) else dflt) [0..<length rows]"

definition lead_values :: "bool \<Rightarrow> nat \<Rightarrow> string \<Rightarrow> nat \<Rightarrow> row list \<Rightarrow> string list res" where
  "lead_values oc c dflt offset rows =
     (if oc \<and> rows \<noteq> [] \<and> length rows - 1 + offset \<ge> 2 ^ 64 then panic
      else Ok (map (\<lambda>i. let k = (i + offset) mod 2 ^ 64
                        in if k < length rows then col_of c (rows ! k) else dflt) [0..<length rows]))"

definition nth_value :: "nat \<Rightarrow> nat \<Rightarrow> row list \<Rightarrow> string" where
  "nth_value c n rows = (if n > 0 \<and> n \<le> length rows then col_of c (rows ! (n - 1)) else [])"

text \<open>The values of an unordered window: the functions other than these leave the rows alone.\<close>

definition plain_window :: "bool \<Rightarrow> 'f std \<Rightarrow> TupleDesc option \<Rightarrow> string \<Rightarrow> 's Expr FunctionCall \<Rightarrow> row list \<Rightarrow> string list option res" where
  "plain_window oc S td nm f rows =
     (if nm \<in> {''ROW_NUMBER'', ''RANK'', ''DENSE_RANK''} then Ok (Some (row_numbers (length rows)))
      else if nm = ''NTILE'' then and_then (ntile oc (arg_usize S td f 0) (length rows)) (\<lambda>vs. Ok (Some vs))
      else Ok None)"

definition ordered_window ::
    "bool \<Rightarrow> 'f std \<Rightarrow> TupleDesc option \<Rightarrow> nat \<Rightarrow> string \<Rightarrow> 's Expr FunctionCall \<Rightarrow> 's Expr OrderByItem list \<Rightarrow> row list \<Rightarrow>
      string list option res" where
  "ordered_window oc S td c nm f ob rows =
     (let dflt = or_default (arg_value S td f 2); offset = arg_usize S td f 1; eq = rows_equal_on_order_by S ob
      in if nm = ''ROW_NUMBER'' then Ok (Some (row_numbers (length rows)))
         else if nm = ''RANK'' then Ok (Some (rank_values eq 0 rows))
         else if nm = ''DENSE_RANK'' then Ok (Some (dense_values eq 1 rows))
         else if nm = ''NTILE'' then and_then (ntile oc (arg_usize S td f 0) (length rows)) (\<lambda>vs. Ok (Some vs))
         else if nm = ''LAG'' then Ok (Some (lag_values c dflt offset rows))
         else if nm = ''LEAD'' then and_then (lead_values oc c dflt offset rows) (\<lambda>vs. Ok (Some vs))
         else if nm = ''FIRST_VALUE'' then
           Ok (Some (if rows = [] then [] else replicate (length rows) (col_of c (rows ! 0))))
         else if nm = ''LAST_VALUE'' then
           Ok (Some (if rows = [] then [] else replicate (length rows) (col_of c (last rows))))
         else if nm = ''NTH_VALUE'' then Ok (Some (replicate (length rows) (nth_value c offset rows)))
         else Ok None)"

definition indexed_rows :: "'f std \<Rightarrow> TupleDesc option \<Rightarrow> 's Expr OrderByItem list \<Rightarrow> row list \<Rightarrow> (nat \<times> row) list" where
  "indexed_rows S td ob rows =
     (let ix = zip [0..<length rows] rows in if ob = [] then ix else sort (row_order S td ob) ix)"

text \<open>\<open>for (i, v) in vals: rows[index of i][c] = v\<close>\<close>

fun write_values :: "nat \<Rightarrow> nat list \<Rightarrow> string list \<Rightarrow> row list \<Rightarrow> row list" where
  "write_values c (i # idx) (v # vals) rows =
     write_values c idx vals (if i < length rows then rows[i := set_col c v (rows ! i)] else rows)"
| "write_values c _ _ rows = rows"

definition compute_window_function ::
    "bool \<Rightarrow> 'f std \<Rightarrow> TupleDesc option \<Rightarrow> row list \<Rightarrow> nat \<Rightarrow> string \<Rightarrow> 's Expr FunctionCall \<Rightarrow> 's Expr WindowSpec \<Rightarrow> row list res" where
  "compute_window_function oc S td rows c nm f over =
     (if window_order_by over = [] \<and> partition_by over = [] then
        and_then (plain_window oc S td nm f rows) (\<lambda>vals.
          Ok (case vals of None \<Rightarrow> rows | Some vs \<Rightarrow> write_values c [0..<length rows] vs rows))
      else
        let ix = indexed_rows S td (window_order_by over) rows
        in and_then (ordered_window oc S td c nm f (window_order_by over) (map snd ix)) (\<lambda>vals.
          Ok (case vals of None \<Rightarrow> rows | Some vs \<Rightarrow> write_values c (map fst ix) vs rows)))"

definition window_call :: "'s Expr SelectItem \<Rightarrow> ('s Expr FunctionCall \<times> 's Expr WindowSpec) option" where
  "window_call item =
     (case (case item of SelExpr e \<Rightarrow> Some e | ExprAs e _ \<Rightarrow> Some e | _ \<Rightarrow> None) of
        Some (Function f) \<Rightarrow> map_option (\<lambda>ov. (f, ov)) (fn_over f)
      | _ \<Rightarrow> None)"

fun window_items ::
    "bool \<Rightarrow> 'f std \<Rightarrow> TupleDesc option \<Rightarrow> nat \<Rightarrow> 's Expr SelectItem list \<Rightarrow> row list \<Rightarrow> row list res" where
  "window_items oc S td i [] rows = Ok rows"
| "window_items oc S td i (item # items) rows =
     (case window_call item of
        None \<Rightarrow> window_items oc S td (Suc i) items rows
      | Some (f, over) \<Rightarrow>
          and_then (compute_window_function oc S td rows i (function_name S (fn_name f)) f over)
            (window_items oc S td (Suc i) items))"

definition apply_window_functions ::
    "bool \<Rightarrow> 'f std \<Rightarrow> TupleDesc option \<Rightarrow> row list \<Rightarrow> 's Expr SelectItem list \<Rightarrow> row list res" where
  "apply_window_functions oc S td rows items = window_items oc S td 0 items rows"

section \<open>Every row gets the value of its place in the window\<close>

lemma mset_indexed_rows: "mset (indexed_rows S td ob rows) = mset (zip [0..<length rows] rows)"
  by (simp add: indexed_rows_def Let_def)

lemma indexed_rows_perm: "mset (map fst (indexed_rows S td ob rows)) = mset [0..<length rows]"
  using mset_indexed_rows [of S td ob rows] by (metis map_fst_zip mset_map length_upt diff_zero)

lemma indexed_rows_facts:
  "length (indexed_rows S td ob rows) = length rows"
  "distinct (map fst (indexed_rows S td ob rows))"
  "set (map fst (indexed_rows S td ob rows)) = {..<length rows}"
proof -
  let ?ix = "indexed_rows S td ob rows"
  show "length ?ix = length rows" using mset_eq_length [OF indexed_rows_perm [of S td ob rows]] by simp
  show "distinct (map fst ?ix)"
    using mset_eq_imp_distinct_iff [OF indexed_rows_perm [of S td ob rows]] by simp
  show "set (map fst ?ix) = {..<length rows}"
    using mset_eq_setD [OF indexed_rows_perm [of S td ob rows]] by (auto simp: atLeast0LessThan)
qed

lemma length_write_values [simp]: "length (write_values c idx vals rows) = length rows"
  by (induction c idx vals rows rule: write_values.induct) auto

lemma write_values_other: "j \<notin> set idx \<Longrightarrow> write_values c idx vals rows ! j = rows ! j"
  by (induction c idx vals rows rule: write_values.induct) auto

lemma write_values_nth:
  assumes "length vals = length idx" "distinct idx" "set idx \<subseteq> {..<length rows}" "k < length idx"
  shows "write_values c idx vals rows ! (idx ! k) = set_col c (vals ! k) (rows ! (idx ! k))"
  using assms
proof (induction c idx vals rows arbitrary: k rule: write_values.induct)
  case (1 c i idx v vals rows)
  show ?case
  proof (cases k)
    case 0
    then show ?thesis using 1 by (simp add: write_values_other)
  next
    case (Suc k')
    then have "idx ! k' \<in> set idx" "idx ! k' \<noteq> i" using 1 by auto
    then show ?thesis using 1 Suc by simp
  qed
qed simp_all

lemma length_rank_values: "length (rank_values eq i rs) = length rs"
  by (induction eq i rs rule: rank_values.induct) (simp_all add: Let_def, metis length_append takeWhile_dropWhile_id)

lemma length_dense_values: "length (dense_values eq i rs) = length rs"
  by (induction eq i rs rule: dense_values.induct) (simp_all, metis length_append takeWhile_dropWhile_id)

lemma if_value: "(if b then x else y) = z \<Longrightarrow> (x = z \<Longrightarrow> P) \<Longrightarrow> (y = z \<Longrightarrow> P) \<Longrightarrow> P"
  by (cases b) simp_all

text \<open>Every window function yields a value for every row.\<close>

theorem window_values_complete:
  assumes "ordered_window oc S td c nm f ob rows = Ok (Some vals)"
  shows "length vals = length rows"
  using assms unfolding ordered_window_def Let_def
  by ((elim if_value; simp add: row_numbers_def ntile_def lag_values_def lead_values_def and_then_eq_Inr
      split: if_split_asm); auto simp: length_rank_values length_dense_values)

lemma plain_values_complete: "plain_window oc S td nm f rows = Ok (Some vals) \<Longrightarrow> length vals = length rows"
  by (auto simp: plain_window_def row_numbers_def ntile_def and_then_eq_Inr split: if_splits)

lemma stable_order_unordered: "stable_order S td [] rows [0..<length rows]"
  by (simp add: stable_order_def ties_def)

lemma indexed_stable:
  "stable_order S td ob rows (map fst (indexed_rows S td ob rows)) \<and>
   map snd (indexed_rows S td ob rows) = map ((!) rows) (map fst (indexed_rows S td ob rows))"
proof (cases "ob = []")
  case True
  then show ?thesis
    by (auto simp: indexed_rows_def Let_def stable_order_unordered intro!: nth_equalityI)
next
  case False
  have "map fst (zip [0..<length rows] rows) = [0..<length rows]" "map snd (zip [0..<length rows] rows) = rows" by simp_all
  from sort_stable_order [OF this, of S td ob] show ?thesis using False by (simp add: indexed_rows_def Let_def)
qed

text \<open>The place of a row in an order.\<close>

definition place :: "nat list \<Rightarrow> nat \<Rightarrow> nat" where
  "place perm j = length (takeWhile (\<lambda>k. k \<noteq> j) perm)"

lemma place_nth:
  assumes "j \<in> set perm"
  shows "place perm j < length perm" "perm ! place perm j = j"
proof -
  show "place perm j < length perm"
    unfolding place_def using assms by (induction perm) auto
  then show "perm ! place perm j = j" unfolding place_def using nth_length_takeWhile [of "\<lambda>k. k \<noteq> j" perm] by simp
qed

lemma write_values_placed:
  assumes perm: "mset perm = mset [0..<length rows]" and len: "length vals = length rows"
  shows "write_values c perm vals rows = map (\<lambda>j. set_col c (vals ! place perm j) (rows ! j)) [0..<length rows]"
proof (rule nth_equalityI)
  fix j assume "j < length (write_values c perm vals rows)"
  then have j: "j < length rows" by simp
  have "set perm = {..<length rows}" "distinct perm" "length perm = length rows"
    using mset_eq_setD [OF perm] mset_eq_imp_distinct_iff [OF perm] mset_eq_length [OF perm] by (auto simp: atLeast0LessThan)
  then show "write_values c perm vals rows ! j = map (\<lambda>j. set_col c (vals ! place perm j) (rows ! j)) [0..<length rows] ! j"
    using write_values_nth [of vals perm rows "place perm j" c] place_nth [of j perm] j len by simp
qed simp

text \<open>
  C39: a window function computes its values on the rows in the stable order of its \<open>ORDER BY\<close> (without one, in the
  order the rows have) and writes them to the column of the call: each row gets the value computed for its place in
  that order, and nothing else changes. A function that the code does not know leaves the rows as they are, and a
  panic in the computation of the values is the only failure.
\<close>

theorem window_values_placed:
  "\<exists>perm. stable_order S td (window_order_by over) rows perm \<and>
     compute_window_function oc S td rows c nm f over =
       and_then (if window_order_by over = [] \<and> partition_by over = [] then plain_window oc S td nm f rows
                 else ordered_window oc S td c nm f (window_order_by over) (map ((!) rows) perm))
         (\<lambda>vals. Ok (case vals of None \<Rightarrow> rows
            | Some vs \<Rightarrow> map (\<lambda>j. set_col c (vs ! place perm j) (rows ! j)) [0..<length rows]))"
proof (cases "window_order_by over = [] \<and> partition_by over = []")
  case True
  have "mset [0..<length rows] = mset [0..<length rows]" ..
  note placed = write_values_placed [OF this, of _ c]
  show ?thesis
    by (intro exI [of _ "[0..<length rows]"] conjI)
       (use True in \<open>auto simp: stable_order_unordered compute_window_function_def and_then_def placed plain_values_complete
         split: sum.split option.split\<close>)
next
  case False
  let ?ix = "indexed_rows S td (window_order_by over) rows"
  have st: "stable_order S td (window_order_by over) rows (map fst ?ix)" "map snd ?ix = map ((!) rows) (map fst ?ix)"
    using indexed_stable by blast+
  have len: "length vs = length rows"
    if "ordered_window oc S td c nm f (window_order_by over) (map ((!) rows) (map fst ?ix)) = Ok (Some vs)" for vs
    using window_values_complete [OF that] indexed_rows_facts(1) [of S td "window_order_by over" rows] by simp
  note placed = write_values_placed [OF indexed_rows_perm [of S td "window_order_by over" rows], of _ c]
  have "compute_window_function oc S td rows c nm f over =
      and_then (ordered_window oc S td c nm f (window_order_by over) (map ((!) rows) (map fst ?ix)))
        (\<lambda>vals. Ok (case vals of None \<Rightarrow> rows
          | Some vs \<Rightarrow> map (\<lambda>j. set_col c (vs ! place (map fst ?ix) j) (rows ! j)) [0..<length rows]))"
    unfolding compute_window_function_def Let_def st(2)
    using False len placed
    by (cases "ordered_window oc S td c nm f (window_order_by over) (map ((!) rows) (map fst ?ix))")
       (auto simp del: map_map split: option.split)
  then show ?thesis using False st(1) by (intro exI [of _ "map fst ?ix"]) (simp only: if_False simp_thms)
qed

section \<open>Ranks\<close>

lemma all_equal_runs:
  assumes "\<forall>a b. eq a b"
  shows "rank_values eq i rs = replicate (length rs) (nat_show (i + 1))"
    and "dense_values eq n rs = replicate (length rs) (nat_show n)"
proof -
  have runs: "takeWhile (eq r) xs = xs" "dropWhile (eq r) xs = []" for r xs
    by (induction xs) (simp_all add: assms [rule_format])
  show "rank_values eq i rs = replicate (length rs) (nat_show (i + 1))"
    "dense_values eq n rs = replicate (length rs) (nat_show n)"
    by (cases rs; simp add: runs)+
qed

text \<open>
  \<open>RANK\<close> and \<open>DENSE_RANK\<close> compare rows without the description of the table, so a column has no value for them: in a
  window ordered by columns every row has rank one.
\<close>

theorem rank_is_always_one:
  assumes "\<forall>item \<in> set ob. \<exists>col. order_expr item = Identifier col"
  shows "ordered_window oc S td c ''RANK'' f ob rows = Ok (Some (replicate (length rows) (nat_show 1))) \<and>
         ordered_window oc S td c ''DENSE_RANK'' f ob rows = Ok (Some (replicate (length rows) (nat_show 1)))"
proof -
  have "rows_equal_on_order_by S ob a b" for a b
    using assms by (auto simp: rows_equal_on_order_by_def list_all_iff column_value_def)
  then show ?thesis by (simp add: ordered_window_def Let_def all_equal_runs)
qed

text \<open>
  In an ordered window \<open>PARTITION BY\<close> has no effect, and \<open>LAG\<close>, \<open>FIRST_VALUE\<close> and \<open>LAST_VALUE\<close> do not look at their
  first argument: they copy from the column at the position of the call in the select list.
\<close>

theorem window_ignores_partition_and_argument:
  assumes "ob \<noteq> []" and "nm \<in> {''LAG'', ''FIRST_VALUE'', ''LAST_VALUE''}"
  shows "compute_window_function oc S td rows c nm (FunctionCall fn (a # args) flt ov) (WindowSpec ps ob fr) =
         compute_window_function oc S td rows c nm (FunctionCall fn (a' # args) flt' ov') (WindowSpec [] ob fr')"
proof -
  have "arg_value S td (FunctionCall fn (a # args) flt ov) (Suc i) =
      arg_value S td (FunctionCall fn (a' # args) flt' ov') (Suc i)" for i
    by (simp add: arg_value_def nth_opt_def)
  from this [of 0] this [of 1] have "ordered_window oc S td c nm (FunctionCall fn (a # args) flt ov) ob rs =
      ordered_window oc S td c nm (FunctionCall fn (a' # args) flt' ov') ob rs" for rs
    using assms(2) by (auto simp: ordered_window_def Let_def arg_usize_def numeral_2_eq_2)
  then show ?thesis using assms(1) by (simp add: compute_window_function_def Let_def)
qed

section \<open>Tiles\<close>

text \<open>
  \<open>NTILE(n)\<close> numbers the rows with tiles that grow by at most one and lie between \<open>1\<close> and \<open>n\<close>.
\<close>

theorem ntile_bounds:
  assumes "0 < n" and "len * n < 2 ^ 64"
  shows "ntile oc n len = Ok (map (\<lambda>i. nat_show (i * n div len + 1)) [0..<len]) \<and>
         (\<forall>i < len. 1 \<le> i * n div len + 1 \<and> i * n div len + 1 \<le> n)"
proof -
  have small: "i * n < 2 ^ 64" if "i < len" for i
    using assms(2) that by (meson le_less_trans less_imp_le mult_le_mono1)
  moreover have "(len - 1) * n < 2 ^ 64" using assms(2) by (meson diff_le_self le_less_trans mult_le_mono1)
  ultimately have "ntile oc n len = Ok (map (\<lambda>i. nat_show (i * n div len + 1)) [0..<len])"
    by (simp add: ntile_def)
  moreover have "i * n div len < n" if "i < len" for i
    using that assms(1) by (simp add: div_less_iff_less_mult mult.commute)
  ultimately show ?thesis by (simp add: Suc_le_eq)
qed

theorem ntile_bounds_witness:
  "ntile True 2 3 = Ok [nat_show 1, nat_show 1, nat_show 2]"
  using ntile_bounds [of 2 3 True] by (simp add: upt_rec flip: numeral_2_eq_2)

text \<open>With overflow checks a large argument of \<open>NTILE\<close> stops the server.\<close>

theorem ntile_overflow_panics: "ntile True (2 ^ 63) 3 = panic"
  by (simp add: ntile_def)

section \<open>Instances\<close>

abbreviation by_a :: "unit Expr WindowSpec" where
  "by_a \<equiv> WindowSpec [] [OrderByItem (Identifier ''a'') Asc DefaultNulls] None"

abbreviation row_number_call :: "unit Expr FunctionCall" where
  "row_number_call \<equiv> FunctionCall (single_name ''ROW_NUMBER'') [] None None"

theorem window_values_complete_witness: "length (row_numbers 2) = length [[''y''], [''x'']]"
  by (rule window_values_complete [of True int_std "Some ab_desc" 1 "''ROW_NUMBER''" row_number_call "[]" "[[''y''], [''x'']]"])
    (simp add: ordered_window_def Let_def numeral_2_eq_2)

theorem rank_is_always_one_witness:
  "ordered_window True int_std (Some ab_desc) 0 ''RANK'' row_number_call (window_order_by by_a) [[''x''], [''y'']] =
   Ok (Some [nat_show 1, nat_show 1])"
  using rank_is_always_one [of "window_order_by by_a" True int_std "Some ab_desc" 0 row_number_call "[[''x''], [''y'']]"]
  by (simp add: numeral_2_eq_2)

end
