(* ===== verification/Lexer.thy ===== *)
theory Lexer
  imports Rust_Str
begin

text \<open>
  The tokenizer of SQL text (\<open>sql/parser/token.rs\<close>). The code works on characters; on the bytes of the UTF-8 form
  the result is the same, because every character it looks for is ASCII, what lies between quotes is copied and
  every other character is skipped. On identifiers, which are ASCII, \<open>to_uppercase\<close> is the ASCII one.
\<close>

section \<open>Tokens\<close>

datatype Token =
    TKeyword string | TIdent string | TNumber string | TString string
  | TLParen | TRParen | TLBracket | TRBracket | TComma | TDot | TSemicolon | TColon
  | TEq | TNeq | TLt | TGt | TLtEq | TGtEq | TPlus | TMinus | TStar | TSlash | TPercent
  | TAmpersand | TPipe | TCaret | TTilde | TBang | TQuestion | TLtLt | TGtGt | TEof

definition sql_keywords :: "string list" where
  "sql_keywords =
    [''SELECT'', ''INSERT'', ''UPDATE'', ''DELETE'', ''CREATE'', ''DROP'', ''ALTER'', ''TABLE'', ''INDEX'',
    ''VIEW'', ''PRIMARY'', ''KEY'', ''FOREIGN'', ''REFERENCES'', ''CONSTRAINT'', ''NOT'', ''NULL'', ''DEFAULT'',
    ''CHECK'', ''UNIQUE'', ''INT'', ''INTEGER'', ''BIGINT'', ''SMALLINT'', ''FLOAT'', ''DOUBLE'', ''PRECISION'',
    ''REAL'', ''NUMERIC'', ''DECIMAL'', ''VARCHAR'', ''CHAR'', ''TEXT'', ''BOOLEAN'', ''BOOL'', ''DATE'',
    ''TIME'', ''TIMETZ'', ''TIMESTAMP'', ''TIMESTAMPTZ'', ''INTERVAL'', ''JSON'', ''JSONB'', ''UUID'',
    ''ARRAY'', ''SERIAL'', ''BIGSERIAL'', ''SMALLSERIAL'', ''MONEY'', ''INET'', ''CIDR'', ''MACADDR'',
    ''MACADDR8'', ''BIT'', ''VARYING'', ''TSVECTOR'', ''TSQUERY'', ''FROM'', ''WHERE'', ''JOIN'', ''INNER'',
    ''LEFT'', ''RIGHT'', ''FULL'', ''CROSS'', ''ON'', ''USING'', ''AS'', ''AND'', ''OR'', ''IN'', ''BETWEEN'',
    ''LIKE'', ''ILIKE'', ''INTO'', ''IS'', ''EXISTS'', ''ANY'', ''ALL'', ''SOME'', ''ORDER'', ''BY'', ''ASC'',
    ''DESC'', ''NULLS'', ''FIRST'', ''LAST'', ''GROUP'', ''HAVING'', ''LIMIT'', ''OFFSET'', ''DISTINCT'',
    ''RETURNING'', ''VALUES'', ''SET'', ''UNION'', ''INTERSECT'', ''EXCEPT'', ''CONFLICT'', ''NOTHING'', ''DO'',
    ''EXCLUDED'', ''BEGIN'', ''START'', ''TRANSACTION'', ''COMMIT'', ''ROLLBACK'', ''ABORT'', ''ISOLATION'',
    ''LEVEL'', ''READ'', ''WRITE'', ''SERIALIZABLE'', ''REPEATABLE'', ''COMMITTED'', ''UNCOMMITTED'',
    ''DEFERRABLE'', ''EXPLAIN'', ''CASCADE'', ''RESTRICT'', ''IF'', ''TRUE'', ''FALSE'', ''CASE'', ''WHEN'',
    ''THEN'', ''ELSE'', ''END'', ''OVER'', ''PARTITION'', ''FILTER'', ''ROWS'', ''RANGE'', ''GROUPS'',
    ''CURRENT'', ''ROW'', ''PRECEDING'', ''FOLLOWING'', ''UNBOUNDED'', ''ADD'', ''COLUMN'', ''RENAME'', ''TO'',
    ''DATA'', ''TYPE'', ''WINDOW'', ''FETCH'', ''NEXT'', ''ONLY'', ''WITH'', ''RECURSIVE'', ''MATERIALIZED'',
    ''UNMATERIALIZED'', ''FORCE'', ''ENABLE'', ''DISABLE'', ''SECURITY'', ''GRANT'', ''REVOKE'', ''ROLE'',
    ''ADMIN'', ''OPTION'', ''PUBLIC'', ''TRIGGER'', ''FUNCTION'', ''PROCEDURE'', ''RETURNS'', ''RETURN'',
    ''DECLARE'', ''LOOP'', ''WHILE'', ''FOR'', ''REVERSE'', ''EXIT'', ''CONTINUE'', ''ELSIF'', ''PERFORM'',
    ''EXECUTE'', ''RAISE'', ''NOTICE'', ''EXCEPTION'', ''WARNING'', ''INFO'', ''DEBUG'', ''LOG'', ''ASSERT'',
    ''FOUND'', ''NEW'', ''OLD'', ''TG_OP'', ''TG_TABLE_NAME'', ''TG_TABLE_SCHEMA'', ''TG_WHEN'', ''TG_LEVEL'',
    ''TG_ARGV'', ''CAST'', ''NOW'', ''CURRENT_DATE'', ''CURRENT_TIME'', ''CURRENT_TIMESTAMP'', ''EXTRACT'',
    ''DATE_TRUNC'', ''DATE_PART'', ''AT'', ''ZONE'', ''YEAR'', ''MONTH'', ''DAY'', ''HOUR'', ''MINUTE'',
    ''SECOND'', ''MILLISECOND'', ''MICROSECOND'', ''DOW'', ''DOY'', ''ISODOW'', ''WEEK'', ''QUARTER'',
    ''EPOCH'', ''ISOYEAR'', ''TIMEZONE'', ''TIMEZONE_HOUR'', ''TIMEZONE_MINUTE'', ''LOCALTIME'',
    ''LOCALTIMESTAMP'', ''GREATEST'', ''LEAST'', ''COALESCE'', ''NULLIF'', ''ABS'', ''CEIL'', ''FLOOR'',
    ''ROUND'', ''TRUNC'', ''SIGN'', ''POWER'', ''SQRT'', ''LN'', ''EXP'', ''LENGTH'', ''UPPER'', ''LOWER'',
    ''TRIM'', ''LTRIM'', ''RTRIM'', ''SUBSTRING'', ''REPLACE'', ''CONCAT'', ''CONCAT_WS'', ''INITCAP'',
    ''POSITION'', ''STRPOS'', ''OVERLAY'', ''LPAD'', ''RPAD'', ''REGEXP_REPLACE'', ''REGEXP_MATCHES'',
    ''SEQUENCE'', ''INCREMENT'', ''CACHE'', ''CYCLE'', ''OWNED'', ''MINVALUE'', ''MAXVALUE'', ''MERGE'',
    ''MATCHED'', ''SOURCE'', ''TARGET'', ''COMPOSITE'', ''ENUM'', ''NOCYCLE'', ''NO'', ''NOMINVALUE'',
    ''NOMAXVALUE'', ''NOCACHE'', ''SCHEMA'', ''AUTHORIZATION'', ''SESSION'', ''LOCAL'', ''CHARACTERISTICS'']"

text \<open>The characters that are a token on their own.\<close>

definition symbols :: "(char \<times> Token) list" where
  "symbols =
     [(CHR ''('', TLParen), (CHR '')'', TRParen), (CHR ''['', TLBracket), (CHR '']'', TRBracket),
      (CHR '','', TComma), (CHR ''.'', TDot), (CHR '';'', TSemicolon), (CHR '':'', TColon), (CHR ''+'', TPlus),
      (CHR ''*'', TStar), (CHR ''/'', TSlash), (CHR ''%'', TPercent), (CHR ''&'', TAmpersand),
      (CHR ''|'', TPipe), (CHR ''^'', TCaret), (CHR ''~'', TTilde), (CHR ''?'', TQuestion)]"

abbreviation quote :: char where
  "quote \<equiv> CHR 0x27"

abbreviation double_quote :: char where
  "double_quote \<equiv> CHR 0x22"

definition blank :: "char \<Rightarrow> bool" where
  "blank c \<longleftrightarrow> c \<in> {CHR '' '', CHR 0x09, CHR 0x0A, CHR 0x0D}"

definition ident_start :: "char \<Rightarrow> bool" where
  "ident_start c \<longleftrightarrow> is_ascii_alphabetic c \<or> c = CHR ''_''"

definition ident_char :: "char \<Rightarrow> bool" where
  "ident_char c \<longleftrightarrow> is_ascii_alphabetic c \<or> is_ascii_digit c \<or> c = CHR ''_''"

definition number_char :: "char \<Rightarrow> bool" where
  "number_char c \<longleftrightarrow> is_ascii_digit c \<or> c = CHR ''.''"

definition word_token :: "string \<Rightarrow> Token" where
  "word_token s = (if to_ascii_uppercase s \<in> set sql_keywords then TKeyword s else TIdent s)"

text \<open>
  The loop over the inside of a string literal: the text up to the closing quote, and what follows it. The branch
  for a doubled quote is the code's.
\<close>

fun string_body :: "string \<Rightarrow> string \<times> string" where
  "string_body [] = ([], [])"
| "string_body (c # cs) =
     (if c \<noteq> quote then
        (if c = quote \<and> cs \<noteq> [] \<and> hd cs = quote
         then apfst (Cons quote) (string_body (drop 1 cs))
         else apfst (Cons c) (string_body cs))
      else ([], cs))"

text \<open>
  One round of the main loop on a text that starts with the character \<open>c\<close>: the token, if any, and the text left.
  The first definitions are the branches for the characters that need a second one.
\<close>

definition lex_minus :: "string \<Rightarrow> Token option \<times> string" where
  "lex_minus cs =
     (if cs \<noteq> [] \<and> hd cs = CHR ''-'' then (None, dropWhile (\<lambda>x. x \<noteq> CHR 0x0A) cs) else (Some TMinus, cs))"

definition lex_less :: "string \<Rightarrow> Token option \<times> string" where
  "lex_less cs =
     (case cs of
        [] \<Rightarrow> (Some TLt, cs)
      | d # ds \<Rightarrow>
          if d = CHR ''>'' then (Some TNeq, ds)
          else if d = CHR ''='' then (Some TLtEq, ds)
          else if d = CHR ''<'' then (Some TLtLt, ds)
          else (Some TLt, cs))"

definition lex_greater :: "string \<Rightarrow> Token option \<times> string" where
  "lex_greater cs =
     (case cs of
        [] \<Rightarrow> (Some TGt, cs)
      | d # ds \<Rightarrow>
          if d = CHR ''='' then (Some TGtEq, ds)
          else if d = CHR ''>'' then (Some TGtGt, ds)
          else (Some TGt, cs))"

definition lex_bang :: "string \<Rightarrow> Token option \<times> string" where
  "lex_bang cs = (if cs \<noteq> [] \<and> hd cs = CHR ''='' then (Some TNeq, tl cs) else (Some TBang, cs))"

definition lex_quoted :: "string \<Rightarrow> Token option \<times> string" where
  "lex_quoted cs =
     (Some (TIdent (takeWhile (\<lambda>x. x \<noteq> double_quote) cs)), tl (dropWhile (\<lambda>x. x \<noteq> double_quote) cs))"

definition lex_step :: "char \<Rightarrow> string \<Rightarrow> Token option \<times> string" where
  "lex_step c cs =
     (if blank c then (None, cs)
      else case map_of symbols c of Some t \<Rightarrow> (Some t, cs) | None \<Rightarrow>
      if c = CHR ''-'' then lex_minus cs
      else if c = CHR ''='' then (Some TEq, cs)
      else if c = CHR ''<'' then lex_less cs
      else if c = CHR ''>'' then lex_greater cs
      else if c = CHR ''!'' then lex_bang cs
      else if c = quote then (Some (TString (fst (string_body cs))), snd (string_body cs))
      else if c = double_quote then lex_quoted cs
      else if is_ascii_digit c then
        (Some (TNumber (c # takeWhile number_char cs)), dropWhile number_char cs)
      else if ident_start c then
        (Some (word_token (c # takeWhile ident_char cs)), dropWhile ident_char cs)
      else (None, cs))"

lemma string_body_shrinks: "length (snd (string_body cs)) \<le> length cs"
  by (induction cs rule: string_body.induct) auto

lemma branches_shrink:
  "length (snd (lex_minus cs)) \<le> length cs"
  "length (snd (lex_less cs)) \<le> length cs"
  "length (snd (lex_greater cs)) \<le> length cs"
  "length (snd (lex_bang cs)) \<le> length cs"
  "length (snd (lex_quoted cs)) \<le> length cs"
proof -
  show "length (snd (lex_quoted cs)) \<le> length cs"
    using length_dropWhile_le [of "\<lambda>x. x \<noteq> double_quote" cs] by (simp add: lex_quoted_def)
qed (auto simp: lex_minus_def lex_less_def lex_greater_def lex_bang_def length_dropWhile_le split: list.split)

lemma if_cases: "P x \<Longrightarrow> P y \<Longrightarrow> P (if b then x else y)"
  by simp

lemma option_cases: "P x \<Longrightarrow> (\<And>v. P (f v)) \<Longrightarrow> P (case m of None \<Rightarrow> x | Some v \<Rightarrow> f v)"
  by (cases m) auto

lemma lex_step_shrinks: "length (snd (lex_step c cs)) \<le> length cs"
  unfolding lex_step_def
  by (intro if_cases [where P = "\<lambda>r. length (snd r) \<le> length cs"] option_cases [where P = "\<lambda>r. length (snd r) \<le> length cs"])
     (simp_all add: branches_shrink string_body_shrinks length_dropWhile_le)

function tokenize :: "string \<Rightarrow> Token list" where
  "tokenize [] = [TEof]"
| "tokenize (c # cs) =
     (case fst (lex_step c cs) of None \<Rightarrow> [] | Some t \<Rightarrow> [t]) @ tokenize (snd (lex_step c cs))"
  by pat_completeness auto
termination by (relation "measure length") (auto simp: lex_step_shrinks le_imp_less_Suc)

declare tokenize.simps(2) [simp del]

section \<open>Reading back printed tokens\<close>

text \<open>
  A printer for tokens: an identifier in double quotes, a string in single quotes. A token is \<open>lexable\<close> when it has
  a printed form: there is no way to write a string with a single quote in it.
\<close>

fun show_token :: "Token \<Rightarrow> string" where
  "show_token (TKeyword k) = k"
| "show_token (TIdent s) = double_quote # s @ [double_quote]"
| "show_token (TNumber s) = s"
| "show_token (TString s) = quote # s @ [quote]"
| "show_token TLParen = ''(''" | "show_token TRParen = '')''"
| "show_token TLBracket = ''[''" | "show_token TRBracket = '']''"
| "show_token TComma = '',''" | "show_token TDot = ''.''"
| "show_token TSemicolon = '';''" | "show_token TColon = '':''"
| "show_token TEq = ''=''" | "show_token TNeq = ''<>''"
| "show_token TLt = ''<''" | "show_token TGt = ''>''"
| "show_token TLtEq = ''<=''" | "show_token TGtEq = ''>=''"
| "show_token TPlus = ''+''" | "show_token TMinus = ''-''"
| "show_token TStar = ''*''" | "show_token TSlash = ''/''"
| "show_token TPercent = ''%''" | "show_token TAmpersand = ''&''"
| "show_token TPipe = ''|''" | "show_token TCaret = ''^''"
| "show_token TTilde = ''~''" | "show_token TBang = ''!''"
| "show_token TQuestion = ''?''" | "show_token TLtLt = ''<<''"
| "show_token TGtGt = ''>>''" | "show_token TEof = ''''"

definition word :: "string \<Rightarrow> bool" where
  "word s \<longleftrightarrow> s \<noteq> [] \<and> ident_start (hd s) \<and> list_all ident_char s"

fun lexable :: "Token \<Rightarrow> bool" where
  "lexable (TKeyword k) \<longleftrightarrow> word k \<and> to_ascii_uppercase k \<in> set sql_keywords"
| "lexable (TIdent s) \<longleftrightarrow> double_quote \<notin> set s"
| "lexable (TNumber s) \<longleftrightarrow> s \<noteq> [] \<and> is_ascii_digit (hd s) \<and> list_all number_char s"
| "lexable (TString s) \<longleftrightarrow> quote \<notin> set s"
| "lexable TEof \<longleftrightarrow> False"
| "lexable t \<longleftrightarrow> True"

definition show_tokens :: "Token list \<Rightarrow> string" where
  "show_tokens ts = concat (map (\<lambda>t. show_token t @ '' '') ts)"

text \<open>The characters with a branch of their own are neither digits nor letters.\<close>

definition specials :: "char list" where
  "specials = [CHR '' '', CHR 0x09, CHR 0x0A, CHR 0x0D] @ map fst symbols @
     [CHR ''-'', CHR ''='', CHR ''<'', CHR ''>'', CHR ''!'', quote, double_quote]"

lemma specials_no_word: "list_all (\<lambda>c. \<not> is_ascii_digit c \<and> \<not> ident_start c) specials"
  by code_simp

lemma not_special:
  assumes "is_ascii_digit c \<or> ident_start c"
  shows "\<not> blank c" "map_of symbols c = None"
    "c \<noteq> CHR ''-''" "c \<noteq> CHR ''=''" "c \<noteq> CHR ''<''" "c \<noteq> CHR ''>''" "c \<noteq> CHR ''!''" "c \<noteq> quote" "c \<noteq> double_quote"
proof -
  have "c \<notin> set specials" using specials_no_word assms by (auto simp: list_all_iff)
  then show "\<not> blank c" "map_of symbols c = None"
    "c \<noteq> CHR ''-''" "c \<noteq> CHR ''=''" "c \<noteq> CHR ''<''" "c \<noteq> CHR ''>''" "c \<noteq> CHR ''!''" "c \<noteq> quote" "c \<noteq> double_quote"
    by (auto simp: specials_def blank_def map_of_eq_None_iff)
qed

lemma digit_not_start: "is_ascii_digit c \<Longrightarrow> \<not> ident_start c"
  by (auto simp: is_ascii_digit_def ident_start_def is_ascii_alphabetic_def less_eq_char_def)

lemma space_ends: "\<not> ident_char CHR '' ''" "\<not> number_char CHR '' ''"
  by code_simp+

lemma string_body_to_quote: "quote \<notin> set s \<Longrightarrow> string_body (s @ quote # rest) = (s, rest)"
  by (induction s) auto

lemma while_word:
  assumes "list_all P s" "\<not> P c"
  shows "takeWhile P (s @ c # rest) = s" "dropWhile P (s @ c # rest) = c # rest"
  using assms by (simp_all add: takeWhile_append2 dropWhile_append2 list_all_iff)

lemma tokenize_space [simp]: "tokenize (CHR '' '' # cs) = tokenize cs"
  by (simp add: tokenize.simps(2) lex_step_def blank_def)

lemma tokenize_Cons:
  "lex_step c cs = (Some t, r) \<Longrightarrow> tokenize (c # cs) = t # tokenize r"
  by (simp add: tokenize.simps(2))

lemma tokenize_word:
  assumes "word s"
  shows "tokenize (s @ CHR '' '' # rest) = word_token s # tokenize rest"
proof -
  obtain c cs where s: "s = c # cs" using assms by (cases s) (auto simp: word_def)
  have c: "ident_start c" and cs: "list_all ident_char cs" using assms by (auto simp: word_def s)
  have "\<not> is_ascii_digit c" using c digit_not_start by blast
  then have "lex_step c (cs @ CHR '' '' # rest) = (Some (word_token s), CHR '' '' # rest)"
    using c by (simp add: lex_step_def not_special while_word [OF cs space_ends(1)] s)
  then show ?thesis by (simp only: s append_Cons tokenize_Cons) simp
qed

lemma tokenize_number:
  assumes "s \<noteq> []" "is_ascii_digit (hd s)" "list_all number_char s"
  shows "tokenize (s @ CHR '' '' # rest) = TNumber s # tokenize rest"
proof -
  obtain c cs where s: "s = c # cs" using assms by (cases s) auto
  have c: "is_ascii_digit c" and cs: "list_all number_char cs" using assms by (auto simp: s)
  have "lex_step c (cs @ CHR '' '' # rest) = (Some (TNumber s), CHR '' '' # rest)"
    using c by (simp add: lex_step_def not_special while_word [OF cs space_ends(2)] s)
  then show ?thesis by (simp only: s append_Cons tokenize_Cons) simp
qed

lemma tokenize_lexable:
  assumes "lexable t"
  shows "tokenize (show_token t @ CHR '' '' # rest) = t # tokenize rest"
proof (cases t)
  case (TKeyword k)
  then show ?thesis using assms by (simp add: tokenize_word word_token_def)
next
  case (TNumber s)
  then show ?thesis using assms by (simp add: tokenize_number)
next
  case (TString s)
  then show ?thesis using assms
    by (simp add: tokenize_Cons lex_step_def blank_def symbols_def string_body_to_quote)
next
  case (TIdent s)
  then have "list_all (\<lambda>x. x \<noteq> double_quote) s" using assms by (auto simp: list_all_iff)
  note while_word [OF this, of double_quote]
  then show ?thesis
    by (simp add: TIdent tokenize_Cons lex_step_def blank_def symbols_def lex_quoted_def)
qed (use assms in \<open>simp_all add: tokenize_Cons lex_step_def blank_def symbols_def lex_minus_def lex_less_def
       lex_greater_def lex_bang_def\<close>)

lemma tokenize_tokens: "list_all lexable ts \<Longrightarrow> tokenize (show_tokens ts) = ts @ [TEof]"
  by (induction ts) (simp_all add: show_tokens_def tokenize_lexable)

text \<open>
  C11: tokens printed with a blank after each are read back as they were, followed by the end marker.
\<close>

theorem tokenize_roundtrip:
  assumes "list_all lexable ts"
  shows "tokenize (show_tokens ts) = ts @ [TEof]"
  using tokenize_tokens [OF assms] .

theorem tokenize_roundtrip_witness:
  "let ts = [TKeyword ''select'', TStar, TKeyword ''From'', TIdent ''my table'', TKeyword ''WHERE'', TIdent ''a'', TLtEq,
     TString ''x-- y'', TMinus, TNumber ''1.5'', TSemicolon]
   in list_all lexable ts \<and> tokenize (show_tokens ts) = ts @ [TEof]"
proof -
  let ?ts = "[TKeyword ''select'', TStar, TKeyword ''From'', TIdent ''my table'', TKeyword ''WHERE'', TIdent ''a'', TLtEq,
     TString ''x-- y'', TMinus, TNumber ''1.5'', TSemicolon]"
  have "list_all lexable ?ts" by code_simp
  then show ?thesis using tokenize_roundtrip [of ?ts] by (simp only: Let_def)
qed

section \<open>The end marker, and quotes in strings\<close>

lemma symbols_plain: "list_all (\<lambda>(c, t). t \<noteq> TEof \<and> (\<forall>s. t \<noteq> TString s)) symbols"
  by (simp add: symbols_def)

lemma symbol_plain: "map_of symbols c = Some t \<Longrightarrow> t \<noteq> TEof \<and> t \<noteq> TString s"
  using symbols_plain by (auto simp: list_all_iff dest!: map_of_SomeD)

lemma lex_step_token:
  assumes "fst (lex_step c cs) = Some t"
  shows "t \<noteq> TEof" "t = TString s \<Longrightarrow> s = fst (string_body cs)"
proof -
  have "t \<noteq> TEof \<and> (t = TString s \<longrightarrow> s = fst (string_body cs))"
    using assms unfolding lex_step_def
    by (auto simp: lex_minus_def lex_less_def lex_greater_def lex_bang_def lex_quoted_def word_token_def
        dest: symbol_plain split: if_splits option.splits list.splits)
  then show "t \<noteq> TEof" "t = TString s \<Longrightarrow> s = fst (string_body cs)" by auto
qed

lemma string_body_unquoted: "quote \<notin> set (fst (string_body cs))"
  by (induction cs rule: string_body.induct) auto

text \<open>
  The token list of every text ends with the end marker, which occurs nowhere else, and no string token contains a
  single quote: the branch of the loop that means to read a doubled quote is never taken. A literal with a doubled
  quote is read as two literals.
\<close>

theorem strings_cannot_hold_quotes:
  "last (tokenize sql) = TEof \<and> TEof \<notin> set (butlast (tokenize sql)) \<and>
   (\<forall>s. TString s \<in> set (tokenize sql) \<longrightarrow> quote \<notin> set s) \<and>
   (quote \<notin> set a \<and> quote \<notin> set b \<longrightarrow>
      tokenize (quote # a @ [quote, quote] @ b @ [quote]) = [TString a, TString b, TEof])"
proof -
  have "last (tokenize sql) = TEof \<and> TEof \<notin> set (butlast (tokenize sql)) \<and> tokenize sql \<noteq> [] \<and>
    (\<forall>s. TString s \<in> set (tokenize sql) \<longrightarrow> quote \<notin> set s)"
  proof (induction sql rule: tokenize.induct)
    case (2 c cs)
    show ?case
    proof (cases "fst (lex_step c cs)")
      case None
      then show ?thesis using 2 by (simp add: tokenize.simps(2))
    next
      case (Some t)
      then show ?thesis
        using 2 lex_step_token [OF Some] string_body_unquoted [of cs] by (auto simp: tokenize.simps(2) butlast_append)
    qed
  qed simp
  moreover have "tokenize (quote # a @ [quote, quote] @ b @ [quote]) = [TString a, TString b, TEof]"
    if "quote \<notin> set a" "quote \<notin> set b"
    using that by (simp add: tokenize_Cons lex_step_def blank_def symbols_def string_body_to_quote)
  ultimately show ?thesis by blast
qed

theorem strings_cannot_hold_quotes_witness:
  "tokenize (quote # ''it'' @ [quote, quote] @ ''s'' @ [quote]) = [TString ''it'', TString ''s'', TEof]"
  using strings_cannot_hold_quotes [of "[]" "''it''" "''s''"] by simp

text \<open>
  Words the parser tests for as keywords but the tokenizer does not know: they reach the parser as identifiers.
\<close>

theorem keywords_unknown_to_lexer:
  "list_all (\<lambda>k. k \<notin> set sql_keywords)
     [''OUTER'', ''NATURAL'', ''LATERAL'', ''SHARE'', ''COLLATE'', ''SUBTYPE'']"
  by (simp add: sql_keywords_def)

end
