(* ===== verification/Parse_Base.thy ===== *)
theory Parse_Base
  imports Lexer Sql_Stmt
begin

text \<open>
  The parser state and the helpers shared by the parsers of \<open>sql/parser.rs\<close> and \<open>sql/parser/*.rs\<close>.

  The code keeps the token vector and a position that it moves forward and, in a few places, back to a saved value;
  here the state is the list of the tokens from the position on, so that a saved position is an earlier list. Reading
  past the end gives the end marker. A parser returns the rest of the tokens with its result, an error with what the
  message shows, or \<open>None\<close> when it does not return. Keyword tokens are ASCII (\<open>Lexer\<close>), so \<open>to_uppercase\<close> on them is
  the ASCII one.
\<close>

section \<open>Parsers\<close>

datatype parse_error =
    ExpectedToken Token Token
  | ExpectedKeyword string Token
  | ExpectedIdent Token
  | ExpectedString Token
  | Unexpected string Token
  | Message string

type_synonym tokens = "Token list"
type_synonym 'a parser = "tokens \<Rightarrow> (parse_error + 'a \<times> tokens) option"

definition return :: "'a \<Rightarrow> 'a parser" where
  "return x ts = Some (Inr (x, ts))"

definition bail :: "parse_error \<Rightarrow> 'a parser" where
  "bail e ts = Some (Inl e)"

definition diverge :: "'a parser" where
  "diverge ts = None"

definition next_to :: "'a parser \<Rightarrow> ('a \<Rightarrow> 'b parser) \<Rightarrow> 'b parser" where
  "next_to p f ts =
     (case p ts of None \<Rightarrow> None | Some (Inl e) \<Rightarrow> Some (Inl e) | Some (Inr (x, ts')) \<Rightarrow> f x ts')"

definition peek :: "tokens \<Rightarrow> Token" where
  "peek ts = (case ts of [] \<Rightarrow> TEof | t # _ \<Rightarrow> t)"

definition advance :: "Token parser" where
  "advance ts = Some (Inr (peek ts, tl ts))"

definition keyword :: "string \<Rightarrow> Token \<Rightarrow> bool" where
  "keyword k t = (case t of TKeyword k' \<Rightarrow> to_ascii_uppercase k' = k | _ \<Rightarrow> False)"

text \<open>The conditional on the next token, with or without stepping over it.\<close>

definition when_next :: "(Token \<Rightarrow> bool) \<Rightarrow> 'a parser \<Rightarrow> 'a parser \<Rightarrow> 'a parser" where
  "when_next P p q ts = (if P (peek ts) then p ts else q ts)"

definition when_skip :: "(Token \<Rightarrow> bool) \<Rightarrow> 'a parser \<Rightarrow> 'a parser \<Rightarrow> 'a parser" where
  "when_skip P p q ts = (if P (peek ts) then p (tl ts) else q ts)"

section \<open>The helpers of the code\<close>

definition expect :: "Token \<Rightarrow> unit parser" where
  "expect t = next_to advance (\<lambda>t'. if t' \<noteq> t then bail (ExpectedToken t t') else return ())"

definition expect_keyword :: "string \<Rightarrow> unit parser" where
  "expect_keyword k =
     next_to advance (\<lambda>t. if keyword (to_ascii_uppercase k) t then return () else bail (ExpectedKeyword k t))"

definition expect_ident :: "string parser" where
  "expect_ident =
     next_to advance (\<lambda>t. case t of TIdent s \<Rightarrow> return s | TKeyword k \<Rightarrow> return k | other \<Rightarrow> bail (ExpectedIdent other))"

definition expect_string :: "string parser" where
  "expect_string = next_to advance (\<lambda>t. case t of TString s \<Rightarrow> return s | other \<Rightarrow> bail (ExpectedString other))"

definition advance_ident :: "string \<Rightarrow> string parser" where
  "advance_ident s = next_to advance (\<lambda>_. return s)"

text \<open>
  A loop of the code carries a state; a round ends with a new state (\<open>again\<close>) or with the result (\<open>done_with\<close>).
  The most frequent one is \<open>loop { push(p); if !matches!(peek, sep) { break } advance }\<close>, for the commas of a list
  and for the dots of a name.
\<close>

partial_function (option) loop :: "('s \<Rightarrow> ('s + 'a) parser) \<Rightarrow> 's \<Rightarrow> 'a parser" where
  "loop f s ts =
     (case f s ts of
        None \<Rightarrow> None
      | Some (Inl e) \<Rightarrow> Some (Inl e)
      | Some (Inr (Inl s', ts')) \<Rightarrow> loop f s' ts'
      | Some (Inr (Inr x, ts')) \<Rightarrow> Some (Inr (x, ts')))"

definition again :: "'s \<Rightarrow> ('s + 'a) parser" where
  "again s = return (Inl s)"

definition done_with :: "'a \<Rightarrow> ('s + 'a) parser" where
  "done_with x = return (Inr x)"

definition sep_list :: "Token \<Rightarrow> 'a parser \<Rightarrow> 'a list parser" where
  "sep_list sep p =
     loop (\<lambda>acc. next_to p (\<lambda>x. when_skip (\<lambda>t. t = sep) (again (acc @ [x])) (done_with (acc @ [x])))) []"

definition parse_name :: "ObjectName parser" where
  "parse_name = next_to (sep_list TDot expect_ident) (\<lambda>ps. return (object_name ps))"

text \<open>A bracketed list of names, and the same when it is optional.\<close>

definition paren_names :: "string list parser" where
  "paren_names =
     next_to (expect TLParen) (\<lambda>_. next_to (sep_list TComma expect_ident) (\<lambda>cols.
     next_to (expect TRParen) (\<lambda>_. return cols)))"

definition optional_names :: "string list option parser" where
  "optional_names =
     when_skip (\<lambda>t. t = TLParen)
       (next_to (sep_list TComma expect_ident) (\<lambda>cols. next_to (expect TRParen) (\<lambda>_. return (Some cols))))
       (return None)"

definition optional :: "string \<Rightarrow> 'a parser \<Rightarrow> 'a option parser" where
  "optional k p = when_skip (keyword k) (next_to p (\<lambda>x. return (Some x))) (return None)"

definition flag :: "string \<Rightarrow> bool parser" where
  "flag k = when_skip (keyword k) (return True) (return False)"

definition skip :: "'a parser \<Rightarrow> 'a parser" where
  "skip p ts = p (tl ts)"

definition on_peek :: "(Token \<Rightarrow> 'a parser) \<Rightarrow> 'a parser" where
  "on_peek f ts = f (peek ts) ts"

lemmas parser_defs = return_def bail_def next_to_def advance_def when_next_def when_skip_def skip_def on_peek_def
  again_def done_with_def

section \<open>Parsers that return\<close>

text \<open>
  \<open>halts n p\<close>: on at most \<open>n\<close> tokens the parser returns, and it leaves no more tokens than there were. The rules
  with \<open>Suc n\<close> are for parsers that first step over a token. \<open>rounds n p\<close> is the condition on a round of a loop: when
  it asks for another round it has stepped over a token.
\<close>

fun within :: "nat \<Rightarrow> (parse_error + 'a \<times> tokens) option \<Rightarrow> bool" where
  "within b None \<longleftrightarrow> False"
| "within b (Some (Inl e)) \<longleftrightarrow> True"
| "within b (Some (Inr (x, ts))) \<longleftrightarrow> length ts \<le> b"

fun round_within :: "nat \<Rightarrow> (parse_error + ('s + 'a) \<times> tokens) option \<Rightarrow> bool" where
  "round_within b None \<longleftrightarrow> False"
| "round_within b (Some (Inl e)) \<longleftrightarrow> True"
| "round_within b (Some (Inr (Inl s, ts))) \<longleftrightarrow> length ts < b"
| "round_within b (Some (Inr (Inr x, ts))) \<longleftrightarrow> length ts \<le> b"

definition halts :: "nat \<Rightarrow> 'a parser \<Rightarrow> bool" where
  "halts n p \<longleftrightarrow> (\<forall>ts. length ts \<le> n \<longrightarrow> within (length ts) (p ts))"

definition rounds :: "nat \<Rightarrow> ('s + 'a) parser \<Rightarrow> bool" where
  "rounds n p \<longleftrightarrow> (\<forall>ts. length ts \<le> n \<longrightarrow> round_within (length ts) (p ts))"

lemma within_mono: "within b r \<Longrightarrow> b \<le> c \<Longrightarrow> within c r"
  by (cases "(b, r)" rule: within.cases) auto

lemma round_within_mono: "round_within b r \<Longrightarrow> b \<le> c \<Longrightarrow> round_within c r"
  by (cases "(b, r)" rule: round_within.cases) auto

lemma within_round: "within b r \<Longrightarrow> b < c \<Longrightarrow> round_within c r"
  by (cases "(b, r)" rule: round_within.cases) auto

lemma within_next:
  assumes "within b (p ts)" "\<And>x ts'. p ts = Some (Inr (x, ts')) \<Longrightarrow> length ts' \<le> b \<Longrightarrow> within c (f x ts')"
  shows "within c (next_to p f ts)"
  using assms by (cases "(b, p ts)" rule: within.cases) (auto simp: next_to_def)

lemma round_within_next:
  assumes "within b (p ts)" "\<And>x ts'. p ts = Some (Inr (x, ts')) \<Longrightarrow> length ts' \<le> b \<Longrightarrow> round_within c (f x ts')"
  shows "round_within c (next_to p f ts)"
  using assms by (cases "(b, p ts)" rule: within.cases) (auto simp: next_to_def)

lemma length_tl_le: "length ts \<le> Suc n \<Longrightarrow> length (tl ts) \<le> n"
  by (cases ts) auto

lemma peek_skips: "P (peek ts) \<Longrightarrow> \<not> P TEof \<Longrightarrow> length (tl ts) < length ts"
  by (cases ts) (auto simp: peek_def)

lemma halts_leaf: "halts n (return x)" "halts n (bail e)" "halts n (again s)" "halts n (done_with x)" "halts n advance"
  by (auto simp: halts_def parser_defs)

lemma haltsI: "(\<And>ts. length ts \<le> n \<Longrightarrow> within (length ts) (p ts)) \<Longrightarrow> halts n p"
  by (simp add: halts_def)

lemma haltsD: "halts n p \<Longrightarrow> length ts \<le> n \<Longrightarrow> length ts \<le> b \<Longrightarrow> within b (p ts)"
  using within_mono by (auto simp: halts_def)

lemma halts_next:
  assumes "halts n p" "\<And>x. halts n (f x)"
  shows "halts n (next_to p f)"
proof (rule haltsI)
  fix ts :: tokens
  assume "length ts \<le> n"
  then show "within (length ts) (next_to p f ts)"
    using assms by (intro within_next [of "length ts"]) (simp_all add: haltsD [of n])
qed

lemma halts_skip: "halts n p \<Longrightarrow> halts (Suc n) (skip p)" "halts n p \<Longrightarrow> halts n (skip p)"
  by (rule haltsI, simp add: skip_def haltsD length_tl_le)+

lemma halts_when_skip:
  "halts n p \<Longrightarrow> halts (Suc n) q \<Longrightarrow> halts (Suc n) (when_skip P p q)"
  "halts n p \<Longrightarrow> halts n q \<Longrightarrow> halts n (when_skip P p q)"
  by (rule haltsI, simp add: when_skip_def haltsD length_tl_le)+

lemma halts_when_next: "halts n p \<Longrightarrow> halts n q \<Longrightarrow> halts n (when_next P p q)"
  unfolding halts_def when_next_def by simp

lemma halts_on_peek: "(\<And>t. halts n (f t)) \<Longrightarrow> halts n (on_peek f)"
  unfolding halts_def on_peek_def by simp

lemma halts_if: "halts n p \<Longrightarrow> halts n q \<Longrightarrow> halts n (if b then p else q)"
  by simp

lemma halts_option: "halts n p \<Longrightarrow> (\<And>x. halts n (f x)) \<Longrightarrow> halts n (case m of None \<Rightarrow> p | Some x \<Rightarrow> f x)"
  by (cases m) auto

lemma halts_loop:
  assumes "\<And>s. rounds n (f s)"
  shows "halts n (loop f s)"
proof -
  have "within (length ts) (loop f s ts)" if "length ts \<le> n" for s ts
    using that
  proof (induction "length ts" arbitrary: s ts rule: less_induct)
    case less
    have "round_within (length ts) (f s ts)" using assms less.prems by (simp add: rounds_def)
    then show ?case
      by (subst loop.simps, cases "(length ts, f s ts)" rule: round_within.cases)
         (use less in \<open>auto intro: within_mono [OF less.hyps]\<close>)
  qed
  then show ?thesis by (simp add: halts_def)
qed

lemma rounds_leaf: "rounds n (done_with x)" "rounds n (bail e)"
  by (auto simp: rounds_def parser_defs)

lemma roundsI: "(\<And>ts. length ts \<le> n \<Longrightarrow> round_within (length ts) (p ts)) \<Longrightarrow> rounds n p"
  by (simp add: rounds_def)

lemma roundsD: "rounds n p \<Longrightarrow> length ts \<le> n \<Longrightarrow> length ts \<le> b \<Longrightarrow> round_within b (p ts)"
  using round_within_mono by (auto simp: rounds_def)

lemma rounds_next:
  assumes "halts n p" "\<And>x. rounds n (f x)"
  shows "rounds n (next_to p f)"
proof (rule roundsI)
  fix ts :: tokens
  assume "length ts \<le> n"
  then show "round_within (length ts) (next_to p f ts)"
    using assms by (intro round_within_next [of "length ts"]) (simp_all add: haltsD roundsD [of n])
qed

lemma rounds_when_skip:
  "\<not> P TEof \<Longrightarrow> halts n p \<Longrightarrow> rounds (Suc n) q \<Longrightarrow> rounds (Suc n) (when_skip P p q)"
  "\<not> P TEof \<Longrightarrow> halts n p \<Longrightarrow> rounds n q \<Longrightarrow> rounds n (when_skip P p q)"
proof -
  assume P: "\<not> P TEof"
  have skips: "P (peek ts) \<Longrightarrow> length (tl ts) < length ts" for ts using peek_skips P by metis
  show "halts n p \<Longrightarrow> rounds (Suc n) q \<Longrightarrow> rounds (Suc n) (when_skip P p q)"
    by (rule roundsI) (auto simp: when_skip_def roundsD intro!: within_round [OF haltsD [OF _ _ order_refl] skips] length_tl_le)
  show "halts n p \<Longrightarrow> rounds n q \<Longrightarrow> rounds n (when_skip P p q)"
    by (rule roundsI) (auto simp: when_skip_def roundsD intro!: within_round [OF haltsD [OF _ _ order_refl] skips])
qed

lemma rounds_when_next: "rounds n p \<Longrightarrow> rounds n q \<Longrightarrow> rounds n (when_next P p q)"
  unfolding rounds_def when_next_def by simp

lemma halts_sep_list: "halts n p \<Longrightarrow> sep \<noteq> TEof \<Longrightarrow> halts n (sep_list sep p)"
  unfolding sep_list_def by (intro halts_loop rounds_next rounds_when_skip(2) halts_leaf rounds_leaf) simp_all

lemma within_expect:
  "t \<noteq> TEof \<Longrightarrow> within (length ts - 1) (expect t ts)"
  "within (length ts - 1) (expect_keyword k ts)"
  "within (length ts - 1) (expect_ident ts)"
  "within (length ts - 1) (expect_string ts)"
  by (auto simp: expect_def expect_keyword_def expect_ident_def expect_string_def parser_defs peek_def keyword_def
      split: Token.split list.split)

lemma halts_expect:
  "halts n (expect t)" "halts n (expect_keyword k)" "halts n expect_ident" "halts n expect_string"
  unfolding expect_def expect_keyword_def expect_ident_def expect_string_def
  by (auto intro!: halts_next halts_leaf split: Token.split)

lemma halts_next_eats:
  assumes "\<And>ts. within (length ts - 1) (p ts)" "\<And>x. halts n (f x)"
  shows "halts (Suc n) (next_to p f)"
proof (rule haltsI)
  fix ts :: tokens
  assume "length ts \<le> Suc n"
  then show "within (length ts) (next_to p f ts)"
    using assms by (intro within_next [of "length ts - 1"]) (simp_all add: haltsD [of n])
qed

lemmas halts_next_expect =
  halts_next_eats [OF within_expect(1)] halts_next_eats [OF within_expect(2)]
  halts_next_eats [OF within_expect(3)] halts_next_eats [OF within_expect(4)]

text \<open>The rules in the order in which they apply: those that step over a token first.\<close>

lemmas halt_rules = halts_next_expect halts_when_skip(1) halts_skip(1) halts_next halts_when_skip(2) halts_skip(2)
  halts_when_next halts_on_peek halts_if halts_option halts_leaf halts_expect halts_sep_list

section \<open>Parsers that extend others\<close>

text \<open>
  \<open>below p q\<close>: wherever \<open>p\<close> returns, \<open>q\<close> returns the same. It is what more fuel does to a parser.
\<close>

definition below :: "'a parser \<Rightarrow> 'a parser \<Rightarrow> bool" where
  "below p q \<longleftrightarrow> (\<forall>ts r. p ts = Some r \<longrightarrow> q ts = Some r)"

lemma below_refl: "below p p"
  by (simp add: below_def)

lemma below_diverge: "below diverge p"
  by (simp add: below_def diverge_def)

lemma below_next: "below p q \<Longrightarrow> (\<And>x. below (f x) (g x)) \<Longrightarrow> below (next_to p f) (next_to q g)"
  by (fastforce simp: below_def next_to_def split: option.splits sum.splits)

lemma below_tests:
  "below p p' \<Longrightarrow> below q q' \<Longrightarrow> below (when_next P p q) (when_next P p' q')"
  "below p p' \<Longrightarrow> below q q' \<Longrightarrow> below (when_skip P p q) (when_skip P p' q')"
  "below p p' \<Longrightarrow> below q q' \<Longrightarrow> below (if b then p else q) (if b then p' else q')"
  "below p p' \<Longrightarrow> (\<And>x. below (h x) (h' x)) \<Longrightarrow>
     below (case m of None \<Rightarrow> p | Some x \<Rightarrow> h x) (case m of None \<Rightarrow> p' | Some x \<Rightarrow> h' x)"
  "below p p' \<Longrightarrow> below (skip p) (skip p')"
  "(\<And>t. below (f t) (f' t)) \<Longrightarrow> below (on_peek f) (on_peek f')"
  by (auto simp: below_def when_next_def when_skip_def skip_def on_peek_def split: option.split)

lemma below_loop:
  assumes "\<And>s. below (f s) (g s)"
  shows "below (loop f s) (loop g s)"
proof -
  have "loop g s ts = Some r" if "loop f s ts = Some r" for s ts r
  proof (rule loop.raw_induct [where P = "\<lambda>f s ts r. (\<forall>s. below (f s) (g s)) \<longrightarrow> loop g s ts = Some r", THEN mp])
    show "loop f s ts = Some r" by (fact that)
    show "\<forall>s. below (f s) (g s)" using assms by blast
  next
    fix lp f s ts r
    assume IH: "\<And>f s ts r. lp f s ts = Some r \<Longrightarrow> (\<forall>s. below (f s) (g s)) \<longrightarrow> loop g s ts = Some r"
      and run: "(case f s ts of None \<Rightarrow> None | Some (Inl e) \<Rightarrow> Some (Inl e)
        | Some (Inr (Inl s', ts')) \<Rightarrow> lp f s' ts' | Some (Inr (Inr x, ts')) \<Rightarrow> Some (Inr (x, ts'))) = Some r"
    show "(\<forall>s. below (f s) (g s)) \<longrightarrow> loop g s ts = Some r"
    proof
      assume below: "\<forall>s. below (f s) (g s)"
      obtain y where y: "f s ts = Some y" using run by (cases "f s ts") auto
      then have "g s ts = Some y" using below by (auto simp: below_def)
      then show "loop g s ts = Some r"
        using run y IH below by (subst loop.simps) (auto split: sum.splits)
    qed
  qed
  then show ?thesis by (simp add: below_def)
qed

lemma below_sep_list: "below p q \<Longrightarrow> below (sep_list sep p) (sep_list sep q)"
  unfolding sep_list_def by (intro below_loop below_next below_tests below_refl)

lemmas below_rules = below_next below_tests below_loop below_sep_list below_refl

end
