(* ===== verification/Parse_Type.thy ===== *)
theory Parse_Type
  imports Parse_Base
begin

text \<open>
  The parser of data types (\<open>sql/parser/data_type.rs\<close>). It calls itself for the element type of an array; the depth
  of the recursion is bounded by the number of tokens, which is the fuel it is given.
\<close>

text \<open>The names that stand for a type on their own.\<close>

definition plain_types :: "(string \<times> DataType) list" where
  "plain_types =
     [(''INT'', DataType.Int), (''INTEGER'', DataType.Int), (''BIGINT'', BigInt), (''SMALLINT'', SmallInt), (''FLOAT'', Float),
      (''REAL'', Float), (''TEXT'', Text), (''BOOLEAN'', Boolean), (''BOOL'', Boolean), (''DATE'', Date),
      (''TIMETZ'', TimeTz), (''TIMESTAMPTZ'', TimestampTz), (''INTERVAL'', Interval), (''JSON'', Json),
      (''JSONB'', JsonB), (''UUID'', Uuid), (''SERIAL'', Serial), (''BIGSERIAL'', BigSerial),
      (''SMALLSERIAL'', SmallSerial), (''MONEY'', Money), (''INET'', Inet), (''CIDR'', Cidr),
      (''MACADDR'', MacAddr), (''MACADDR8'', MacAddr), (''TSVECTOR'', TsVector), (''TSQUERY'', TsQuery)]"

definition u32_or :: "nat \<Rightarrow> string \<Rightarrow> u32" where
  "u32_or d s = (case parse_unsigned 32 s of Some n \<Rightarrow> of_nat n | None \<Rightarrow> of_nat d)"

text \<open>A number or a word read as one, and for the bit types a number or nothing.\<close>

definition type_number :: "nat \<Rightarrow> u32 parser" where
  "type_number d =
     on_peek (\<lambda>t. case t of
         TNumber n \<Rightarrow> skip (return (u32_or d n))
       | _ \<Rightarrow> next_to expect_ident (\<lambda>s. return (u32_or d s)))"

definition bit_number :: "u32 parser" where
  "bit_number = on_peek (\<lambda>t. case t of TNumber n \<Rightarrow> skip (return (u32_or 1 n)) | _ \<Rightarrow> return 1)"

definition in_parens :: "u32 parser \<Rightarrow> u32 \<Rightarrow> (u32 \<Rightarrow> DataType) \<Rightarrow> DataType parser" where
  "in_parens p d f =
     when_skip (\<lambda>t. t = TLParen)
       (next_to p (\<lambda>n. next_to (expect TRParen) (\<lambda>_. return (f n))))
       (return (f d))"

definition numeric_type :: "DataType parser" where
  "numeric_type =
     when_skip (\<lambda>t. t = TLParen)
       (next_to (type_number 10) (\<lambda>precision. next_to (expect TComma) (\<lambda>_.
        next_to (type_number 0) (\<lambda>scale. next_to (expect TRParen) (\<lambda>_. return (Numeric precision scale))))))
       (return (Numeric 10 0))"

definition zoned_type :: "DataType \<Rightarrow> DataType \<Rightarrow> DataType parser" where
  "zoned_type with_zone without =
     when_skip (keyword ''WITH'')
       (next_to (expect_keyword ''TIME'') (\<lambda>_. next_to (expect_keyword ''ZONE'') (\<lambda>_. return with_zone)))
       (return without)"

definition bit_type :: "DataType parser" where
  "bit_type = when_skip (keyword ''VARYING'') (in_parens bit_number 1 BitVarying) (in_parens bit_number 1 Bit)"

definition custom_type :: "DataType parser" where
  "custom_type = next_to (sep_list TDot expect_ident) (\<lambda>ps. return (Custom ps))"

definition keyword_type :: "DataType parser \<Rightarrow> string \<Rightarrow> DataType parser" where
  "keyword_type elem K =
     (case map_of plain_types K of
        Some ty \<Rightarrow> skip (return ty)
      | None \<Rightarrow>
          if K = ''DOUBLE'' then skip (next_to (expect_keyword ''PRECISION'') (\<lambda>_. return Double))
          else if K = ''NUMERIC'' \<or> K = ''DECIMAL'' then skip numeric_type
          else if K = ''VARCHAR'' then skip (in_parens (type_number 255) 255 Varchar)
          else if K = ''CHAR'' then skip (in_parens (type_number 1) 1 CharType)
          else if K = ''TIME'' then skip (zoned_type TimeTz Time)
          else if K = ''TIMESTAMP'' then skip (zoned_type TimestampTz Timestamp)
          else if K = ''BIT'' then skip bit_type
          else if K = ''VARYING'' then skip (in_parens bit_number 1 BitVarying)
          else if K = ''ARRAY'' then
            skip (next_to (expect TLBracket) (\<lambda>_. next_to elem (\<lambda>ty.
              next_to (expect TRBracket) (\<lambda>_. return (ArrayOf ty)))))
          else custom_type)"

definition parse_data_type_base :: "DataType parser \<Rightarrow> DataType parser" where
  "parse_data_type_base elem =
     on_peek (\<lambda>t. case t of
         TKeyword k \<Rightarrow> keyword_type elem (to_ascii_uppercase k)
       | TIdent s \<Rightarrow> custom_type
       | other \<Rightarrow> bail (Unexpected ''expected data type'' other))"

primrec data_type :: "nat \<Rightarrow> DataType parser" where
  "data_type 0 = diverge"
| "data_type (Suc n) =
     next_to (parse_data_type_base (data_type n)) (\<lambda>base.
       when_skip (\<lambda>t. t = TLBracket) (next_to (expect TRBracket) (\<lambda>_. return (ArrayOf base))) (return base))"

definition parse_data_type :: "DataType parser" where
  "parse_data_type ts = data_type (Suc (length ts)) ts"

section \<open>The parser returns\<close>

lemma halts_type_number: "halts n (type_number d)" "halts n bit_number"
  unfolding type_number_def bit_number_def by (auto intro!: halt_rules split: Token.split)

lemma halts_in_parens: "halts n p \<Longrightarrow> halts n (in_parens p d f)"
  unfolding in_parens_def by (intro halt_rules)

lemma halts_types:
  "halts n numeric_type" "halts n (zoned_type a b)" "halts n bit_type" "halts n custom_type"
  unfolding numeric_type_def zoned_type_def bit_type_def custom_type_def
  by (intro halt_rules halts_type_number halts_in_parens; simp)+

lemma halts_base:
  assumes "halts n elem"
  shows "halts (Suc n) (parse_data_type_base elem)"
proof -
  have "halts (Suc n) (keyword_type elem K)" for K
    unfolding keyword_type_def
    by (intro halt_rules halts_types halts_in_parens halts_type_number assms) simp_all
  then show ?thesis
    unfolding parse_data_type_base_def by (auto intro!: halts_on_peek halts_leaf halts_types split: Token.split)
qed

lemma halts_data_type: "halts n (data_type (Suc n))"
proof (induction n)
  case 0
  have "halts 0 (parse_data_type_base diverge)"
    by (auto simp: halts_def parse_data_type_base_def on_peek_def peek_def bail_def)
  then show ?case by (simp del: data_type.simps add: data_type.simps(2)) (intro halt_rules, simp)
next
  case (Suc n)
  show ?case by (subst data_type.simps(2)) (intro halt_rules halts_base [OF Suc]; simp)
qed

lemma halts_parse_data_type: "halts n parse_data_type"
  using halts_data_type by (auto simp: halts_def parse_data_type_def)

end
