(* ===== verification/Parse_Expr.thy ===== *)
theory Parse_Expr
  imports Parse_Type
begin

text \<open>
  The parser of expressions (\<open>sql/parser/expr.rs\<close>): the tower of precedence levels from \<open>OR\<close> down to the primary
  expressions, and the window specifications. The calls that lead back to the top of the tower or to a query go
  through the record \<open>subparsers\<close>; the knot is tied in \<open>Parse_Select\<close>. The argument \<open>U\<close> is \<open>to_uppercase\<close>, which is applied
  to identifiers and strings that need not be ASCII.
\<close>

record 's subparsers =
  sub_expr :: "'s Expr parser"
  sub_bitor :: "'s Expr parser"
  sub_select :: "'s parser"

section \<open>Lists, orders and date parts\<close>

definition expr_list :: "'s subparsers \<Rightarrow> 's Expr list parser" where
  "expr_list R = sep_list TComma (sub_expr R)"

definition sort_direction :: "SortDirection parser" where
  "sort_direction =
     when_skip (keyword ''ASC'') (return Asc) (when_skip (keyword ''DESC'') (return Desc) (return DefaultDirection))"

definition nulls_order :: "NullsOrder parser" where
  "nulls_order =
     when_skip (keyword ''NULLS'')
       (when_skip (keyword ''FIRST'') (return First) (next_to (expect_keyword ''LAST'') (\<lambda>_. return Last)))
       (return DefaultNulls)"

definition order_item :: "'s subparsers \<Rightarrow> 's Expr OrderByItem parser" where
  "order_item R =
     next_to (sub_expr R) (\<lambda>e. next_to sort_direction (\<lambda>d. next_to nulls_order (\<lambda>n. return (OrderByItem e d n))))"

definition date_parts :: "(string \<times> DatePart) list" where
  "date_parts =
     [(''YEAR'', Year), (''YEARS'', Year), (''MONTH'', Month), (''MONTHS'', Month), (''DAY'', Day), (''DAYS'', Day),
      (''HOUR'', Hour), (''HOURS'', Hour), (''MINUTE'', Minute), (''MINUTES'', Minute), (''SECOND'', Second),
      (''SECONDS'', Second), (''MILLISECOND'', Millisecond), (''MILLISECONDS'', Millisecond),
      (''MICROSECOND'', Microsecond), (''MICROSECONDS'', Microsecond), (''DOW'', Dow), (''DOY'', Doy),
      (''ISODOW'', IsoDow), (''WEEK'', Week), (''WEEKS'', Week), (''QUARTER'', Quarter), (''QUARTERS'', Quarter),
      (''EPOCH'', Epoch), (''ISOYEAR'', IsoYear), (''TIMEZONE'', Timezone), (''TIMEZONE_HOUR'', TimezoneHour),
      (''TIMEZONE_MINUTE'', TimezoneMinute)]"

definition date_part_of :: "(string \<Rightarrow> string) \<Rightarrow> string \<Rightarrow> DatePart option" where
  "date_part_of U s = map_of date_parts (U s)"

definition date_field :: "(string \<Rightarrow> string) \<Rightarrow> string \<Rightarrow> DatePart parser" where
  "date_field U where_used =
     next_to
       (on_peek (\<lambda>t. case t of
            TIdent s \<Rightarrow> skip (return s)
          | TString s \<Rightarrow> skip (return s)
          | TKeyword k \<Rightarrow> skip (return k)
          | _ \<Rightarrow> bail (Message (''expected date part in '' @ where_used))))
       (\<lambda>s. case date_part_of U s of
          Some d \<Rightarrow> return d
        | None \<Rightarrow> bail (Message (''unknown date part: '' @ s)))"

section \<open>Windows\<close>

definition parse_frame_bound :: "'s subparsers \<Rightarrow> 's Expr FrameBound parser" where
  "parse_frame_bound R =
     when_skip (keyword ''UNBOUNDED'')
       (when_skip (keyword ''PRECEDING'') (return UnboundedPreceding)
          (next_to (expect_keyword ''FOLLOWING'') (\<lambda>_. return UnboundedFollowing)))
     (when_skip (keyword ''CURRENT'') (next_to (expect_keyword ''ROW'') (\<lambda>_. return CurrentRow))
     (next_to (sub_expr R) (\<lambda>e.
        when_skip (keyword ''PRECEDING'') (return (Preceding e))
          (next_to (expect_keyword ''FOLLOWING'') (\<lambda>_. return (Following e))))))"

definition frame_word :: "Token \<Rightarrow> bool" where
  "frame_word t \<longleftrightarrow> keyword ''ROWS'' t \<or> keyword ''RANGE'' t \<or> keyword ''GROUPS'' t"

definition frame_clause :: "'s subparsers \<Rightarrow> 's Expr FrameClause option parser" where
  "frame_clause R =
     when_skip frame_word
       (when_skip (keyword ''BETWEEN'')
          (next_to (parse_frame_bound R) (\<lambda>s. next_to (expect_keyword ''AND'') (\<lambda>_.
             next_to (parse_frame_bound R) (\<lambda>e. return (Some (FrameClause s (Some e)))))))
          (next_to (parse_frame_bound R) (\<lambda>s. return (Some (FrameClause s (Some CurrentRow))))))
       (return None)"

text \<open>\<open>PARTITION BY\<close>, \<open>GROUP BY\<close> and \<open>ORDER BY\<close>: nothing when the keyword is missing.\<close>

definition by_list :: "string \<Rightarrow> 'a list parser \<Rightarrow> 'a list parser" where
  "by_list k p = when_skip (keyword k) (next_to (expect_keyword ''BY'') (\<lambda>_. p)) (return [])"

definition parse_window_spec :: "'s subparsers \<Rightarrow> 's Expr WindowSpec parser" where
  "parse_window_spec R =
     next_to (expect TLParen) (\<lambda>_. next_to (by_list ''PARTITION'' (expr_list R)) (\<lambda>ps.
     next_to (by_list ''ORDER'' (sep_list TComma (order_item R))) (\<lambda>os. next_to (frame_clause R) (\<lambda>fr.
     next_to (expect TRParen) (\<lambda>_. return (WindowSpec ps os fr))))))"

section \<open>Primary expressions\<close>

definition bracketed :: "'s subparsers \<Rightarrow> 's Expr parser" where
  "bracketed R = next_to (expr_list R) (\<lambda>es. next_to (expect TRBracket) (\<lambda>_. return (Array es)))"

definition call_args :: "'s subparsers \<Rightarrow> 's Expr FunctionArg list parser" where
  "call_args R =
     next_to (flag ''DISTINCT'') (\<lambda>_.
     when_skip (\<lambda>t. t = TStar) (return [ArgStar]) (next_to (expr_list R) (\<lambda>es. return (map ArgExpr es))))"

definition filter_clause :: "'s subparsers \<Rightarrow> 's Expr option parser" where
  "filter_clause R =
     optional ''FILTER''
       (next_to (expect TLParen) (\<lambda>_. next_to (expect_keyword ''WHERE'') (\<lambda>_. next_to (sub_expr R) (\<lambda>e.
        next_to (expect TRParen) (\<lambda>_. return e)))))"

definition call_rest :: "'s subparsers \<Rightarrow> string \<Rightarrow> 's Expr parser" where
  "call_rest R name =
     next_to (call_args R) (\<lambda>args. next_to (expect TRParen) (\<lambda>_. next_to (filter_clause R) (\<lambda>flt.
     next_to (optional ''OVER'' (parse_window_spec R)) (\<lambda>over.
     return (Function (FunctionCall (single_name name) args flt over))))))"

text \<open>A word: a function call, an array, a qualified or a plain column.\<close>

definition name_expr :: "(string \<Rightarrow> string) \<Rightarrow> 's subparsers \<Rightarrow> string \<Rightarrow> 's Expr parser" where
  "name_expr U R name =
     skip (when_skip (\<lambda>t. t = TLParen) (call_rest R name)
       (when_skip (\<lambda>t. U name = ''ARRAY'' \<and> t = TLBracket) (bracketed R)
       (when_skip (\<lambda>t. t = TDot) (next_to expect_ident (\<lambda>col. return (QualifiedIdentifier name col)))
       (return (Identifier name)))))"

definition paren_expr :: "'s subparsers \<Rightarrow> 's Expr parser" where
  "paren_expr R =
     when_next (keyword ''SELECT'')
       (next_to (sub_select R) (\<lambda>q. next_to (expect TRParen) (\<lambda>_. return (NestedSelect q))))
       (next_to (sub_expr R) (\<lambda>e. next_to (expect TRParen) (\<lambda>_. return e)))"

definition when_clauses :: "'s subparsers \<Rightarrow> 's Expr WhenClause list parser" where
  "when_clauses R =
     loop (\<lambda>ws. when_skip (keyword ''WHEN'')
         (next_to (sub_expr R) (\<lambda>w. next_to (expect_keyword ''THEN'') (\<lambda>_. next_to (sub_expr R) (\<lambda>t.
          again (ws @ [WhenClause w t])))))
         (done_with ws)) []"

definition case_expr :: "'s subparsers \<Rightarrow> 's Expr parser" where
  "case_expr R =
     next_to (when_next (keyword ''WHEN'') (return None) (next_to (sub_expr R) (\<lambda>e. return (Some e)))) (\<lambda>operand.
     next_to (when_clauses R) (\<lambda>ws. next_to (optional ''ELSE'' (sub_expr R)) (\<lambda>els.
     next_to (expect_keyword ''END'') (\<lambda>_. return (Case operand ws els)))))"

definition cast_expr :: "'s subparsers \<Rightarrow> 's Expr parser" where
  "cast_expr R =
     next_to (expect TLParen) (\<lambda>_. next_to (sub_expr R) (\<lambda>e. next_to (expect_keyword ''AS'') (\<lambda>_.
     next_to parse_data_type (\<lambda>ty. next_to (expect TRParen) (\<lambda>_. return (TypeCast e ty))))))"

definition extract_expr :: "(string \<Rightarrow> string) \<Rightarrow> 's subparsers \<Rightarrow> 's Expr parser" where
  "extract_expr U R =
     next_to (expect TLParen) (\<lambda>_. next_to (date_field U ''EXTRACT'') (\<lambda>d. next_to (expect_keyword ''FROM'') (\<lambda>_.
     next_to (sub_expr R) (\<lambda>e. next_to (expect TRParen) (\<lambda>_. return (Extract d e))))))"

definition date_trunc_expr :: "(string \<Rightarrow> string) \<Rightarrow> 's subparsers \<Rightarrow> 's Expr parser" where
  "date_trunc_expr U R =
     next_to (expect TLParen) (\<lambda>_. next_to (date_field U ''DATE_TRUNC'') (\<lambda>d. next_to (expect TComma) (\<lambda>_.
     next_to (sub_expr R) (\<lambda>e.
     next_to (optional ''AT'' (next_to (expect_keyword ''TIME'') (\<lambda>_. next_to (expect_keyword ''ZONE'') (\<lambda>_. sub_expr R)))) (\<lambda>z.
     next_to (expect TRParen) (\<lambda>_. return (DateTrunc d e z)))))))"

definition date_part_expr :: "(string \<Rightarrow> string) \<Rightarrow> 's subparsers \<Rightarrow> 's Expr parser" where
  "date_part_expr U R =
     next_to (expect TLParen) (\<lambda>_. next_to (date_field U ''DATE_PART'') (\<lambda>d. next_to (expect TComma) (\<lambda>_.
     next_to (sub_expr R) (\<lambda>e. next_to (expect TRParen) (\<lambda>_. return (Extract d e))))))"

definition nullary_call :: "string \<Rightarrow> 's Expr" where
  "nullary_call name = Function (FunctionCall (single_name name) [] None None)"

definition clock_names :: "string list" where
  "clock_names = [''CURRENT_DATE'', ''CURRENT_TIME'', ''CURRENT_TIMESTAMP'', ''LOCALTIME'', ''LOCALTIMESTAMP'']"

definition keyword_expr :: "(string \<Rightarrow> string) \<Rightarrow> 's subparsers \<Rightarrow> string \<Rightarrow> 's Expr parser" where
  "keyword_expr U R k =
     (let K = to_ascii_uppercase k in
      if K = ''TRUE'' then skip (return (Lit (LBool True)))
      else if K = ''FALSE'' then skip (return (Lit (LBool False)))
      else if K = ''NULL'' then skip (return (Lit LNull))
      else if K = ''CASE'' then skip (case_expr R)
      else if K = ''CAST'' then skip (cast_expr R)
      else if K = ''EXTRACT'' then skip (extract_expr U R)
      else if K = ''DATE_TRUNC'' then skip (date_trunc_expr U R)
      else if K = ''DATE_PART'' then skip (date_part_expr U R)
      else if K = ''NOW'' then
        skip (next_to (expect TLParen) (\<lambda>_. next_to (expect TRParen) (\<lambda>_. return (nullary_call ''NOW''))))
      else if K \<in> set clock_names then skip (return (nullary_call K))
      else name_expr U R k)"

definition parameter_expr :: "'s Expr parser" where
  "parameter_expr = on_peek (\<lambda>t. case t of TNumber n \<Rightarrow> skip (return (Parameter (u32_or 1 n))) | _ \<Rightarrow> return (Parameter 1))"

definition parse_primary :: "(string \<Rightarrow> string) \<Rightarrow> 's subparsers \<Rightarrow> 's Expr parser" where
  "parse_primary U R =
     on_peek (\<lambda>t. case t of
         TNumber n \<Rightarrow> skip (return (Lit (LNumber n)))
       | TString s \<Rightarrow> skip (return (Lit (LString s)))
       | TLParen \<Rightarrow> skip (paren_expr R)
       | TKeyword k \<Rightarrow> keyword_expr U R k
       | TIdent s \<Rightarrow> name_expr U R s
       | TQuestion \<Rightarrow> skip parameter_expr
       | TLBracket \<Rightarrow> skip (bracketed R)
       | other \<Rightarrow> bail (Unexpected ''unexpected token in expression'' other))"

section \<open>The tower of precedence levels\<close>

text \<open>A lookahead of several tokens: the code steps over them and goes back when the last is missing.\<close>

fun starts :: "(Token \<Rightarrow> bool) list \<Rightarrow> tokens \<Rightarrow> bool" where
  "starts [] ts = True"
| "starts (P # Ps) ts = (P (peek ts) \<and> starts Ps (tl ts))"

definition when_tokens :: "(Token \<Rightarrow> bool) list \<Rightarrow> 'a parser \<Rightarrow> 'a parser \<Rightarrow> 'a parser" where
  "when_tokens Ps p q ts = (if starts Ps ts then p (drop (length Ps) ts) else q ts)"

definition casts :: "'s Expr \<Rightarrow> 's Expr parser" where
  "casts = loop (\<lambda>e. when_tokens [\<lambda>t. t = TColon, \<lambda>t. t = TColon]
     (next_to parse_data_type (\<lambda>ty. again (TypeCast e ty))) (done_with e))"

definition zones :: "'s subparsers \<Rightarrow> 's Expr \<Rightarrow> 's Expr parser" where
  "zones R = loop (\<lambda>e. when_tokens [keyword ''AT'', keyword ''TIME'', keyword ''ZONE'']
     (next_to (sub_bitor R) (\<lambda>z. again (AtTimeZone e z))) (done_with e))"

definition parse_postfix :: "(string \<Rightarrow> string) \<Rightarrow> 's subparsers \<Rightarrow> 's Expr parser" where
  "parse_postfix U R = next_to (parse_primary U R) (\<lambda>e. next_to (casts e) (zones R))"

definition parse_unary :: "(string \<Rightarrow> string) \<Rightarrow> 's subparsers \<Rightarrow> 's Expr parser" where
  "parse_unary U R =
     when_skip (\<lambda>t. t = TMinus) (next_to (parse_postfix U R) (\<lambda>e. return (UnaryOp UMinus e)))
     (when_skip (\<lambda>t. t = TPlus) (next_to (parse_postfix U R) (\<lambda>e. return (UnaryOp UPlus e)))
     (when_skip (\<lambda>t. t = TTilde) (next_to (parse_postfix U R) (\<lambda>e. return (UnaryOp UBitwiseNot e)))
     (parse_postfix U R)))"

text \<open>The levels with a loop over their operators; each operator takes what is on its left as a whole.\<close>

definition operator_loop :: "(Token \<Rightarrow> BinaryOperator option) \<Rightarrow> 's Expr parser \<Rightarrow> 's Expr \<Rightarrow> 's Expr parser" where
  "operator_loop ops inner =
     loop (\<lambda>left. on_peek (\<lambda>t. case ops t of
         None \<Rightarrow> done_with left
       | Some op \<Rightarrow> skip (next_to inner (\<lambda>right. again (BinaryOp left op right)))))"

definition level :: "(Token \<Rightarrow> BinaryOperator option) \<Rightarrow> 's Expr parser \<Rightarrow> 's Expr parser" where
  "level ops inner = next_to inner (operator_loop ops inner)"

definition multiply_op :: "Token \<Rightarrow> BinaryOperator option" where
  "multiply_op t = (case t of TStar \<Rightarrow> Some Multiply | TSlash \<Rightarrow> Some Divide | TPercent \<Rightarrow> Some Modulo | _ \<Rightarrow> None)"

definition additive_op :: "Token \<Rightarrow> BinaryOperator option" where
  "additive_op t = (case t of TPlus \<Rightarrow> Some Plus | TMinus \<Rightarrow> Some Minus | _ \<Rightarrow> None)"

definition shift_op :: "Token \<Rightarrow> BinaryOperator option" where
  "shift_op t = (case t of TLtLt \<Rightarrow> Some BitwiseShiftLeft | TGtGt \<Rightarrow> Some BitwiseShiftRight | _ \<Rightarrow> None)"

definition bitand_op :: "Token \<Rightarrow> BinaryOperator option" where
  "bitand_op t = (case t of TAmpersand \<Rightarrow> Some BitwiseAnd | _ \<Rightarrow> None)"

definition bitxor_op :: "Token \<Rightarrow> BinaryOperator option" where
  "bitxor_op t = (case t of TCaret \<Rightarrow> Some BitwiseXor | _ \<Rightarrow> None)"

definition bitor_op :: "Token \<Rightarrow> BinaryOperator option" where
  "bitor_op t = (case t of TPipe \<Rightarrow> Some BitwiseOr | _ \<Rightarrow> None)"

definition and_op :: "Token \<Rightarrow> BinaryOperator option" where
  "and_op t = (if keyword ''AND'' t then Some And else None)"

definition or_op :: "Token \<Rightarrow> BinaryOperator option" where
  "or_op t = (if keyword ''OR'' t then Some Or else None)"

definition parse_multiplicative :: "(string \<Rightarrow> string) \<Rightarrow> 's subparsers \<Rightarrow> 's Expr parser" where
  "parse_multiplicative U R = level multiply_op (parse_unary U R)"

definition parse_additive :: "(string \<Rightarrow> string) \<Rightarrow> 's subparsers \<Rightarrow> 's Expr parser" where
  "parse_additive U R = level additive_op (parse_multiplicative U R)"

definition parse_shift :: "(string \<Rightarrow> string) \<Rightarrow> 's subparsers \<Rightarrow> 's Expr parser" where
  "parse_shift U R = level shift_op (parse_additive U R)"

definition parse_bitwise_and :: "(string \<Rightarrow> string) \<Rightarrow> 's subparsers \<Rightarrow> 's Expr parser" where
  "parse_bitwise_and U R = level bitand_op (parse_shift U R)"

definition parse_bitwise_xor :: "(string \<Rightarrow> string) \<Rightarrow> 's subparsers \<Rightarrow> 's Expr parser" where
  "parse_bitwise_xor U R = level bitxor_op (parse_bitwise_and U R)"

definition parse_bitwise_or :: "(string \<Rightarrow> string) \<Rightarrow> 's subparsers \<Rightarrow> 's Expr parser" where
  "parse_bitwise_or U R = level bitor_op (parse_bitwise_xor U R)"

definition comparison_op :: "Token \<Rightarrow> BinaryOperator option" where
  "comparison_op t =
     (case t of TEq \<Rightarrow> Some Equals | TNeq \<Rightarrow> Some NotEquals | TLt \<Rightarrow> Some LessThan | TGt \<Rightarrow> Some GreaterThan
      | TLtEq \<Rightarrow> Some LessOrEqual | TGtEq \<Rightarrow> Some GreaterOrEqual | _ \<Rightarrow> None)"

definition compare_rest :: "(string \<Rightarrow> string) \<Rightarrow> 's subparsers \<Rightarrow> 's Expr \<Rightarrow> BinaryOperator \<Rightarrow> 's Expr parser" where
  "compare_rest U R left op =
     when_skip (keyword ''ANY'') (next_to (parse_primary U R) (\<lambda>r. return (AnyComparison op left r)))
     (when_skip (keyword ''SOME'') (next_to (parse_primary U R) (\<lambda>r. return (SomeComparison op left r)))
     (next_to (parse_bitwise_or U R) (\<lambda>r. return (BinaryOp left op r))))"

definition in_rest :: "'s subparsers \<Rightarrow> 's Expr \<Rightarrow> 's Expr parser" where
  "in_rest R left =
     when_skip (\<lambda>t. t = TLParen)
       (when_next (keyword ''SELECT'')
          (next_to (sub_select R) (\<lambda>q. next_to (expect TRParen) (\<lambda>_. return (InSubquery left False q))))
          (next_to (expr_list R) (\<lambda>es. next_to (expect TRParen) (\<lambda>_. return (InList left False es)))))
       (bail (Message ''expected ( after IN''))"

definition between_rest :: "(string \<Rightarrow> string) \<Rightarrow> 's subparsers \<Rightarrow> 's Expr \<Rightarrow> 's Expr parser" where
  "between_rest U R left =
     next_to (parse_bitwise_or U R) (\<lambda>lo. next_to (expect_keyword ''AND'') (\<lambda>_.
     next_to (parse_bitwise_or U R) (\<lambda>hi. return (Between left False lo hi))))"

definition is_rest :: "'s Expr \<Rightarrow> 's Expr parser" where
  "is_rest left =
     when_skip (keyword ''NULL'') (return (IsNull left))
       (next_to (expect_keyword ''NOT'') (\<lambda>_. next_to (expect_keyword ''NULL'') (\<lambda>_. return (IsNotNull left))))"

definition comparison_rest :: "(string \<Rightarrow> string) \<Rightarrow> 's subparsers \<Rightarrow> 's Expr \<Rightarrow> 's Expr parser" where
  "comparison_rest U R left =
     on_peek (\<lambda>t. case comparison_op t of
         Some op \<Rightarrow> skip (compare_rest U R left op)
       | None \<Rightarrow>
           if keyword ''IN'' t then skip (in_rest R left)
           else if keyword ''BETWEEN'' t then skip (between_rest U R left)
           else if keyword ''LIKE'' t then skip (next_to (parse_bitwise_or U R) (\<lambda>r. return (BinaryOp left Like r)))
           else if keyword ''ILIKE'' t then skip (next_to (parse_bitwise_or U R) (\<lambda>r. return (BinaryOp left ILike r)))
           else if keyword ''IS'' t then skip (is_rest left)
           else return left)"

definition parse_comparison :: "(string \<Rightarrow> string) \<Rightarrow> 's subparsers \<Rightarrow> 's Expr parser" where
  "parse_comparison U R = next_to (parse_bitwise_or U R) (comparison_rest U R)"

definition parse_not_expr :: "(string \<Rightarrow> string) \<Rightarrow> 's subparsers \<Rightarrow> 's Expr parser" where
  "parse_not_expr U R =
     when_skip (keyword ''NOT'') (next_to (parse_comparison U R) (\<lambda>e. return (UnaryOp UNot e))) (parse_comparison U R)"

definition parse_and_expr :: "(string \<Rightarrow> string) \<Rightarrow> 's subparsers \<Rightarrow> 's Expr parser" where
  "parse_and_expr U R = level and_op (parse_not_expr U R)"

definition parse_or_expr :: "(string \<Rightarrow> string) \<Rightarrow> 's subparsers \<Rightarrow> 's Expr parser" where
  "parse_or_expr U R = level or_op (parse_and_expr U R)"

section \<open>The parser returns\<close>

lemma starts_eof: "starts (P # Ps) ts \<Longrightarrow> \<not> P TEof \<Longrightarrow> length (drop (length (P # Ps)) ts) < length ts"
  by (cases ts) (auto simp: peek_def)

lemma rounds_when_tokens:
  assumes "\<not> P TEof" "halts n p" "rounds (Suc n) q"
  shows "rounds (Suc n) (when_tokens (P # Ps) p q)"
proof (rule roundsI)
  fix ts :: tokens
  assume ts: "length ts \<le> Suc n"
  show "round_within (length ts) (when_tokens (P # Ps) p q ts)"
  proof (cases "starts (P # Ps) ts")
    case True
    have less: "length (drop (length (P # Ps)) ts) < length ts" using starts_eof [OF True assms(1)] .
    then have "within (length (drop (length (P # Ps)) ts)) (p (drop (length (P # Ps)) ts))"
      using ts by (intro haltsD [OF assms(2)]) simp_all
    then show ?thesis using True less by (simp add: when_tokens_def within_round)
  next
    case False
    then have "when_tokens (P # Ps) p q ts = q ts" by (simp only: when_tokens_def if_False)
    then show ?thesis using ts assms(3) by (simp add: roundsD)
  qed
qed

lemma halts_operator_loop:
  assumes "halts n inner" "ops TEof = None"
  shows "halts n (operator_loop ops inner e)"
  unfolding operator_loop_def
proof (rule halts_loop)
  fix left :: "'a Expr"
  show "rounds n (on_peek (\<lambda>t. case ops t of None \<Rightarrow> done_with left
    | Some op \<Rightarrow> skip (next_to inner (\<lambda>right. again (BinaryOp left op right)))))"
  proof (rule roundsI)
    fix ts :: tokens
    assume ts: "length ts \<le> n"
    have next_op: "halts n (next_to inner (\<lambda>right. again (BinaryOp left op right)))" for op
      by (intro halt_rules assms)
    show "round_within (length ts) (on_peek (\<lambda>t. case ops t of None \<Rightarrow> done_with left
      | Some op \<Rightarrow> skip (next_to inner (\<lambda>right. again (BinaryOp left op right)))) ts)"
    proof (cases "ops (peek ts)")
      case None
      then show ?thesis by (simp add: parser_defs)
    next
      case (Some op)
      then have "length (tl ts) < length ts" using assms(2) by (intro peek_skips [of "\<lambda>t. ops t = Some op"]) auto
      moreover have "within (length (tl ts)) (next_to inner (\<lambda>right. again (BinaryOp left op right)) (tl ts))"
        using ts by (intro haltsD [OF next_op]) simp_all
      ultimately have "round_within (length ts) (next_to inner (\<lambda>right. again (BinaryOp left op right)) (tl ts))"
        using within_round by blast
      then show ?thesis using Some by (simp add: on_peek_def skip_def)
    qed
  qed
qed

lemma halts_level: "halts n inner \<Longrightarrow> ops TEof = None \<Longrightarrow> halts n (level ops inner)"
  unfolding level_def by (intro halts_next halts_operator_loop)

lemma operators_at_eof [simp]:
  "multiply_op TEof = None" "additive_op TEof = None" "shift_op TEof = None" "bitand_op TEof = None"
  "bitxor_op TEof = None" "bitor_op TEof = None" "and_op TEof = None" "or_op TEof = None" "\<not> keyword k TEof"
  by (simp_all add: multiply_op_def additive_op_def shift_op_def bitand_op_def bitxor_op_def bitor_op_def and_op_def
      or_op_def keyword_def)

text \<open>
  The contract between the parser of expressions and the parsers it calls back: on at most \<open>n\<close> tokens they return.
  The parsers of this theory then return on one token more, because each callback comes after a token.
\<close>

locale halting_subparsers =
  fixes n :: nat and R :: "'s subparsers"
  assumes sub_expr_halts: "halts n (sub_expr R)"
    and sub_bitor_halts: "halts n (sub_bitor R)"
    and sub_select_halts: "halts n (sub_select R)"
begin

lemmas sub_rules = sub_expr_halts sub_bitor_halts sub_select_halts

lemma halts_expr_list: "halts n (expr_list R)"
  unfolding expr_list_def by (intro halt_rules sub_rules) simp

lemma halts_order_item: "halts n (order_item R)"
  unfolding order_item_def sort_direction_def nulls_order_def by (intro halt_rules sub_rules)

lemma halts_optional: "halts m p \<Longrightarrow> halts m (optional k p)"
  unfolding optional_def by (intro halt_rules)

lemma halts_date_field: "halts m (date_field U w)"
  unfolding date_field_def by (auto intro!: halt_rules split: Token.split)

lemma halts_frame_clause: "halts n (frame_clause R)"
  unfolding frame_clause_def parse_frame_bound_def by (intro halt_rules sub_rules)

lemma halts_by_list: "halts m p \<Longrightarrow> halts m (by_list k p)"
  unfolding by_list_def by (intro halt_rules)

lemma halts_window_spec: "halts n (parse_window_spec R)"
  unfolding parse_window_spec_def
  by (intro halt_rules halts_by_list halts_expr_list halts_order_item halts_frame_clause) simp

lemma halts_call_rest: "halts n (call_rest R name)"
  unfolding call_rest_def call_args_def filter_clause_def flag_def
  by (intro halt_rules halts_expr_list halts_optional halts_window_spec sub_rules)

lemma halts_bracketed: "halts n (bracketed R)"
  unfolding bracketed_def by (intro halt_rules halts_expr_list)

lemma halts_name_expr: "halts (Suc n) (name_expr U R name)"
  unfolding name_expr_def by (intro halt_rules halts_call_rest halts_bracketed)

lemma halts_paren_expr: "halts n (paren_expr R)"
  unfolding paren_expr_def by (intro halt_rules sub_rules)

lemma halts_case_expr: "halts n (case_expr R)"
  unfolding case_expr_def when_clauses_def
  by (intro halt_rules halts_optional halts_loop rounds_when_skip(2) rounds_leaf sub_rules) simp_all

lemma halts_dates:
  "halts n (cast_expr R)" "halts n (extract_expr U R)" "halts n (date_trunc_expr U R)" "halts n (date_part_expr U R)"
  unfolding cast_expr_def extract_expr_def date_trunc_expr_def date_part_expr_def
  by (intro halt_rules halts_parse_data_type halts_date_field halts_optional sub_rules)+

lemma halts_keyword_expr: "halts (Suc n) (keyword_expr U R k)"
  unfolding keyword_expr_def Let_def
  by (intro halt_rules halts_case_expr halts_dates halts_name_expr)

lemma halts_primary: "halts (Suc n) (parse_primary U R)"
proof -
  have "halts n parameter_expr"
    unfolding parameter_expr_def by (auto intro!: halt_rules split: Token.split)
  then show ?thesis
    unfolding parse_primary_def
    by (auto intro!: halts_on_peek halts_skip(1) halts_leaf halts_keyword_expr halts_name_expr halts_paren_expr halts_bracketed split: Token.split)
qed

lemma halts_postfix: "halts (Suc n) (parse_postfix U R)"
  unfolding parse_postfix_def casts_def zones_def
  by (intro halts_next halts_primary halts_loop rounds_when_tokens rounds_leaf halt_rules halts_parse_data_type sub_rules)
     simp_all

lemma halts_unary: "halts (Suc n) (parse_unary U R)"
  unfolding parse_unary_def by (intro halts_when_skip(2) halts_next halts_leaf halts_postfix)

lemma halts_bitwise_or: "halts (Suc n) (parse_bitwise_or U R)"
  unfolding parse_bitwise_or_def parse_bitwise_xor_def parse_bitwise_and_def parse_shift_def parse_additive_def
    parse_multiplicative_def
  by (intro halts_level halts_unary) simp_all

lemma halts_in_rest: "halts n (in_rest R left)"
  unfolding in_rest_def by (intro halt_rules halts_expr_list sub_rules)

lemma halts_comparison: "halts (Suc n) (parse_comparison U R)"
  unfolding parse_comparison_def comparison_rest_def compare_rest_def between_rest_def is_rest_def
  by (intro halts_next halts_on_peek halts_option halts_if halts_skip(1) [OF halts_in_rest] halts_skip(2)
      halts_when_skip(2) halts_expect halts_leaf halts_bitwise_or halts_primary)

lemma halts_or_expr: "halts (Suc n) (parse_or_expr U R)"
  unfolding parse_or_expr_def parse_and_expr_def parse_not_expr_def
  by (intro halts_level halts_when_skip(2) halts_next halts_leaf halts_comparison) simp_all

end

section \<open>More fuel changes no result\<close>

lemma below_when_tokens: "below p p' \<Longrightarrow> below q q' \<Longrightarrow> below (when_tokens Ps p q) (when_tokens Ps p' q')"
  by (simp add: below_def when_tokens_def)

lemma below_level: "below p p' \<Longrightarrow> below (level ops p) (level ops p')"
  unfolding level_def operator_loop_def by (intro below_rules)

text \<open>The contract when the parsers called back are replaced by parsers that return more often.\<close>

locale extended_subparsers =
  fixes R R' :: "'s subparsers"
  assumes sub_expr_below: "below (sub_expr R) (sub_expr R')"
    and sub_bitor_below: "below (sub_bitor R) (sub_bitor R')"
    and sub_select_below: "below (sub_select R) (sub_select R')"
begin

lemmas sub_below = sub_expr_below sub_bitor_below sub_select_below

lemma below_lists: "below (expr_list R) (expr_list R')" "below (order_item R) (order_item R')"
  unfolding expr_list_def order_item_def by (intro below_next below_sep_list below_refl sub_below)+

lemma below_optional: "below p p' \<Longrightarrow> below (optional k p) (optional k p')"
  unfolding optional_def by (intro below_next below_tests below_refl)

lemma below_by_list: "below p p' \<Longrightarrow> below (by_list k p) (by_list k p')"
  unfolding by_list_def by (intro below_next below_tests below_refl)

lemma below_window_spec: "below (parse_window_spec R) (parse_window_spec R')"
  unfolding parse_window_spec_def frame_clause_def parse_frame_bound_def
  by (intro below_next below_tests below_by_list below_sep_list below_lists below_refl sub_below)

lemma below_bracketed: "below (bracketed R) (bracketed R')"
  unfolding bracketed_def by (intro below_next below_lists below_refl)

lemma below_name_expr: "below (name_expr U R name) (name_expr U R' name)"
  unfolding name_expr_def call_rest_def call_args_def filter_clause_def
  by (intro below_next below_tests below_optional below_window_spec below_lists below_bracketed below_refl sub_below)

lemma below_keyword_expr: "below (keyword_expr U R k) (keyword_expr U R' k)"
  unfolding keyword_expr_def Let_def case_expr_def when_clauses_def cast_expr_def extract_expr_def
    date_trunc_expr_def date_part_expr_def
  by (intro below_next below_tests below_loop below_optional below_name_expr below_refl sub_below)

lemma below_primary: "below (parse_primary U R) (parse_primary U R')"
proof -
  have "below (paren_expr R) (paren_expr R')"
    unfolding paren_expr_def by (intro below_next below_tests below_refl sub_below)
  then show ?thesis
    unfolding parse_primary_def
    by (auto intro!: below_tests below_refl below_keyword_expr below_name_expr below_bracketed split: Token.split)
qed

lemma below_bitwise_or: "below (parse_bitwise_or U R) (parse_bitwise_or U R')"
  unfolding parse_bitwise_or_def parse_bitwise_xor_def parse_bitwise_and_def parse_shift_def parse_additive_def
    parse_multiplicative_def parse_unary_def parse_postfix_def zones_def
  by (intro below_level below_next below_tests below_loop below_when_tokens below_primary below_refl sub_below)

lemma below_or_expr: "below (parse_or_expr U R) (parse_or_expr U R')"
  unfolding parse_or_expr_def parse_and_expr_def parse_not_expr_def parse_comparison_def comparison_rest_def
    compare_rest_def in_rest_def between_rest_def
  by (intro below_level below_next below_tests below_bitwise_or below_primary below_lists below_refl sub_below)

end

end
