(* ===== verification/Parse_Select.thy ===== *)
theory Parse_Select
  imports Parse_Expr
begin

text \<open>
  The parser of queries (\<open>sql/parser/select.rs\<close>) and the knot that ties it to the parser of expressions. The fuel
  bounds the depth of nesting; one more than the number of tokens is always enough.
\<close>

section \<open>Select lists and tables\<close>

definition select_item :: "'s subparsers \<Rightarrow> 's Expr SelectItem parser" where
  "select_item R =
     when_skip (\<lambda>t. t = TStar)
       (when_skip (\<lambda>t. t = TDot) (next_to expect_ident (\<lambda>tbl. return (TableStar tbl))) (return Star))
       (next_to (sub_expr R) (\<lambda>e.
          when_skip (keyword ''AS'') (next_to expect_ident (\<lambda>a. return (ExprAs e a)))
          (on_peek (\<lambda>t. case t of TIdent s \<Rightarrow> skip (return (ExprAs e s)) | _ \<Rightarrow> return (SelExpr e)))))"

definition parse_select_list :: "'s subparsers \<Rightarrow> 's Expr SelectItem list parser" where
  "parse_select_list R = sep_list TComma (select_item R)"

definition parse_table_ref :: "'s subparsers \<Rightarrow> 's TableRef parser" where
  "parse_table_ref R =
     when_skip (\<lambda>t. t = TLParen)
       (when_next (keyword ''SELECT'')
          (next_to (sub_select R) (\<lambda>q. next_to (expect TRParen) (\<lambda>_. return (Subquery q))))
          (next_to expect_ident (\<lambda>nm. next_to (expect TRParen) (\<lambda>_. return (TableName (single_name nm))))))
       (next_to parse_name (\<lambda>nm. return (TableName nm)))"

definition alias_ident :: "string option parser" where
  "alias_ident = on_peek (\<lambda>t. case t of TIdent s \<Rightarrow> skip (return (Some s)) | _ \<Rightarrow> return None)"

definition table_alias :: "string option parser" where
  "table_alias = when_skip (keyword ''AS'') (next_to expect_ident (\<lambda>a. return (Some a))) alias_ident"

definition clause_word :: "Token \<Rightarrow> bool" where
  "clause_word t \<longleftrightarrow>
     list_ex (\<lambda>k. keyword k t) [''ON'', ''USING'', ''JOIN'', ''WHERE'', ''GROUP'', ''ORDER'', ''LIMIT'', ''HAVING'']"

definition join_alias_name :: "string option parser" where
  "join_alias_name =
     when_skip (keyword ''AS'') (next_to expect_ident (\<lambda>a. return (Some a)))
       (when_next clause_word (return None) alias_ident)"

definition join_word :: "Token \<Rightarrow> bool" where
  "join_word t \<longleftrightarrow>
     list_ex (\<lambda>k. keyword k t) [''JOIN'', ''INNER'', ''LEFT'', ''RIGHT'', ''FULL'', ''CROSS'', ''NATURAL'', ''LATERAL'']"

definition parse_join_type :: "JoinType parser" where
  "parse_join_type =
     next_to
       (when_skip (keyword ''CROSS'') (return Cross)
       (when_skip (keyword ''INNER'') (return Inner)
       (when_skip (keyword ''LEFT'') (next_to (flag ''OUTER'') (\<lambda>_. return JoinType.Left))
       (when_skip (keyword ''RIGHT'') (next_to (flag ''OUTER'') (\<lambda>_. return JoinType.Right))
       (when_skip (keyword ''FULL'') (next_to (flag ''OUTER'') (\<lambda>_. return Full))
       (when_skip (keyword ''NATURAL'') (return Inner)
       (when_skip (keyword ''LATERAL'') (return Lateral) (return Inner))))))))
       (\<lambda>ty. next_to (expect_keyword ''JOIN'') (\<lambda>_. return ty))"

definition join_rule :: "'s subparsers \<Rightarrow> 's Expr JoinConstraint parser" where
  "join_rule R =
     when_skip (keyword ''ON'') (next_to (sub_expr R) (\<lambda>e. return (On e)))
     (when_skip (keyword ''USING'') (next_to paren_names (\<lambda>cols. return (Using cols)))
     (return NoConstraint))"

definition join_item :: "'s subparsers \<Rightarrow> 's Join parser" where
  "join_item R =
     next_to parse_join_type (\<lambda>ty. next_to (parse_table_ref R) (\<lambda>tbl. next_to join_alias_name (\<lambda>al.
     next_to (join_rule R) (\<lambda>c. return (Join tbl al ty c)))))"

definition parse_from_clause :: "'s subparsers \<Rightarrow> 's FromClause parser" where
  "parse_from_clause R =
     next_to (parse_table_ref R) (\<lambda>tbl. next_to table_alias (\<lambda>al.
     loop (\<lambda>js. when_next join_word (next_to (join_item R) (\<lambda>j. again (js @ [j]))) (done_with (FromClause js)))
       [Join tbl al Inner NoConstraint]))"

section \<open>Queries\<close>

definition distinct_clause :: "'s subparsers \<Rightarrow> 's Expr DistinctClause parser" where
  "distinct_clause R =
     when_skip (keyword ''DISTINCT'')
       (when_skip (keyword ''ON'')
          (next_to (expect TLParen) (\<lambda>_. next_to (expr_list R) (\<lambda>es. next_to (expect TRParen) (\<lambda>_. return (DistinctOn es)))))
          (return Distinct))
       (return AllRows)"

definition limit_clause :: "'s subparsers \<Rightarrow> 's Expr LimitClause option parser" where
  "limit_clause R =
     optional ''LIMIT'' (when_skip (keyword ''ALL'') (return LimitAll) (next_to (sub_expr R) (\<lambda>e. return (LimitExpr e))))"

definition locking_clauses :: "LockingClause list parser" where
  "locking_clauses =
     loop (\<lambda>ls. when_skip (keyword ''FOR'')
         (when_skip (keyword ''UPDATE'') (again (ls @ [ForUpdate]))
         (when_skip (keyword ''NO'')
            (next_to (expect_keyword ''KEY'') (\<lambda>_. next_to (expect_keyword ''UPDATE'') (\<lambda>_. again (ls @ [ForNoKeyUpdate]))))
         (when_skip (keyword ''SHARE'') (again (ls @ [ForShare]))
         (next_to (expect_keyword ''KEY'') (\<lambda>_. next_to (expect_keyword ''SHARE'') (\<lambda>_. again (ls @ [ForKeyShare])))))))
         (done_with ls)) []"

definition parse_select_body :: "'s subparsers \<Rightarrow> 's parser" where
  "parse_select_body R =
     when_skip (\<lambda>t. t = TLParen) (next_to (sub_select R) (\<lambda>q. next_to (expect TRParen) (\<lambda>_. return q))) (sub_select R)"

definition set_rest :: "'s subparsers \<Rightarrow> SetOperator \<Rightarrow> SetOperator \<Rightarrow> 's SetOperation list \<Rightarrow>
    ('s SetOperation list + 's SetOperation list) parser" where
  "set_rest R for_all for_distinct ops =
     next_to (flag ''ALL'') (\<lambda>all. next_to (parse_select_body R) (\<lambda>q.
     again (ops @ [SetOperation (if all then for_all else for_distinct) q])))"

definition set_clauses_of :: "'s subparsers \<Rightarrow> 's SetOperation list parser" where
  "set_clauses_of R =
     loop (\<lambda>ops. when_skip (keyword ''UNION'') (set_rest R UnionAll Union ops)
       (when_skip (keyword ''INTERSECT'') (set_rest R IntersectAll Intersect ops)
       (when_skip (keyword ''EXCEPT'') (set_rest R ExceptAll Except ops)
       (done_with ops)))) []"

definition parse_select :: "'t SelectStatement subparsers \<Rightarrow> 't SelectStatement parser" where
  "parse_select R =
     next_to (expect_keyword ''SELECT'') (\<lambda>_.
     next_to (distinct_clause R) (\<lambda>dist.
     next_to (parse_select_list R) (\<lambda>items.
     next_to (optional ''FROM'' (parse_from_clause R)) (\<lambda>from_clause.
     next_to (optional ''WHERE'' (sub_expr R)) (\<lambda>where_clause.
     next_to (by_list ''GROUP'' (expr_list R)) (\<lambda>groups.
     next_to (optional ''HAVING'' (sub_expr R)) (\<lambda>hav.
     next_to (by_list ''ORDER'' (sep_list TComma (order_item R))) (\<lambda>orders.
     next_to (limit_clause R) (\<lambda>lim.
     next_to (optional ''OFFSET'' (sub_expr R)) (\<lambda>off.
     next_to locking_clauses (\<lambda>locks.
     next_to (set_clauses_of R) (\<lambda>ops.
     return (SelectStatement None dist items from_clause where_clause groups hav orders lim off locks ops)))))))))))))"

section \<open>The knot\<close>

primrec parsers :: "(string \<Rightarrow> string) \<Rightarrow> nat \<Rightarrow> 't SelectStatement subparsers" where
  "parsers U 0 = \<lparr>sub_expr = diverge, sub_bitor = diverge, sub_select = diverge\<rparr>"
| "parsers U (Suc n) =
     \<lparr>sub_expr = parse_or_expr U (parsers U n), sub_bitor = parse_bitwise_or U (parsers U n),
      sub_select = parse_select (parsers U n)\<rparr>"

definition parse_expr :: "(string \<Rightarrow> string) \<Rightarrow> nat \<Rightarrow> 't SelectStatement Expr parser" where
  "parse_expr U n = sub_expr (parsers U n)"

section \<open>Common table expressions\<close>

text \<open>The query of a common table expression may be any statement; its parser is an argument.\<close>

definition materialized_clause :: "bool option parser" where
  "materialized_clause =
     when_skip (keyword ''MATERIALIZED'') (return (Some True))
     (when_tokens [keyword ''NOT'', keyword ''MATERIALIZED''] (return (Some False)) (return None))"

definition parse_cte :: "'t parser \<Rightarrow> 't CommonTableExpr parser" where
  "parse_cte stmt =
     next_to expect_ident (\<lambda>nm. next_to optional_names (\<lambda>cols. next_to (expect_keyword ''AS'') (\<lambda>_.
     next_to materialized_clause (\<lambda>mat.
     next_to (when_skip (\<lambda>t. t = TLParen) (next_to stmt (\<lambda>q. next_to (expect TRParen) (\<lambda>_. return q))) stmt) (\<lambda>q.
     return (CommonTableExpr nm cols mat q))))))"

definition with_clause_of :: "'t WithClause \<Rightarrow> 't SelectStatement \<Rightarrow> 't SelectStatement" where
  "with_clause_of w q =
     SelectStatement (Some w) (sel_distinct q) (select_list q) (sel_from q) (sel_where q) (group_by q) (having q)
       (sel_order_by q) (sel_limit q) (sel_offset q) (locking q) (set_operations q)"

definition parse_with_select :: "'t parser \<Rightarrow> 't SelectStatement subparsers \<Rightarrow> 't SelectStatement parser" where
  "parse_with_select stmt R =
     next_to (expect_keyword ''WITH'') (\<lambda>_. next_to (flag ''RECURSIVE'') (\<lambda>rec.
     next_to (sep_list TComma (parse_cte stmt)) (\<lambda>cs. next_to (parse_select R) (\<lambda>q.
     return (with_clause_of (WithClause rec cs) q)))))"

section \<open>The parsers return\<close>

definition eats :: "nat \<Rightarrow> 'a parser \<Rightarrow> bool" where
  "eats n p \<longleftrightarrow> (\<forall>ts x ts'. length ts \<le> n \<longrightarrow> p ts = Some (Inr (x, ts')) \<longrightarrow> length ts' < length ts)"

lemma rounds_next_eats:
  assumes "halts n p" "eats n p" "\<And>x. halts n (f x)"
  shows "rounds n (next_to p f)"
proof (rule roundsI)
  fix ts :: tokens
  assume ts: "length ts \<le> n"
  then have "within (length ts) (p ts)" using assms(1) by (simp add: haltsD)
  then show "round_within (length ts) (next_to p f ts)"
  proof (cases "(length ts, p ts)" rule: within.cases)
    case (3 b x ts')
    then have "length ts' < length ts" using assms(2) ts unfolding eats_def by blast
    moreover have "within (length ts') (f x ts')" using 3 ts \<open>within _ _\<close> by (intro haltsD [OF assms(3)]) auto
    ultimately show ?thesis using 3 by (simp add: next_to_def within_round)
  qed (auto simp: next_to_def)
qed

lemma next_to_Some:
  assumes "next_to p f ts = Some (Inr (y, ts''))"
  obtains x ts' where "p ts = Some (Inr (x, ts'))" "f x ts' = Some (Inr (y, ts''))"
  using assms by (auto simp: next_to_def split: option.splits sum.splits)

lemma halts_shorter: "halts n p \<Longrightarrow> length ts \<le> n \<Longrightarrow> p ts = Some (Inr (x, ts')) \<Longrightarrow> length ts' \<le> length ts"
  using haltsD [of n p ts "length ts"] by simp

lemma eatsI: "(\<And>ts x ts'. length ts \<le> n \<Longrightarrow> p ts = Some (Inr (x, ts')) \<Longrightarrow> length ts' < length ts) \<Longrightarrow> eats n p"
  by (simp add: eats_def)

lemma eatsD: "eats n p \<Longrightarrow> length ts \<le> n \<Longrightarrow> p ts = Some (Inr (x, ts')) \<Longrightarrow> length ts' < length ts"
  by (simp add: eats_def)

lemma eats_next:
  assumes "halts n p" "\<And>x. eats n (f x)"
  shows "eats n (next_to p f)"
proof (rule eatsI)
  fix ts ts'' y
  assume ts: "length ts \<le> n" and run: "next_to p f ts = Some (Inr (y, ts''))"
  obtain x ts' where "p ts = Some (Inr (x, ts'))" and f: "f x ts' = Some (Inr (y, ts''))" by (rule next_to_Some [OF run])
  then have "length ts' \<le> length ts" using halts_shorter [OF assms(1) ts] by simp
  then show "length ts'' < length ts" using eatsD [OF assms(2) _ f] ts by simp
qed

lemma eats_first:
  assumes "eats n p" "\<And>x. halts n (f x)"
  shows "eats n (next_to p f)"
proof (rule eatsI)
  fix ts ts'' y
  assume ts: "length ts \<le> n" and run: "next_to p f ts = Some (Inr (y, ts''))"
  obtain x ts' where "p ts = Some (Inr (x, ts'))" and f: "f x ts' = Some (Inr (y, ts''))" by (rule next_to_Some [OF run])
  then have "length ts' < length ts" using eatsD [OF assms(1) ts] by simp
  then show "length ts'' < length ts" using halts_shorter [OF assms(2) _ f] ts by simp
qed

lemma eats_expect: "eats n (expect_keyword k)" "eats n expect_ident"
  by (auto simp: eats_def expect_keyword_def expect_ident_def parser_defs peek_def keyword_def
      split: list.splits if_splits Token.splits)

lemma halts_names: "halts n parse_name" "halts n paren_names" "halts n optional_names" "halts n (flag k)"
  unfolding parse_name_def paren_names_def optional_names_def flag_def by (intro halt_rules; simp)+

lemma halts_alias: "halts n alias_ident" "halts n table_alias" "halts n join_alias_name"
proof -
  show ident: "halts m alias_ident" for m
    unfolding alias_ident_def by (auto intro!: halt_rules split: Token.split)
  show "halts n table_alias" "halts n join_alias_name"
    unfolding table_alias_def join_alias_name_def by (intro halt_rules ident)+
qed

lemma halts_join_type: "halts n parse_join_type"
  unfolding parse_join_type_def by (intro halt_rules halts_names)

lemma eats_join_type: "eats n parse_join_type"
  unfolding parse_join_type_def
  by (rule eats_next, intro halts_next halts_when_skip(2) halts_leaf halts_names)
     (intro eats_first eats_expect halts_leaf)

lemma halts_locking: "halts n locking_clauses"
  unfolding locking_clauses_def by (intro halts_loop rounds_when_skip(2) rounds_leaf halt_rules) simp_all

lemma join_word_eof [simp]: "\<not> join_word TEof"
  by (simp add: join_word_def)

context halting_subparsers
begin

lemma halts_select_list: "halts n (parse_select_list R)"
  unfolding parse_select_list_def select_item_def
  by (auto intro!: halts_sep_list halts_when_skip(2) halts_next halts_on_peek halts_skip(2) halts_expect halts_leaf
      sub_rules split: Token.split)

lemma halts_table_ref: "halts n (parse_table_ref R)"
  unfolding parse_table_ref_def by (intro halt_rules sub_rules halts_names)

lemma halts_join_rule: "halts n (join_rule R)"
  unfolding join_rule_def by (intro halt_rules sub_rules halts_names)

lemma halts_join_item: "halts n (join_item R)"
  unfolding join_item_def by (intro halts_next halts_join_type halts_table_ref halts_alias halts_join_rule halts_leaf)

lemma eats_join_item: "eats n (join_item R)"
  unfolding join_item_def
  by (intro eats_first eats_join_type halts_next halts_table_ref halts_alias halts_join_rule halts_leaf)

lemma halts_from_clause: "halts n (parse_from_clause R)"
  unfolding parse_from_clause_def
  by (intro halts_next halts_loop rounds_when_next rounds_next_eats rounds_leaf halts_leaf halts_table_ref halts_alias
      halts_join_item eats_join_item)

lemma halts_set_clauses: "halts n (set_clauses_of R)"
  unfolding set_clauses_of_def set_rest_def parse_select_body_def
  by (intro halts_loop rounds_when_skip(2) rounds_leaf halts_next halts_when_skip(2) halts_names halts_leaf halts_expect
      sub_rules) simp_all

lemma halts_distinct_limit: "halts n (distinct_clause R)" "halts n (limit_clause R)"
  unfolding distinct_clause_def limit_clause_def by (intro halt_rules halts_optional halts_expr_list sub_rules)+

end

lemma halts_parse_select:
  assumes "halting_subparsers n R"
  shows "halts (Suc n) (parse_select R)"
  unfolding parse_select_def
  by (intro halts_next_expect halts_next halts_leaf halts_locking halts_sep_list
      halting_subparsers.halts_distinct_limit [OF assms] halting_subparsers.halts_select_list [OF assms]
      halting_subparsers.halts_optional [OF assms] halting_subparsers.halts_by_list [OF assms]
      halting_subparsers.halts_from_clause [OF assms] halting_subparsers.halts_expr_list [OF assms]
      halting_subparsers.halts_order_item [OF assms] halting_subparsers.halts_set_clauses [OF assms]
      halting_subparsers.sub_rules [OF assms]) simp

text \<open>On no tokens at all the parsers fail, whatever they call back.\<close>

definition needs_input :: "'a parser \<Rightarrow> bool" where
  "needs_input p \<longleftrightarrow> (\<exists>e. p [] = Some (Inl e))"

lemma needs_input_rules:
  "needs_input p \<Longrightarrow> needs_input (next_to p f)"
  "\<not> P TEof \<Longrightarrow> needs_input q \<Longrightarrow> needs_input (when_skip P q' q)"
  "needs_input inner \<Longrightarrow> needs_input (level ops inner)"
  "needs_input (expect_keyword k)"
  "needs_input (parse_primary U R)"
  by (auto simp: needs_input_def level_def parse_primary_def expect_keyword_def parser_defs peek_def keyword_def)

lemma empty_input:
  "needs_input (parse_bitwise_or U R)" "needs_input (parse_or_expr U R)"
  unfolding parse_or_expr_def parse_and_expr_def parse_not_expr_def parse_comparison_def parse_bitwise_or_def
    parse_bitwise_xor_def parse_bitwise_and_def parse_shift_def parse_additive_def parse_multiplicative_def
    parse_unary_def parse_postfix_def
  by (intro needs_input_rules; simp)+

lemma empty_select: "needs_input (parse_select R)"
  unfolding parse_select_def by (rule needs_input_rules(1) [OF needs_input_rules(4)])

lemma halts_empty: "needs_input p \<Longrightarrow> halts 0 p"
  by (auto simp: halts_def needs_input_def)

lemma parsers_halt: "halting_subparsers n (parsers U (Suc n))"
proof (induction n)
  case 0
  show ?case by unfold_locales (simp_all add: halts_empty empty_input empty_select)
next
  case (Suc n)
  show ?case
    by (unfold_locales; subst parsers.simps(2))
       (simp_all del: parsers.simps add: halts_parse_select [OF Suc] halting_subparsers.halts_or_expr [OF Suc]
         halting_subparsers.halts_bitwise_or [OF Suc])
qed

interpretation enough_fuel: halting_subparsers n "parsers U (Suc n)" for n U
  by (rule parsers_halt)

lemma below_table_ref:
  assumes "extended_subparsers R R'"
  shows "below (parse_table_ref R) (parse_table_ref R')"
  unfolding parse_table_ref_def
  by (intro below_next below_tests below_refl extended_subparsers.sub_below [OF assms])

lemma below_parse_select:
  assumes "extended_subparsers R R'"
  shows "below (parse_select R) (parse_select R')"
proof -
  have items: "below (select_item R) (select_item R')"
    unfolding select_item_def by (intro below_next below_tests below_refl extended_subparsers.sub_below [OF assms])
  have from_clause: "below (parse_from_clause R) (parse_from_clause R')"
    unfolding parse_from_clause_def join_item_def join_rule_def
    by (intro below_next below_loop below_tests below_refl below_table_ref [OF assms]
        extended_subparsers.sub_below [OF assms])
  have sets: "below (set_clauses_of R) (set_clauses_of R')"
    unfolding set_clauses_of_def set_rest_def parse_select_body_def
    by (intro below_next below_loop below_tests below_refl extended_subparsers.sub_below [OF assms])
  show ?thesis
    unfolding parse_select_def parse_select_list_def distinct_clause_def limit_clause_def
    by (intro below_next below_tests below_sep_list below_refl items from_clause sets
        extended_subparsers.below_optional [OF assms] extended_subparsers.below_by_list [OF assms]
        extended_subparsers.below_lists [OF assms] extended_subparsers.sub_below [OF assms])
qed

lemma parsers_extend: "extended_subparsers (parsers U n) (parsers U (Suc n))"
proof (induction n)
  case 0
  show ?case by unfold_locales (simp_all add: below_diverge)
next
  case (Suc n)
  show ?case
    by (unfold_locales; subst parsers.simps(2), subst parsers.simps(2))
       (simp_all del: parsers.simps add: below_parse_select [OF Suc] extended_subparsers.below_or_expr [OF Suc]
         extended_subparsers.below_bitwise_or [OF Suc])
qed

interpretation more_fuel: extended_subparsers "parsers U n" "parsers U (Suc n)" for U n
  by (rule parsers_extend)

lemma below_trans: "below p q \<Longrightarrow> below q r \<Longrightarrow> below p r"
  by (simp add: below_def)

lemma parsers_below:
  assumes "m \<le> n"
  shows "below (sub_expr (parsers U m)) (sub_expr (parsers U n))" (is ?E)
    and "below (sub_select (parsers U m)) (sub_select (parsers U n))" (is ?S)
proof -
  have "?E \<and> ?S"
    using assms
  proof (induction n rule: dec_induct)
    case (step k)
    then show ?case using more_fuel.sub_expr_below more_fuel.sub_select_below by (blast intro: below_trans)
  qed (simp add: below_refl)
  then show ?E ?S by simp_all
qed

end
