(* ===== verification/Parse_Stmt.thy ===== *)
theory Parse_Stmt
  imports Parse_Select
begin

text \<open>
  The parsers of statements: \<open>sql/parser/dml.rs\<close>, \<open>sql/parser/ddl.rs\<close>, \<open>sql/parser/transaction.rs\<close> and the dispatch of
  \<open>sql/parser.rs\<close>. The record \<open>R\<close> holds the parsers of expressions and queries.
\<close>

type_synonym subs = "select subparsers"

section \<open>Rows: INSERT, UPDATE, DELETE\<close>

definition value_row :: "subs \<Rightarrow> expr list parser" where
  "value_row R =
     next_to (expect TLParen) (\<lambda>_. next_to (expr_list R) (\<lambda>es. next_to (expect TRParen) (\<lambda>_. return es)))"

definition insert_source :: "subs \<Rightarrow> select InsertSource parser" where
  "insert_source R =
     when_skip (keyword ''VALUES'') (next_to (sep_list TComma (value_row R)) (\<lambda>vs. return (Values vs)))
     (when_next (keyword ''SELECT'') (next_to (sub_select R) (\<lambda>q. return (InsertSelect q)))
     (bail (Message ''expected VALUES or SELECT after INSERT INTO'')))"

definition set_clause :: "subs \<Rightarrow> expr SetClause parser" where
  "set_clause R =
     next_to expect_ident (\<lambda>col. next_to (expect TEq) (\<lambda>_. next_to (sub_expr R) (\<lambda>e. return (SetClause col e))))"

definition conflict_action :: "subs \<Rightarrow> string list option \<Rightarrow> expr OnConflict parser" where
  "conflict_action R target =
     when_skip (keyword ''NOTHING'') (return DoNothing)
     (when_skip (keyword ''UPDATE'')
        (next_to (expect_keyword ''SET'') (\<lambda>_. next_to (sep_list TComma (set_clause R)) (\<lambda>sets.
         next_to (optional ''WHERE'' (sub_expr R)) (\<lambda>w. return (DoUpdate target w sets)))))
     (bail (Message ''expected NOTHING or UPDATE after DO'')))"

definition conflict_clause :: "subs \<Rightarrow> expr OnConflict option parser" where
  "conflict_clause R =
     optional ''ON''
       (next_to (expect_keyword ''CONFLICT'') (\<lambda>_. next_to optional_names (\<lambda>target.
        next_to (expect_keyword ''DO'') (\<lambda>_. conflict_action R (if target = Some [] then None else target)))))"

definition returning_clause :: "subs \<Rightarrow> expr SelectItem list parser" where
  "returning_clause R = when_skip (keyword ''RETURNING'') (parse_select_list R) (return [])"

definition parse_insert :: "subs \<Rightarrow> select InsertStatement parser" where
  "parse_insert R =
     next_to (expect_keyword ''INSERT'') (\<lambda>_. next_to (expect_keyword ''INTO'') (\<lambda>_. next_to parse_name (\<lambda>tbl.
     next_to optional_names (\<lambda>cols. next_to (insert_source R) (\<lambda>src. next_to (conflict_clause R) (\<lambda>conflict.
     next_to (returning_clause R) (\<lambda>ret. return (InsertStatement tbl cols src conflict ret))))))))"

definition parse_update :: "subs \<Rightarrow> select UpdateStatement parser" where
  "parse_update R =
     next_to (expect_keyword ''UPDATE'') (\<lambda>_. next_to parse_name (\<lambda>tbl.
     next_to (optional ''FROM'' (parse_from_clause R)) (\<lambda>from_clause. next_to (expect_keyword ''SET'') (\<lambda>_.
     next_to (sep_list TComma (set_clause R)) (\<lambda>sets. next_to (optional ''WHERE'' (sub_expr R)) (\<lambda>w.
     next_to (returning_clause R) (\<lambda>ret. return (UpdateStatement tbl from_clause sets w ret))))))))"

definition parse_delete :: "subs \<Rightarrow> select DeleteStatement parser" where
  "parse_delete R =
     next_to (expect_keyword ''DELETE'') (\<lambda>_. next_to (expect_keyword ''FROM'') (\<lambda>_. next_to parse_name (\<lambda>tbl.
     next_to (optional ''USING'' (parse_from_clause R)) (\<lambda>usng. next_to (optional ''WHERE'' (sub_expr R)) (\<lambda>w.
     next_to (returning_clause R) (\<lambda>ret. return (DeleteStatement tbl usng w ret)))))))"

section \<open>MERGE\<close>

definition dotted_column :: "string parser" where
  "dotted_column =
     next_to (sep_list TDot expect_ident) (\<lambda>ps. return (concat (hd ps # map (\<lambda>p. CHR ''.'' # p) (tl ps))))"

definition merge_set_clause :: "subs \<Rightarrow> expr SetClause parser" where
  "merge_set_clause R =
     next_to dotted_column (\<lambda>col. next_to (expect TEq) (\<lambda>_. next_to (sub_expr R) (\<lambda>e. return (SetClause col e))))"

definition merge_insert :: "subs \<Rightarrow> expr MergeAction parser" where
  "merge_insert R =
     next_to optional_names (\<lambda>cols. next_to (expect_keyword ''VALUES'') (\<lambda>_. next_to (expect TLParen) (\<lambda>_.
     next_to (sep_list TComma (expr_list R)) (\<lambda>rows. next_to (expect TRParen) (\<lambda>_.
     return (MergeInsert cols (MergeValues rows)))))))"

definition parse_merge_action :: "subs \<Rightarrow> expr MergeAction parser" where
  "parse_merge_action R =
     when_skip (keyword ''UPDATE'')
       (next_to (expect_keyword ''SET'') (\<lambda>_. next_to (sep_list TComma (merge_set_clause R)) (\<lambda>sets.
        return (MergeUpdate sets))))
     (when_skip (keyword ''DELETE'') (return MergeDelete)
     (when_skip (keyword ''INSERT'') (merge_insert R)
     (when_skip (keyword ''DO'') (next_to (expect_keyword ''NOTHING'') (\<lambda>_. return MergeDoNothing))
     (bail (Message ''expected UPDATE, DELETE, INSERT, or DO NOTHING in MERGE action'')))))"

definition merge_clause :: "subs \<Rightarrow> expr MergeClause parser" where
  "merge_clause R =
     next_to (flag ''NOT'') (\<lambda>not_matched. next_to (expect_keyword ''MATCHED'') (\<lambda>_.
     next_to (optional ''AND'' (sub_expr R)) (\<lambda>cond. next_to (expect_keyword ''THEN'') (\<lambda>_.
     next_to (parse_merge_action R) (\<lambda>act.
     return (if not_matched then WhenNotMatched cond act else WhenMatched cond act))))))"

definition merge_source_ref :: "subs \<Rightarrow> select MergeSource parser" where
  "merge_source_ref R =
     when_skip (\<lambda>t. t = TLParen)
       (next_to (sub_select R) (\<lambda>q. next_to (expect TRParen) (\<lambda>_. return (MergeSubquery q))))
       (next_to parse_name (\<lambda>nm. return (MergeTable nm)))"

definition merge_source_alias :: "unit parser" where
  "merge_source_alias =
     when_skip (keyword ''AS'') (skip (return ()))
       (on_peek (\<lambda>t. case t of TIdent s \<Rightarrow> skip (return ()) | _ \<Rightarrow> return ()))"

definition parse_merge :: "subs \<Rightarrow> select MergeStatement parser" where
  "parse_merge R =
     next_to (expect_keyword ''MERGE'') (\<lambda>_. next_to (expect_keyword ''INTO'') (\<lambda>_. next_to parse_name (\<lambda>target.
     next_to table_alias (\<lambda>_. next_to (expect_keyword ''USING'') (\<lambda>_. next_to (merge_source_ref R) (\<lambda>src.
     next_to merge_source_alias (\<lambda>_. next_to (expect_keyword ''ON'') (\<lambda>_. next_to (sub_expr R) (\<lambda>cond.
     loop (\<lambda>cs. when_skip (keyword ''WHEN'') (next_to (merge_clause R) (\<lambda>c. again (cs @ [c])))
         (done_with (MergeStatement target src cond cs))) [])))))))))"

section \<open>Tables\<close>

definition if_not_exists_clause :: "bool parser" where
  "if_not_exists_clause =
     when_skip (keyword ''IF'')
       (next_to (expect_keyword ''NOT'') (\<lambda>_. next_to (expect_keyword ''EXISTS'') (\<lambda>_. return True)))
       (return False)"

definition if_exists_clause :: "bool parser" where
  "if_exists_clause = when_skip (keyword ''IF'') (next_to (expect_keyword ''EXISTS'') (\<lambda>_. return True)) (return False)"

definition paren_expr_of :: "subs \<Rightarrow> expr parser" where
  "paren_expr_of R =
     next_to (expect TLParen) (\<lambda>_. next_to (sub_expr R) (\<lambda>e. next_to (expect TRParen) (\<lambda>_. return e)))"

definition references_clause :: "expr ColumnConstraint parser" where
  "references_clause =
     next_to parse_name (\<lambda>tbl. next_to (expect TLParen) (\<lambda>_. next_to expect_ident (\<lambda>col.
     next_to (expect TRParen) (\<lambda>_. return (References tbl col None None)))))"

text \<open>The end of the constraints of a column: a word that is none of theirs, a bracket, a comma or the end.\<close>

definition constraints_end :: "expr ColumnConstraint list \<Rightarrow> (expr ColumnConstraint list + expr ColumnConstraint list) parser" where
  "constraints_end cs =
     on_peek (\<lambda>t. case t of
         TKeyword _ \<Rightarrow> done_with cs
       | TRParen \<Rightarrow> done_with cs
       | TComma \<Rightarrow> done_with cs
       | TEof \<Rightarrow> done_with cs
       | other \<Rightarrow> bail (Unexpected ''unexpected token in column definition'' other))"

definition column_constraints :: "subs \<Rightarrow> expr ColumnConstraint list parser" where
  "column_constraints R =
     loop (\<lambda>cs.
       when_skip (keyword ''NOT'') (next_to (expect_keyword ''NULL'') (\<lambda>_. again (cs @ [NotNull])))
      (when_skip (keyword ''NULL'') (again (cs @ [NullAllowed]))
      (when_skip (keyword ''PRIMARY'') (next_to (expect_keyword ''KEY'') (\<lambda>_. again (cs @ [PrimaryKey])))
      (when_skip (keyword ''UNIQUE'') (again (cs @ [Unique]))
      (when_skip (keyword ''DEFAULT'') (next_to (sub_expr R) (\<lambda>e. again (cs @ [Default e])))
      (when_skip (keyword ''REFERENCES'') (next_to references_clause (\<lambda>c. again (cs @ [c])))
      (when_skip (keyword ''CHECK'') (next_to (paren_expr_of R) (\<lambda>e. again (cs @ [Check e])))
      (constraints_end cs)))))))) []"

definition parse_column_def :: "subs \<Rightarrow> expr ColumnDef parser" where
  "parse_column_def R =
     next_to expect_ident (\<lambda>nm. next_to parse_data_type (\<lambda>ty. next_to (column_constraints R) (\<lambda>cs.
     return (ColumnDef nm ty cs))))"

definition primary_key_constraint :: "expr TableConstraint parser" where
  "primary_key_constraint =
     next_to (expect_keyword ''KEY'') (\<lambda>_. next_to paren_names (\<lambda>cols. return (TablePrimaryKey cols)))"

definition unique_constraint :: "expr TableConstraint parser" where
  "unique_constraint = next_to paren_names (\<lambda>cols. return (TableUnique cols))"

definition foreign_key_constraint :: "expr TableConstraint parser" where
  "foreign_key_constraint =
     next_to (expect_keyword ''KEY'') (\<lambda>_. next_to paren_names (\<lambda>cols. next_to (expect_keyword ''REFERENCES'') (\<lambda>_.
     next_to parse_name (\<lambda>tbl. next_to paren_names (\<lambda>refs. return (ForeignKey cols tbl refs None None))))))"

definition parse_table_constraint :: "subs \<Rightarrow> expr TableConstraint parser" where
  "parse_table_constraint R =
     when_skip (keyword ''PRIMARY'') primary_key_constraint
     (when_skip (keyword ''UNIQUE'') unique_constraint
     (when_skip (keyword ''CHECK'') (next_to (paren_expr_of R) (\<lambda>e. return (TableCheck e)))
     (when_skip (keyword ''FOREIGN'') foreign_key_constraint
     (bail (Message ''unexpected token in table constraint'')))))"

text \<open>One element of a table: a constraint or a column.\<close>

definition table_element :: "subs \<Rightarrow> (expr TableConstraint + expr ColumnDef) parser" where
  "table_element R =
     when_skip (keyword ''PRIMARY'') (next_to primary_key_constraint (\<lambda>c. return (Inl c)))
     (when_skip (keyword ''UNIQUE'') (next_to unique_constraint (\<lambda>c. return (Inl c)))
     (when_skip (keyword ''CONSTRAINT'')
        (next_to expect_ident (\<lambda>_. next_to (parse_table_constraint R) (\<lambda>c. return (Inl c))))
     (next_to (parse_column_def R) (\<lambda>c. return (Inr c)))))"

definition add_element ::
    "(expr TableConstraint + expr ColumnDef) \<Rightarrow> expr ColumnDef list \<times> expr TableConstraint list \<Rightarrow>
     expr ColumnDef list \<times> expr TableConstraint list" where
  "add_element x p = (case x of Inl k \<Rightarrow> (fst p, snd p @ [k]) | Inr c \<Rightarrow> (fst p @ [c], snd p))"

definition table_elements :: "subs \<Rightarrow> (expr ColumnDef list \<times> expr TableConstraint list) parser" where
  "table_elements R =
     loop (\<lambda>p. when_next (\<lambda>t. t = TRParen) (done_with p)
         (next_to (table_element R) (\<lambda>x.
            when_skip (\<lambda>t. t = TComma) (again (add_element x p)) (again (add_element x p))))) ([], [])"

definition create_table :: "subs \<Rightarrow> Statement parser" where
  "create_table R =
     next_to if_not_exists_clause (\<lambda>ine. next_to parse_name (\<lambda>tbl. next_to (expect TLParen) (\<lambda>_.
     next_to (table_elements R) (\<lambda>p. next_to (expect TRParen) (\<lambda>_.
     return (CreateTable (CreateTableStatement tbl (fst p) (snd p) ine)))))))"

section \<open>Indexes, views, sequences, types, schemas\<close>

definition index_column :: "subs \<Rightarrow> expr IndexColumn parser" where
  "index_column R =
     next_to (sub_expr R) (\<lambda>e. next_to sort_direction (\<lambda>d. next_to nulls_order (\<lambda>n. return (IndexColumn e d n))))"

definition create_index :: "subs \<Rightarrow> Statement parser" where
  "create_index R =
     next_to if_not_exists_clause (\<lambda>ine. next_to parse_name (\<lambda>nm. next_to (expect_keyword ''ON'') (\<lambda>_.
     next_to parse_name (\<lambda>tbl. next_to (expect TLParen) (\<lambda>_. next_to (sep_list TComma (index_column R)) (\<lambda>cols.
     next_to (expect TRParen) (\<lambda>_. return (CreateIndex (CreateIndexStatement nm tbl cols False ine)))))))))"

definition view_parts :: "subs \<Rightarrow> (ObjectName \<times> string list option \<times> select) parser" where
  "view_parts R =
     next_to parse_name (\<lambda>nm. next_to optional_names (\<lambda>cols. next_to (expect_keyword ''AS'') (\<lambda>_.
     next_to (sub_select R) (\<lambda>q. return (nm, cols, q)))))"

definition create_view :: "subs \<Rightarrow> Statement parser" where
  "create_view R = next_to (view_parts R) (\<lambda>(nm, cols, q). return (CreateView (CreateViewStatement nm cols q False)))"

definition create_materialized_view :: "subs \<Rightarrow> Statement parser" where
  "create_materialized_view R =
     next_to (expect_keyword ''VIEW'') (\<lambda>_.
     next_to (view_parts R) (\<lambda>(nm, cols, q).
     return (CreateMaterializedView (CreateMaterializedViewStatement nm cols q False))))"

definition i64_number :: "int \<Rightarrow> int parser" where
  "i64_number d =
     on_peek (\<lambda>t. case t of
         TNumber n \<Rightarrow> skip (return (case parse_i64 n of Some v \<Rightarrow> v | None \<Rightarrow> d))
       | _ \<Rightarrow> return d)"

definition sequence_no :: "CreateSequenceStatement \<Rightarrow> (CreateSequenceStatement + CreateSequenceStatement) parser" where
  "sequence_no s =
     when_skip (keyword ''CYCLE'') (again (s\<lparr>seq_cycle := False\<rparr>))
     (when_skip (keyword ''MINVALUE'') (again (s\<lparr>min_value := None\<rparr>))
     (when_skip (keyword ''MAXVALUE'') (again (s\<lparr>max_value := None\<rparr>))
     (when_skip (keyword ''CACHE'') (again (s\<lparr>seq_cache := None\<rparr>))
     (again s))))"

definition sequence_increment :: "int parser" where
  "sequence_increment =
     next_to (expect_keyword ''BY'') (\<lambda>_.
     next_to (when_skip (\<lambda>t. t = TMinus) (return True) (return False)) (\<lambda>negative.
     next_to (i64_number 1) (\<lambda>n. return (if negative then - n else n))))"

definition sequence_option :: "CreateSequenceStatement \<Rightarrow> (CreateSequenceStatement + CreateSequenceStatement) parser" where
  "sequence_option s =
     when_skip (keyword ''AS'') (next_to parse_data_type (\<lambda>ty. again (s\<lparr>seq_data_type := Some ty\<rparr>)))
     (when_skip (keyword ''INCREMENT'') (next_to sequence_increment (\<lambda>n. again (s\<lparr>increment := Some n\<rparr>)))
     (when_skip (keyword ''MINVALUE'') (next_to (i64_number 1) (\<lambda>n. again (s\<lparr>min_value := Some n\<rparr>)))
     (when_skip (keyword ''MAXVALUE'') (next_to (i64_number (2 ^ 63 - 1)) (\<lambda>n. again (s\<lparr>max_value := Some n\<rparr>)))
     (when_skip (keyword ''START'')
        (next_to (flag ''WITH'') (\<lambda>_. next_to (i64_number 1) (\<lambda>n. again (s\<lparr>seq_start := Some n\<rparr>))))
     (when_skip (keyword ''CACHE'') (next_to (i64_number 1) (\<lambda>n. again (s\<lparr>seq_cache := Some n\<rparr>)))
     (when_skip (keyword ''CYCLE'') (again (s\<lparr>seq_cycle := True\<rparr>))
     (when_skip (keyword ''NO'') (sequence_no s)
     (when_skip (keyword ''OWNED'')
        (next_to (expect_keyword ''BY'') (\<lambda>_. next_to parse_name (\<lambda>nm. again (s\<lparr>owned_by := Some nm\<rparr>))))
     (done_with s)))))))))"

definition new_sequence :: "ObjectName \<Rightarrow> bool \<Rightarrow> CreateSequenceStatement" where
  "new_sequence nm ine =
     \<lparr>seq_name = nm, seq_if_not_exists = ine, seq_data_type = None, increment = None, min_value = None,
      max_value = None, seq_start = None, seq_cache = None, seq_cycle = False, owned_by = None\<rparr>"

definition parse_create_sequence :: "Statement parser" where
  "parse_create_sequence =
     next_to if_not_exists_clause (\<lambda>ine. next_to parse_name (\<lambda>nm.
     next_to (loop sequence_option (new_sequence nm ine)) (\<lambda>s. return (CreateSequence s))))"

definition subtype_word :: "(string \<Rightarrow> string) \<Rightarrow> unit parser" where
  "subtype_word U =
     on_peek (\<lambda>t. case t of
         TKeyword k \<Rightarrow> if to_ascii_uppercase k = ''SUBTYPE'' then skip (return ()) else bail (Message ''expected SUBTYPE'')
       | TIdent k \<Rightarrow> if U k = ''SUBTYPE'' then skip (return ()) else bail (Message ''expected SUBTYPE'')
       | _ \<Rightarrow> bail (Message ''expected SUBTYPE''))"

definition range_body :: "(string \<Rightarrow> string) \<Rightarrow> DataType parser" where
  "range_body U = next_to (subtype_word U) (\<lambda>_. next_to (expect TEq) (\<lambda>_. parse_data_type))"

definition range_type :: "(string \<Rightarrow> string) \<Rightarrow> TypeDefinition parser" where
  "range_type U =
     when_skip (\<lambda>t. t = TLParen)
       (next_to (range_body U) (\<lambda>ty. next_to (expect TRParen) (\<lambda>_. return (Range ty))))
       (next_to (range_body U) (\<lambda>ty. return (Range ty)))"

definition composite_attribute :: "CompositeAttribute parser" where
  "composite_attribute =
     next_to expect_ident (\<lambda>nm. next_to parse_data_type (\<lambda>ty. next_to (optional ''COLLATE'' parse_name) (\<lambda>coll.
     return \<lparr>ca_name = nm, ca_data_type = ty, ca_collation = coll\<rparr>)))"

definition type_body :: "(string \<Rightarrow> string) \<Rightarrow> TypeDefinition parser" where
  "type_body U =
     when_skip (keyword ''ENUM'')
       (next_to (expect TLParen) (\<lambda>_. next_to (sep_list TComma expect_string) (\<lambda>vs.
        next_to (expect TRParen) (\<lambda>_. return (Enum vs)))))
     (when_skip (keyword ''RANGE'') (range_type U)
     (when_skip (\<lambda>t. t = TLParen)
       (next_to (sep_list TComma composite_attribute) (\<lambda>as. next_to (expect TRParen) (\<lambda>_. return (Composite as))))
     (bail (Message ''expected ENUM, RANGE, or ( after CREATE TYPE ... AS''))))"

definition parse_create_type :: "(string \<Rightarrow> string) \<Rightarrow> Statement parser" where
  "parse_create_type U =
     next_to parse_name (\<lambda>nm. next_to (expect_keyword ''AS'') (\<lambda>_. next_to (type_body U) (\<lambda>d.
     return (CreateType \<lparr>type_name = nm, type_definition = d\<rparr>))))"

definition schema_names :: "(string option \<times> string option) parser" where
  "schema_names =
     when_skip (keyword ''AUTHORIZATION'') (next_to expect_ident (\<lambda>a. return (None, Some a)))
     (when_next (\<lambda>t. case t of TIdent _ \<Rightarrow> True | TKeyword _ \<Rightarrow> True | _ \<Rightarrow> False)
        (next_to expect_ident (\<lambda>nm. next_to (optional ''AUTHORIZATION'' expect_ident) (\<lambda>a. return (Some nm, a))))
     (return (None, None)))"

definition parse_create_schema :: "Statement parser" where
  "parse_create_schema =
     next_to if_not_exists_clause (\<lambda>ine. next_to schema_names (\<lambda>(nm, a).
     return (CreateSchema \<lparr>schema_name = nm, schema_if_not_exists = ine, authorization = a\<rparr>)))"

definition parse_create :: "(string \<Rightarrow> string) \<Rightarrow> subs \<Rightarrow> Statement parser" where
  "parse_create U R =
     next_to (expect_keyword ''CREATE'') (\<lambda>_.
     when_skip (keyword ''TABLE'') (create_table R)
     (when_skip (keyword ''INDEX'') (create_index R)
     (when_skip (keyword ''VIEW'') (create_view R)
     (when_skip (keyword ''MATERIALIZED'') (create_materialized_view R)
     (when_skip (keyword ''SEQUENCE'') parse_create_sequence
     (when_skip (keyword ''TYPE'') (parse_create_type U)
     (when_skip (keyword ''SCHEMA'') parse_create_schema
     (bail (Message ''expected TABLE, INDEX, VIEW, MATERIALIZED VIEW, SEQUENCE, TYPE, or SCHEMA after CREATE'')))))))))"

section \<open>ALTER and DROP\<close>

definition alter_column_action :: "subs \<Rightarrow> expr AlterColumnAction parser" where
  "alter_column_action R =
     when_skip (keyword ''SET'')
       (when_skip (keyword ''DEFAULT'') (next_to (sub_expr R) (\<lambda>e. return (SetDefaultTo e)))
       (when_skip (keyword ''NOT'') (next_to (expect_keyword ''NULL'') (\<lambda>_. return SetNotNull))
       (next_to (expect_keyword ''DATA'') (\<lambda>_. next_to (expect_keyword ''TYPE'') (\<lambda>_.
        next_to parse_data_type (\<lambda>ty. return (SetDataType ty)))))))
     (when_skip (keyword ''DROP'')
       (when_skip (keyword ''DEFAULT'') (return DropDefault)
       (when_skip (keyword ''NOT'') (next_to (expect_keyword ''NULL'') (\<lambda>_. return DropNotNull))
       (bail (Message ''expected DEFAULT or NOT NULL after DROP''))))
     (bail (Message ''expected SET or DROP after ALTER COLUMN'')))"

definition drop_column :: "expr AlterTableAction parser" where
  "drop_column =
     next_to (flag ''COLUMN'') (\<lambda>_. next_to expect_ident (\<lambda>nm. next_to if_exists_clause (\<lambda>ie.
     next_to (flag ''CASCADE'') (\<lambda>c. return (DropColumn nm ie c)))))"

definition rename_action :: "expr AlterTableAction parser" where
  "rename_action =
     when_skip (keyword ''COLUMN'')
       (next_to expect_ident (\<lambda>old. next_to (expect_keyword ''TO'') (\<lambda>_. next_to expect_ident (\<lambda>new.
        return (RenameColumn old new)))))
       (next_to (expect_keyword ''TO'') (\<lambda>_. next_to parse_name (\<lambda>nm. return (RenameTable nm))))"

definition alter_action_of :: "subs \<Rightarrow> expr AlterTableAction parser" where
  "alter_action_of R =
     when_skip (keyword ''ADD'')
       (next_to (flag ''COLUMN'') (\<lambda>_. next_to (parse_column_def R) (\<lambda>c. return (AddColumn c))))
     (when_skip (keyword ''DROP'') drop_column
     (when_skip (keyword ''RENAME'') rename_action
     (when_skip (keyword ''ALTER'')
       (next_to (flag ''COLUMN'') (\<lambda>_. next_to expect_ident (\<lambda>nm. next_to (alter_column_action R) (\<lambda>a.
        return (AlterColumn nm a)))))
     (bail (Message ''expected ADD, DROP, RENAME, or ALTER after ALTER TABLE'')))))"

definition parse_alter :: "subs \<Rightarrow> Statement parser" where
  "parse_alter R =
     next_to (expect_keyword ''ALTER'') (\<lambda>_. next_to (expect_keyword ''TABLE'') (\<lambda>_. next_to parse_name (\<lambda>tbl.
     next_to (alter_action_of R) (\<lambda>a. return (AlterTable (AlterTableStatement tbl a))))))"

definition drop_parts :: "(bool \<times> ObjectName \<times> bool) parser" where
  "drop_parts =
     next_to if_exists_clause (\<lambda>ie. next_to parse_name (\<lambda>nm. next_to (flag ''CASCADE'') (\<lambda>c. return (ie, nm, c))))"

definition parse_drop :: "Statement parser" where
  "parse_drop =
     next_to (expect_keyword ''DROP'') (\<lambda>_.
     when_skip (keyword ''TABLE'')
       (next_to drop_parts (\<lambda>(ie, nm, c). return (DropTable \<lparr>dt_table = nm, dt_if_exists = ie, dt_cascade = c\<rparr>)))
     (when_skip (keyword ''INDEX'')
       (next_to drop_parts (\<lambda>(ie, nm, c). return (DropIndex \<lparr>di_name = nm, di_if_exists = ie, di_cascade = c\<rparr>)))
     (bail (Message ''expected TABLE or INDEX after DROP''))))"

section \<open>Transactions and settings\<close>

definition isolation_name :: "SqlIsolationLevel parser" where
  "isolation_name =
     when_skip (keyword ''SERIALIZABLE'') (return SqlSerializable)
     (when_skip (keyword ''REPEATABLE'') (next_to (expect_keyword ''READ'') (\<lambda>_. return SqlRepeatableRead))
     (when_skip (keyword ''READ'')
       (when_skip (keyword ''COMMITTED'') (return SqlReadCommitted)
       (when_skip (keyword ''UNCOMMITTED'') (return SqlReadUncommitted)
       (bail (Message ''expected COMMITTED or UNCOMMITTED''))))
     (bail (Message ''expected isolation level''))))"

definition begin_option :: "BeginStatement \<Rightarrow> (BeginStatement + BeginStatement) parser" where
  "begin_option b =
     when_skip (keyword ''ISOLATION'')
       (next_to (expect_keyword ''LEVEL'') (\<lambda>_. next_to isolation_name (\<lambda>l. again (b\<lparr>isolation_level := Some l\<rparr>))))
     (when_skip (keyword ''READ'') (next_to (expect_keyword ''WRITE'') (\<lambda>_. again (b\<lparr>begin_read_only := False\<rparr>)))
     (when_skip (keyword ''WRITE'') (again (b\<lparr>begin_read_only := True\<rparr>))
     (when_skip (keyword ''DEFERRABLE'') (again (b\<lparr>begin_deferrable := True\<rparr>))
     (when_skip (keyword ''NOT'') (next_to (expect_keyword ''DEFERRABLE'') (\<lambda>_. again (b\<lparr>begin_deferrable := False\<rparr>)))
     (done_with b)))))"

definition parse_begin :: "BeginStatement parser" where
  "parse_begin =
     next_to
       (when_skip (keyword ''BEGIN'') (return ())
       (when_skip (keyword ''START'') (expect_keyword ''TRANSACTION'')
       (bail (Message ''expected BEGIN or START TRANSACTION''))))
       (\<lambda>_. loop begin_option \<lparr>isolation_level = None, begin_read_only = False, begin_deferrable = False\<rparr>)"

definition set_more :: "SetValue list \<Rightarrow> (SetValue list + SetValue list) parser" where
  "set_more vs = when_skip (\<lambda>t. t = TComma) (again vs) (done_with vs)"

definition set_values :: "SetValue list parser" where
  "set_values =
     loop (\<lambda>vs. on_peek (\<lambda>t. case t of
         TString s \<Rightarrow> skip (set_more (vs @ [SetString s]))
       | TNumber n \<Rightarrow> skip (set_more (vs @ [SetNumber n]))
       | TIdent s \<Rightarrow> skip (set_more (vs @ [SetIdentifier s]))
       | TKeyword k \<Rightarrow> skip (set_more (vs @ [SetIdentifier k]))
       | _ \<Rightarrow> done_with vs)) []"

definition parse_set :: "Statement parser" where
  "parse_set =
     next_to (expect_keyword ''SET'') (\<lambda>_.
     next_to (when_tokens [keyword ''TIME'', keyword ''ZONE''] (return ''TIME ZONE'') expect_ident) (\<lambda>nm.
     next_to (when_skip (\<lambda>t. keyword ''TO'' t \<or> t = TEq) (return ()) (return ())) (\<lambda>_.
     next_to set_values (\<lambda>vs. return (Set \<lparr>setting = nm, setting_values = vs\<rparr>)))))"

section \<open>Statements\<close>

definition keyword_statement :: "(string \<Rightarrow> string) \<Rightarrow> subs \<Rightarrow> Statement parser \<Rightarrow> string \<Rightarrow> Statement parser" where
  "keyword_statement U R stmt k =
     (let K = to_ascii_uppercase k in
      if K = ''SELECT'' then next_to (sub_select R) (\<lambda>q. return (Select q))
      else if K = ''WITH'' then next_to (parse_with_select stmt R) (\<lambda>q. return (Select q))
      else if K = ''INSERT'' then next_to (parse_insert R) (\<lambda>s. return (Insert s))
      else if K = ''UPDATE'' then next_to (parse_update R) (\<lambda>s. return (Update s))
      else if K = ''DELETE'' then next_to (parse_delete R) (\<lambda>s. return (Delete s))
      else if K = ''SET'' then parse_set
      else if K = ''CREATE'' then parse_create U R
      else if K = ''ALTER'' then parse_alter R
      else if K = ''DROP'' then parse_drop
      else if K = ''MERGE'' then next_to (parse_merge R) (\<lambda>s. return (Merge s))
      else if K = ''BEGIN'' \<or> K = ''START'' then next_to parse_begin (\<lambda>s. return (Begin s))
      else if K = ''COMMIT'' then skip (return Commit)
      else if K = ''ROLLBACK'' \<or> K = ''ABORT'' then skip (return Rollback)
      else if K = ''EXPLAIN'' then skip (next_to stmt (\<lambda>s. return (Explain s)))
      else bail (Unexpected ''unexpected keyword'' (TKeyword k)))"

definition statement_body :: "(string \<Rightarrow> string) \<Rightarrow> subs \<Rightarrow> Statement parser \<Rightarrow> Statement parser" where
  "statement_body U R stmt =
     on_peek (\<lambda>t. case t of
         TKeyword k \<Rightarrow> keyword_statement U R stmt k
       | TLParen \<Rightarrow> stmt
       | other \<Rightarrow> bail (Unexpected ''unexpected token'' other))"

primrec parse_statement :: "(string \<Rightarrow> string) \<Rightarrow> nat \<Rightarrow> Statement parser" where
  "parse_statement U 0 = diverge"
| "parse_statement U (Suc n) = statement_body U (parsers U (Suc n)) (parse_statement U n)"

text \<open>\<open>Parser::parse\<close>: the tokens left after the statement are dropped.\<close>

definition parse_sql :: "(string \<Rightarrow> string) \<Rightarrow> nat \<Rightarrow> string \<Rightarrow> (parse_error + Statement) option" where
  "parse_sql U n sql = map_option (map_sum id fst) (parse_statement U n (tokenize sql))"

section \<open>The parsers return\<close>

lemma halts_clauses: "halts n if_not_exists_clause" "halts n if_exists_clause" "halts n merge_source_alias"
proof -
  show "halts n if_not_exists_clause" "halts n if_exists_clause"
    unfolding if_not_exists_clause_def if_exists_clause_def by (intro halt_rules)+
  show "halts n merge_source_alias"
    unfolding merge_source_alias_def
    by (auto intro!: halts_when_skip(2) halts_skip(2) halts_on_peek halts_leaf split: Token.split)
qed

lemma halts_optional_any: "halts n p \<Longrightarrow> halts n (optional k p)"
  unfolding optional_def by (intro halt_rules)

lemma halts_sequence: "halts n parse_create_sequence"
proof -
  have number: "halts m (i64_number d)" for m d
    unfolding i64_number_def by (auto intro!: halts_on_peek halts_skip(2) halts_leaf split: Token.split)
  have "rounds n (sequence_option s)" for s
    unfolding sequence_option_def sequence_no_def sequence_increment_def
    by (intro rounds_when_skip(2) rounds_leaf halts_next halts_when_skip(2) halts_leaf halts_expect halts_names
        halts_parse_data_type number) simp_all
  then show ?thesis
    unfolding parse_create_sequence_def by (intro halts_next halts_loop halts_clauses halts_names halts_leaf)
qed

lemma halts_create_type: "halts n (parse_create_type U)"
proof -
  have "halts n (subtype_word U)"
    unfolding subtype_word_def by (auto intro!: halts_on_peek halts_skip(2) halts_leaf split: Token.split)
  then show ?thesis
    unfolding parse_create_type_def type_body_def range_type_def range_body_def composite_attribute_def
    by (intro halts_next halts_when_skip(2) halts_sep_list halts_optional_any halts_expect halts_names halts_leaf
        halts_parse_data_type) simp_all
qed

lemma halts_case_prod: "(\<And>x y. halts n (f x y)) \<Longrightarrow> halts n (case p of (x, y) \<Rightarrow> f x y)"
  by (cases p) simp

lemma halts_create_schema: "halts n parse_create_schema"
  unfolding parse_create_schema_def schema_names_def
  by (intro halts_next halts_when_skip(2) halts_when_next halts_case_prod halts_optional_any halts_clauses halts_expect halts_leaf)

lemma halts_drop: "halts n parse_drop"
  unfolding parse_drop_def drop_parts_def
  by (intro halts_next halts_when_skip(2) halts_case_prod halts_clauses halts_names halts_expect halts_leaf)

lemma halts_begin: "halts n parse_begin"
  unfolding parse_begin_def begin_option_def isolation_name_def
  by (intro halts_next halts_loop rounds_when_skip(2) rounds_leaf halts_when_skip(2) halts_expect halts_leaf) simp_all

lemma halts_set: "halts n parse_set"
proof -
  have more: "halts m (set_more vs)" for m vs
    unfolding set_more_def by (intro halt_rules)
  have "rounds n (on_peek (\<lambda>t. case t of
         TString s \<Rightarrow> skip (set_more (vs @ [SetString s]))
       | TNumber n \<Rightarrow> skip (set_more (vs @ [SetNumber n]))
       | TIdent s \<Rightarrow> skip (set_more (vs @ [SetIdentifier s]))
       | TKeyword k \<Rightarrow> skip (set_more (vs @ [SetIdentifier k]))
       | _ \<Rightarrow> done_with vs))" (is "rounds n (on_peek (?f vs))") for vs
  proof (rule roundsI)
    fix ts :: tokens
    assume "length ts \<le> n"
    have "round_within (length (t # rest)) (skip (set_more vs') (t # rest))" for t rest vs'
      using haltsD [OF more [of "length rest" vs'], of rest "length rest"] by (simp add: skip_def within_round)
    then show "round_within (length ts) (on_peek (?f vs) ts)"
      by (cases ts) (auto simp: on_peek_def peek_def done_with_def return_def split: Token.split)
  qed
  then have "halts n set_values" unfolding set_values_def by (rule halts_loop)
  moreover have "halts n (when_tokens [keyword ''TIME'', keyword ''ZONE''] (return ''TIME ZONE'') expect_ident)"
    by (rule haltsI) (auto simp: when_tokens_def return_def haltsD [OF halts_expect(3)])
  ultimately show ?thesis
    unfolding parse_set_def by (intro halts_next halts_when_skip(2) halts_expect halts_leaf)
qed

lemma eats_when_skip:
  assumes "\<not> P TEof" "halts n p" "eats n q"
  shows "eats n (when_skip P p q)"
proof (rule eatsI)
  fix ts ts' x
  assume ts: "length ts \<le> n" and run: "when_skip P p q ts = Some (Inr (x, ts'))"
  show "length ts' < length ts"
  proof (cases "P (peek ts)")
    case True
    then have "length (tl ts) < length ts" using assms(1) by (rule peek_skips)
    moreover have "length ts' \<le> length (tl ts)"
      using True run ts by (intro halts_shorter [OF assms(2)]) (simp_all add: when_skip_def)
    ultimately show ?thesis by simp
  next
    case False
    then show ?thesis using run by (intro eatsD [OF assms(3) ts]) (simp add: when_skip_def)
  qed
qed

locale halting_statements = halting_subparsers n R for n :: nat and R :: subs
begin

lemma halts_returning: "halts n (returning_clause R)"
  unfolding returning_clause_def by (intro halts_when_skip(2) halts_select_list halts_leaf)

lemma halts_set_clause: "halts n (set_clause R)" "halts n (sep_list TComma (set_clause R))"
proof -
  show "halts n (set_clause R)"
    unfolding set_clause_def by (intro halts_next halts_expect halts_leaf sub_rules)
  then show "halts n (sep_list TComma (set_clause R))" by (rule halts_sep_list) simp
qed

lemma halts_insert: "halts n (parse_insert R)"
  unfolding parse_insert_def insert_source_def value_row_def conflict_clause_def conflict_action_def
  by (intro halts_next halts_when_skip(2) halts_when_next halts_sep_list halts_optional_any halts_expect halts_names
      halts_leaf halts_returning halts_set_clause halts_expr_list sub_rules) simp_all

lemma halts_update: "halts n (parse_update R)"
  unfolding parse_update_def
  by (intro halts_next halts_optional_any halts_expect halts_names halts_leaf halts_returning halts_set_clause
      halts_from_clause sub_rules)

lemma halts_delete: "halts n (parse_delete R)"
  unfolding parse_delete_def
  by (intro halts_next halts_optional_any halts_expect halts_names halts_leaf halts_returning halts_from_clause sub_rules)

lemma halts_merge_clause: "halts n (merge_clause R)"
  unfolding merge_clause_def parse_merge_action_def merge_insert_def merge_set_clause_def dotted_column_def
  by (intro halts_next halts_when_skip(2) halts_sep_list halts_optional_any halts_expect halts_names halts_leaf
      halts_expr_list sub_rules) simp_all

lemma halts_merge: "halts n (parse_merge R)"
  unfolding parse_merge_def merge_source_ref_def
  by (intro halts_next halts_when_skip(2) halts_loop rounds_when_skip(2) rounds_leaf halts_expect halts_names halts_leaf
      halts_alias halts_clauses halts_merge_clause sub_rules) simp_all

lemma halts_column_def: "halts n (parse_column_def R)" and eats_column_def: "eats n (parse_column_def R)"
proof -
  have "rounds n (constraints_end cs)" for cs
    by (auto simp: rounds_def constraints_end_def parser_defs split: Token.split)
  then have constraints: "halts n (column_constraints R)"
    unfolding column_constraints_def references_clause_def paren_expr_of_def
    by (intro halts_loop rounds_when_skip(2) halts_next halts_expect halts_names halts_leaf sub_rules) simp_all
  show "halts n (parse_column_def R)"
    unfolding parse_column_def_def by (intro halts_next halts_expect halts_parse_data_type constraints halts_leaf)
  show "eats n (parse_column_def R)"
    unfolding parse_column_def_def
    by (intro eats_first eats_expect halts_next halts_parse_data_type constraints halts_leaf)
qed

lemma halts_create_table: "halts n (create_table R)"
proof -
  have keys: "halts m primary_key_constraint" "halts m unique_constraint" "halts m foreign_key_constraint" for m
    unfolding primary_key_constraint_def unique_constraint_def foreign_key_constraint_def
    by (intro halts_next halts_expect halts_names halts_leaf)+
  have constraint: "halts n (parse_table_constraint R)"
    unfolding parse_table_constraint_def paren_expr_of_def
    by (intro halts_next halts_when_skip(2) halts_expect halts_leaf keys sub_rules)
  have element: "halts n (table_element R)"
    unfolding table_element_def
    by (intro halts_next halts_when_skip(2) halts_expect halts_leaf keys constraint halts_column_def)
  have "eats n (table_element R)"
    unfolding table_element_def
    by (intro eats_when_skip eats_first [OF eats_column_def] halts_next halts_expect halts_leaf keys constraint) simp_all
  then show ?thesis
    unfolding create_table_def table_elements_def
    by (intro halts_next halts_loop rounds_when_next rounds_next_eats rounds_leaf halts_when_skip(2) halts_clauses
        halts_names halts_expect halts_leaf element)
qed

end

context halting_statements
begin

lemma halts_create: "halts n (parse_create U R)"
  unfolding parse_create_def create_index_def index_column_def create_view_def create_materialized_view_def
    view_parts_def sort_direction_def nulls_order_def
  by (intro halts_next halts_when_skip(2) halts_case_prod halts_sep_list halts_clauses halts_names halts_expect
      halts_leaf halts_create_table halts_sequence halts_create_type halts_create_schema sub_rules) simp_all

lemma halts_alter: "halts n (parse_alter R)"
  unfolding parse_alter_def alter_action_of_def alter_column_action_def drop_column_def rename_action_def
  by (intro halts_next halts_when_skip(2) halts_clauses halts_names halts_expect halts_leaf halts_column_def
      halts_parse_data_type sub_rules)

text \<open>Every statement that is not a \<open>WITH\<close> query and not an \<open>EXPLAIN\<close>: no statement is parsed inside it.\<close>

lemma halts_plain_statement:
  assumes "to_ascii_uppercase k \<noteq> ''WITH''" "to_ascii_uppercase k \<noteq> ''EXPLAIN''"
  shows "halts n (keyword_statement U R stmt k)"
  unfolding keyword_statement_def Let_def using assms
  by (simp only: if_False) (intro halts_if halts_next halts_skip(2) halts_leaf halts_insert halts_update halts_delete
      halts_set halts_create halts_alter halts_drop halts_merge halts_begin sub_rules)

end

interpretation statements: halting_statements n "parsers U (Suc n)" for n U
  by (rule halting_statements.intro, rule parsers_halt)

section \<open>More fuel changes no result\<close>

lemma below_case_prod: "(\<And>x y. below (f x y) (g x y)) \<Longrightarrow> below (case p of (x, y) \<Rightarrow> f x y) (case p of (x, y) \<Rightarrow> g x y)"
  by (cases p) simp

locale extended_statements = extended_subparsers R R' for R R' :: subs
begin

lemma below_from: "below (parse_from_clause R) (parse_from_clause R')"
  unfolding parse_from_clause_def join_item_def join_rule_def
  by (intro below_next below_loop below_tests below_refl below_table_ref extended_subparsers_axioms sub_below)

lemma below_returning: "below (returning_clause R) (returning_clause R')"
  unfolding returning_clause_def parse_select_list_def select_item_def
  by (intro below_next below_tests below_sep_list below_refl sub_below)

lemma below_set_clauses: "below (sep_list TComma (set_clause R)) (sep_list TComma (set_clause R'))"
  unfolding set_clause_def by (intro below_next below_sep_list below_refl sub_below)

lemma below_insert: "below (parse_insert R) (parse_insert R')"
  unfolding parse_insert_def insert_source_def value_row_def conflict_clause_def conflict_action_def
  by (intro below_next below_tests below_sep_list below_optional below_refl below_returning below_set_clauses
      below_lists sub_below)

lemma below_update: "below (parse_update R) (parse_update R')"
  unfolding parse_update_def
  by (intro below_next below_optional below_refl below_returning below_set_clauses below_from sub_below)

lemma below_delete: "below (parse_delete R) (parse_delete R')"
  unfolding parse_delete_def by (intro below_next below_optional below_refl below_returning below_from sub_below)

lemma below_merge: "below (parse_merge R) (parse_merge R')"
  unfolding parse_merge_def merge_source_ref_def merge_clause_def parse_merge_action_def merge_insert_def merge_set_clause_def
  by (intro below_next below_loop below_tests below_sep_list below_optional below_refl below_lists sub_below)

lemma below_column_def: "below (parse_column_def R) (parse_column_def R')"
  unfolding parse_column_def_def column_constraints_def paren_expr_of_def
  by (intro below_next below_loop below_tests below_refl sub_below)

lemma below_create: "below (parse_create U R) (parse_create U R')"
  unfolding parse_create_def create_table_def table_elements_def table_element_def parse_table_constraint_def
    paren_expr_of_def create_index_def index_column_def create_view_def create_materialized_view_def view_parts_def
  by (intro below_next below_loop below_tests below_case_prod below_sep_list below_refl below_column_def sub_below)

lemma below_alter: "below (parse_alter R) (parse_alter R')"
  unfolding parse_alter_def alter_action_of_def alter_column_action_def
  by (intro below_next below_tests below_refl below_column_def sub_below)

lemma below_with:
  assumes "below stmt stmt'"
  shows "below (parse_with_select stmt R) (parse_with_select stmt' R')"
  unfolding parse_with_select_def parse_cte_def
  by (intro below_next below_tests below_sep_list below_refl assms below_parse_select extended_subparsers_axioms)

lemma below_statement_body:
  assumes "below stmt stmt'"
  shows "below (statement_body U R stmt) (statement_body U R' stmt')"
proof -
  have "below (keyword_statement U R stmt k) (keyword_statement U R' stmt' k)" for k
    unfolding keyword_statement_def Let_def
    by (intro below_tests below_next below_refl below_with below_insert below_update below_delete below_merge
        below_create below_alter assms sub_below)
  then show ?thesis
    unfolding statement_body_def by (auto intro!: below_tests below_refl assms split: Token.split)
qed

end

interpretation statements_fuel: extended_statements "parsers U n" "parsers U (Suc n)" for U n
  by (rule extended_statements.intro, rule parsers_extend)

lemma parse_statement_below:
  assumes "m \<le> n"
  shows "below (parse_statement U m) (parse_statement U n)"
  using assms
proof (induction n rule: dec_induct)
  case (step k)
  have "below (parse_statement U k) (parse_statement U (Suc k))" for k
  proof (induction k)
    case (Suc k)
    then show ?case
      by (subst (1 2) parse_statement.simps(2)) (rule statements_fuel.below_statement_body)
  qed (simp add: below_diverge)
  then show ?case using step.IH by (blast intro: below_trans)
qed (rule below_refl)

section \<open>Termination\<close>

text \<open>The statement, after any number of \<open>EXPLAIN\<close>, starts neither with a bracket nor with \<open>WITH\<close>.\<close>

fun plain_start :: "tokens \<Rightarrow> bool" where
  "plain_start [] \<longleftrightarrow> True"
| "plain_start (t # ts) \<longleftrightarrow>
     (if keyword ''EXPLAIN'' t then plain_start ts else t \<noteq> TLParen \<and> \<not> keyword ''WITH'' t)"

lemma explain_statement:
  "keyword ''EXPLAIN'' t \<Longrightarrow> parse_statement U (Suc n) (t # ts) = next_to (parse_statement U n) (\<lambda>s. return (Explain s)) ts"
  by (cases t) (simp_all add: keyword_def statement_body_def keyword_statement_def on_peek_def peek_def skip_def)

lemma plain_statement_returns:
  assumes "plain_start ts" "length ts < n"
  shows "within (length ts) (parse_statement U n ts)"
  using assms
proof (induction ts arbitrary: n)
  case Nil
  then show ?case by (cases n) (simp_all add: statement_body_def on_peek_def peek_def bail_def)
next
  case (Cons t ts)
  obtain m where n: "n = Suc m" using Cons.prems(2) by (cases n) auto
  show ?case
  proof (cases "keyword ''EXPLAIN'' t")
    case True
    have "within (length ts) (parse_statement U m ts)" using Cons True n by simp
    then have "within (length ts) (next_to (parse_statement U m) (\<lambda>s. return (Explain s)) ts)"
      by (rule within_next) (simp add: return_def)
    then show ?thesis using True by (simp add: n explain_statement within_mono del: parse_statement.simps)
  next
    case False
    have plain: "t \<noteq> TLParen" "\<not> keyword ''WITH'' t" using Cons.prems(1) False by simp_all
    show ?thesis
    proof (cases t)
      case (TKeyword k)
      have "halts m (keyword_statement U (parsers U (Suc m)) (parse_statement U m) k)"
        using False plain by (intro statements.halts_plain_statement) (simp_all add: TKeyword keyword_def)
      then show ?thesis using Cons.prems(2)
        by (simp add: n TKeyword statement_body_def on_peek_def peek_def haltsD del: parsers.simps)
    qed (use plain in \<open>simp_all add: n statement_body_def on_peek_def peek_def bail_def\<close>)
  qed
qed

text \<open>
  C10: with more fuel than there are tokens the parser returns on every text whose statement starts neither with a
  bracket nor with \<open>WITH\<close>: it gives a statement or an error, and any larger amount of fuel gives the same. The fuel
  is therefore no more than a bound on the nesting of the calls of the code.
\<close>

theorem parser_returns:
  assumes "plain_start (tokenize sql)"
  shows "\<exists>r. \<forall>n > length (tokenize sql). parse_sql U n sql = Some r"
proof -
  let ?ts = "tokenize sql" and ?n = "Suc (length (tokenize sql))"
  have "within (length ?ts) (parse_statement U ?n ?ts)"
    using assms by (rule plain_statement_returns) simp
  then obtain r where r: "parse_statement U ?n ?ts = Some r" by (cases "parse_statement U ?n ?ts") auto
  have "parse_statement U n ?ts = Some r" if "n > length ?ts" for n
    using parse_statement_below [of ?n n U] that r by (simp add: below_def del: parse_statement.simps)
  then show ?thesis by (auto simp: parse_sql_def)
qed

text \<open>
  On a statement in brackets the parser never returns: the code calls itself without stepping over the bracket.
\<close>

theorem bracketed_statement_never_returns:
  "parse_sql U n (CHR ''('' # sql) = None"
proof -
  have ts: "tokenize (CHR ''('' # sql) = TLParen # tokenize sql"
    by (simp add: tokenize_Cons lex_step_def blank_def symbols_def)
  have "parse_statement U n (TLParen # ts) = None" for ts
    by (induction n) (simp_all add: diverge_def statement_body_def on_peek_def peek_def)
  then show ?thesis by (simp add: parse_sql_def ts)
qed

section \<open>What follows a statement is dropped\<close>

lemma loop_stops: "f s ts = Some (Inr (Inr x, ts')) \<Longrightarrow> loop f s ts = Some (Inr (x, ts'))"
  by (subst loop.simps) simp

lemma one_name: "peek ts \<noteq> TDot \<Longrightarrow> parse_name (TIdent s # ts) = Some (Inr (single_name s, ts))"
  by (simp add: parse_name_def sep_list_def object_name_def single_name_def parser_defs expect_ident_def peek_def
      loop_stops)

text \<open>
  C40: a \<open>DELETE\<close> whose table name is followed by anything but a dot or one of the words \<open>USING\<close>, \<open>WHERE\<close> and \<open>RETURNING\<close>
  is accepted as a \<open>DELETE\<close> without condition, whatever follows.
\<close>

theorem delete_drops_trailing_tokens:
  assumes "\<not> keyword ''USING'' (peek rest)" "\<not> keyword ''WHERE'' (peek rest)" "\<not> keyword ''RETURNING'' (peek rest)"
    and "peek rest \<noteq> TDot"
  shows "parse_statement U (Suc n) ([TKeyword ''DELETE'', TKeyword ''FROM'', TIdent tbl] @ rest) =
    Some (Inr (Delete (DeleteStatement (single_name tbl) None None []), rest))"
proof -
  have upper: "to_ascii_uppercase ''DELETE'' = ''DELETE''" "to_ascii_uppercase ''FROM'' = ''FROM''" by code_simp+
  have "parse_delete R (TKeyword ''DELETE'' # TKeyword ''FROM'' # TIdent tbl # rest) =
    Some (Inr (DeleteStatement (single_name tbl) None None [], rest))" for R
    using assms
    by (simp add: parse_delete_def expect_keyword_def optional_def returning_clause_def parser_defs peek_def [of "_ # _"]
        keyword_def [of _ "TKeyword _"] upper one_name)
  then show ?thesis
    by (simp add: statement_body_def keyword_statement_def on_peek_def peek_def [of "_ # _"] upper next_to_def return_def)
qed

theorem parser_returns_witness:
  "plain_start (tokenize ''commit'') \<and> (\<exists>r. \<forall>n > length (tokenize ''commit''). parse_sql id n ''commit'' = Some r)"
proof -
  have "plain_start (tokenize ''commit'')" by code_simp
  then show ?thesis using parser_returns [of "''commit''" id] by blast
qed

theorem delete_drops_trailing_tokens_witness:
  "parse_statement id 1 [TKeyword ''DELETE'', TKeyword ''FROM'', TIdent ''t'', TIdent ''WHRE'', TIdent ''a'', TEq, TNumber ''1'', TEof] =
   Some (Inr (Delete (DeleteStatement (single_name ''t'') None None []), [TIdent ''WHRE'', TIdent ''a'', TEq, TNumber ''1'', TEof]))"
  using delete_drops_trailing_tokens [of "[TIdent ''WHRE'', TIdent ''a'', TEq, TNumber ''1'', TEof]" id 0 "''t''"]
  by (simp add: peek_def keyword_def)

section \<open>Words the tokenizer does not know\<close>

text \<open>
  \<open>OUTER\<close>, \<open>SHARE\<close> and \<open>COLLATE\<close> reach the parser as identifiers (see \<open>Lexer\<close>): an outer join written with \<open>OUTER\<close> and
  \<open>FOR SHARE\<close> are errors.
\<close>

theorem outer_join_rejected:
  "parse_join_type (TKeyword ''LEFT'' # TIdent ''OUTER'' # ts) = Some (Inl (ExpectedKeyword ''JOIN'' (TIdent ''OUTER'')))"
  "locking_clauses (TKeyword ''FOR'' # TIdent ''SHARE'' # ts) = Some (Inl (ExpectedKeyword ''KEY'' (TIdent ''SHARE'')))"
proof -
  have upper: "to_ascii_uppercase ''LEFT'' = ''LEFT''" "to_ascii_uppercase ''FOR'' = ''FOR''" by code_simp+
  show "parse_join_type (TKeyword ''LEFT'' # TIdent ''OUTER'' # ts) = Some (Inl (ExpectedKeyword ''JOIN'' (TIdent ''OUTER'')))"
    by (simp add: parse_join_type_def flag_def expect_keyword_def parser_defs peek_def keyword_def upper)
  show "locking_clauses (TKeyword ''FOR'' # TIdent ''SHARE'' # ts) = Some (Inl (ExpectedKeyword ''KEY'' (TIdent ''SHARE'')))"
    unfolding locking_clauses_def
    by (subst loop.simps) (simp add: expect_keyword_def parser_defs peek_def keyword_def upper)
qed

end
