(* ===== verification/Parse_Print.thy ===== *)
theory Parse_Print
  imports Parse_Stmt
begin

text \<open>
  The parser of expressions inverts a printer that writes only the brackets that the precedence of the operators
  requires. This fixes the grammar the parser accepts: which operator binds tighter, that the operators of a level
  group to the left, and that comparisons do not chain.
\<close>

section \<open>The printer\<close>

text \<open>The levels, from \<open>OR\<close> (0) to the primary expressions (11).\<close>

fun op_level :: "BinaryOperator \<Rightarrow> nat" where
  "op_level Or = 0"
| "op_level And = 1"
| "op_level BitwiseOr = 4"
| "op_level BitwiseXor = 5"
| "op_level BitwiseAnd = 6"
| "op_level BitwiseShiftLeft = 7"
| "op_level BitwiseShiftRight = 7"
| "op_level Plus = 8"
| "op_level Minus = 8"
| "op_level Multiply = 9"
| "op_level Divide = 9"
| "op_level Modulo = 9"
| "op_level _ = 3"

fun op_token :: "BinaryOperator \<Rightarrow> Token" where
  "op_token Or = TKeyword ''OR''"
| "op_token And = TKeyword ''AND''"
| "op_token BitwiseOr = TPipe"
| "op_token BitwiseXor = TCaret"
| "op_token BitwiseAnd = TAmpersand"
| "op_token BitwiseShiftLeft = TLtLt"
| "op_token BitwiseShiftRight = TGtGt"
| "op_token Plus = TPlus"
| "op_token Minus = TMinus"
| "op_token Multiply = TStar"
| "op_token Divide = TSlash"
| "op_token Modulo = TPercent"
| "op_token Equals = TEq"
| "op_token NotEquals = TNeq"
| "op_token LessThan = TLt"
| "op_token GreaterThan = TGt"
| "op_token LessOrEqual = TLtEq"
| "op_token GreaterOrEqual = TGtEq"
| "op_token Like = TKeyword ''LIKE''"
| "op_token ILike = TKeyword ''ILIKE''"
| "op_token _ = TBang"

fun expr_level :: "'s Expr \<Rightarrow> nat" where
  "expr_level (BinaryOp l op r) = op_level op"
| "expr_level (UnaryOp UNot e) = 2"
| "expr_level (UnaryOp op e) = 10"
| "expr_level (IsNull e) = 3"
| "expr_level (IsNotNull e) = 3"
| "expr_level (Between e neg lo hi) = 3"
| "expr_level (InList e neg es) = 3"
| "expr_level _ = 11"

definition wrap :: "bool \<Rightarrow> tokens \<Rightarrow> tokens" where
  "wrap b ts = (if b then TLParen # ts @ [TRParen] else ts)"

fun commas :: "tokens list \<Rightarrow> tokens" where
  "commas [] = []"
| "commas [x] = x"
| "commas (x # xs) = x @ TComma # commas xs"

fun unary_token :: "UnaryOperator \<Rightarrow> Token" where
  "unary_token UMinus = TMinus"
| "unary_token UPlus = TPlus"
| "unary_token UBitwiseNot = TTilde"
| "unary_token UNot = TKeyword ''NOT''"

text \<open>
  The tokens of an expression without brackets around it. A loop level takes its left operand at its own level, a
  comparison takes both operands one level up.
\<close>

fun raw :: "'s Expr \<Rightarrow> tokens" where
  "raw (Lit (LNumber s)) = [TNumber s]"
| "raw (Lit (LString s)) = [TString s]"
| "raw (Lit (LBool b)) = [TKeyword (if b then ''TRUE'' else ''FALSE'')]"
| "raw (Lit LNull) = [TKeyword ''NULL'']"
| "raw (Identifier s) = [TIdent s]"
| "raw (QualifiedIdentifier t c) = [TIdent t, TDot, TIdent c]"
| "raw (BinaryOp l op r) =
     wrap (expr_level l < (if op_level op = 3 then 4 else op_level op)) (raw l) @ op_token op #
     wrap (expr_level r < Suc (op_level op)) (raw r)"
| "raw (UnaryOp op e) = unary_token op # wrap (expr_level e < (if op = UNot then 3 else 11)) (raw e)"
| "raw (IsNull e) = wrap (expr_level e < 4) (raw e) @ [TKeyword ''IS'', TKeyword ''NULL'']"
| "raw (IsNotNull e) = wrap (expr_level e < 4) (raw e) @ [TKeyword ''IS'', TKeyword ''NOT'', TKeyword ''NULL'']"
| "raw (Between e neg lo hi) =
     wrap (expr_level e < 4) (raw e) @ TKeyword ''BETWEEN'' # wrap (expr_level lo < 4) (raw lo) @
     TKeyword ''AND'' # wrap (expr_level hi < 4) (raw hi)"
| "raw (InList e neg es) =
     wrap (expr_level e < 4) (raw e) @ [TKeyword ''IN'', TLParen] @ commas (map raw es) @ [TRParen]"
| "raw (Array es) = TLBracket # commas (map raw es) @ [TRBracket]"
| "raw (Function (FunctionCall nm args flt over)) =
     TIdent (hd (parts nm)) # TLParen #
     commas (map (\<lambda>a. case a of ArgStar \<Rightarrow> [TStar] | ArgExpr e \<Rightarrow> raw e) args) @ [TRParen]"
| "raw _ = []"

definition print_at :: "nat \<Rightarrow> 's Expr \<Rightarrow> tokens" where
  "print_at q e = wrap (expr_level e < q) (raw e)"

definition print_expr :: "'s Expr \<Rightarrow> tokens" where
  "print_expr e = raw e"

text \<open>
  The expressions the printer covers: literals, columns, all operators the parser knows, the tests, lists, arrays and
  calls with at least one argument.
\<close>

definition parsed_operator :: "BinaryOperator \<Rightarrow> bool" where
  "parsed_operator op \<longleftrightarrow> op \<notin> {SimilarTo, Regex, RegexCaseInsensitive, NotRegex, NotRegexCaseInsensitive}"

fun printable :: "'s Expr \<Rightarrow> bool" where
  "printable (Lit (LNumber s)) \<longleftrightarrow> True"
| "printable (Lit (LString s)) \<longleftrightarrow> True"
| "printable (Lit (LBool b)) \<longleftrightarrow> True"
| "printable (Lit LNull) \<longleftrightarrow> True"
| "printable (Identifier s) \<longleftrightarrow> True"
| "printable (QualifiedIdentifier t c) \<longleftrightarrow> True"
| "printable (BinaryOp l op r) \<longleftrightarrow> parsed_operator op \<and> printable l \<and> printable r"
| "printable (UnaryOp op e) \<longleftrightarrow> printable e"
| "printable (IsNull e) \<longleftrightarrow> printable e"
| "printable (IsNotNull e) \<longleftrightarrow> printable e"
| "printable (Between e neg lo hi) \<longleftrightarrow> \<not> neg \<and> printable e \<and> printable lo \<and> printable hi"
| "printable (InList e neg es) \<longleftrightarrow> \<not> neg \<and> es \<noteq> [] \<and> printable e \<and> (\<forall>x \<in> set es. printable x)"
| "printable (Array es) \<longleftrightarrow> es \<noteq> [] \<and> (\<forall>x \<in> set es. printable x)"
| "printable (Function (FunctionCall nm args flt over)) \<longleftrightarrow>
     flt = None \<and> over = None \<and> length (parts nm) = 1 \<and>
     (args = [ArgStar] \<or> args \<noteq> [] \<and> (\<forall>a \<in> set args. case a of ArgStar \<Rightarrow> False | ArgExpr e \<Rightarrow> printable e))"
| "printable _ \<longleftrightarrow> False"

section \<open>The tower of levels\<close>

definition lev :: "(string \<Rightarrow> string) \<Rightarrow> 's subparsers \<Rightarrow> nat \<Rightarrow> 's Expr parser" where
  "lev U R q =
     [parse_or_expr U R, parse_and_expr U R, parse_not_expr U R, parse_comparison U R, parse_bitwise_or U R,
      parse_bitwise_xor U R, parse_bitwise_and U R, parse_shift U R, parse_additive U R, parse_multiplicative U R,
      parse_unary U R, parse_postfix U R] ! q"

definition ops :: "nat \<Rightarrow> Token \<Rightarrow> BinaryOperator option" where
  "ops q = [or_op, and_op, \<lambda>_. None, \<lambda>_. None, bitor_op, bitxor_op, bitand_op, shift_op, additive_op, multiply_op] ! q"

definition loop_levels :: "nat list" where
  "loop_levels = [0, 1, 4, 5, 6, 7, 8, 9]"

lemma lev_numerals:
  "lev U R 0 = parse_or_expr U R" "lev U R (Suc 0) = parse_and_expr U R" "lev U R 2 = parse_not_expr U R"
  "lev U R 3 = parse_comparison U R" "lev U R 4 = parse_bitwise_or U R" "lev U R 10 = parse_unary U R"
  "lev U R 11 = parse_postfix U R"
  by (simp_all add: lev_def numeral_eq_Suc)

lemma lev_loop: "q \<in> set loop_levels \<Longrightarrow> lev U R q = level (ops q) (lev U R (Suc q))"
  by (auto simp: loop_levels_def lev_def ops_def parse_or_expr_def parse_and_expr_def parse_bitwise_or_def
      parse_bitwise_xor_def parse_bitwise_and_def parse_shift_def parse_additive_def parse_multiplicative_def
      nth_Cons' numeral_eq_Suc)

text \<open>The level at which a token continues the expression before it, and the token lists that end one.\<close>

fun token_level :: "Token \<Rightarrow> nat option" where
  "token_level (TKeyword k) =
     (let K = to_ascii_uppercase k in
      if K = ''OR'' then Some 0
      else if K = ''AND'' then Some 1
      else if K \<in> {''IN'', ''BETWEEN'', ''LIKE'', ''ILIKE'', ''IS''} then Some 3
      else if K \<in> {''AT'', ''FILTER'', ''OVER''} then Some 11
      else None)"
| "token_level TEq = Some 3" | "token_level TNeq = Some 3" | "token_level TLt = Some 3"
| "token_level TGt = Some 3" | "token_level TLtEq = Some 3" | "token_level TGtEq = Some 3"
| "token_level TPipe = Some 4"
| "token_level TCaret = Some 5"
| "token_level TAmpersand = Some 6"
| "token_level TLtLt = Some 7" | "token_level TGtGt = Some 7"
| "token_level TPlus = Some 8" | "token_level TMinus = Some 8"
| "token_level TStar = Some 9" | "token_level TSlash = Some 9" | "token_level TPercent = Some 9"
| "token_level TColon = Some 11" | "token_level TLParen = Some 11" | "token_level TDot = Some 11"
| "token_level TLBracket = Some 11"
| "token_level _ = None"

definition follows :: "nat \<Rightarrow> tokens \<Rightarrow> bool" where
  "follows q ts \<longleftrightarrow> (case token_level (peek ts) of None \<Rightarrow> True | Some l \<Rightarrow> l < q)"

lemma follows_mono: "follows q ts \<Longrightarrow> q \<le> q' \<Longrightarrow> follows q' ts"
  by (auto simp: follows_def split: option.splits)

lemma follows_Cons: "follows q (t # ts) \<longleftrightarrow> (case token_level t of None \<Rightarrow> True | Some l \<Rightarrow> l < q)"
  by (simp add: follows_def peek_def)

lemma ops_level: "q \<in> set loop_levels \<Longrightarrow> ops q t = Some op \<Longrightarrow> token_level t = Some q"
  by (cases t) (auto simp: loop_levels_def ops_def or_op_def and_op_def bitor_op_def bitxor_op_def bitand_op_def
      shift_op_def additive_op_def multiply_op_def keyword_def nth_Cons' split: if_splits)

lemma ops_follow: "q \<in> set loop_levels \<Longrightarrow> follows q ts \<Longrightarrow> ops q (peek ts) = None"
  by (cases "ops q (peek ts)") (auto simp: follows_def dest: ops_level)

lemma operator_loop_stops:
  assumes "q \<in> set loop_levels" "follows q ts"
  shows "operator_loop (ops q) inner e ts = Some (Inr (e, ts))"
  unfolding operator_loop_def using ops_follow [OF assms] by (intro loop_stops) (simp add: parser_defs)

lemma operator_loop_next:
  assumes "ops q t = Some op" "inner ts = Some (Inr (r, ts'))"
  shows "operator_loop (ops q) inner l (t # ts) = operator_loop (ops q) inner (BinaryOp l op r) ts'"
  unfolding operator_loop_def using assms by (subst loop.simps) (simp add: parser_defs peek_def)

lemma token_level_keyword:
  "keyword ''IN'' t \<Longrightarrow> token_level t = Some 3" "keyword ''BETWEEN'' t \<Longrightarrow> token_level t = Some 3"
  "keyword ''LIKE'' t \<Longrightarrow> token_level t = Some 3" "keyword ''ILIKE'' t \<Longrightarrow> token_level t = Some 3"
  "keyword ''IS'' t \<Longrightarrow> token_level t = Some 3" "keyword ''AT'' t \<Longrightarrow> token_level t = Some 11"
  "keyword ''FILTER'' t \<Longrightarrow> token_level t = Some 11" "keyword ''OVER'' t \<Longrightarrow> token_level t = Some 11"
  by (cases t; simp add: keyword_def)+

lemma follows_not: "follows q ts \<Longrightarrow> token_level t = Some l \<Longrightarrow> q \<le> l \<Longrightarrow> peek ts \<noteq> t"
  by (auto simp: follows_def)

lemma follows_keyword:
  assumes "follows 3 ts"
  shows "comparison_op (peek ts) = None" "\<not> keyword ''IN'' (peek ts)" "\<not> keyword ''BETWEEN'' (peek ts)"
    "\<not> keyword ''LIKE'' (peek ts)" "\<not> keyword ''ILIKE'' (peek ts)" "\<not> keyword ''IS'' (peek ts)"
proof -
  show "comparison_op (peek ts) = None"
    using assms by (cases "peek ts") (simp_all add: follows_def comparison_op_def)
qed (use assms in \<open>auto dest!: token_level_keyword simp: follows_def\<close>)

lemma comparison_stops: "follows 3 ts \<Longrightarrow> comparison_rest U R e ts = Some (Inr (e, ts))"
  by (simp add: comparison_rest_def parser_defs follows_keyword)

lemma follows_primary:
  assumes "follows 11 ts"
  shows "peek ts \<noteq> TColon" "peek ts \<noteq> TLParen" "peek ts \<noteq> TDot" "peek ts \<noteq> TLBracket"
    "\<not> keyword ''AT'' (peek ts)" "\<not> keyword ''FILTER'' (peek ts)" "\<not> keyword ''OVER'' (peek ts)"
  using assms by (auto dest!: token_level_keyword simp: follows_def)

lemma postfix_stops:
  assumes "parse_primary U R ts = Some (Inr (e, ts'))" "follows 11 ts'"
  shows "parse_postfix U R ts = Some (Inr (e, ts'))"
proof -
  have "casts e ts' = Some (Inr (e, ts'))" "zones R e ts' = Some (Inr (e, ts'))"
    unfolding casts_def zones_def using follows_primary [OF assms(2)]
    by (intro loop_stops; simp add: when_tokens_def parser_defs)+
  then show ?thesis using assms(1) by (simp add: parse_postfix_def next_to_def)
qed

section \<open>The tokens an expression starts with\<close>

definition opener :: "nat \<Rightarrow> Token \<Rightarrow> bool" where
  "opener q t \<longleftrightarrow>
     (case t of
        TNumber _ \<Rightarrow> True | TString _ \<Rightarrow> True | TIdent _ \<Rightarrow> True | TLParen \<Rightarrow> True | TLBracket \<Rightarrow> True
      | TKeyword k \<Rightarrow> k \<in> {''TRUE'', ''FALSE'', ''NULL''} \<or> q \<le> 2 \<and> k = ''NOT''
      | TMinus \<Rightarrow> q \<le> 10 | TPlus \<Rightarrow> q \<le> 10 | TTilde \<Rightarrow> q \<le> 10
      | _ \<Rightarrow> False)"

definition opened :: "nat \<Rightarrow> tokens \<Rightarrow> bool" where
  "opened q ts \<longleftrightarrow> ts \<noteq> [] \<and> opener q (hd ts)"

lemma opener_mono: "opener q' t \<Longrightarrow> q \<le> q' \<Longrightarrow> opener q t"
  by (auto simp: opener_def split: Token.splits)

lemma opened_append: "opened q ts \<Longrightarrow> opened q (ts @ us)"
  by (simp add: opened_def)

lemma opened_Cons: "opened q (t # ts) \<longleftrightarrow> opener q t"
  by (simp add: opened_def)

lemma opened_mono: "opened q' ts \<Longrightarrow> q \<le> q' \<Longrightarrow> opened q ts"
  by (auto simp: opened_def intro: opener_mono)

lemma opened_wrap:
  assumes "q \<le> l \<Longrightarrow> opened l ts" "q' \<le> q"
  shows "opened q' (wrap (l < q) ts)"
proof (cases "l < q")
  case True
  then show ?thesis by (simp add: wrap_def opened_def opener_def)
next
  case False
  then show ?thesis using assms opened_mono by (auto simp: wrap_def)
qed

lemma op_level_le: "op_level op \<le> 9"
  by (cases op) auto

lemma expr_level_le: "expr_level e \<le> 11"
proof (cases e)
  case (BinaryOp l op r)
  then show ?thesis using op_level_le [of op] by simp
next
  case (UnaryOp op x)
  then show ?thesis by (cases op) auto
qed auto

lemma opened_raw: "printable e \<Longrightarrow> opened (expr_level e) (raw e)"
proof (induction e rule: raw.induct)
  case (7 l op r)
  then show ?case by (auto intro!: opened_append opened_wrap)
next
  case (8 op e)
  show ?case by (cases op) (simp_all add: opened_Cons opener_def)
qed (auto simp: opened_Cons opener_def intro!: opened_append opened_wrap)

lemma opened_print: "printable e \<Longrightarrow> opened q (print_at q e)"
  by (simp add: print_at_def opened_wrap opened_raw)

section \<open>Reading and continuing\<close>

text \<open>
  \<open>reads\<close>: the parser of level \<open>q\<close> reads the tokens as the expression, whatever ends it. \<open>begins\<close>: the parser of a loop
  level reads the tokens as the operand its loop goes on with.
\<close>

definition reads :: "(string \<Rightarrow> string) \<Rightarrow> 's subparsers \<Rightarrow> nat \<Rightarrow> tokens \<Rightarrow> 's Expr \<Rightarrow> bool" where
  "reads U R q ts e \<longleftrightarrow> (\<forall>rest. follows q rest \<longrightarrow> lev U R q (ts @ rest) = Some (Inr (e, rest)))"

definition begins :: "(string \<Rightarrow> string) \<Rightarrow> 's subparsers \<Rightarrow> nat \<Rightarrow> tokens \<Rightarrow> 's Expr \<Rightarrow> bool" where
  "begins U R q ts e \<longleftrightarrow>
     (\<forall>rest. follows (Suc q) rest \<longrightarrow>
        lev U R q (ts @ rest) = operator_loop (ops q) (lev U R (Suc q)) e rest)"

lemma readsD: "reads U R q ts e \<Longrightarrow> follows q rest \<Longrightarrow> lev U R q (ts @ rest) = Some (Inr (e, rest))"
  by (simp add: reads_def)

lemma begins_reads: "begins U R q ts e \<Longrightarrow> q \<in> set loop_levels \<Longrightarrow> reads U R q ts e"
  by (simp add: begins_def reads_def operator_loop_stops follows_mono)

lemma reads_begins: "reads U R (Suc q) ts e \<Longrightarrow> q \<in> set loop_levels \<Longrightarrow> begins U R q ts e"
  by (simp add: begins_def reads_def lev_loop level_def next_to_def)

lemma begins_operator:
  assumes "begins U R q ts l" "reads U R (Suc q) us r" "ops q t = Some op" "q \<in> set loop_levels"
  shows "begins U R q (ts @ t # us) (BinaryOp l op r)"
proof -
  have "follows (Suc q) (t # us')" for us'
    using ops_level [OF assms(4,3)] by (simp add: follows_Cons)
  then show ?thesis using assms
    by (simp add: begins_def readsD operator_loop_next)
qed

lemma peek_opened: "opened q ts \<Longrightarrow> opener q (peek (ts @ us))"
  by (cases ts) (simp_all add: opened_def peek_def)

lemma opener_not:
  assumes "opener q t"
  shows "2 < q \<Longrightarrow> \<not> keyword ''NOT'' t" "10 < q \<Longrightarrow> t \<notin> {TMinus, TPlus, TTilde}"
    "\<not> keyword ''SELECT'' t" "2 < q \<Longrightarrow> \<not> keyword ''ANY'' t" "2 < q \<Longrightarrow> \<not> keyword ''SOME'' t"
    "\<not> keyword ''DISTINCT'' t" "t \<noteq> TStar"
proof -
  have upper: "map to_ascii_uppercase [''TRUE'', ''FALSE'', ''NULL'', ''NOT''] = [''TRUE'', ''FALSE'', ''NULL'', ''NOT'']"
    by code_simp
  show "2 < q \<Longrightarrow> \<not> keyword ''NOT'' t" "\<not> keyword ''SELECT'' t" "2 < q \<Longrightarrow> \<not> keyword ''ANY'' t"
    "2 < q \<Longrightarrow> \<not> keyword ''SOME'' t" "\<not> keyword ''DISTINCT'' t"
    using assms upper by (auto simp: opener_def keyword_def split: Token.splits)
  show "10 < q \<Longrightarrow> t \<notin> {TMinus, TPlus, TTilde}" "t \<noteq> TStar" using assms by (auto simp: opener_def)
qed

text \<open>What a level reads, the level below it reads too.\<close>

lemma reads_down:
  assumes "reads U R (Suc q) ts e" "opened (Suc q) ts" "q < 11"
  shows "reads U R q ts e"
proof -
  note up = readsD [OF assms(1) follows_mono]
  consider "q \<in> set loop_levels" | "q = 2" | "q = 3" | "q = 10"
    using assms(3) by (auto simp: loop_levels_def less_Suc_eq numeral_eq_Suc)
  then show ?thesis
  proof cases
    case 1
    then show ?thesis using assms(1) by (simp add: begins_reads reads_begins)
  next
    case 2
    then show ?thesis using up opener_not(1) [OF peek_opened [OF assms(2)]]
      by (simp add: reads_def lev_numerals parse_not_expr_def when_skip_def)
  next
    case 3
    then show ?thesis using up
      by (simp add: reads_def lev_numerals parse_comparison_def next_to_def comparison_stops)
  next
    case 4
    then show ?thesis using up opener_not(2) [OF peek_opened [OF assms(2)]]
      by (simp add: reads_def lev_numerals parse_unary_def when_skip_def)
  qed
qed

lemma reads_downto:
  assumes "reads U R l ts e" "opened l ts" "q \<le> l" "l \<le> 11"
  shows "reads U R q ts e"
  using assms(3)
proof (induction q rule: inc_induct)
  case (step k)
  have "opened (Suc k) ts" using opened_mono [OF assms(2)] step by simp
  then show ?case using reads_down [OF step.IH] step.hyps assms(4) by simp
qed (rule assms)

lemma comma_level: "follows q (TComma # ts)" "follows q (TRParen # ts)" "follows q (TRBracket # ts)"
  by (simp_all add: follows_Cons)

lemma expect_simps: "expect t (t # ts) = Some (Inr ((), ts))"
  by (simp add: expect_def parser_defs peek_def)

lemma loop_goes_on: "f s ts = Some (Inr (Inl s', ts')) \<Longrightarrow> loop f s ts = loop f s' ts'"
  by (subst loop.simps) simp

lemma comma_loop_reads:
  assumes "\<forall>x \<in> set es. \<forall>r. ends r \<longrightarrow> p (f x @ r) = Some (Inr (g x, r))" "\<And>ts. ends (TComma # ts)"
    and "es \<noteq> []" "ends rest" "peek rest \<noteq> TComma"
  shows "loop (\<lambda>acc. next_to p (\<lambda>x. when_skip (\<lambda>t. t = TComma) (again (acc @ [x])) (done_with (acc @ [x])))) acc
    (commas (map f es) @ rest) = Some (Inr (acc @ map g es, rest))"
  using assms
proof (induction es arbitrary: acc rule: induct_list012)
  case (2 x)
  then show ?case by (intro loop_stops) (simp add: parser_defs)
next
  case (3 x y zs)
  have "p (f x @ TComma # commas (map f (y # zs)) @ rest) = Some (Inr (g x, TComma # commas (map f (y # zs)) @ rest))"
    using "3.prems"(1,2) by simp
  then have "loop (\<lambda>acc. next_to p (\<lambda>x. when_skip (\<lambda>t. t = TComma) (again (acc @ [x])) (done_with (acc @ [x])))) acc
      (commas (map f (x # y # zs)) @ rest) =
    loop (\<lambda>acc. next_to p (\<lambda>x. when_skip (\<lambda>t. t = TComma) (again (acc @ [x])) (done_with (acc @ [x])))) (acc @ [g x])
      (commas (map f (y # zs)) @ rest)"
    by (intro loop_goes_on) (simp add: parser_defs peek_def)
  also have "\<dots> = Some (Inr ((acc @ [g x]) @ map g (y # zs), rest))"
    using "3.prems" by (intro "3.IH"(2)) auto
  finally show ?case by simp
qed simp

lemma comma_list_reads:
  assumes "\<forall>x \<in> set es. \<forall>r. ends r \<longrightarrow> p (f x @ r) = Some (Inr (g x, r))" "\<And>ts. ends (TComma # ts)"
    and "es \<noteq> []" "ends rest" "peek rest \<noteq> TComma"
  shows "sep_list TComma p (commas (map f es) @ rest) = Some (Inr (map g es, rest))"
  unfolding sep_list_def using comma_loop_reads [of es ends p f g, OF assms, of "[]"] by simp

section \<open>Expressions that are read back\<close>

definition read_back :: "(string \<Rightarrow> string) \<Rightarrow> 't SelectStatement Expr \<Rightarrow> bool" where
  "read_back U e \<longleftrightarrow>
     (\<forall>n \<ge> length (raw e). \<forall>q \<le> expr_level e. reads U (parsers U n) q (raw e) e \<and>
        (q \<in> set loop_levels \<longrightarrow> begins U (parsers U n) q (raw e) e))"

lemma read_backI:
  assumes "printable e" "expr_level e \<notin> set loop_levels"
    and "\<And>n. length (raw e) \<le> n \<Longrightarrow> reads U (parsers U n) (expr_level e) (raw e) e"
  shows "read_back U e"
  unfolding read_back_def
proof (intro allI impI conjI)
  fix n q
  assume n: "length (raw e) \<le> n" and q: "q \<le> expr_level e"
  have down: "reads U (parsers U n) q' (raw e) e" if "q' \<le> expr_level e" for q'
    using reads_downto [OF assms(3) [OF n] opened_raw [OF assms(1)] that expr_level_le] .
  then show "reads U (parsers U n) q (raw e) e" using q .
  assume "q \<in> set loop_levels"
  moreover from this have "Suc q \<le> expr_level e" using q assms(2) by (cases "q = expr_level e") auto
  ultimately show "begins U (parsers U n) q (raw e) e" using down [of "Suc q"] by (intro reads_begins) auto
qed

lemma read_back_loopI:
  assumes "printable e" "expr_level e \<in> set loop_levels"
    and "\<And>n. length (raw e) \<le> n \<Longrightarrow> begins U (parsers U n) (expr_level e) (raw e) e"
  shows "read_back U e"
  unfolding read_back_def
proof (intro allI impI conjI)
  fix n q
  assume n: "length (raw e) \<le> n" and q: "q \<le> expr_level e"
  have down: "reads U (parsers U n) q' (raw e) e" if "q' \<le> expr_level e" for q'
    using reads_downto [OF begins_reads [OF assms(3) [OF n] assms(2)] opened_raw [OF assms(1)] that expr_level_le] .
  then show "reads U (parsers U n) q (raw e) e" using q .
  assume "q \<in> set loop_levels"
  then show "begins U (parsers U n) q (raw e) e" using down [of "Suc q"] q assms(3) [OF n]
    by (cases "q = expr_level e") (auto intro: reads_begins)
qed

lemma sub_expr_reads:
  assumes "read_back U e" "length (raw e) < n" "follows 0 rest"
  shows "sub_expr (parsers U n) (raw e @ rest) = Some (Inr (e, rest))"
proof -
  obtain m where n: "n = Suc m" "length (raw e) \<le> m" using assms(2) by (cases n) auto
  then have "reads U (parsers U m) 0 (raw e) e" using assms(1) by (simp add: read_back_def)
  from readsD [OF this assms(3)] show ?thesis by (simp add: n lev_numerals)
qed

lemma primary_reads:
  assumes "\<And>rest. follows 11 rest \<Longrightarrow> parse_primary U R (ts @ rest) = Some (Inr (e, rest))"
  shows "reads U R 11 ts e"
  using postfix_stops [OF assms] by (simp add: reads_def lev_numerals)

lemma paren_reads:
  assumes "read_back U e" "printable e" "length (raw e) < n"
  shows "reads U (parsers U n) 11 (TLParen # raw e @ [TRParen]) e"
proof -
  note sub = sub_expr_reads [OF assms(1,3) comma_level(2)]
  have "parse_primary U (parsers U n) (TLParen # raw e @ TRParen # rest) = Some (Inr (e, rest))" for rest
    using sub opener_not(3) [OF peek_opened [OF opened_raw [OF assms(2)]]]
    by (simp add: parse_primary_def paren_expr_def parser_defs expect_simps peek_def [of "_ # _"] del: parsers.simps)
  then show ?thesis by (intro primary_reads) simp
qed

lemma print_reads:
  assumes "read_back U e" "printable e" "length (raw e) < n" "q \<le> 11"
  shows "reads U (parsers U n) q (print_at q e) e"
proof (cases "expr_level e < q")
  case True
  have "opened 11 (TLParen # ts)" for ts by (simp add: opened_def opener_def)
  then show ?thesis using True reads_downto [OF paren_reads [OF assms(1-3)] _ assms(4)]
    by (simp add: print_at_def wrap_def)
next
  case False
  then show ?thesis using assms(1,3) by (simp add: read_back_def print_at_def wrap_def)
qed

lemma print_begins:
  assumes "read_back U e" "printable e" "length (raw e) < n" "q \<in> set loop_levels"
  shows "begins U (parsers U n) q (print_at q e) e"
proof (cases "expr_level e < q")
  case True
  have "q < 11" using assms(4) by (auto simp: loop_levels_def)
  then have "reads U (parsers U n) (Suc q) (print_at (Suc q) e) e" using assms by (intro print_reads) auto
  then show ?thesis using True assms(4) by (simp add: reads_begins print_at_def)
next
  case False
  then show ?thesis using assms(1,3,4) by (simp add: read_back_def print_at_def wrap_def)
qed

section \<open>The cases of the round trip\<close>

lemma op_token_ops: "op_level op \<noteq> 3 \<Longrightarrow> ops (op_level op) (op_token op) = Some op \<and> op_level op \<in> set loop_levels"
proof -
  have upper: "to_ascii_uppercase ''OR'' = ''OR''" "to_ascii_uppercase ''AND'' = ''AND''" by code_simp+
  then show "op_level op \<noteq> 3 \<Longrightarrow> ops (op_level op) (op_token op) = Some op \<and> op_level op \<in> set loop_levels"
    by (cases op) (simp_all add: ops_def loop_levels_def or_op_def and_op_def bitor_op_def bitxor_op_def bitand_op_def
        shift_op_def additive_op_def multiply_op_def keyword_def)
qed

lemma raw_binary:
  "raw (BinaryOp l op r) =
     print_at (if op_level op = 3 then 4 else op_level op) l @ op_token op # print_at (Suc (op_level op)) r"
  by (simp add: print_at_def)

lemma wrap_length: "length ts \<le> length (wrap b ts)"
  by (simp add: wrap_def)

lemma print_length: "length (raw e) \<le> length (print_at q e)"
  by (simp add: print_at_def wrap_length)

lemma read_back_operator:
  assumes "printable (BinaryOp l op r)" "read_back U l" "read_back U r" "op_level op \<noteq> 3"
  shows "read_back U (BinaryOp l op r)"
proof (rule read_back_loopI [OF assms(1)])
  show lev: "expr_level (BinaryOp l op r) \<in> set loop_levels" using op_token_ops assms(4) by simp
  fix n
  assume n: "length (raw (BinaryOp l op r)) \<le> n"
  then have "length (raw l) < n" "length (raw r) < n"
    using print_length [of l "op_level op"] print_length [of r "Suc (op_level op)"] assms(4)
    unfolding raw_binary by auto
  then have "begins U (parsers U n) (op_level op) (print_at (op_level op) l) l"
      "reads U (parsers U n) (Suc (op_level op)) (print_at (Suc (op_level op)) r) r"
    using assms lev op_level_le [of op] by (auto intro!: print_begins print_reads)
  from begins_operator [OF this, of "op_token op" op]
  show "begins U (parsers U n) (expr_level (BinaryOp l op r)) (raw (BinaryOp l op r)) (BinaryOp l op r)"
    unfolding raw_binary using op_token_ops [OF assms(4)] assms(4) by simp
qed

text \<open>A comparison reads its left operand and then decides on the next token.\<close>

lemma comparison_reads:
  assumes left: "reads U R 4 ts l"
    and rest: "\<And>rest. follows 3 rest \<Longrightarrow> follows 4 (us @ rest) \<and>
      comparison_rest U R l (us @ rest) = Some (Inr (e, rest))"
  shows "reads U R 3 (ts @ us) e"
  using readsD [OF left] rest by (simp add: reads_def lev_numerals parse_comparison_def next_to_def)

lemma comparison_tokens:
  assumes "op_level op = 3" "parsed_operator op"
  shows "follows 4 (op_token op # ts)"
    "comparison_op (op_token op) = Some op \<or> op = Like \<and> op_token op = TKeyword ''LIKE'' \<or>
     op = ILike \<and> op_token op = TKeyword ''ILIKE''"
proof -
  have upper: "to_ascii_uppercase ''LIKE'' = ''LIKE''" "to_ascii_uppercase ''ILIKE'' = ''ILIKE''" by code_simp+
  show "follows 4 (op_token op # ts)" using assms upper by (cases op) (simp_all add: follows_Cons parsed_operator_def)
  show "comparison_op (op_token op) = Some op \<or> op = Like \<and> op_token op = TKeyword ''LIKE'' \<or>
     op = ILike \<and> op_token op = TKeyword ''ILIKE''"
    using assms by (cases op) (simp_all add: comparison_op_def parsed_operator_def)
qed

lemma upper_words:
  "to_ascii_uppercase ''LIKE'' = ''LIKE''" "to_ascii_uppercase ''ILIKE'' = ''ILIKE''"
  "to_ascii_uppercase ''IS'' = ''IS''" "to_ascii_uppercase ''NULL'' = ''NULL''" "to_ascii_uppercase ''NOT'' = ''NOT''"
  "to_ascii_uppercase ''IN'' = ''IN''" "to_ascii_uppercase ''BETWEEN'' = ''BETWEEN''"
  "to_ascii_uppercase ''AND'' = ''AND''" "to_ascii_uppercase ''TRUE'' = ''TRUE''" "to_ascii_uppercase ''FALSE'' = ''FALSE''"
  by code_simp+

lemma comparison_rest_operator:
  assumes "op_level op = 3" "parsed_operator op" "reads U R 4 us r" "opened 4 us" "follows 3 rest"
  shows "comparison_rest U R l (op_token op # us @ rest) = Some (Inr (BinaryOp l op r, rest))"
proof -
  have "parse_bitwise_or U R (us @ rest) = Some (Inr (r, rest))"
    using readsD [OF assms(3) follows_mono [OF assms(5)]] by (simp add: lev_numerals)
  moreover have "\<not> keyword ''ANY'' (peek (us @ rest))" "\<not> keyword ''SOME'' (peek (us @ rest))"
    using opener_not(4,5) [OF peek_opened [OF assms(4)]] by simp_all
  ultimately show ?thesis
    using comparison_tokens(2) [OF assms(1,2)]
    by (auto simp: comparison_rest_def compare_rest_def parser_defs peek_def [of "_ # _"] comparison_op_def [of "TKeyword _"]
        keyword_def [of _ "TKeyword _"] upper_words)
qed

lemma read_back_testI:
  assumes "printable e" "expr_level e = 3" "raw e = print_at 4 x @ us" "us \<noteq> []" "printable x" "read_back U x"
    and "\<And>n rest. length (raw e) \<le> n \<Longrightarrow> follows 3 rest \<Longrightarrow> follows 4 (us @ rest) \<and>
      comparison_rest U (parsers U n) x (us @ rest) = Some (Inr (e, rest))"
  shows "read_back U e"
proof (rule read_backI [OF assms(1)])
  show "expr_level e \<notin> set loop_levels" by (simp add: assms(2) loop_levels_def)
  fix n
  assume n: "length (raw e) \<le> n"
  then have "length (raw x) < n"
    using print_length [of x 4] assms(4) by (cases us) (auto simp: assms(3))
  then show "reads U (parsers U n) (expr_level e) (raw e) e"
    using print_reads [OF assms(6,5), of n 4] assms(7) [OF n] comparison_reads [of U "parsers U n" "print_at 4 x" x us e]
    unfolding assms(2,3) by simp
qed

lemma read_back_comparison:
  assumes "printable (BinaryOp l op r)" "read_back U l" "read_back U r" "op_level op = 3"
  shows "read_back U (BinaryOp l op r)"
proof (rule read_back_testI [of _ l "op_token op # print_at 4 r"])
  fix n rest
  assume n: "length (raw (BinaryOp l op r)) \<le> n" and rest: "follows 3 rest"
  then have "length (raw r) < n" using print_length [of r 4] assms(4) unfolding raw_binary by simp
  then have "reads U (parsers U n) 4 (print_at 4 r) r" using assms by (intro print_reads) auto
  then show "follows 4 ((op_token op # print_at 4 r) @ rest) \<and>
      comparison_rest U (parsers U n) l ((op_token op # print_at 4 r) @ rest) = Some (Inr (BinaryOp l op r, rest))"
    using assms rest opened_print [of r 4] by (simp add: comparison_tokens comparison_rest_operator)
qed (use assms in \<open>auto simp: print_at_def\<close>)

lemma read_back_null_tests:
  assumes "printable e" "read_back U e"
  shows "read_back U (IsNull e)" "read_back U (IsNotNull e)"
proof -
  have "comparison_rest U R e ([TKeyword ''IS'', TKeyword ''NULL''] @ rest) = Some (Inr (IsNull e, rest))"
    "comparison_rest U R e ([TKeyword ''IS'', TKeyword ''NOT'', TKeyword ''NULL''] @ rest) = Some (Inr (IsNotNull e, rest))"
    for R :: "'a SelectStatement subparsers" and rest
    by (simp_all add: comparison_rest_def is_rest_def expect_keyword_def parser_defs peek_def comparison_op_def
        keyword_def upper_words)
  moreover have "follows 4 (TKeyword ''IS'' # ts)" for ts by (simp add: follows_Cons upper_words)
  ultimately show "read_back U (IsNull e)" "read_back U (IsNotNull e)"
    using assms read_back_testI [of "IsNull e" e "[TKeyword ''IS'', TKeyword ''NULL'']" U]
      read_back_testI [of "IsNotNull e" e "[TKeyword ''IS'', TKeyword ''NOT'', TKeyword ''NULL'']" U]
    by (simp_all add: print_at_def)
qed

lemma read_back_between:
  assumes "printable (Between e neg lo hi)" "read_back U e" "read_back U lo" "read_back U hi"
  shows "read_back U (Between e neg lo hi)"
proof (rule read_back_testI [of _ e "TKeyword ''BETWEEN'' # print_at 4 lo @ TKeyword ''AND'' # print_at 4 hi"])
  fix n rest
  assume n: "length (raw (Between e neg lo hi)) \<le> n" and rest: "follows 3 rest"
  then have "length (raw lo) < n" "length (raw hi) < n"
    using print_length [of lo 4] print_length [of hi 4] by (auto simp: print_at_def)
  then have "reads U (parsers U n) 4 (print_at 4 lo) lo" "reads U (parsers U n) 4 (print_at 4 hi) hi"
    using assms by (auto intro!: print_reads)
  moreover have "follows 4 (TKeyword ''AND'' # print_at 4 hi @ rest)" by (simp add: follows_Cons upper_words)
  ultimately have "parse_bitwise_or U (parsers U n) (print_at 4 lo @ TKeyword ''AND'' # print_at 4 hi @ rest) =
      Some (Inr (lo, TKeyword ''AND'' # print_at 4 hi @ rest))"
    "parse_bitwise_or U (parsers U n) (print_at 4 hi @ rest) = Some (Inr (hi, rest))"
    using readsD follows_mono [OF rest, of 4] by (fastforce simp: lev_numerals)+
  then have "between_rest U (parsers U n) e (print_at 4 lo @ TKeyword ''AND'' # print_at 4 hi @ rest) =
      Some (Inr (Between e False lo hi, rest))"
    by (simp add: between_rest_def expect_keyword_def parser_defs peek_def keyword_def upper_words)
  then show "follows 4 ((TKeyword ''BETWEEN'' # print_at 4 lo @ TKeyword ''AND'' # print_at 4 hi) @ rest) \<and>
      comparison_rest U (parsers U n) e ((TKeyword ''BETWEEN'' # print_at 4 lo @ TKeyword ''AND'' # print_at 4 hi) @ rest) =
      Some (Inr (Between e neg lo hi, rest))"
    using assms(1)
    by (simp add: follows_Cons comparison_rest_def on_peek_def skip_def peek_def comparison_op_def keyword_def upper_words)
qed (use assms in \<open>auto simp: print_at_def\<close>)

lemma commas_length: "x \<in> set xs \<Longrightarrow> length x \<le> length (commas xs)"
  by (induction xs rule: commas.induct) auto

lemma commas_opened: "xs \<noteq> [] \<Longrightarrow> opened q (hd xs) \<Longrightarrow> opened q (commas xs @ ts)"
  by (cases xs rule: commas.cases) (auto simp: opened_def)

lemma printed_list:
  assumes "\<forall>x \<in> set es. printable x \<and> read_back U x" "es \<noteq> []" "length (commas (map raw es)) < n"
    "follows 0 rest" "peek rest \<noteq> TComma"
  shows "expr_list (parsers U n) (commas (map raw es) @ rest) = Some (Inr (es, rest))"
    and "opened 0 (commas (map raw es) @ rest)"
proof -
  have "length (raw x) < n" if "x \<in> set es" for x
    using commas_length [of "raw x" "map raw es"] that assms(3) by simp
  then show "expr_list (parsers U n) (commas (map raw es) @ rest) = Some (Inr (es, rest))"
    unfolding expr_list_def using assms comma_list_reads [of es "follows 0" "sub_expr (parsers U n)" raw id rest]
    by (simp add: sub_expr_reads comma_level del: parsers.simps)
  show "opened 0 (commas (map raw es) @ rest)"
    using assms(1,2) by (intro commas_opened) (auto simp: hd_map opened_mono [OF opened_raw])
qed

lemma read_back_in_list:
  assumes "printable (InList e neg es)" "read_back U e" "\<And>x. x \<in> set es \<Longrightarrow> printable x \<Longrightarrow> read_back U x"
  shows "read_back U (InList e neg es)"
proof (rule read_back_testI [of _ e "TKeyword ''IN'' # TLParen # commas (map raw es) @ [TRParen]"])
  fix n rest
  assume n: "length (raw (InList e neg es)) \<le> n" and rest: "follows 3 rest"
  have "expr_list (parsers U n) (commas (map raw es) @ TRParen # rest) = Some (Inr (es, TRParen # rest))"
    "opened 0 (commas (map raw es) @ TRParen # rest)"
    using assms n by (auto intro!: printed_list simp: comma_level peek_def)
  then have "in_rest (parsers U n) e (TLParen # commas (map raw es) @ TRParen # rest) = Some (Inr (InList e False es, rest))"
    using opener_not(3) [OF peek_opened [of 0 _ "[]"]]
    by (simp add: in_rest_def parser_defs peek_def [of "TLParen # _"] expect_simps)
  then show "follows 4 ((TKeyword ''IN'' # TLParen # commas (map raw es) @ [TRParen]) @ rest) \<and>
      comparison_rest U (parsers U n) e ((TKeyword ''IN'' # TLParen # commas (map raw es) @ [TRParen]) @ rest) =
      Some (Inr (InList e neg es, rest))"
    using assms(1)
    by (simp add: follows_Cons comparison_rest_def on_peek_def skip_def peek_def comparison_op_def keyword_def upper_words)
qed (use assms in \<open>auto simp: print_at_def\<close>)

lemma read_back_primaryI:
  assumes "printable e" "expr_level e = 11"
    and "\<And>n rest. length (raw e) \<le> n \<Longrightarrow> follows 11 rest \<Longrightarrow>
      parse_primary U (parsers U n) (raw e @ rest) = Some (Inr (e, rest))"
  shows "read_back U e"
  using assms by (intro read_backI) (auto simp: loop_levels_def intro: primary_reads)

lemma read_back_atoms:
  "read_back U (Lit (LNumber s))" "read_back U (Lit (LString s))" "read_back U (Lit (LBool b))" "read_back U (Lit LNull)"
  "read_back U (Identifier s)" "read_back U (QualifiedIdentifier t c)"
  by (rule read_back_primaryI; simp add: parse_primary_def keyword_expr_def name_expr_def expect_ident_def parser_defs
      peek_def [of "_ # _"] upper_words follows_primary)+

lemma read_back_array:
  assumes "printable (Array es)" "\<And>x. x \<in> set es \<Longrightarrow> printable x \<Longrightarrow> read_back U x"
  shows "read_back U (Array es)"
proof (rule read_back_primaryI [OF assms(1)])
  fix n rest
  assume "length (raw (Array es)) \<le> n"
  then have "expr_list (parsers U n) (commas (map raw es) @ TRBracket # rest) = Some (Inr (es, TRBracket # rest))"
    using assms by (auto intro!: printed_list simp: comma_level peek_def)
  then show "parse_primary U (parsers U n) (raw (Array es) @ rest) = Some (Inr (Array es, rest))"
    by (simp add: parse_primary_def bracketed_def parser_defs peek_def expect_simps)
qed simp

lemma call_reads:
  assumes "call_args R (ts @ TRParen # rest) = Some (Inr (args, TRParen # rest))" "follows 11 rest"
  shows "parse_primary U R (TIdent s # TLParen # ts @ TRParen # rest) =
    Some (Inr (Function (FunctionCall (single_name s) args None None), rest))"
  using assms(1) follows_primary(6,7) [OF assms(2)]
  by (simp add: parse_primary_def name_expr_def call_rest_def filter_clause_def optional_def parser_defs
      peek_def [of "_ # _"] expect_simps)

lemma call_args_reads:
  assumes "\<forall>x \<in> set es. printable x \<and> read_back U x" "es \<noteq> []" "length (commas (map raw es)) < n"
  shows "call_args (parsers U n) (commas (map raw es) @ TRParen # rest) = Some (Inr (map ArgExpr es, TRParen # rest))"
proof -
  note list = printed_list [OF assms comma_level(2), of rest]
  have "opened 0 (commas (map raw es) @ TRParen # rest)" by (intro list) (simp add: peek_def)
  from opener_not(6,7) [OF peek_opened [OF this, of "[]"]] list(1)
  show ?thesis by (simp add: call_args_def flag_def parser_defs peek_def [of "_ # _"])
qed

lemma read_back_call:
  assumes "printable (Function (FunctionCall nm args flt over))"
    and "\<And>x. ArgExpr x \<in> set args \<Longrightarrow> printable x \<Longrightarrow> read_back U x"
  shows "read_back U (Function (FunctionCall nm args flt over))"
proof (rule read_back_primaryI [OF assms(1)])
  fix n rest
  assume n: "length (raw (Function (FunctionCall nm args flt over))) \<le> n" and rest: "follows 11 rest"
  obtain s where nm: "nm = single_name s"
    using assms(1) by (cases nm) (auto simp: single_name_def length_Suc_conv)
  let ?raw_arg = "\<lambda>a. case a of ArgStar \<Rightarrow> [TStar] | ArgExpr e \<Rightarrow> raw e"
  have "call_args (parsers U n) (commas (map ?raw_arg args) @ TRParen # rest) = Some (Inr (args, TRParen # rest))"
  proof (cases "args = [ArgStar]")
    case True
    then show ?thesis by (simp add: call_args_def flag_def parser_defs peek_def keyword_def)
  next
    case False
    then have args: "args \<noteq> []" "\<forall>a \<in> set args. case a of ArgStar \<Rightarrow> False | ArgExpr e \<Rightarrow> printable e"
      using assms(1) by auto
    define es where "es = map (\<lambda>a. case a of ArgStar \<Rightarrow> undefined | ArgExpr e \<Rightarrow> e) args"
    have es: "args = map ArgExpr es"
      using args(2) unfolding es_def by (auto simp: map_idI split: FunctionArg.splits)
    moreover have "map ?raw_arg args = map raw es" by (simp add: es)
    ultimately show ?thesis
      using call_args_reads [of es U n rest] args assms(2) n by (auto simp: comp_def)
  qed
  from call_reads [OF this rest, of U s]
  show "parse_primary U (parsers U n) (raw (Function (FunctionCall nm args flt over)) @ rest) =
    Some (Inr (Function (FunctionCall nm args flt over), rest))"
    using assms(1) by (simp add: nm single_name_def)
qed simp

lemma read_back_unary:
  assumes "printable (UnaryOp op e)" "read_back U e"
  shows "read_back U (UnaryOp op e)"
proof (rule read_backI [OF assms(1)])
  show "expr_level (UnaryOp op e) \<notin> set loop_levels" by (cases op) (simp_all add: loop_levels_def)
  fix n
  assume n: "length (raw (UnaryOp op e)) \<le> n"
  let ?q = "if op = UNot then 3 else 11"
  have raw: "raw (UnaryOp op e) = unary_token op # print_at ?q e" by (simp add: print_at_def)
  then have "length (raw e) < n" using n print_length [of e ?q] by auto
  then have arg: "reads U (parsers U n) ?q (print_at ?q e) e" using assms by (intro print_reads) auto
  show "reads U (parsers U n) (expr_level (UnaryOp op e)) (raw (UnaryOp op e)) (UnaryOp op e)"
  proof (cases "op = UNot")
    case True
    then show ?thesis unfolding raw using arg follows_mono [of 2 _ 3]
      by (simp add: reads_def lev_numerals parse_not_expr_def parser_defs peek_def keyword_def upper_words)
  next
    case False
    then show ?thesis unfolding raw using arg follows_mono [of 10 _ 11]
      by (cases op) (simp_all add: reads_def lev_numerals parse_unary_def parser_defs peek_def)
  qed
qed

lemma printable_read_back: "printable e \<Longrightarrow> read_back U e"
proof (induction e rule: raw.induct)
  case (7 l op r)
  then show ?case using read_back_operator [of l op r U] read_back_comparison [of l op r U] by (cases "op_level op = 3") auto
next
  case (14 nm args flt over)
  then show ?case by (intro read_back_call) force+
qed (simp_all add: read_back_atoms read_back_unary read_back_null_tests read_back_between read_back_in_list read_back_array)

text \<open>
  C6: the parser inverts the printer: every expression built from literals, columns, operators, tests, lists, arrays and
  calls, printed with only the brackets that precedence and grouping to the left require, is read back as it was, and
  the tokens after it are left over. The fuel that is needed is the number of tokens.
\<close>

theorem expression_roundtrip:
  assumes "printable e" "follows 0 rest" "length (print_expr e) < n"
  shows "parse_expr U n (print_expr e @ rest) = Some (Inr (e, rest))"
  using sub_expr_reads [OF printable_read_back [OF assms(1)] _ assms(2)] assms(3)
  by (simp add: parse_expr_def print_expr_def)

theorem expression_roundtrip_witness:
  "let e = BinaryOp (BinaryOp (Identifier ''a'') Minus (BinaryOp (Lit (LNumber ''1'')) Minus (Identifier ''b''))) LessThan
             (UnaryOp UMinus (BinaryOp (Identifier ''c'') Multiply (Lit (LNumber ''2'')))) :: unit SelectStatement Expr
   in print_expr e = [TIdent ''a'', TMinus, TLParen, TNumber ''1'', TMinus, TIdent ''b'', TRParen, TLt, TMinus, TLParen,
        TIdent ''c'', TStar, TNumber ''2'', TRParen] \<and>
      parse_expr id 15 (print_expr e @ [TEof]) = Some (Inr (e, [TEof]))"
  unfolding Let_def
proof (rule conjI)
  let ?e = "BinaryOp (BinaryOp (Identifier ''a'') Minus (BinaryOp (Lit (LNumber ''1'')) Minus (Identifier ''b''))) LessThan
             (UnaryOp UMinus (BinaryOp (Identifier ''c'') Multiply (Lit (LNumber ''2'')))) :: unit SelectStatement Expr"
  show tokens: "print_expr ?e = [TIdent ''a'', TMinus, TLParen, TNumber ''1'', TMinus, TIdent ''b'', TRParen, TLt, TMinus,
      TLParen, TIdent ''c'', TStar, TNumber ''2'', TRParen]"
    by (simp add: print_expr_def wrap_def)
  show "parse_expr id 15 (print_expr ?e @ [TEof]) = Some (Inr (?e, [TEof]))"
    by (rule expression_roundtrip) (simp_all add: tokens parsed_operator_def follows_Cons)
qed

section \<open>Queries as text\<close>

definition print_query :: "'t SelectStatement Expr list \<Rightarrow> string \<Rightarrow> 't SelectStatement Expr \<Rightarrow> tokens" where
  "print_query es tbl c =
     TKeyword ''SELECT'' # commas (map print_expr es) @
     [TKeyword ''FROM'', TIdent tbl, TKeyword ''WHERE''] @ print_expr c"

definition simple_query :: "'t SelectStatement Expr list \<Rightarrow> string \<Rightarrow> 't SelectStatement Expr \<Rightarrow> 't SelectStatement" where
  "simple_query es tbl c =
     SelectStatement None AllRows (map SelExpr es)
       (Some (FromClause [Join (TableName (single_name tbl)) None Inner NoConstraint])) (Some c) [] None [] None None [] []"

lemma print_expr_raw: "print_expr = raw"
  by (simp add: fun_eq_iff print_expr_def)

lemma upper_clauses:
  "to_ascii_uppercase ''SELECT'' = ''SELECT''" "to_ascii_uppercase ''FROM'' = ''FROM''"
  "to_ascii_uppercase ''WHERE'' = ''WHERE''"
  by code_simp+

lemma select_list_reads:
  assumes "\<forall>x \<in> set es. printable x" "es \<noteq> []" "length (commas (map raw es)) < n"
  shows "parse_select_list (parsers U n) (commas (map raw es) @ TKeyword ''FROM'' # ts) =
    Some (Inr (map SelExpr es, TKeyword ''FROM'' # ts))"
proof -
  let ?ends = "\<lambda>r. follows 0 r \<and> \<not> keyword ''AS'' (peek r) \<and> (\<forall>s. peek r \<noteq> TIdent s)"
  have "select_item (parsers U n) (raw x @ r) = Some (Inr (SelExpr x, r))" if x: "x \<in> set es" and r: "?ends r" for x r
  proof -
    have "length (raw x) < n" using commas_length [of "raw x" "map raw es"] x assms(3) by simp
    then have "sub_expr (parsers U n) (raw x @ r) = Some (Inr (x, r))"
      using sub_expr_reads printable_read_back assms(1) x r by blast
    moreover have "peek (raw x @ r) \<noteq> TStar"
      using opener_not(7) [OF peek_opened [OF opened_raw]] assms(1) x by blast
    moreover have "(case peek r of TIdent s \<Rightarrow> skip (return (ExprAs x s)) | _ \<Rightarrow> return (SelExpr x)) r = Some (Inr (SelExpr x, r))"
      using r by (cases "peek r") (simp_all add: return_def)
    ultimately show ?thesis using r by (simp add: select_item_def parser_defs)
  qed
  then show ?thesis
    unfolding parse_select_list_def using assms
    by (intro comma_list_reads [where ends = ?ends]) (auto simp: comma_level follows_Cons peek_def keyword_def upper_clauses)
qed

lemma select_reads:
  assumes "\<forall>x \<in> set es. printable x" "es \<noteq> []" "printable c" "length (print_query es tbl c) \<le> n"
  shows "parse_select (parsers U n) (print_query es tbl c @ [TEof]) = Some (Inr (simple_query es tbl c, [TEof]))"
proof -
  have fuel: "length (commas (map raw es)) < n" "length (raw c) < n"
    using assms(4) by (auto simp: print_query_def print_expr_raw)
  have "opened 0 (commas (map raw es) @ ts)" for ts
    using assms(1,2) by (intro commas_opened) (auto simp: hd_map opened_mono [OF opened_raw])
  then have dist: "distinct_clause R (commas (map raw es) @ ts) = Some (Inr (AllRows, commas (map raw es) @ ts))" for R ts
    using opener_not(6) [OF peek_opened [of 0 _ "[]"]] by (simp add: distinct_clause_def parser_defs)
  have from_clause: "parse_from_clause R (TIdent tbl # TKeyword ''WHERE'' # ts) =
    Some (Inr (FromClause [Join (TableName (single_name tbl)) None Inner NoConstraint], TKeyword ''WHERE'' # ts))" for R ts
    by (simp add: parse_from_clause_def parse_table_ref_def table_alias_def alias_ident_def join_word_def parser_defs
        peek_def one_name keyword_def upper_clauses loop_stops)
  have cond: "sub_expr (parsers U n) (raw c @ [TEof]) = Some (Inr (c, [TEof]))"
    using sub_expr_reads [OF printable_read_back [OF assms(3)] fuel(2)] by (simp add: follows_Cons)
  have final: "locking_clauses [TEof] = Some (Inr ([], [TEof]))" "set_clauses_of R [TEof] = Some (Inr ([], [TEof]))" for R
    unfolding locking_clauses_def set_clauses_of_def by (intro loop_stops; simp add: parser_defs peek_def)+
  show ?thesis
    using select_list_reads [OF assms(1,2) fuel(1), of U]
    by (simp add: print_query_def simple_query_def print_expr_raw parse_select_def expect_keyword_def optional_def
        by_list_def limit_clause_def parser_defs dist from_clause cond final peek_def [of "_ # _"] keyword_def [of _ "TKeyword _"]
        upper_clauses)
qed

lemma query_text_parses:
  assumes "\<forall>x \<in> set es. printable x" "es \<noteq> []" "printable c"
    and "list_all lexable (print_query es tbl c)" "length (print_query es tbl c) < n"
  shows "parse_sql U n (show_tokens (print_query es tbl c)) = Some (Inr (Select (simple_query es tbl c)))"
proof -
  obtain m where n: "n = Suc m" "length (print_query es tbl c) \<le> m" using assms(5) by (cases n) auto
  have tokens: "tokenize (show_tokens (print_query es tbl c)) = print_query es tbl c @ [TEof]"
    using tokenize_tokens [OF assms(4)] .
  have "peek (print_query es tbl c @ [TEof]) = TKeyword ''SELECT''" by (simp add: print_query_def peek_def)
  then show ?thesis
    using select_reads [OF assms(1-3) n(2), of U]
    by (simp add: parse_sql_def tokens n(1) statement_body_def keyword_statement_def on_peek_def upper_clauses next_to_def
        return_def)
qed

text \<open>
  C5: from text to tree: a query that selects expressions from a table under a condition, printed as text, is read back by
  the tokenizer and the parser together as it was.
\<close>

theorem query_text_roundtrip:
  assumes "\<forall>x \<in> set es. printable x" "es \<noteq> []" "printable c"
    and "list_all lexable (print_query es tbl c)" "length (print_query es tbl c) < n"
  shows "parse_sql U n (show_tokens (print_query es tbl c)) = Some (Inr (Select (simple_query es tbl c)))"
  using assms by (rule query_text_parses)

theorem query_text_roundtrip_witness:
  "let es = [Identifier ''a'', BinaryOp (Identifier ''b'') Multiply (Lit (LNumber ''2''))];
       c = BinaryOp (IsNotNull (Identifier ''a'')) And (BinaryOp (Identifier ''b'') LessThan (Lit (LString ''x y'')))
   in show_tokens (print_query es ''t'' c) =
        ''SELECT \"a\" , \"b\" * 2 FROM \"t\" WHERE \"a\" IS NOT NULL AND \"b\" < 'x y' '' \<and>
      parse_sql id 20 (show_tokens (print_query es ''t'' c)) = Some (Inr (Select (simple_query es ''t'' c)))"
  unfolding Let_def
proof (rule conjI)
  let ?es = "[Identifier ''a'', BinaryOp (Identifier ''b'') Multiply (Lit (LNumber ''2''))] :: Statement SelectStatement Expr list"
  let ?c = "BinaryOp (IsNotNull (Identifier ''a'')) And (BinaryOp (Identifier ''b'') LessThan (Lit (LString ''x y'')))"
  have tokens: "print_query ?es ''t'' ?c =
    [TKeyword ''SELECT'', TIdent ''a'', TComma, TIdent ''b'', TStar, TNumber ''2'', TKeyword ''FROM'', TIdent ''t'',
     TKeyword ''WHERE'', TIdent ''a'', TKeyword ''IS'', TKeyword ''NOT'', TKeyword ''NULL'', TKeyword ''AND'', TIdent ''b'', TLt,
     TString ''x y'']"
    by (simp add: print_query_def print_expr_raw wrap_def)
  show "show_tokens (print_query ?es ''t'' ?c) =
      ''SELECT \"a\" , \"b\" * 2 FROM \"t\" WHERE \"a\" IS NOT NULL AND \"b\" < 'x y' ''"
    unfolding tokens by (simp add: show_tokens_def)
  have lex: "list_all lexable (print_query ?es ''t'' ?c)" unfolding tokens by code_simp
  have len: "length (print_query ?es ''t'' ?c) < 20" unfolding tokens by simp
  show "parse_sql id 20 (show_tokens (print_query ?es ''t'' ?c)) = Some (Inr (Select (simple_query ?es ''t'' ?c)))"
    by (rule query_text_roundtrip [OF _ _ _ lex len]) (simp_all add: parsed_operator_def)
qed

end
