(* ===== verification/Catalog.thy ===== *)
theory Catalog
  imports Buffer_Pool Eval
begin

text \<open>
  The catalog (\<open>catalog/mod.rs\<close>) and the statements of \<open>server/utils.rs\<close> that change it: creating and dropping tables,
  creating indexes. The catalog keeps a reference to the shared buffer cache once it is registered; the operations
  here act on the pair of the catalog and that cache. Where the code lists the relations, the order of the hash map
  is the argument \<open>ks\<close>.
\<close>

section \<open>The catalog\<close>

record IndexInfo =
  idx_index_oid :: oid
  idx_rel_oid :: oid
  idx_column_name :: string
  idx_root_page :: pid

record Catalog =
  relations :: "oid \<rightharpoonup> Relation"
  indexes :: "IndexInfo list"
  next_oid :: oid
  has_cache :: bool

definition new_catalog :: Catalog where
  "new_catalog = \<lparr>relations = Map.empty, indexes = [], next_oid = 10000, has_cache = False\<rparr>"

definition list_relations :: "oid list \<Rightarrow> Catalog \<Rightarrow> Relation list" where
  "list_relations ks cat = List.map_filter (relations cat) ks"

definition register_cache :: "oid list \<Rightarrow> Catalog \<times> 's SharedBufferCache \<Rightarrow> Catalog \<times> 's SharedBufferCache" where
  "register_cache ks = (\<lambda>(cat, c). (cat\<lparr>has_cache := True\<rparr>, sync_from_catalog (list_relations ks cat) c))"

definition allocate_oid :: "Catalog \<Rightarrow> Catalog \<times> oid" where
  "allocate_oid cat = (cat\<lparr>next_oid := next_oid cat + 1\<rparr>, next_oid cat)"

text \<open>A relation without identifier gets a new one; \<open>insert\<close> on the hash map replaces what was there.\<close>

definition create_relation ::
    "Relation \<Rightarrow> Catalog \<times> 's SharedBufferCache \<Rightarrow> (Catalog \<times> 's SharedBufferCache) \<times> oid" where
  "create_relation rel0 = (\<lambda>(cat0, c).
     let (cat, rel) = (if relid rel0 = 0
           then (let (cat', oid) = allocate_oid cat0 in (cat', rel0\<lparr>relid := oid\<rparr>))
           else (cat0, rel0));
         cat' = cat\<lparr>relations := (relations cat)(relid rel \<mapsto> rel)\<rparr>
     in ((cat', if has_cache cat' then register_relation rel c else c), relid rel))"

definition get_relation :: "oid \<Rightarrow> Catalog \<Rightarrow> Relation option" where
  "get_relation oid cat = relations cat oid"

definition delete_relation :: "oid \<Rightarrow> Catalog \<times> 's SharedBufferCache \<Rightarrow> Catalog \<times> 's SharedBufferCache" where
  "delete_relation oid = (\<lambda>(cat, c).
     let cat' = cat\<lparr>relations := (relations cat)(oid := None)\<rparr>
     in (cat', if has_cache cat' then unregister_relation oid c else c))"

definition get_relation_by_name :: "oid list \<Rightarrow> string \<Rightarrow> Catalog \<Rightarrow> Relation option" where
  "get_relation_by_name ks nm cat = find (\<lambda>r. relation_name r = nm) (list_relations ks cat)"

definition register_index :: "IndexInfo \<Rightarrow> Catalog \<Rightarrow> Catalog" where
  "register_index info cat = cat\<lparr>indexes := indexes cat @ [info]\<rparr>"

definition create_index :: "oid \<Rightarrow> string \<Rightarrow> Catalog \<Rightarrow> Catalog" where
  "create_index rel column cat =
     (let (cat', index_oid) = allocate_oid cat
      in register_index \<lparr>idx_index_oid = index_oid, idx_rel_oid = rel, idx_column_name = column, idx_root_page = 0\<rparr> cat')"

definition find_index :: "oid \<Rightarrow> string \<Rightarrow> Catalog \<Rightarrow> IndexInfo option" where
  "find_index rel column cat = find (\<lambda>i. idx_rel_oid i = rel \<and> idx_column_name i = column) (indexes cat)"

definition system_relation :: "oid \<Rightarrow> string \<Rightarrow> string list \<Rightarrow> Relation" where
  "system_relation oid nm cols = (empty_relation nm (map (\<lambda>c. (c, 0)) cols))\<lparr>relid := oid\<rparr>"

definition system_relations :: "Relation list" where
  "system_relations =
     [system_relation 1259 ''pg_class'' [''oid'', ''relname'', ''relpages''],
      system_relation 1249 ''pg_attribute'' [''attrelid'', ''attname'', ''atttypid'', ''attnum'', ''attlen''],
      system_relation 1247 ''pg_type'' [''oid'', ''typname'', ''typtype''],
      system_relation 1250 ''pg_index'' [''indexrelid'', ''indrelid'', ''indnatts'']]"

definition bootstrap :: "Catalog \<times> 's SharedBufferCache \<Rightarrow> Catalog \<times> 's SharedBufferCache" where
  "bootstrap cc = fold (\<lambda>r cc. fst (create_relation r cc)) system_relations cc"

section \<open>Tables and indexes as statements\<close>

definition execute_create_table ::
    "string \<Rightarrow> (string \<times> oid) list \<Rightarrow> Catalog \<times> 's SharedBufferCache \<Rightarrow> Catalog \<times> 's SharedBufferCache" where
  "execute_create_table nm cols cc = fst (create_relation (empty_relation nm cols) cc)"

definition missing_relation :: "string \<Rightarrow> 'a res" where
  "missing_relation nm = Err (''relation \"'' @ nm @ ''\" does not exist'')"

definition execute_drop_table ::
    "oid list \<Rightarrow> string \<Rightarrow> Catalog \<times> 's SharedBufferCache \<Rightarrow> (Catalog \<times> 's SharedBufferCache) res" where
  "execute_drop_table ks nm cc =
     (case find (\<lambda>r. relation_name r = nm) (list_relations ks (fst cc)) of
        Some rel \<Rightarrow> Ok (delete_relation (relid rel) cc)
      | None \<Rightarrow> missing_relation nm)"

text \<open>The root page is a number from the counter of object identifiers; no page is written.\<close>

definition execute_create_index :: "'f std \<Rightarrow> oid list \<Rightarrow> string \<Rightarrow> string \<Rightarrow> Catalog \<Rightarrow> Catalog res" where
  "execute_create_index S ks table column cat =
     (case find (\<lambda>r. relation_name r = table) (list_relations ks cat) of
        None \<Rightarrow> missing_relation table
      | Some rel \<Rightarrow>
          let (cat', root) = allocate_oid cat; (cat'', index_oid) = allocate_oid cat'
          in Ok (register_index \<lparr>idx_index_oid = index_oid, idx_rel_oid = relid rel,
                  idx_column_name = to_uppercase S column, idx_root_page = root\<rparr> cat''))"

section \<open>The catalog and the cache agree\<close>

text \<open>
  The life of the catalog after the start of the server: tables are created and dropped, indexes are created, and row
  operations change in the cache the pages of a relation, but not its identifier, name or columns. Each step uses at
  most two object identifiers.
\<close>

definition shape :: "Relation \<Rightarrow> oid \<times> string \<times> TupleDesc" where
  "shape r = (relid r, relation_name r, tuple_desc r)"

definition cached_shape :: "'s SharedBufferCache \<Rightarrow> oid \<Rightarrow> (oid \<times> string \<times> TupleDesc) option" where
  "cached_shape c oid = map_option (\<lambda>rs. shape (rs_relation rs)) (get_relation_state oid c)"

inductive catalog_step :: "'f std \<Rightarrow> Catalog \<times> 's SharedBufferCache \<Rightarrow> Catalog \<times> 's SharedBufferCache \<Rightarrow> bool"
  for S :: "'f std" where
  create_table: "catalog_step S cc (execute_create_table nm cols cc)"
| drop_table: "enumerates ks (relations (fst cc)) \<Longrightarrow> execute_drop_table ks nm cc = Ok cc' \<Longrightarrow> catalog_step S cc cc'"
| create_index: "enumerates ks (relations cat) \<Longrightarrow> execute_create_index S ks table column cat = Ok cat' \<Longrightarrow>
     catalog_step S (cat, c) (cat', c)"
| change_rows: "\<forall>oid. cached_shape c' oid = cached_shape c oid \<Longrightarrow> catalog_step S (cat, c) (cat, c')"

inductive catalog_runs :: "'f std \<Rightarrow> nat \<Rightarrow> Catalog \<times> 's SharedBufferCache \<Rightarrow> bool" for S :: "'f std" where
  start: "catalog_runs S 0 (bootstrap (register_cache [] (new_catalog, new_cache s)))"
| step: "catalog_runs S n cc \<Longrightarrow> catalog_step S cc cc' \<Longrightarrow> catalog_runs S (Suc n) cc'"

definition catalog_inv :: "nat \<Rightarrow> Catalog \<times> 's SharedBufferCache \<Rightarrow> bool" where
  "catalog_inv n cc \<longleftrightarrow>
     has_cache (fst cc) \<and>
     (\<forall>oid. cached_shape (snd cc) oid = map_option shape (relations (fst cc) oid)) \<and>
     (\<forall>oid r. relations (fst cc) oid = Some r \<longrightarrow> relid r = oid) \<and>
     10000 \<le> unat (next_oid (fst cc)) \<and> unat (next_oid (fst cc)) \<le> 10000 + 2 * n \<and>
     (\<forall>oid. unat (next_oid (fst cc)) \<le> unat oid \<longrightarrow> relations (fst cc) oid = None)"

lemma shape_register:
  "cached_shape (register_relation r c) oid =
     (if oid = relid r \<and> cached_shape c oid = None then Some (shape r) else cached_shape c oid)"
  by (auto simp: cached_shape_def get_relation_state_def register_relation_def split: option.split)

lemma shape_unregister: "cached_shape (unregister_relation k c) oid = (if oid = k then None else cached_shape c oid)"
  by (simp add: cached_shape_def get_relation_state_def unregister_relation_def)

lemma catalog_invI:
  assumes "has_cache cat" "\<And>oid. cached_shape c oid = map_option shape (relations cat oid)"
    and "\<And>oid r. relations cat oid = Some r \<Longrightarrow> relid r = oid"
    and "10000 \<le> unat (next_oid cat)" "unat (next_oid cat) \<le> 10000 + 2 * n"
    and "\<And>oid. unat (next_oid cat) \<le> unat oid \<Longrightarrow> relations cat oid = None"
  shows "catalog_inv n (cat, c)"
  using assms by (simp add: catalog_inv_def)

lemma catalog_inv_start: "catalog_inv 0 (bootstrap (register_cache [] (new_catalog, new_cache s)))"
proof -
  let ?cc = "bootstrap (register_cache [] (new_catalog, new_cache s))"
  obtain cat c where cc: "?cc = (cat, c)" by (cases ?cc)
  have cat: "relations cat = [1259 \<mapsto> system_relations ! 0, 1249 \<mapsto> system_relations ! 1, 1247 \<mapsto> system_relations ! 2,
      1250 \<mapsto> system_relations ! 3]" "has_cache cat" "next_oid cat = 10000"
    and c: "c = fold register_relation system_relations (new_cache s)"
    using cc by (auto simp: bootstrap_def register_cache_def new_catalog_def list_relations_def map_filter_def
        sync_from_catalog_def system_relations_def create_relation_def system_relation_def)
  show ?thesis
    unfolding cc
  proof (rule catalog_invI)
    show "cached_shape c oid = map_option shape (relations cat oid)" for oid
      unfolding c cat by (simp add: system_relations_def system_relation_def shape_register)
        (simp add: cached_shape_def get_relation_state_def new_cache_def)
  qed (auto simp: cat system_relations_def system_relation_def split: if_splits)
qed

lemma create_relation_inv:
  assumes "catalog_inv n (cat, c)" "relid r = 0" "10000 + 2 * Suc n < 2 ^ 32"
  shows "catalog_inv (Suc n) (fst (create_relation r (cat, c)))"
proof -
  let ?k = "next_oid cat"
  have old: "has_cache cat" "\<And>oid. cached_shape c oid = map_option shape (relations cat oid)"
    "\<And>oid r. relations cat oid = Some r \<Longrightarrow> relid r = oid"
    "10000 \<le> unat ?k" "unat ?k \<le> 10000 + 2 * n" "\<And>oid. unat ?k \<le> unat oid \<Longrightarrow> relations cat oid = None"
    using assms(1) by (auto simp: catalog_inv_def)
  have next_oid: "unat (?k + 1) = Suc (unat ?k)" using old(5) assms(3) by (simp add: unat_word_ariths)
  have new: "fst (create_relation r (cat, c)) =
    (cat\<lparr>next_oid := ?k + 1, relations := (relations cat)(?k \<mapsto> r\<lparr>relid := ?k\<rparr>)\<rparr>, register_relation (r\<lparr>relid := ?k\<rparr>) c)"
    using assms(2) old(1) by (simp add: create_relation_def allocate_oid_def)
  show ?thesis
    unfolding new using old next_oid by (intro catalog_invI) (auto simp: shape_register split: if_splits)
qed

lemma find_relation:
  assumes "find P (list_relations ks cat) = Some r" "\<And>oid r. relations cat oid = Some r \<Longrightarrow> relid r = oid"
  shows "P r" "relations cat (relid r) = Some r"
proof -
  have "r \<in> set (list_relations ks cat)" "P r" using assms(1) by (auto simp: find_Some_iff)
  then show "P r" "relations cat (relid r) = Some r"
    using assms(2) by (auto simp: list_relations_def map_filter_def)
qed

lemma catalog_step_inv:
  assumes "catalog_step S cc cc'" "catalog_inv n cc" "10000 + 2 * Suc n < 2 ^ 32"
  shows "catalog_inv (Suc n) cc'"
  using assms
proof (induction rule: catalog_step.induct)
  case (create_table cc nm cols)
  then show ?case using create_relation_inv [of n "fst cc" "snd cc" "empty_relation nm cols"]
    by (simp add: execute_create_table_def empty_relation_def)
next
  case (drop_table ks cc nm cc')
  then have "\<exists>oid. cc' = delete_relation oid cc"
    by (auto simp: execute_drop_table_def missing_relation_def split: option.splits)
  then show ?case using drop_table(3)
    by (cases cc) (auto simp: delete_relation_def catalog_inv_def shape_unregister split: if_splits)
next
  case (create_index ks cat table column cat' c)
  then have cat': "relations cat' = relations cat" "has_cache cat' = has_cache cat" "next_oid cat' = next_oid cat + 1 + 1"
    by (auto simp: execute_create_index_def missing_relation_def allocate_oid_def register_index_def split: option.splits)
  have bound: "unat (next_oid cat) \<le> 10000 + 2 * n" using create_index(3) by (simp add: catalog_inv_def)
  then have "unat (next_oid cat + 1 + 1) = unat (next_oid cat) + 2"
    using create_index(4) by (simp add: unat_word_ariths)
  then show ?case using create_index(3) bound by (auto simp: catalog_inv_def cat')
next
  case (change_rows c' c cat)
  then show ?case by (auto simp: catalog_inv_def)
qed

lemma catalog_runs_inv: "catalog_runs S n cc \<Longrightarrow> 10000 + 2 * n < 2 ^ 32 \<Longrightarrow> catalog_inv n cc"
proof (induction rule: catalog_runs.induct)
  case (start s)
  show ?case by (rule catalog_inv_start)
next
  case (step n cc cc')
  then show ?case by (intro catalog_step_inv) auto
qed

text \<open>
  C32: in every state the server can reach within the range of object identifiers the shared cache knows exactly the
  relations of the catalog, with the same identifier, name and columns, each under its own identifier, and the next
  identifier is free.
\<close>

theorem catalog_consistent:
  assumes "catalog_runs S n (cat, c)" "10000 + 2 * n < 2 ^ 32"
  shows "(\<forall>oid. cached_shape c oid = map_option shape (get_relation oid cat)) \<and>
         (\<forall>oid r. get_relation oid cat = Some r \<longrightarrow> relid r = oid) \<and> get_relation (next_oid cat) cat = None"
  using catalog_runs_inv [OF assms] by (simp add: catalog_inv_def get_relation_def)

section \<open>Creating and dropping a table\<close>

lemma list_relations_set: "enumerates ks (relations cat) \<Longrightarrow> set (list_relations ks cat) = ran (relations cat)"
  by (force simp: list_relations_def map_filter_def enumerates_def ran_def)

lemma find_unique: "\<exists>!x. x \<in> set xs \<and> P x \<Longrightarrow> x \<in> set xs \<Longrightarrow> P x \<Longrightarrow> find P xs = Some x"
  by (induction xs) auto

text \<open>
  A table whose name is new is found by its name after it was created, whatever the order of the hash map, with the
  columns it was created with, every other relation is as before, and dropping it restores the catalog.
\<close>

theorem create_drop_table:
  assumes "catalog_runs S n (cat, c)" "10000 + 2 * Suc n < 2 ^ 32" "\<forall>r \<in> ran (relations cat). relation_name r \<noteq> nm"
    and new: "execute_create_table nm cols (cat, c) = (cat', c')" and "enumerates ks (relations cat')"
  shows "\<exists>r. get_relation_by_name ks nm cat' = Some r \<and> tuple_desc r = tuple_desc (empty_relation nm cols) \<and>
           cached_shape c' (relid r) = Some (shape r) \<and>
           (\<forall>oid. oid \<noteq> relid r \<longrightarrow> relations cat' oid = relations cat oid \<and> cached_shape c' oid = cached_shape c oid) \<and>
           (\<exists>cat'' c''. execute_drop_table ks nm (cat', c') = Ok (cat'', c'') \<and> relations cat'' = relations cat)"
proof -
  have inv: "catalog_inv n (cat, c)" using catalog_runs_inv [OF assms(1)] assms(2) by simp
  let ?r = "(empty_relation nm cols)\<lparr>relid := next_oid cat\<rparr>"
  have cat': "relations cat' = (relations cat)(next_oid cat \<mapsto> ?r)" "has_cache cat'" "c' = register_relation ?r c"
    using new inv by (auto simp: execute_create_table_def create_relation_def allocate_oid_def catalog_inv_def empty_relation_def)
  have fresh: "relations cat (next_oid cat) = None" "cached_shape c (next_oid cat) = None"
    using inv by (auto simp: catalog_inv_def)
  have nm: "relation_name ?r = nm" by (simp add: empty_relation_def)
  have "set (list_relations ks cat') = insert ?r (ran (relations cat))"
    using list_relations_set [OF assms(5)] fresh by (simp add: cat')
  then have found: "find (\<lambda>r. relation_name r = nm) (list_relations ks cat') = Some ?r"
    using assms(3) nm by (intro find_unique) auto
  have "relations (fst (delete_relation (next_oid cat) (cat', c'))) = relations cat"
    using fresh by (auto simp: delete_relation_def cat' fun_eq_iff)
  then show ?thesis
    using found fresh by (auto simp: get_relation_by_name_def execute_drop_table_def cat' shape_register prod_eq_iff
        intro!: exI [of _ ?r])
qed

text \<open>
  A name that is taken is not refused: both relations stay in the catalog, and which one a statement works on depends
  on the order of the hash map.
\<close>

theorem duplicate_table_name:
  "let cc = execute_create_table ''t'' [(''b'', 25)] (execute_create_table ''t'' [(''a'', 23)] (new_catalog, c))
   in map_option relid (get_relation_by_name [10000, 10001] ''t'' (fst cc)) = Some 10000 \<and>
      map_option relid (get_relation_by_name [10001, 10000] ''t'' (fst cc)) = Some 10001"
  by (simp add: Let_def execute_create_table_def create_relation_def allocate_oid_def new_catalog_def empty_relation_def
      get_relation_by_name_def list_relations_def map_filter_def)

text \<open>A server that has created one table.\<close>

definition one_table :: "Catalog \<times> unit SharedBufferCache" where
  "one_table = execute_create_table ''t'' [(''a'', 23)] (bootstrap (register_cache [] (new_catalog, new_cache ())))"

lemma one_table_runs: "catalog_runs int_std 1 one_table"
  unfolding one_table_def One_nat_def by (rule catalog_runs.step [OF catalog_runs.start catalog_step.create_table])

theorem catalog_consistent_witness:
  "catalog_runs int_std 1 (fst one_table, snd one_table) \<and>
   cached_shape (snd one_table) 10000 = Some (10000, ''t'', \<lparr>td_fields = [\<lparr>att_name = ''a'', att_type_oid = 23, att_attnum = 0, att_typmod = - 1\<rparr>]\<rparr>)"
proof -
  have runs: "catalog_runs int_std 1 (fst one_table, snd one_table)" using one_table_runs by simp
  have "get_relation 10000 (fst one_table) = Some ((empty_relation ''t'' [(''a'', 23)])\<lparr>relid := 10000\<rparr>)"
    by (simp add: one_table_def execute_create_table_def create_relation_def allocate_oid_def bootstrap_def register_cache_def
        new_catalog_def empty_relation_def system_relations_def system_relation_def get_relation_def list_relations_def map_filter_def)
  then show ?thesis using catalog_consistent [OF runs] runs by (simp add: shape_def empty_relation_def)
qed

theorem create_drop_table_witness:
  "\<exists>r. get_relation_by_name [10000, 10001, 1247, 1249, 1250, 1259] ''u'' (fst (execute_create_table ''u'' [(''b'', 25)] one_table)) = Some r"
proof -
  have runs: "catalog_runs int_std 1 (fst one_table, snd one_table)" using one_table_runs by simp
  let ?cc = "execute_create_table ''u'' [(''b'', 25)] (fst one_table, snd one_table)"
  have "dom (relations (fst ?cc)) = {10000, 10001, 1247, 1249, 1250, 1259}"
    "\<forall>r \<in> ran (relations (fst one_table)). relation_name r \<noteq> ''u''"
    by (auto simp: one_table_def execute_create_table_def create_relation_def allocate_oid_def bootstrap_def register_cache_def
        new_catalog_def empty_relation_def system_relations_def system_relation_def list_relations_def map_filter_def ran_def
        split: if_splits)
  then show ?thesis
    using create_drop_table [OF runs, of "''u''" "[(''b'', 25)]" "fst ?cc" "snd ?cc" "[10000, 10001, 1247, 1249, 1250, 1259]"]
    by (simp add: enumerates_def) blast
qed

end
