(* ===== verification/Index_Scan.thy ===== *)
theory Index_Scan
  imports BTree
begin

text \<open>
  The executor's side of B-tree indexes (\<open>executor/btree.rs\<close>): inserting an entry, scanning for a key, scans that read
  only the index, and the encoding of index keys. The loop of \<open>decode_index_key\<close> is that of \<open>decode_composite_key\<close>.
\<close>

record IndexEntry =
  ie_root_page :: pid
  ie_key :: bytes
  ie_heap_page :: u32
  ie_heap_offset :: u16

definition index_insert ::
    "(bytes list \<Rightarrow> bytes \<Rightarrow> nat + nat) \<Rightarrow> 's StorageTrait \<Rightarrow> IndexEntry \<Rightarrow> nat \<Rightarrow> 's \<Rightarrow> 's res" where
  "index_insert bs st op psz s =
     and_then (btree_insert bs st (ie_root_page op)
         \<lparr>it_key = ie_key op, it_heap_pointer = (ie_heap_page op, ie_heap_offset op), it_heap_oid = 0\<rparr> psz s)
       (\<lambda>(s', _). Ok s')"

definition index_scan ::
    "nat \<Rightarrow> 's StorageTrait \<Rightarrow> 's \<Rightarrow> bytes \<Rightarrow> pid \<Rightarrow> (bytes \<times> pid \<times> u16) list res option" where
  "index_scan fuel st s scan_from root =
     map_option (\<lambda>r. and_then r (\<lambda>ts. Ok (map (\<lambda>t. (it_key t, fst (it_heap_pointer t), snd (it_heap_pointer t))) ts)))
       (btree_search fuel st s root scan_from)"

definition can_satisfy_from_index :: "BTreeIndex \<Rightarrow> string list \<Rightarrow> bool" where
  "can_satisfy_from_index idx cols = list_all (\<lambda>c. c \<in> set (map col_name (columns idx))) cols"

fun decode_keys :: "IndexTuple list \<Rightarrow> str list list res" where
  "decode_keys [] = Ok []"
| "decode_keys (t # ts) = and_then (decode_composite_key (it_key t)) (\<lambda>v. and_then (decode_keys ts) (\<lambda>vs. Ok (v # vs)))"

definition index_only_scan ::
    "nat \<Rightarrow> 's StorageTrait \<Rightarrow> 's \<Rightarrow> bytes \<Rightarrow> pid \<Rightarrow> BTreeIndex \<Rightarrow> string list \<Rightarrow> str list list res option" where
  "index_only_scan fuel st s scan_from root idx cols =
     (if \<not> can_satisfy_from_index idx cols then Some (Err ''Cannot satisfy query from index only'')
      else map_option (\<lambda>r. and_then r decode_keys) (btree_search fuel st s root scan_from))"

definition encode_index_key :: "str list \<Rightarrow> IndexColumn list \<Rightarrow> bytes" where
  "encode_index_key vals cols =
     concat (map (\<lambda>(i, v). encode_column (if i < length cols then Some (cols ! i) else None) v) (zip [0..<length vals] vals))"

definition decode_index_key :: "bytes \<Rightarrow> str list res" where
  "decode_index_key key = decode_key key"

text \<open>The keys the executor encodes are those of the index, so an index-only scan decodes what was inserted.\<close>

lemma encode_index_key_composite: "encode_index_key vals (columns idx) = encode_composite_key idx vals"
  by (simp add: encode_index_key_def encode_composite_key_def)

end
