(* ===== verification/Select.thy ===== *)
theory Select
  imports Catalog Heap_Ops Index_Scan Group_By Window
begin

text \<open>
  The pipeline of a query (\<open>executor/select/mod.rs\<close>, \<open>executor/select/context.rs\<close>): the tables of \<open>FROM\<close> are read from the
  heap or through an index and joined, the operators of \<open>Select_Ops\<close>, \<open>Group_By\<close> and \<open>Window\<close> are applied in the order
  of the code, and the set operations run further queries.

  The search in an index follows page numbers and may not end, so a computation returns \<open>None\<close> when it does not
  return; the fuel of the search is a field of the environment.
\<close>

section \<open>Computations on the database\<close>

type_synonym ('s, 'a) run = "'s \<Rightarrow> ('s \<times> 'a res) option"

definition run_ret :: "'a \<Rightarrow> ('s, 'a) run" where
  "run_ret x = (\<lambda>s. Some (s, Ok x))"

definition run_fail :: "string \<Rightarrow> ('s, 'a) run" where
  "run_fail m = (\<lambda>s. Some (s, Err m))"

definition run_act :: "('s, 'a) act \<Rightarrow> ('s, 'a) run" where
  "run_act m = (\<lambda>s. Some (m s))"

definition run_then :: "('s, 'a) run \<Rightarrow> ('a \<Rightarrow> ('s, 'b) run) \<Rightarrow> ('s, 'b) run" where
  "run_then m f =
     (\<lambda>s. case m s of None \<Rightarrow> None | Some (s', Inl e) \<Rightarrow> Some (s', Inl e) | Some (s', Inr x) \<Rightarrow> f x s')"

lemma run_simps [simp]:
  "run_then (run_ret x) f = f x"
  "run_then (run_fail m) f = run_fail m"
  "run_ret x s = Some (s, Ok x)"
  by (simp_all add: fun_eq_iff run_then_def run_ret_def run_fail_def)

section \<open>The context of a query\<close>

text \<open>
  The environment: the build with or without overflow checks, the functions of the standard library, the storage, the
  serialiser, the catalog with the order of its hash map, the order of the groups, the fuel of an index search and the
  \<open>Debug\<close> form of literals and expressions.
\<close>

record ('s, 'f) exec_env =
  env_oc :: bool
  env_std :: "'f std"
  env_storage :: "'s StorageTrait"
  env_bincode :: bincode
  env_catalog :: Catalog
  env_oids :: "oid list"
  env_groups :: "(string list \<rightharpoonup> row list) \<Rightarrow> string list list"
  env_fuel :: nat
  env_debug :: "Literal \<Rightarrow> string"

record ExecContext =
  ctx_col_names :: "string list"
  ctx_tuple_desc :: "TupleDesc option"
  ctx_snapshot :: "Snapshot option"

definition new_context :: "Snapshot option \<Rightarrow> ExecContext" where
  "new_context snap = \<lparr>ctx_col_names = [], ctx_tuple_desc = None, ctx_snapshot = snap\<rparr>"

text \<open>The strings of the heap are lists of bytes, those of the query layers lists of characters.\<close>

definition text_of :: "str \<Rightarrow> string" where
  "text_of = map (\<lambda>b. char_of (unat b))"

definition bytes_of_text :: "string \<Rightarrow> str" where
  "bytes_of_text = map (\<lambda>c. word_of_nat (of_char c))"

definition text_rows :: "(ItemPointerData \<times> str list) list \<Rightarrow> trow list" where
  "text_rows = map (\<lambda>(tid, vals). (tid, map text_of vals))"

section \<open>The index lookup\<close>

definition literal_to_string :: "(Literal \<Rightarrow> string) \<Rightarrow> Literal \<Rightarrow> string" where
  "literal_to_string debug lit =
     (case lit of LNumber n \<Rightarrow> n | LString s \<Rightarrow> s | LBool b \<Rightarrow> (if b then ''true'' else ''false'') | LNull \<Rightarrow> ''NULL''
      | _ \<Rightarrow> debug lit)"

fun extract_equality :: "(Literal \<Rightarrow> string) \<Rightarrow> 's Expr \<Rightarrow> (string \<times> string) option" where
  "extract_equality debug (BinaryOp l op r) =
     (if op = Equals then
        (case (l, r) of
           (Identifier col, Lit lit) \<Rightarrow> Some (col, literal_to_string debug lit)
         | (Lit lit, Identifier col) \<Rightarrow> Some (col, literal_to_string debug lit)
         | _ \<Rightarrow> None)
      else if op = And then
        (case extract_equality debug l of Some x \<Rightarrow> Some x | None \<Rightarrow> extract_equality debug r)
      else None)"
| "extract_equality debug _ = None"

definition fetch_tuple_by_pointer ::
    "('s, 'f) exec_env \<Rightarrow> Snapshot option \<Rightarrow> oid \<Rightarrow> pid \<Rightarrow> u16 \<Rightarrow> ('s db, trow option) act" where
  "fetch_tuple_by_pointer env snap rel p offset =
     act_then (relation_state rel) (\<lambda>rs.
     act_then (\<lambda>db. case cache_fetch_page (env_oc env) (env_storage env) p (db_cache db) of
                      (c, r) \<Rightarrow> (db\<lparr>db_cache := c\<rparr>, r)) (\<lambda>page_data.
     act_then (lift_res (page_deserialize (env_oc env) page_data)) (\<lambda>heap_page.
     ret (if unat offset < length (tuples heap_page) then
            (case de_tuple (env_bincode env) (tuples heap_page ! unat offset) of
               Some tup \<Rightarrow>
                 if is_visible tup (case snap of Some sn \<Rightarrow> sn | None \<Rightarrow> default_snapshot)
                 then Some (\<lparr>ip_page_id = p, ip_offset = offset\<rparr>,
                        map text_of (decode_tuple_values tup (tuple_desc (rs_relation rs))))
                 else None
             | None \<Rightarrow> None)
          else None))))"

fun fetch_hits ::
    "('s, 'f) exec_env \<Rightarrow> Snapshot option \<Rightarrow> oid \<Rightarrow> (bytes \<times> pid \<times> u16) list \<Rightarrow> ('s db, trow list) act" where
  "fetch_hits env snap rel [] = ret []"
| "fetch_hits env snap rel ((_, p, offset) # hits) =
     act_then (fetch_tuple_by_pointer env snap rel p offset) (\<lambda>row.
     act_then (fetch_hits env snap rel hits) (\<lambda>rows. ret (case row of Some r \<Rightarrow> r # rows | None \<Rightarrow> rows)))"

definition index_scan_lookup ::
    "('s, 'f) exec_env \<Rightarrow> Snapshot option \<Rightarrow> oid \<Rightarrow> IndexInfo \<Rightarrow> string \<Rightarrow> string \<Rightarrow> ('s db, trow list) run" where
  "index_scan_lookup env snap rel idx col v =
     (let scan_key = encode_index_key [bytes_of_text v]
            [\<lparr>col_name = col, direction = BTree.SortDirection.Asc, nulls_first = False\<rparr>]
      in run_then (\<lambda>db. map_option (\<lambda>r. (db, r))
             (index_scan (env_fuel env) (env_storage env) (cache_storage (db_cache db)) scan_key (idx_root_page idx)))
           (\<lambda>hits. run_act (fetch_hits env snap rel hits)))"

text \<open>The index the condition can use: the first registered one on the column, if it has a root page.\<close>

definition usable_index :: "('s, 'f) exec_env \<Rightarrow> oid \<Rightarrow> 'q Expr option \<Rightarrow> (IndexInfo \<times> string \<times> string) option" where
  "usable_index env rel where_clause =
     (case where_clause of None \<Rightarrow> None
      | Some e \<Rightarrow>
          (case extract_equality (env_debug env) e of None \<Rightarrow> None
           | Some (col, v) \<Rightarrow>
               (case find_index rel (to_uppercase (env_std env) col) (env_catalog env) of None \<Rightarrow> None
                | Some idx \<Rightarrow> if idx_root_page idx \<noteq> 0 then Some (idx, col, v) else None)))"

section \<open>Tables\<close>

fun join_dots :: "string list \<Rightarrow> string" where
  "join_dots [] = []"
| "join_dots [x] = x"
| "join_dots (x # xs) = x @ ''.'' @ join_dots xs"

definition join_name :: "ObjectName \<Rightarrow> string" where
  "join_name nm = join_dots (parts nm)"

definition find_table :: "('s, 'f) exec_env \<Rightarrow> ObjectName \<Rightarrow> Relation option" where
  "find_table env nm =
     find (\<lambda>r. to_uppercase (env_std env) (relation_name r) = to_uppercase (env_std env) (join_name nm))
       (list_relations (env_oids env) (env_catalog env))"

definition scan_table ::
    "('s, 'f) exec_env \<Rightarrow> ExecContext \<Rightarrow> ObjectName \<Rightarrow> 'q Expr option \<Rightarrow> ('s db, ExecContext \<times> trow list) run" where
  "scan_table env ctx nm where_clause =
     (case find_table env nm of
        None \<Rightarrow> run_fail (''relation \"'' @ join_name nm @ ''\" does not exist'')
      | Some rel \<Rightarrow>
          let ctx' = ctx\<lparr>ctx_col_names := map att_name (td_fields (tuple_desc rel)), ctx_tuple_desc := Some (tuple_desc rel)\<rparr>
          in case usable_index env (relid rel) where_clause of
               Some (idx, col, v) \<Rightarrow>
                 run_then (index_scan_lookup env (ctx_snapshot ctx) (relid rel) idx col v) (\<lambda>rows. run_ret (ctx', rows))
             | None \<Rightarrow>
                 run_then (run_act (heap_scan_with_optional_snapshot (env_oc env) (env_storage env) (env_bincode env)
                     (relid rel) (ctx_snapshot ctx)))
                   (\<lambda>rows. run_ret (ctx', text_rows rows)))"

definition numbered_rows :: "row list \<Rightarrow> trow list" where
  "numbered_rows rows = map (\<lambda>(i, r). (\<lparr>ip_page_id = word_of_nat i, ip_offset = 0\<rparr>, r)) (zip [0..<length rows] rows)"

section \<open>The operators\<close>

definition literal_column :: "Literal \<Rightarrow> string" where
  "literal_column lit =
     (case lit of LNumber n \<Rightarrow> n | LString s \<Rightarrow> CHR 0x27 # s @ [CHR 0x27] | LBool b \<Rightarrow> (if b then ''true'' else ''false'')
      | LNull \<Rightarrow> ''NULL'' | _ \<Rightarrow> ''?'')"

definition item_columns :: "TupleDesc option \<Rightarrow> 'q Expr SelectItem \<Rightarrow> string list" where
  "item_columns td item =
     (let all = (case td of Some d \<Rightarrow> map att_name (td_fields d) | None \<Rightarrow> [])
      in case item of
           Star \<Rightarrow> all
         | TableStar _ \<Rightarrow> all
         | ExprAs _ a \<Rightarrow> [a]
         | SelExpr e \<Rightarrow>
             [case e of Identifier col \<Rightarrow> col
              | Function f \<Rightarrow> (if parts (fn_name f) = [] then [] else last (parts (fn_name f)))
              | Lit lit \<Rightarrow> literal_column lit
              | _ \<Rightarrow> ''expr''])"

definition resolve_columns :: "TupleDesc option \<Rightarrow> 'q Expr SelectItem list \<Rightarrow> string list" where
  "resolve_columns td items = concat (map (item_columns td) items)"

definition select_rows ::
    "('s, 'f) exec_env \<Rightarrow> ExecContext \<Rightarrow> 't SelectStatement \<Rightarrow> trow list \<Rightarrow> trow list" where
  "select_rows env ctx q base_rows =
     (let S = env_std env; td = ctx_tuple_desc ctx;
          filtered = (case sel_where q of Some e \<Rightarrow> apply_where S td base_rows e | None \<Rightarrow> base_rows);
          grouped = (if group_by q \<noteq> [] \<or> has_aggregates S (select_list q)
                     then apply_group_by S td (env_groups env (build_groups S td (group_by q) filtered))
                            filtered (group_by q) (select_list q)
                     else filtered);
          having_filtered = (case having q of Some e \<Rightarrow> apply_having S td grouped e | None \<Rightarrow> grouped);
          distinct_rows = (case sel_distinct q of
              Distinct \<Rightarrow> apply_distinct having_filtered
            | DistinctOn es \<Rightarrow> apply_distinct_on S td having_filtered es
            | AllRows \<Rightarrow> having_filtered);
          ordered = (if sel_order_by q \<noteq> [] then apply_order_by S td distinct_rows (sel_order_by q) else distinct_rows);
          offset_rows = (case sel_offset q of Some e \<Rightarrow> apply_offset S td ordered e | None \<Rightarrow> ordered)
      in case sel_limit q of Some l \<Rightarrow> apply_limit_offset S td offset_rows l | None \<Rightarrow> offset_rows)"

definition select_result ::
    "('s, 'f) exec_env \<Rightarrow> ExecContext \<Rightarrow> 't SelectStatement \<Rightarrow> trow list \<Rightarrow> SelectResult res" where
  "select_result env ctx q base_rows =
     and_then (apply_window_functions (env_oc env) (env_std env) (ctx_tuple_desc ctx)
         (map snd (select_rows env ctx q base_rows)) (select_list q))
       (\<lambda>rows. Ok \<lparr>columns = resolve_columns (ctx_tuple_desc ctx) (select_list q), result_rows = rows\<rparr>)"

definition run_res :: "'a res \<Rightarrow> ('s, 'a) run" where
  "run_res r = (\<lambda>s. Some (s, r))"

section \<open>The query\<close>

fun table_size :: "'t SelectStatement TableRef \<Rightarrow> nat" where
  "table_size (Subquery sq) = Suc (size sq)"
| "table_size _ = 0"

fun joins_size :: "'t SelectStatement Join list \<Rightarrow> nat" where
  "joins_size [] = 0"
| "joins_size (j # js) = Suc (table_size (join_table j)) + joins_size js"

fun sets_size :: "'t SelectStatement SetOperation list \<Rightarrow> nat" where
  "sets_size [] = 0"
| "sets_size (op # ops) = Suc (size (set_select op)) + sets_size ops"

lemma joins_size_le: "joins_size js \<le> size_list (size_Join size) js"
proof (induction js)
  case (Cons j js)
  have "Suc (table_size (join_table j)) \<le> size_Join size j"
    by (cases j; cases "join_table j") auto
  then show ?case using Cons by simp
qed simp

lemma sets_size_le: "sets_size ops \<le> size_list (size_SetOperation size) ops"
proof (induction ops)
  case (Cons op ops)
  then show ?case by (cases op) auto
qed simp

lemma from_smaller: "sel_from q = Some (FromClause js) \<Longrightarrow> joins_size js < size q"
  using joins_size_le [of js] by (cases q) auto

lemma sets_smaller: "sets_size (set_operations q) < size q"
  using sets_size_le [of "set_operations q"] by (cases q) auto

text \<open>
  The order of the code: the first table, the joined tables, the operators, the set operations. \<open>WITH\<close> is not looked at.
\<close>

function execute_select :: "('s, 'f) exec_env \<Rightarrow> Snapshot option \<Rightarrow> 't SelectStatement \<Rightarrow> ('s db, SelectResult) run"
  and resolve_table_ref :: "('s, 'f) exec_env \<Rightarrow> ExecContext \<Rightarrow> 't SelectStatement Expr option \<Rightarrow> 't SelectStatement TableRef \<Rightarrow>
    ('s db, ExecContext \<times> trow list) run"
  and execute_joins :: "('s, 'f) exec_env \<Rightarrow> ExecContext \<Rightarrow> trow list \<Rightarrow> 't SelectStatement Join list \<Rightarrow>
    ('s db, ExecContext \<times> trow list) run"
  and execute_sets :: "('s, 'f) exec_env \<Rightarrow> Snapshot option \<Rightarrow> SelectResult \<Rightarrow> 't SelectStatement SetOperation list \<Rightarrow>
    ('s db, SelectResult) run"
where
  "execute_select env snap q =
     run_then
       (case sel_from q of
          None \<Rightarrow> run_ret (new_context snap, execute_select_without_from (env_std env) (select_list q))
        | Some (FromClause js) \<Rightarrow>
            (case js of [] \<Rightarrow> run_ret (new_context snap, [])
             | j # js' \<Rightarrow>
                 run_then (resolve_table_ref env (new_context snap) (sel_where q) (join_table j))
                   (\<lambda>(ctx, rows). execute_joins env ctx rows js')))
       (\<lambda>(ctx, rows). run_then (run_res (select_result env ctx q rows))
          (\<lambda>result. execute_sets env snap result (set_operations q)))"
| "resolve_table_ref env ctx where_clause (TableName nm) = scan_table env ctx nm where_clause"
| "resolve_table_ref env ctx where_clause (Subquery sq) =
     run_then (execute_select env (ctx_snapshot ctx) sq)
       (\<lambda>result. run_ret (ctx\<lparr>ctx_col_names := columns result\<rparr>, numbered_rows (result_rows result)))"
| "resolve_table_ref env ctx where_clause (TableFunction f) = run_fail ''function calls in FROM not yet supported''"
| "execute_joins env ctx rows [] = run_ret (ctx, rows)"
| "execute_joins env ctx rows (j # js) =
     run_then (resolve_table_ref env ctx None (join_table j))
       (\<lambda>(ctx', right). execute_joins env ctx'
          (execute_join (env_std env) (ctx_col_names ctx') rows right j (ctx_tuple_desc ctx')) js)"
| "execute_sets env snap result [] = run_ret result"
| "execute_sets env snap result (op # ops) =
     run_then (execute_select env snap (set_select op))
       (\<lambda>right. execute_sets env snap (apply_set_operation result right (set_operator op)) ops)"
  by pat_completeness auto
termination
  by (relation "measure (case_sum (case_sum (\<lambda>(_, _, q). size q) (\<lambda>(_, _, _, t). table_size t))
        (case_sum (\<lambda>(_, _, _, js). joins_size js) (\<lambda>(_, _, _, ops). sets_size ops)))")
     (auto dest: from_smaller simp: sets_smaller)

declare execute_select.simps [simp del]

section \<open>A query on one table\<close>

definition table_query :: "'t SelectStatement Expr list \<Rightarrow> ObjectName \<Rightarrow> 't SelectStatement Expr \<Rightarrow> 't SelectStatement" where
  "table_query es nm c =
     SelectStatement None AllRows (map SelExpr es) (Some (FromClause [Join (TableName nm) None Inner NoConstraint])) (Some c)
       [] None [] None None [] []"

text \<open>Select lists without aggregates and window functions.\<close>

definition plain_list :: "'f std \<Rightarrow> 'q Expr list \<Rightarrow> bool" where
  "plain_list S es \<longleftrightarrow> \<not> has_aggregates S (map SelExpr es) \<and> list_all (\<lambda>e. window_call (SelExpr e) = None) es"

lemma window_items_none:
  "list_all (\<lambda>e. window_call (SelExpr e) = None) es \<Longrightarrow> window_items oc S td i (map SelExpr es) rows = Ok rows"
  by (induction es arbitrary: i) auto

lemma table_query_runs:
  assumes "plain_list (env_std env) es" "find_table env nm = Some rel"
  shows "execute_select env snap (table_query es nm c) =
    run_then (scan_table env (new_context snap) nm (Some c)) (\<lambda>(ctx, rows). run_ret
      \<lparr>columns = resolve_columns (ctx_tuple_desc ctx) (map SelExpr es),
       result_rows = map snd (apply_where (env_std env) (ctx_tuple_desc ctx) rows c)\<rparr>)"
proof -
  have result: "select_result env ctx (table_query es nm c) rows =
    Ok \<lparr>columns = resolve_columns (ctx_tuple_desc ctx) (map SelExpr es),
       result_rows = map snd (apply_where (env_std env) (ctx_tuple_desc ctx) rows c)\<rparr>" for ctx rows
    using assms(1) by (simp add: select_result_def select_rows_def table_query_def plain_list_def apply_window_functions_def
        window_items_none Let_def)
  have assoc: "run_then (run_then m (\<lambda>(ctx, rows). run_ret (ctx, rows))) f = run_then m f" for m f
    by (auto simp: fun_eq_iff run_then_def split: option.splits prod.splits sum.splits)
  show ?thesis
    by (simp add: execute_select.simps table_query_def [of es nm c] result [unfolded table_query_def] assoc run_res_def [symmetric])
       (simp add: table_query_def result [unfolded table_query_def] run_res_def run_ret_def run_then_def fun_eq_iff
         split: option.splits prod.splits sum.splits)
qed

lemma table_query_scans:
  assumes "plain_list (env_std env) es" "find_table env nm = Some rel" "usable_index env (relid rel) (Some c) = None"
    and "heap_scan_with_optional_snapshot (env_oc env) (env_storage env) (env_bincode env) (relid rel) snap db = (db', r)"
  shows "execute_select env snap (table_query es nm c) db =
    Some (db', and_then r (\<lambda>rows. Ok
      \<lparr>columns = resolve_columns (Some (tuple_desc rel)) (map SelExpr es),
       result_rows = map snd (filter (\<lambda>tr. evaluate_where (env_std env) c (snd tr) (Some (tuple_desc rel))) (text_rows rows))\<rparr>))"
  using assms
  by (cases r) (simp_all add: table_query_runs scan_table_def new_context_def run_then_def run_act_def run_ret_def apply_where_def)

text \<open>
  A query on one table that no index serves returns the visible rows of the table that satisfy the condition, in the
  order of the heap, and fails when the scan fails. The rows are those of the table: the select list decides the names
  of the columns and nothing else, so the names need not match the values.
\<close>

theorem table_query_correct:
  assumes "plain_list (env_std env) es" "find_table env nm = Some rel" "usable_index env (relid rel) (Some c) = None"
    and "heap_scan_with_optional_snapshot (env_oc env) (env_storage env) (env_bincode env) (relid rel) snap db = (db', r)"
  shows "execute_select env snap (table_query es nm c) db =
    Some (db', and_then r (\<lambda>rows. Ok
      \<lparr>columns = resolve_columns (Some (tuple_desc rel)) (map SelExpr es),
       result_rows = map snd (filter (\<lambda>tr. evaluate_where (env_std env) c (snd tr) (Some (tuple_desc rel))) (text_rows rows))\<rparr>))"
  using assms by (rule table_query_scans)

section \<open>A new index hides the rows\<close>

lemma blank_root: "0 < fuel \<Longrightarrow> s root = None \<Longrightarrow> index_scan fuel ephemeral s k root = Some (Ok [])"
  by (cases fuel) (simp_all add: index_scan_def btree_search_def read_btree_page_def ephemeral_def ephemeral_read_def
      new_btree_page_def)

lemma find_append_new: "find P xs = None \<Longrightarrow> P x \<Longrightarrow> find P (xs @ [x]) = Some x"
  by (induction xs) auto

text \<open>
  \<open>CREATE INDEX\<close> registers a root page but writes neither it nor an entry. From then on a query with an equality on the
  column is answered by the empty index: whatever rows the table holds, none is returned.
\<close>

theorem create_index_hides_rows:
  fixes es :: "'t SelectStatement Expr list"
  assumes "execute_create_index (env_std env) ks (relation_name rel) col cat = Ok (env_catalog env)"
    and "find (\<lambda>r. relation_name r = relation_name rel) (list_relations ks cat) = Some rel"
    and "find_table env nm = Some rel" "find_index (relid rel) (to_uppercase (env_std env) col) cat = None"
    and "env_storage env = ephemeral" "0 < env_fuel env" "next_oid cat \<noteq> 0"
    and "cache_storage (db_cache db) (next_oid cat) = None" "plain_list (env_std env) es"
  shows "execute_select env snap (table_query es nm (BinaryOp (Identifier col) Equals (Lit lit))) db =
    Some (db, Ok \<lparr>columns = resolve_columns (Some (tuple_desc rel)) (map SelExpr es), result_rows = []\<rparr>)"
proof -
  let ?idx = "\<lparr>idx_index_oid = next_oid cat + 1, idx_rel_oid = relid rel, idx_column_name = to_uppercase (env_std env) col,
    idx_root_page = next_oid cat\<rparr>"
  have "indexes (env_catalog env) = indexes cat @ [?idx]"
    using assms(1) [symmetric] assms(2) by (simp add: execute_create_index_def allocate_oid_def register_index_def)
  then have "find_index (relid rel) (to_uppercase (env_std env) col) (env_catalog env) = Some ?idx"
    using assms(4) by (simp add: find_index_def find_append_new)
  then have "usable_index env (relid rel) (Some (BinaryOp (Identifier col) Equals (Lit lit) :: 't SelectStatement Expr)) =
    Some (?idx, col, literal_to_string (env_debug env) lit)" using assms(7) by (simp add: usable_index_def)
  then show ?thesis
    using assms(3,5,6,8,9)
    by (simp add: table_query_runs scan_table_def index_scan_lookup_def blank_root run_then_def run_act_def run_ret_def
        new_context_def apply_where_def ret_def)
qed

section \<open>A query returns\<close>

definition returns :: "('s, 'a) run \<Rightarrow> bool" where
  "returns m \<longleftrightarrow> (\<forall>s. m s \<noteq> None)"

definition searches_return :: "('s, 'f) exec_env \<Rightarrow> bool" where
  "searches_return env \<longleftrightarrow> (\<forall>idx \<in> set (indexes (env_catalog env)). \<forall>s k.
     btree_search (env_fuel env) (env_storage env) s (idx_root_page idx) k \<noteq> None)"

lemma returns_then: "returns m \<Longrightarrow> (\<And>x. returns (f x)) \<Longrightarrow> returns (run_then m f)"
  by (fastforce simp: returns_def run_then_def split: option.split sum.split)

lemma returns_leaf: "returns (run_fail m)" "returns (run_ret x)" "returns (run_res r)" "returns (run_act a)"
  by (simp_all add: returns_def run_fail_def run_ret_def run_res_def run_act_def)

lemma returns_pair: "(\<And>x y. returns (f x y)) \<Longrightarrow> returns (case z of (x, y) \<Rightarrow> f x y)"
  by (cases z) simp

lemma usable_index_registered: "usable_index env rel w = Some (idx, col, v) \<Longrightarrow> idx \<in> set (indexes (env_catalog env))"
  by (auto simp: usable_index_def find_index_def find_Some_iff split: option.splits if_splits)

lemma scan_table_returns:
  assumes "searches_return env"
  shows "returns (scan_table env ctx nm w)"
proof -
  have "returns (\<lambda>db. map_option (\<lambda>r. (db, r))
      (index_scan (env_fuel env) (env_storage env) (cache_storage (db_cache db)) k (idx_root_page idx)))"
    if "idx \<in> set (indexes (env_catalog env))" for idx k
    using assms that by (simp add: searches_return_def returns_def index_scan_def)
  then have "returns (index_scan_lookup env sn rel idx col v)" if "idx \<in> set (indexes (env_catalog env))" for sn rel idx col v
    unfolding index_scan_lookup_def Let_def using that by (intro returns_then returns_leaf) auto
  then show ?thesis
    unfolding scan_table_def Let_def
    by (auto intro!: returns_then returns_leaf returns_pair dest: usable_index_registered split: option.split)
qed

lemma pipeline_returns:
  fixes env1 env2 env3 env4 :: "('s, 'f) exec_env" and q :: "'t SelectStatement" and t :: "'t SelectStatement TableRef"
    and js :: "'t SelectStatement Join list" and ops :: "'t SelectStatement SetOperation list"
  shows "searches_return env1 \<Longrightarrow> returns (execute_select env1 snap1 q)"
    "searches_return env2 \<Longrightarrow> returns (resolve_table_ref env2 ctx2 w t)"
    "searches_return env3 \<Longrightarrow> returns (execute_joins env3 ctx3 rows js)"
    "searches_return env4 \<Longrightarrow> returns (execute_sets env4 snap4 res ops)"
proof (induction env1 snap1 q and env2 ctx2 w t and env3 ctx3 rows js and env4 snap4 res ops
    rule: execute_select_resolve_table_ref_execute_joins_execute_sets.induct)
  case (1 env snap q)
  then show ?case
    by (auto simp: execute_select.simps intro!: returns_then returns_leaf returns_pair split: option.split FromClause.split list.split)
qed (auto intro!: returns_then returns_leaf returns_pair scan_table_returns)

text \<open>A query on any database returns a result or an error, provided the searches in the registered indexes return.\<close>

theorem query_returns:
  assumes "searches_return env"
  shows "\<exists>db' r. execute_select env snap q db = Some (db', r)"
  using pipeline_returns(1) [OF assms, of snap q] by (auto simp: returns_def)

section \<open>Instances\<close>

text \<open>A table of one column whose only page is cached and holds one row, and the catalog before and after an index.\<close>

definition sample_catalog :: Catalog where
  "sample_catalog = \<lparr>relations = [9 \<mapsto> sample_relation [5]], indexes = [], next_oid = 10000, has_cache = True\<rparr>"

definition sample_env :: "Catalog \<Rightarrow> (EphemeralStorage, int) exec_env" where
  "sample_env cat =
     \<lparr>env_oc = True, env_std = int_std, env_storage = ephemeral, env_bincode = sample_bincode, env_catalog = cat,
      env_oids = [9], env_groups = \<lambda>_. [], env_fuel = 1, env_debug = \<lambda>_. []\<rparr>"

definition cached_db :: "bytes \<Rightarrow> EphemeralStorage db" where
  "cached_db img = sample_db [5 \<mapsto> img]
     \<lparr>pool_size = 1, buffers = [\<lparr>buf_page = 5, buf_data = img, is_dirty = False, usage_count = 1, pin_count = 1\<rparr>],
      page_map = [5 \<mapsto> 0], next_victim = 0\<rparr> [5]"

lemma one_row_image: "\<exists>img pg. page_deserialize True img = Ok pg \<and> tuples pg = [[1, 2, 3]]"
proof -
  let ?pg = "\<lparr>header = new_page_header\<lparr>pd_lower := 30, pd_upper := 8189\<rparr>, line_pointers = [new_line_pointer 8189], tuples = [[1, 2, 3]]\<rparr>"
  have "plain ?pg"
    by (simp add: plain_def page_ok_def new_page_header_def new_line_pointer_def page_consts word_le_nat_alt)
  from plain_image [OF this, of True] show ?thesis by (metis HeapPage.select_convs(3))
qed

lemma cached_scan:
  assumes "page_deserialize True img = Ok pg" "tuples pg = [[1, 2, 3]]"
    and "is_visible (new_tuple [[65]] 1) (case snap of Some s \<Rightarrow> s | None \<Rightarrow> default_snapshot)"
  shows "\<exists>db'. heap_scan_with_optional_snapshot True ephemeral sample_bincode 9 snap (cached_db img) =
    (db', Ok [(\<lparr>ip_page_id = 5, ip_offset = 0\<rparr>, [[65]])])"
proof -
  have "decode_tuple_values (new_tuple [[65]] 1) (tuple_desc (sample_relation [5])) = [[65]]"
    using utf8_valid_ascii [of "[65]"]
    by (simp add: sample_relation_def empty_relation_def new_tuple_def decode_tuple_values_def from_utf8_def)
  then have "page_rows sample_bincode (case snap of Some s \<Rightarrow> s | None \<Rightarrow> default_snapshot) (tuple_desc (sample_relation [5])) 5 pg =
      [(\<lparr>ip_page_id = 5, ip_offset = 0\<rparr>, [[65]])]"
    using assms(2,3) by (simp add: page_rows_def sample_bincode_def)
  then show ?thesis
    using scan_cached_snapshot [of 9 "cached_db img" "\<lparr>rs_relation = sample_relation [5], dirty_buffers = []\<rparr>" 5 0 img True pg 1
        ephemeral sample_bincode snap] assms(1)
    by (auto simp: cached_db_def sample_db_def sample_relation_def get_relation_state_def)
qed

lemma first_row_visible: "is_visible (new_tuple [[65]] 1) default_snapshot"
  by (simp add: is_visible_def default_snapshot_def new_tuple_def)

lemma sample_table: "find_table (sample_env cat) (single_name ''t'') = Some (sample_relation [5])"
  if "relations cat = relations sample_catalog" for cat
proof -
  have "to_ascii_uppercase ''t'' = ''T''" by code_simp
  then show ?thesis using that
    by (simp add: find_table_def sample_env_def sample_catalog_def list_relations_def map_filter_def sample_relation_def
        empty_relation_def join_name_def single_name_def int_std_def)
qed

abbreviation c_is_A :: "unit SelectStatement Expr" where
  "c_is_A \<equiv> BinaryOp (Identifier ''c'') Equals (Lit (LString ''A''))"

abbreviation just_c :: "unit SelectStatement Expr list" where
  "just_c \<equiv> [Identifier ''c'']"

lemma c_is_A_true: "evaluate_where int_std c_is_A [''A''] (Some (tuple_desc (sample_relation [5])))"
  by code_simp

lemma sample_list: "plain_list int_std just_c"
  by code_simp

theorem table_query_correct_witness:
  "\<exists>img db'. execute_select (sample_env sample_catalog) None (table_query just_c (single_name ''t'') c_is_A) (cached_db img) =
     Some (db', Ok \<lparr>columns = [''c''], result_rows = [[''A'']]\<rparr>)"
proof -
  obtain img pg where img: "page_deserialize True img = Ok pg" "tuples pg = [[1, 2, 3]]" using one_row_image by blast
  obtain db' where scan: "heap_scan_with_optional_snapshot True ephemeral sample_bincode 9 None (cached_db img) =
    (db', Ok [(\<lparr>ip_page_id = 5, ip_offset = 0\<rparr>, [[65]])])" using cached_scan [OF img, of None] first_row_visible by auto
  let ?env = "sample_env sample_catalog"
  have "execute_select ?env None (table_query just_c (single_name ''t'') c_is_A) (cached_db img) =
    Some (db', and_then (Ok [(\<lparr>ip_page_id = 5, ip_offset = 0\<rparr>, [[65]])]) (\<lambda>rows. Ok
      \<lparr>columns = resolve_columns (Some (tuple_desc (sample_relation [5]))) (map SelExpr just_c),
       result_rows = map snd (filter (\<lambda>tr. evaluate_where (env_std ?env) c_is_A (snd tr) (Some (tuple_desc (sample_relation [5])))) (text_rows rows))\<rparr>))"
    using sample_list scan
    by (intro table_query_correct sample_table) (simp_all add: sample_env_def sample_catalog_def usable_index_def
        find_index_def sample_relation_def empty_relation_def)
  moreover have "text_of [65] = ''A''" by code_simp
  ultimately show ?thesis using c_is_A_true
    by (auto simp: text_rows_def resolve_columns_def item_columns_def sample_env_def)
qed

definition indexed_catalog :: Catalog where
  "indexed_catalog = sample_catalog\<lparr>next_oid := 10002,
     indexes := [\<lparr>idx_index_oid = 10001, idx_rel_oid = 9, idx_column_name = ''C'', idx_root_page = 10000\<rparr>]\<rparr>"

theorem create_index_hides_rows_witness:
  "\<forall>img. execute_create_index int_std [9] ''t'' ''c'' sample_catalog = Ok indexed_catalog \<and>
     execute_select (sample_env indexed_catalog) None (table_query just_c (single_name ''t'') c_is_A) (cached_db img) =
       Some (cached_db img, Ok \<lparr>columns = [''c''], result_rows = []\<rparr>)"
proof (intro allI conjI)
  fix img
  let ?env = "sample_env indexed_catalog" and ?rel = "sample_relation [5]"
  have upper: "to_ascii_uppercase ''c'' = ''C''" by code_simp
  show created: "execute_create_index int_std [9] ''t'' ''c'' sample_catalog = Ok indexed_catalog"
    by (simp add: execute_create_index_def sample_catalog_def list_relations_def map_filter_def sample_relation_def
        empty_relation_def allocate_oid_def register_index_def indexed_catalog_def int_std_def upper)
  have "execute_select ?env None (table_query just_c (single_name ''t'') c_is_A) (cached_db img) =
    Some (cached_db img, Ok \<lparr>columns = resolve_columns (Some (tuple_desc ?rel)) (map SelExpr just_c), result_rows = []\<rparr>)"
    by (rule create_index_hides_rows [where cat = sample_catalog and ks = "[9]"])
       (use created sample_list sample_table [of indexed_catalog] in \<open>simp_all add: sample_env_def indexed_catalog_def sample_relation_def empty_relation_def
          list_relations_def map_filter_def sample_catalog_def find_index_def cached_db_def sample_db_def\<close>)
  then show "execute_select ?env None (table_query just_c (single_name ''t'') c_is_A) (cached_db img) =
       Some (cached_db img, Ok \<lparr>columns = [''c''], result_rows = []\<rparr>)"
    by (simp add: resolve_columns_def item_columns_def)
qed

theorem query_returns_witness:
  "\<exists>db' r. execute_select (sample_env sample_catalog) None (table_query just_c (single_name ''t'') c_is_A) (cached_db []) = Some (db', r)"
  by (rule query_returns) (simp add: searches_return_def sample_env_def sample_catalog_def)

end
