(* ===== verification/Server.thy ===== *)
theory Server
  imports Select Protocol Sql_Stmt
begin

text \<open>
  The dispatch of statements (\<open>server/query.rs\<close>, \<open>server/utils.rs\<close>, \<open>executor/planner.rs\<close>, \<open>protocol/codes.rs\<close>): what a
  statement does to the catalog, the database, the log and the transactions, and the messages it writes to the
  socket. The socket is the list of the messages written so far; a failed write is ignored by the code. Where the code
  ignores an error, a panic still ends the handler.
\<close>

section \<open>Sessions\<close>

record 's session =
  sess_db :: "'s db"
  sess_catalog :: Catalog
  sess_txns :: TransactionManager
  sess_xid :: "xid option"
  sess_out :: "BackendMessage list"

text \<open>
  The environment of a server: as for a query, with the orders of the hash maps of relations and of active
  transactions as functions of the maps, and the \<open>Debug\<close> form of expressions.
\<close>

record ('s, 'f) server_env =
  srv_oc :: bool
  srv_std :: "'f std"
  srv_storage :: "'s StorageTrait"
  srv_bincode :: bincode
  srv_oids :: "(oid \<rightharpoonup> Relation) \<Rightarrow> oid list"
  srv_xids :: "(xid \<rightharpoonup> Transaction) \<Rightarrow> xid list"
  srv_groups :: "(string list \<rightharpoonup> row list) \<Rightarrow> string list list"
  srv_fuel :: nat
  srv_debug :: "expr \<Rightarrow> string"

definition query_env :: "('s, 'f) server_env \<Rightarrow> Catalog \<Rightarrow> ('s, 'f) exec_env" where
  "query_env env cat =
     \<lparr>env_oc = srv_oc env, env_std = srv_std env, env_storage = srv_storage env, env_bincode = srv_bincode env,
      env_catalog = cat, env_oids = srv_oids env (relations cat), env_groups = srv_groups env, env_fuel = srv_fuel env,
      env_debug = (\<lambda>l. srv_debug env (Lit l))\<rparr>"

section \<open>Steps of a handler\<close>

definition on_db :: "('s db, 'a) run \<Rightarrow> ('s session, 'a) run" where
  "on_db m s = map_option (\<lambda>(db, r). (s\<lparr>sess_db := db\<rparr>, r)) (m (sess_db s))"

definition on_catalog ::
    "(Catalog \<times> 's SharedBufferCache \<Rightarrow> (Catalog \<times> 's SharedBufferCache) res) \<Rightarrow> ('s session, unit) run" where
  "on_catalog f s =
     (case f (sess_catalog s, db_cache (sess_db s)) of
        Inl e \<Rightarrow> Some (s, Inl e)
      | Inr (cat, c) \<Rightarrow> Some (s\<lparr>sess_catalog := cat, sess_db := (sess_db s)\<lparr>db_cache := c\<rparr>\<rparr>, Ok ()))"

definition write_all :: "BackendMessage list \<Rightarrow> ('s session, unit) run" where
  "write_all ms s = Some (s\<lparr>sess_out := sess_out s @ ms\<rparr>, Ok ())"

definition complete :: "string \<Rightarrow> BackendMessage" where
  "complete t = CommandComplete (bytes_of_text t)"

definition send_error :: "string \<Rightarrow> ('s session, unit) run" where
  "send_error msg =
     run_then (write_all [ErrorResponse [\<lparr>ef_field_type = 0x4D, ef_value = bytes_of_text msg\<rparr>]])
       (\<lambda>_. write_all [ReadyForQuery Idle])"

text \<open>\<open>let _ = m\<close>, and \<open>match m { Ok(x) => k(x), Err(e) => send_error(e) }\<close>.\<close>

definition ignore :: "('s, 'a) run \<Rightarrow> ('s, unit) run" where
  "ignore m s =
     (case m s of None \<Rightarrow> None | Some (s', Inl Panic) \<Rightarrow> Some (s', panic) | Some (s', _) \<Rightarrow> Some (s', Ok ()))"

definition or_send_error :: "('s session, 'a) run \<Rightarrow> ('a \<Rightarrow> ('s session, unit) run) \<Rightarrow> ('s session, unit) run" where
  "or_send_error m k s =
     (case m s of
        None \<Rightarrow> None
      | Some (s', Inl Panic) \<Rightarrow> Some (s', panic)
      | Some (s', Inl (Error msg)) \<Rightarrow> send_error msg s'
      | Some (s', Inr x) \<Rightarrow> k x s')"

definition tx_status :: "'s session \<Rightarrow> TransactionStatus" where
  "tx_status s = (if sess_xid s \<noteq> None then InTransaction else Idle)"

definition ready :: "('s session, unit) run" where
  "ready s = write_all [ReadyForQuery (tx_status s)] s"

section \<open>Transactions of a statement\<close>

definition txn_begin :: "('s, 'f) server_env \<Rightarrow> IsolationLevel \<Rightarrow> ('s session, xid) run" where
  "txn_begin env lvl s =
     (let (tm, x) = tm_begin (srv_xids env (active (sess_txns s))) lvl (sess_txns s)
      in Some (s\<lparr>sess_txns := tm, sess_xid := Some x\<rparr>, Ok x))"

definition append_wal :: "('s, 'f) server_env \<Rightarrow> WALRecord \<Rightarrow> ('s session, unit) run" where
  "append_wal env r = ignore (on_db (run_act (log_append (srv_oc env) (srv_bincode env) r)))"

definition flush_wal :: "('s session, unit) run" where
  "flush_wal s = Some (s\<lparr>sess_db := (sess_db s)\<lparr>db_wal := wal_flush (db_wal (sess_db s))\<rparr>\<rparr>, Ok ())"

definition txn_commit :: "xid \<Rightarrow> ('s session, unit) run" where
  "txn_commit x s = Some (s\<lparr>sess_txns := fst (tm_commit x (sess_txns s))\<rparr>, Ok ())"

definition txn_rollback :: "xid \<Rightarrow> ('s session, unit) run" where
  "txn_rollback x s = Some (s\<lparr>sess_txns := fst (tm_rollback x (sess_txns s))\<rparr>, Ok ())"

definition clear_xid :: "('s session, unit) run" where
  "clear_xid s = Some (s\<lparr>sess_xid := None\<rparr>, Ok ())"

text \<open>A statement outside a transaction gets one of its own, which is committed whether it succeeds or not.\<close>

definition begin_implicit :: "('s, 'f) server_env \<Rightarrow> ('s session, bool) run" where
  "begin_implicit env s =
     (if sess_xid s = None then
        run_then (txn_begin env IsolationLevel.ReadCommitted) (\<lambda>x.
        run_then (append_wal env (WALRecord.Begin (ucast x))) (\<lambda>_. run_ret True)) s
      else run_ret False s)"

definition end_implicit :: "('s, 'f) server_env \<Rightarrow> bool \<Rightarrow> ('s session, unit) run" where
  "end_implicit env implicit s =
     run_then
       (if implicit then
          run_then (case sess_xid s of
              Some x \<Rightarrow> run_then (append_wal env (WALRecord.Commit (ucast x))) (\<lambda>_.
                        run_then (txn_commit x) (\<lambda>_. flush_wal))
            | None \<Rightarrow> run_ret ()) (\<lambda>_. clear_xid)
        else run_ret ())
       (\<lambda>_. ready) s"

definition in_transaction :: "('s, 'f) server_env \<Rightarrow> ('s session, unit) run \<Rightarrow> ('s session, unit) run" where
  "in_transaction env body =
     run_then (begin_implicit env) (\<lambda>implicit. run_then body (\<lambda>_. end_implicit env implicit))"

section \<open>Values and filters\<close>

text \<open>The bytes of an inserted or assigned expression.\<close>

definition literal_bytes :: "Literal \<Rightarrow> bytes" where
  "literal_bytes lit =
     (case lit of
        LString s \<Rightarrow> bytes_of_text s | LNumber s \<Rightarrow> bytes_of_text s | LBool b \<Rightarrow> bytes_of_text (bool_show b)
      | LNull \<Rightarrow> [] | LBlob b \<Rightarrow> b | LDate s \<Rightarrow> bytes_of_text s | LTime s \<Rightarrow> bytes_of_text s
      | LTimestamp s \<Rightarrow> bytes_of_text s | LTimestampTz s \<Rightarrow> bytes_of_text s | LInterval s \<Rightarrow> bytes_of_text s
      | LJson s \<Rightarrow> bytes_of_text s | LJsonB s \<Rightarrow> bytes_of_text s | LUuid s \<Rightarrow> bytes_of_text s
      | LMoney s \<Rightarrow> bytes_of_text s | LBit s \<Rightarrow> bytes_of_text s | LHex s \<Rightarrow> bytes_of_text s)"

definition expr_bytes :: "('s, 'f) server_env \<Rightarrow> expr \<Rightarrow> bytes" where
  "expr_bytes env e = (case e of Lit lit \<Rightarrow> literal_bytes lit | _ \<Rightarrow> bytes_of_text (srv_debug env e))"

text \<open>\<open>splitn(n, '=')\<close> for two and three parts.\<close>

definition split_at :: "char \<Rightarrow> string \<Rightarrow> string list" where
  "split_at c s =
     (if c \<in> set s then [takeWhile (\<lambda>x. x \<noteq> c) s, tl (dropWhile (\<lambda>x. x \<noteq> c) s)] else [s])"

definition trim_start :: "char \<Rightarrow> string \<Rightarrow> string" where
  "trim_start c s = dropWhile (\<lambda>x. x = c) s"

definition trim_end :: "char \<Rightarrow> string \<Rightarrow> string" where
  "trim_end c s = rev (dropWhile (\<lambda>x. x = c) (rev s))"

definition parse_filter :: "string \<Rightarrow> Filter res" where
  "parse_filter s =
     (case concat (map (\<lambda>(i, p). if i = 1 then split_at (CHR ''='') p else [p])
             (zip [0..<2] (split_at (CHR ''='') s))) of
        [a, b, c] \<Rightarrow> Ok \<lparr>filter_column = (case parse_usize (trim a) of Some n \<Rightarrow> n | None \<Rightarrow> 0),
                        filter_value = bytes_of_text (trim_end (CHR 0x27) (trim_start (CHR 0x27) (trim c)))\<rparr>
      | _ \<Rightarrow> Err (''unsupported filter format: '' @ s))"

definition optional_filter :: "string option \<Rightarrow> Filter option res" where
  "optional_filter w = (case w of None \<Rightarrow> Ok None | Some s \<Rightarrow> and_then (parse_filter s) (\<lambda>f. Ok (Some f)))"

section \<open>Result messages\<close>

definition data_row :: "row \<Rightarrow> BackendMessage" where
  "data_row r = DataRow (map (\<lambda>v. Some (bytes_of_text v)) r)"

definition select_tag :: "nat \<Rightarrow> BackendMessage" where
  "select_tag n = complete (''SELECT '' @ nat_show n)"

text \<open>The column number is \<open>(i as i16) + 1\<close>; it overflows only with more than 32767 columns.\<close>

definition select_field :: "nat \<Rightarrow> string \<Rightarrow> FieldDescription" where
  "select_field i nm =
     \<lparr>fd_name = bytes_of_text nm, fd_table_oid = 0, fd_column_attr = word_of_nat i + 1, fd_type_oid = 25,
      fd_type_size = - 1, fd_type_mod = - 1, fd_format = 0\<rparr>"

definition build_select_messages :: "SelectResult \<Rightarrow> BackendMessage list" where
  "build_select_messages r =
     (if result_rows r = [] then [RowDescriptionEmpty, complete ''SELECT 0'']
      else [RowDescription (map (\<lambda>(i, nm). select_field i nm)
              (zip [0..<length (SelectResult.columns r)] (SelectResult.columns r)))] @
           map data_row (result_rows r) @ [select_tag (length (result_rows r))])"

definition attribute_field :: "Relation \<Rightarrow> Attribute \<Rightarrow> FieldDescription" where
  "attribute_field rel a =
     \<lparr>fd_name = bytes_of_text (att_name a), fd_table_oid = relid rel, fd_column_attr = att_attnum a,
      fd_type_oid = att_type_oid a, fd_type_size = - 1, fd_type_mod = att_typmod a, fd_format = 0\<rparr>"

definition send_rows :: "oid \<Rightarrow> (ItemPointerData \<times> str list) list \<Rightarrow> ('s session, unit) run" where
  "send_rows rel rows =
     (if rows \<noteq> [] then
        run_then (on_db (run_act (relation_state rel))) (\<lambda>rs.
          write_all ([RowDescription (map (attribute_field (rs_relation rs)) (td_fields (tuple_desc (rs_relation rs))))] @
            map (\<lambda>r. DataRow (map Some (snd r))) rows @ [select_tag (length rows)]))
      else write_all [RowDescriptionEmpty, complete ''SELECT 0''])"

section \<open>Plans\<close>

datatype Plan = SeqScan oid "string option" | IndexScan oid bytes oid

datatype Query =
    QSelect oid "string option" "string list"
  | QInsert oid "bytes list"
  | QCreateTable string "(string \<times> oid) list"
  | QDropTable string
  | QCreateIndex string string string
  | QUpdate oid string bytes "string option"
  | QDelete oid "string option"
  | QBegin "string option"
  | QCommit
  | QRollback
  | QStatement Statement

definition trim_matches :: "char \<Rightarrow> string \<Rightarrow> string" where
  "trim_matches c s = trim_end c (trim_start c s)"

definition parse_equality_filter :: "string \<Rightarrow> (string \<times> string) option" where
  "parse_equality_filter s =
     (case split_at (CHR ''='') s of
        [a, b] \<Rightarrow> Some (trim a, trim_matches (CHR 0x22) (trim_matches (CHR 0x27) (trim b)))
      | _ \<Rightarrow> None)"

definition plan :: "'f std \<Rightarrow> Query \<Rightarrow> IndexInfo list \<Rightarrow> Plan" where
  "plan S q idxs =
     (case q of
        QSelect rel (Some w) _ \<Rightarrow>
          (case parse_equality_filter w of
             Some (col, v) \<Rightarrow>
               (case find (\<lambda>i. idx_rel_oid i = rel \<and> to_uppercase S (idx_column_name i) = to_uppercase S col) idxs of
                  Some idx \<Rightarrow> IndexScan (idx_index_oid idx) (bytes_of_text v) rel
                | None \<Rightarrow> SeqScan rel (Some w))
           | None \<Rightarrow> SeqScan rel (Some w))
      | QSelect rel None _ \<Rightarrow> SeqScan rel None
      | QInsert rel _ \<Rightarrow> SeqScan rel None
      | _ \<Rightarrow> SeqScan 0 None)"

definition execute_seq_scan :: "('s, 'f) server_env \<Rightarrow> oid \<Rightarrow> ('s session, unit) run" where
  "execute_seq_scan env rel =
     run_then (on_db (run_act (heap_scan (srv_oc env) (srv_storage env) (srv_bincode env) rel))) (send_rows rel)"

definition execute_slow_scan :: "('s, 'f) server_env \<Rightarrow> oid \<Rightarrow> string \<Rightarrow> ('s session, unit) run" where
  "execute_slow_scan env rel filter_str =
     run_then (run_res (parse_filter filter_str)) (\<lambda>flt.
     run_then (on_db (run_act (slow_scan (srv_oc env) (srv_storage env) (srv_bincode env) rel (Some flt)))) (send_rows rel))"

section \<open>Tables and indexes\<close>

definition completed :: "string \<Rightarrow> TransactionStatus \<Rightarrow> ('s session, unit) run" where
  "completed t st = write_all [complete t, ReadyForQuery st]"

definition run_create_table :: "string \<Rightarrow> (string \<times> oid) list \<Rightarrow> ('s session, unit) run" where
  "run_create_table nm cols = on_catalog (\<lambda>cc. Ok (execute_create_table nm cols cc))"

definition run_drop_table :: "('s, 'f) server_env \<Rightarrow> string \<Rightarrow> ('s session, unit) run" where
  "run_drop_table env nm = on_catalog (\<lambda>cc. execute_drop_table (srv_oids env (relations (fst cc))) nm cc)"

definition run_create_index :: "('s, 'f) server_env \<Rightarrow> string \<Rightarrow> string \<Rightarrow> ('s session, unit) run" where
  "run_create_index env tbl column =
     on_catalog (\<lambda>(cat, c). and_then (execute_create_index (srv_std env) (srv_oids env (relations cat)) tbl column cat)
       (\<lambda>cat'. Ok (cat', c)))"

definition type_oid :: "DataType \<Rightarrow> oid" where
  "type_oid t =
     (case t of DataType.Int \<Rightarrow> 23 | BigInt \<Rightarrow> 20 | SmallInt \<Rightarrow> 21 | Text \<Rightarrow> 25 | Varchar _ \<Rightarrow> 1043 | Boolean \<Rightarrow> 16 | _ \<Rightarrow> 0)"

definition handle_create_table_statement :: "expr CreateTableStatement \<Rightarrow> ('s session, unit) run" where
  "handle_create_table_statement stmt =
     (let nm = join_name (ct_table stmt); cols = map (\<lambda>c. (Sql_Stmt.col_name c, type_oid (col_type c))) (ct_columns stmt)
      in or_send_error (run_create_table nm cols) (\<lambda>_. completed (''CREATE TABLE '' @ nm) Idle))"

definition handle_create_index_statement :: "('s, 'f) server_env \<Rightarrow> expr CreateIndexStatement \<Rightarrow> ('s session, unit) run" where
  "handle_create_index_statement env stmt =
     (let column = (case ci_columns stmt of
            c # _ \<Rightarrow> (case ic_expr c of Identifier i \<Rightarrow> i | _ \<Rightarrow> ''unknown'') | [] \<Rightarrow> ''unknown'')
      in or_send_error (run_create_index env (join_name (ci_table stmt)) column)
           (\<lambda>_. completed (''CREATE INDEX '' @ join_name (ci_name stmt)) Idle))"

definition handle_drop_table_statement :: "('s, 'f) server_env \<Rightarrow> DropTableStatement \<Rightarrow> ('s session, unit) run" where
  "handle_drop_table_statement env stmt =
     (let nm = join_name (dt_table stmt)
      in or_send_error (run_drop_table env nm) (\<lambda>_. completed (''DROP TABLE '' @ nm) Idle))"

section \<open>Transaction statements\<close>

definition level_of :: "SqlIsolationLevel option \<Rightarrow> IsolationLevel" where
  "level_of l =
     (case l of Some SqlSerializable \<Rightarrow> Serializable | Some SqlRepeatableRead \<Rightarrow> RepeatableRead
      | Some SqlReadCommitted \<Rightarrow> ReadCommitted | Some SqlReadUncommitted \<Rightarrow> ReadUncommitted | None \<Rightarrow> ReadCommitted)"

definition start_transaction :: "('s, 'f) server_env \<Rightarrow> IsolationLevel \<Rightarrow> ('s session, unit) run" where
  "start_transaction env lvl = run_then (txn_begin env lvl) (\<lambda>_. completed ''BEGIN'' InTransaction)"

definition handle_begin_statement :: "('s, 'f) server_env \<Rightarrow> BeginStatement \<Rightarrow> ('s session, unit) run" where
  "handle_begin_statement env stmt = start_transaction env (level_of (isolation_level stmt))"

definition finish_transaction ::
    "('s, 'f) server_env \<Rightarrow> (xid \<Rightarrow> ('s session, unit) run) \<Rightarrow> (u64 \<Rightarrow> WALRecord) \<Rightarrow> string \<Rightarrow> ('s session, unit) run" where
  "finish_transaction env act rec t s =
     run_then
       (case sess_xid s of
          Some x \<Rightarrow> run_then (act x) (\<lambda>_. run_then (append_wal env (rec (ucast x))) (\<lambda>_. flush_wal))
        | None \<Rightarrow> run_ret ())
       (\<lambda>_. run_then clear_xid (\<lambda>_. completed t Idle)) s"

definition handle_commit_statement :: "('s, 'f) server_env \<Rightarrow> ('s session, unit) run" where
  "handle_commit_statement env = finish_transaction env txn_commit WALRecord.Commit ''COMMIT''"

definition handle_rollback_statement :: "('s, 'f) server_env \<Rightarrow> ('s session, unit) run" where
  "handle_rollback_statement env = finish_transaction env txn_rollback Abort ''ROLLBACK''"

text \<open>
  \<open>SET\<close> writes its timeout into the copy of the transaction that \<open>get_transaction\<close> returns, and drops the copy.
\<close>

definition timeout_value :: "SetStatement \<Rightarrow> nat option" where
  "timeout_value stmt =
     (let ms = (case setting_values stmt of
            SetNumber n # _ \<Rightarrow> (case parse_unsigned 64 n of Some m \<Rightarrow> m | None \<Rightarrow> 0) | _ \<Rightarrow> 0)
      in if ms = 0 then None else Some ms)"

definition set_timeout :: "(nat option \<Rightarrow> TimeoutConfig \<Rightarrow> TimeoutConfig) \<Rightarrow> SetStatement \<Rightarrow> ('s session, unit) run" where
  "set_timeout upd stmt s =
     (case sess_xid s of
        Some x \<Rightarrow>
          (let txn = map_option (\<lambda>t. t\<lparr>timeout_config := upd (timeout_value stmt) (timeout_config t)\<rparr>)
                 (get_transaction x (sess_txns s))
           in completed ''SET'' InTransaction s)
      | None \<Rightarrow> completed ''SET'' Idle s)"

definition handle_set_statement :: "'f std \<Rightarrow> SetStatement \<Rightarrow> ('s session, unit) run" where
  "handle_set_statement S stmt s =
     (let nm = to_lowercase S (setting stmt)
      in if nm = ''statement_timeout'' then set_timeout (\<lambda>v c. c\<lparr>statement_timeout := v\<rparr>) stmt s
         else if nm = ''lock_timeout'' then set_timeout (\<lambda>v c. c\<lparr>lock_timeout := v\<rparr>) stmt s
         else completed ''SET'' (tx_status s) s)"

section \<open>Row statements\<close>

text \<open>The relation a statement names, and a statement's work on it.\<close>

definition on_table :: "('s, 'f) server_env \<Rightarrow> ObjectName \<Rightarrow> (Relation \<Rightarrow> ('s session, unit) run) \<Rightarrow> ('s session, unit) run" where
  "on_table env nm body s =
     (case find_table (query_env env (sess_catalog s)) nm of
        Some rel \<Rightarrow> body rel s
      | None \<Rightarrow> send_error (''relation \"'' @ join_name nm @ ''\" does not exist'') s)"

definition insert_row :: "('s, 'f) server_env \<Rightarrow> oid \<Rightarrow> bytes list \<Rightarrow> ('s session, unit) run" where
  "insert_row env rel vals =
     or_send_error (on_db (run_act (tuple_insert (srv_oc env) (srv_storage env) (srv_bincode env) rel vals)))
       (\<lambda>_. write_all [complete ''INSERT 1''])"

definition update_rows :: "('s, 'f) server_env \<Rightarrow> oid \<Rightarrow> bytes \<Rightarrow> Filter option \<Rightarrow> ('s session, unit) run" where
  "update_rows env rel v flt =
     or_send_error (on_db (run_act (tuple_update (srv_oc env) (srv_storage env) (srv_bincode env) rel 0 v flt)))
       (\<lambda>n. write_all [complete (''UPDATE '' @ nat_show n)])"

definition delete_rows :: "('s, 'f) server_env \<Rightarrow> oid \<Rightarrow> Filter option \<Rightarrow> ('s session, unit) run" where
  "delete_rows env rel flt =
     or_send_error (on_db (run_act (tuple_delete (srv_oc env) (srv_storage env) (srv_bincode env) rel flt)))
       (\<lambda>n. write_all [complete (''DELETE '' @ nat_show n)])"

definition handle_insert_statement ::
    "('s, 'f) server_env \<Rightarrow> Statement SelectStatement InsertStatement \<Rightarrow> ('s session, unit) run" where
  "handle_insert_statement env stmt =
     in_transaction env (on_table env (ins_table stmt) (\<lambda>rel.
       case ins_source stmt of
         Values rows \<Rightarrow> (case rows of [] \<Rightarrow> run_ret () | row # _ \<Rightarrow> insert_row env (relid rel) (map (expr_bytes env) row))
       | InsertSelect _ \<Rightarrow> send_error ''INSERT...SELECT not yet supported''))"

definition handle_update_statement ::
    "('s, 'f) server_env \<Rightarrow> Statement SelectStatement UpdateStatement \<Rightarrow> ('s session, unit) run" where
  "handle_update_statement env stmt =
     in_transaction env (on_table env (upd_table stmt) (\<lambda>rel.
       case set_clauses stmt of
         [] \<Rightarrow> run_ret ()
       | c # _ \<Rightarrow> update_rows env (relid rel) (expr_bytes env (set_value c)) None))"

definition handle_delete_statement ::
    "('s, 'f) server_env \<Rightarrow> Statement SelectStatement DeleteStatement \<Rightarrow> ('s session, unit) run" where
  "handle_delete_statement env stmt =
     in_transaction env (on_table env (del_table stmt) (\<lambda>rel. delete_rows env (relid rel) None))"

section \<open>Queries\<close>

text \<open>A common table expression becomes an empty relation of its name for the time of the query.\<close>

fun register_ctes :: "Statement CommonTableExpr list \<Rightarrow> ('s session, oid list) run" where
  "register_ctes [] = run_ret []"
| "register_ctes (c # cs) =
     run_then (\<lambda>s.
       let (cat, oid) = allocate_oid (sess_catalog s);
           ((cat', cache), _) = create_relation ((empty_relation (cte_name c) [])\<lparr>relid := oid\<rparr>) (cat, db_cache (sess_db s))
       in Some (s\<lparr>sess_catalog := cat', sess_db := (sess_db s)\<lparr>db_cache := cache\<rparr>\<rparr>, Ok oid))
     (\<lambda>oid. run_then (register_ctes cs) (\<lambda>oids. run_ret (oid # oids)))"

fun drop_ctes :: "oid list \<Rightarrow> ('s session, unit) run" where
  "drop_ctes [] = run_ret ()"
| "drop_ctes (oid # oids) = run_then (on_catalog (\<lambda>cc. Ok (delete_relation oid cc))) (\<lambda>_. drop_ctes oids)"

definition statement_snapshot :: "('s, 'f) server_env \<Rightarrow> 's session \<Rightarrow> Snapshot option" where
  "statement_snapshot env s =
     map_option (get_snapshot_for_statement (srv_xids env (active (sess_txns s)))) (sess_xid s)"

definition run_select :: "('s, 'f) server_env \<Rightarrow> Snapshot option \<Rightarrow> select \<Rightarrow> ('s session, SelectResult) run" where
  "run_select env snap q s = on_db (execute_select (query_env env (sess_catalog s)) snap q) s"

definition handle_select_statement :: "('s, 'f) server_env \<Rightarrow> select \<Rightarrow> ('s session, unit) run" where
  "handle_select_statement env q =
     in_transaction env (\<lambda>s.
       let snap = statement_snapshot env s
       in run_then (register_ctes (case sel_with q of Some w \<Rightarrow> ctes w | None \<Rightarrow> [])) (\<lambda>oids.
          run_then (or_send_error (run_select env snap q) (\<lambda>r. write_all (build_select_messages r))) (\<lambda>_.
          drop_ctes oids)) s)"

section \<open>The dispatch\<close>

definition handle_statement :: "('s, 'f) server_env \<Rightarrow> Statement \<Rightarrow> ('s session, unit) run" where
  "handle_statement env stmt =
     (case stmt of
        Statement.Select q \<Rightarrow> handle_select_statement env q
      | Statement.Insert i \<Rightarrow> handle_insert_statement env i
      | Statement.Update u \<Rightarrow> handle_update_statement env u
      | Statement.Delete d \<Rightarrow> handle_delete_statement env d
      | CreateTable c \<Rightarrow> handle_create_table_statement c
      | CreateIndex c \<Rightarrow> handle_create_index_statement env c
      | CreateView _ \<Rightarrow> send_error ''CREATE VIEW not yet supported''
      | AlterTable _ \<Rightarrow> send_error ''ALTER TABLE not yet supported''
      | DropTable d \<Rightarrow> handle_drop_table_statement env d
      | DropIndex _ \<Rightarrow> send_error ''DROP INDEX not yet supported''
      | Statement.Begin b \<Rightarrow> handle_begin_statement env b
      | Statement.Commit \<Rightarrow> handle_commit_statement env
      | Statement.Rollback \<Rightarrow> handle_rollback_statement env
      | Explain _ \<Rightarrow> send_error ''EXPLAIN not yet supported''
      | CreateSequence _ \<Rightarrow> send_error ''CREATE SEQUENCE not yet supported''
      | CreateType _ \<Rightarrow> send_error ''CREATE TYPE not yet supported''
      | CreateMaterializedView _ \<Rightarrow> send_error ''CREATE MATERIALIZED VIEW not yet supported''
      | CreateSchema _ \<Rightarrow> send_error ''CREATE SCHEMA not yet supported''
      | Statement.Set st \<Rightarrow> handle_set_statement (srv_std env) st
      | Merge _ \<Rightarrow> send_error ''MERGE not yet supported'')"

text \<open>The requests of the line protocol.\<close>

definition query_update :: "('s, 'f) server_env \<Rightarrow> oid \<Rightarrow> bytes \<Rightarrow> string option \<Rightarrow> ('s session, unit) run" where
  "query_update env rel v w =
     in_transaction env (or_send_error (run_res (optional_filter w)) (update_rows env rel v))"

definition query_delete :: "('s, 'f) server_env \<Rightarrow> oid \<Rightarrow> string option \<Rightarrow> ('s session, unit) run" where
  "query_delete env rel w =
     in_transaction env (or_send_error (run_res (optional_filter w)) (delete_rows env rel))"

definition query_select :: "('s, 'f) server_env \<Rightarrow> Query \<Rightarrow> ('s session, unit) run" where
  "query_select env q =
     in_transaction env
       (case plan (srv_std env) q [] of
          SeqScan rel None \<Rightarrow> or_send_error (execute_seq_scan env rel) run_ret
        | SeqScan rel (Some f) \<Rightarrow> or_send_error (execute_slow_scan env rel f) run_ret
        | IndexScan _ _ _ \<Rightarrow> write_all [complete ''SELECT 0''])"

definition handle_query :: "('s, 'f) server_env \<Rightarrow> Query \<Rightarrow> ('s session, unit) run" where
  "handle_query env q =
     (case q of
        QCreateTable nm cols \<Rightarrow>
          or_send_error (run_create_table nm cols) (\<lambda>_ s. completed (''CREATE TABLE '' @ nm) (tx_status s) s)
      | QDropTable nm \<Rightarrow>
          or_send_error (run_drop_table env nm) (\<lambda>_ s. completed (''DROP TABLE '' @ nm) (tx_status s) s)
      | QCreateIndex nm tbl column \<Rightarrow>
          or_send_error (run_create_index env tbl column) (\<lambda>_ s. completed (''CREATE INDEX '' @ nm) (tx_status s) s)
      | QBegin _ \<Rightarrow> start_transaction env ReadCommitted
      | QCommit \<Rightarrow> finish_transaction env txn_commit WALRecord.Commit ''COMMIT''
      | QRollback \<Rightarrow> finish_transaction env txn_rollback Abort ''ROLLBACK''
      | QInsert rel vals \<Rightarrow> in_transaction env (insert_row env rel vals)
      | QUpdate rel _ v w \<Rightarrow> query_update env rel v w
      | QDelete rel w \<Rightarrow> query_delete env rel w
      | QSelect _ _ _ \<Rightarrow> query_select env q
      | QStatement stmt \<Rightarrow> handle_statement env stmt)"

section \<open>The reply to a statement\<close>

text \<open>Steps that first look at the session, as functions of the session.\<close>

lemma begin_implicit_alt:
  "begin_implicit env = (\<lambda>s. (if sess_xid s = None then run_then (txn_begin env IsolationLevel.ReadCommitted) (\<lambda>x.
     run_then (append_wal env (WALRecord.Begin (ucast x))) (\<lambda>_. run_ret True)) else run_ret False) s)"
  by (rule ext) (simp add: begin_implicit_def)

lemma end_implicit_alt:
  "end_implicit env b = (\<lambda>s. run_then (if b then run_then (case sess_xid s of
       Some x \<Rightarrow> run_then (append_wal env (WALRecord.Commit (ucast x))) (\<lambda>_. run_then (txn_commit x) (\<lambda>_. flush_wal))
     | None \<Rightarrow> run_ret ()) (\<lambda>_. clear_xid) else run_ret ()) (\<lambda>_. ready) s)"
  by (rule ext) (simp add: end_implicit_def)

lemma on_table_alt:
  "on_table env nm body = (\<lambda>s. (case find_table (query_env env (sess_catalog s)) nm of
     Some rel \<Rightarrow> body rel | None \<Rightarrow> send_error (''relation \"'' @ join_name nm @ ''\" does not exist'')) s)"
  by (rule ext) (simp add: on_table_def split: option.split)

lemma finish_transaction_alt:
  "finish_transaction env act rec t = (\<lambda>s. run_then (case sess_xid s of
       Some x \<Rightarrow> run_then (act x) (\<lambda>_. run_then (append_wal env (rec (ucast x))) (\<lambda>_. flush_wal))
     | None \<Rightarrow> run_ret ()) (\<lambda>_. run_then clear_xid (\<lambda>_. completed t Idle)) s)"
  by (rule ext) (simp add: finish_transaction_def)

lemma set_timeout_alt: "set_timeout upd stmt = (\<lambda>s. completed ''SET'' (tx_status s) s)"
  by (rule ext) (simp add: set_timeout_def tx_status_def split: option.split)

lemma handle_set_alt: "handle_set_statement S stmt = (\<lambda>s. completed ''SET'' (tx_status s) s)"
  by (rule ext) (simp add: handle_set_statement_def set_timeout_alt Let_def)

text \<open>
  \<open>appends P m\<close>: what the step writes to the socket satisfies \<open>P\<close>, whether the step succeeds or fails. \<open>replies m\<close>: when
  the step succeeds, its messages end with \<open>ReadyForQuery\<close>.
\<close>

definition appends :: "('s session, 'a) run \<Rightarrow> bool" where
  "appends m \<longleftrightarrow> (\<forall>s s' r. m s = Some (s', r) \<longrightarrow> (\<exists>ms. sess_out s' = sess_out s @ ms))"

definition replies :: "('s session, unit) run \<Rightarrow> bool" where
  "replies m \<longleftrightarrow> appends m \<and>
     (\<forall>s s'. m s = Some (s', Ok ()) \<longrightarrow> (\<exists>ms st. sess_out s' = sess_out s @ ms @ [ReadyForQuery st]))"

lemma run_then_cases:
  assumes "run_then m f s = Some (s', r)"
  obtains e where "m s = Some (s', Inl e)" "r = Inl e" | s1 x where "m s = Some (s1, Inr x)" "f x s1 = Some (s', r)"
  using assms by (auto simp: run_then_def split: option.splits sum.splits)

lemma appends_then:
  assumes "appends m" "\<And>x. appends (f x)"
  shows "appends (run_then m f)"
  unfolding appends_def
proof (intro allI impI)
  fix s s' r
  assume "run_then m f s = Some (s', r)"
  then show "\<exists>ms. sess_out s' = sess_out s @ ms"
  proof (cases rule: run_then_cases)
    case (1 e)
    then show ?thesis using assms(1) by (auto simp: appends_def)
  next
    case (2 s1 x)
    obtain ms ms' where "sess_out s1 = sess_out s @ ms" "sess_out s' = sess_out s1 @ ms'"
      using assms 2 unfolding appends_def by blast
    then show ?thesis by simp
  qed
qed

lemma replies_then:
  assumes "appends m" "\<And>x. replies (f x)"
  shows "replies (run_then m f)"
  unfolding replies_def
proof (intro conjI allI impI)
  show "appends (run_then m f)" using assms by (auto intro: appends_then simp: replies_def)
  fix s s'
  assume "run_then m f s = Some (s', Ok ())"
  then obtain s1 x where "m s = Some (s1, Inr x)" "f x s1 = Some (s', Ok ())" by (cases rule: run_then_cases) auto
  then obtain ms ms' st where "sess_out s1 = sess_out s @ ms" "sess_out s' = sess_out s1 @ ms' @ [ReadyForQuery st]"
    using assms unfolding appends_def replies_def by blast
  then show "\<exists>ms st. sess_out s' = sess_out s @ ms @ [ReadyForQuery st]" by (metis append_assoc)
qed

lemma replies_appends: "replies m \<Longrightarrow> appends m"
  by (simp add: replies_def)

lemma appends_leaf:
  "appends (run_ret x)" "appends (run_fail msg)" "appends (run_res r)" "appends (write_all ms)" "appends (on_db m')"
  "appends (on_catalog g)" "appends flush_wal" "appends (txn_begin env lvl)" "appends (txn_commit x')" "appends (txn_rollback x')"
  "appends clear_xid"
  by (auto simp: appends_def run_ret_def run_fail_def run_res_def write_all_def on_db_def on_catalog_def flush_wal_def
      txn_begin_def txn_commit_def txn_rollback_def clear_xid_def split: sum.splits prod.splits)

text \<open>Steps that first look at the state.\<close>

lemma appends_at: "(\<And>s. appends (g s)) \<Longrightarrow> appends (\<lambda>s. g s s)"
  by (auto simp: appends_def)

lemma replies_at: "(\<And>s. replies (g s)) \<Longrightarrow> replies (\<lambda>s. g s s)"
  by (auto simp: replies_def intro: appends_at)

lemma appends_ignore: "appends m \<Longrightarrow> appends (ignore m)"
  by (fastforce simp: appends_def ignore_def split: option.splits sum.splits rust_error.splits)

lemma replies_send_error: "replies (send_error msg)"
  by (simp add: send_error_def replies_def appends_then appends_leaf) (auto simp: run_then_def write_all_def)

lemma or_send_error_cases:
  assumes "or_send_error m k s = Some (s', r)"
  obtains "m s = Some (s', panic)" "r = panic"
  | s1 msg where "m s = Some (s1, Err msg)" "send_error msg s1 = Some (s', r)"
  | s1 x where "m s = Some (s1, Ok x)" "k x s1 = Some (s', r)"
  using assms by (auto simp: or_send_error_def split: option.splits sum.splits rust_error.splits)

lemma appends_or_send_error:
  assumes "appends m" "\<And>x. appends (k x)"
  shows "appends (or_send_error m k)"
  unfolding appends_def
proof (intro allI impI)
  fix s s' r
  assume "or_send_error m k s = Some (s', r)"
  then obtain s1 y m' where "m s = Some (s1, y)" "appends m'" "sess_out s1 = sess_out s' \<or> m' s1 = Some (s', r)"
    using assms(2) replies_appends [OF replies_send_error] by (cases rule: or_send_error_cases) blast+
  then obtain ms ms' where "sess_out s1 = sess_out s @ ms" "sess_out s' = sess_out s1 @ ms'"
    using assms(1) unfolding appends_def by (metis append_Nil2)
  then show "\<exists>ms. sess_out s' = sess_out s @ ms" by simp
qed

lemma replies_or_send_error:
  assumes "appends m" "\<And>x. replies (k x)"
  shows "replies (or_send_error m k)"
  unfolding replies_def
proof (intro conjI allI impI)
  show "appends (or_send_error m k)" using assms by (auto intro: appends_or_send_error simp: replies_def)
  fix s s'
  assume "or_send_error m k s = Some (s', Ok ())"
  then obtain s1 y m' where "m s = Some (s1, y)" "replies m'" "m' s1 = Some (s', Ok ())"
    using assms(2) replies_send_error by (cases rule: or_send_error_cases) (simp, blast+)
  then obtain ms ms' st where "sess_out s1 = sess_out s @ ms" "sess_out s' = sess_out s1 @ ms' @ [ReadyForQuery st]"
    using assms(1) unfolding appends_def replies_def by blast
  then show "\<exists>ms st. sess_out s' = sess_out s @ ms @ [ReadyForQuery st]" by (metis append_assoc)
qed

lemma replies_completed: "replies (completed t st)"
  by (auto simp: completed_def replies_def appends_leaf write_all_def)

lemma replies_ready: "replies ready"
  by (auto simp: ready_def replies_def appends_def write_all_def)

lemma appends_wal: "appends (append_wal env r)"
  unfolding append_wal_def by (intro appends_ignore appends_leaf)

lemma appends_begin_implicit: "appends (begin_implicit env)"
  unfolding begin_implicit_alt
  by (rule appends_at) (auto intro!: appends_then appends_leaf appends_wal simp del: run_simps(3))

lemma replies_end_implicit: "replies (end_implicit env b)"
  unfolding end_implicit_alt
  by (rule replies_at) (auto intro!: replies_then replies_ready appends_then appends_leaf appends_wal
      simp del: run_simps(3) split: option.split)

lemma replies_in_transaction: "appends body \<Longrightarrow> replies (in_transaction env body)"
  unfolding in_transaction_def by (intro replies_then appends_begin_implicit replies_end_implicit)

lemma appends_on_table:
  assumes "\<And>rel. appends (body rel)"
  shows "appends (on_table env nm body)"
  unfolding on_table_alt
  by (rule appends_at) (auto intro!: assms replies_appends [OF replies_send_error] split: option.split)

lemma appends_rows:
  "appends (insert_row env rel vals)" "appends (update_rows env rel v flt)" "appends (delete_rows env rel flt)"
  unfolding insert_row_def update_rows_def delete_rows_def by (intro appends_or_send_error appends_leaf)+

lemma replies_row_statements:
  "replies (handle_insert_statement env i)" "replies (handle_update_statement env u)" "replies (handle_delete_statement env d)"
  unfolding handle_insert_statement_def handle_update_statement_def handle_delete_statement_def
  by (auto intro!: replies_in_transaction appends_on_table appends_rows appends_leaf replies_appends [OF replies_send_error]
      split: InsertSource.split list.split)

lemma appends_ctes: "appends (register_ctes cs)" "appends (drop_ctes oids)"
proof -
  show "appends (register_ctes cs)"
  proof (induction cs)
    case (Cons c cs)
    then show ?case
      by (auto intro!: appends_then appends_leaf) (auto simp: appends_def split: prod.splits)
  qed (simp add: appends_leaf del: run_simps(3))
  show "appends (drop_ctes oids)"
    by (induction oids) (auto intro!: appends_then appends_leaf simp del: run_simps(3))
qed

lemma replies_select: "replies (handle_select_statement env q)"
proof -
  have select: "appends (run_select env snap q)" for snap
    unfolding run_select_def by (rule appends_at) (rule appends_leaf)
  show ?thesis
    unfolding handle_select_statement_def Let_def
    by (rule replies_in_transaction, rule appends_at)
       (intro appends_then appends_ctes appends_or_send_error appends_leaf select)
qed

lemma replies_finish:
  assumes "\<And>x. appends (act x)"
  shows "replies (finish_transaction env act rec t)"
  unfolding finish_transaction_alt
  by (rule replies_at) (auto intro!: replies_then replies_completed appends_then appends_leaf appends_wal assms
      simp del: run_simps(3) split: option.split)

lemma replies_set: "replies (handle_set_statement S stmt)"
  unfolding handle_set_alt by (rule replies_at) (rule replies_completed)

lemma appends_scans: "appends (execute_seq_scan env rel)" "appends (execute_slow_scan env rel f)"
  unfolding execute_seq_scan_def execute_slow_scan_def send_rows_def
  by (auto intro!: appends_then appends_leaf)

lemma replies_status: "replies (\<lambda>s. completed t (tx_status s) s)"
  by (rule replies_at) (rule replies_completed)

text \<open>
  The reply to every request that is handled without a panic is a list of messages that ends with
  \<open>ReadyForQuery\<close>, whatever fails on the way, and no message sent before is changed.
\<close>

lemma statement_replies: "replies (handle_statement env stmt)"
  unfolding handle_statement_def handle_create_table_statement_def handle_create_index_statement_def
    handle_drop_table_statement_def handle_begin_statement_def start_transaction_def handle_commit_statement_def
    handle_rollback_statement_def run_create_table_def run_create_index_def run_drop_table_def Let_def
  by (auto split: Statement.split intro!: replies_or_send_error replies_then replies_completed replies_finish replies_set
      replies_select replies_row_statements replies_send_error appends_leaf)

lemma query_replies: "replies (handle_query env q)"
proof (cases q)
  case (QSelect rel w cols)
  then show ?thesis
    unfolding handle_query_def query_select_def
    by (auto intro!: replies_in_transaction appends_or_send_error appends_scans appends_leaf simp del: run_simps(3)
        split: Plan.split option.split)
qed (auto simp: handle_query_def start_transaction_def run_create_table_def run_create_index_def run_drop_table_def
      query_update_def query_delete_def simp del: run_simps(3)
      intro!: replies_or_send_error replies_then replies_completed replies_finish replies_status statement_replies
        replies_in_transaction appends_rows appends_or_send_error appends_leaf)

section \<open>The transaction of a statement\<close>

definition txn_part :: "'s session \<Rightarrow> TransactionManager \<times> xid option" where
  "txn_part s = (sess_txns s, sess_xid s)"

definition keeps_txns :: "('s session, 'a) run \<Rightarrow> bool" where
  "keeps_txns m \<longleftrightarrow> (\<forall>s s' r. m s = Some (s', r) \<longrightarrow> txn_part s' = txn_part s)"

lemma keeps_then: "keeps_txns m \<Longrightarrow> (\<And>x. keeps_txns (f x)) \<Longrightarrow> keeps_txns (run_then m f)"
  unfolding keeps_txns_def by (metis run_then_cases)

lemma keeps_at: "(\<And>s. keeps_txns (g s)) \<Longrightarrow> keeps_txns (\<lambda>s. g s s)"
  by (auto simp: keeps_txns_def)

lemma keeps_leaf:
  "keeps_txns (run_ret x)" "keeps_txns (run_res r)" "keeps_txns (write_all ms)" "keeps_txns (on_db m')"
  "keeps_txns (on_catalog g)" "keeps_txns flush_wal" "keeps_txns (send_error msg)"
  by (auto simp: keeps_txns_def txn_part_def run_ret_def run_res_def write_all_def on_db_def on_catalog_def flush_wal_def
      send_error_def run_then_def split: sum.splits prod.splits)

lemma keeps_ignore: "keeps_txns m \<Longrightarrow> keeps_txns (ignore m)"
  by (fastforce simp: keeps_txns_def ignore_def split: option.splits sum.splits rust_error.splits)

lemma keeps_or_send_error:
  assumes "keeps_txns m" "\<And>x. keeps_txns (k x)"
  shows "keeps_txns (or_send_error m k)"
  unfolding keeps_txns_def
proof (intro allI impI)
  fix s s' r
  assume "or_send_error m k s = Some (s', r)"
  then show "txn_part s' = txn_part s"
  proof (cases rule: or_send_error_cases)
    case 1
    then show ?thesis using assms(1) unfolding keeps_txns_def by blast
  next
    case (2 s1 msg)
    then show ?thesis using assms(1) keeps_leaf(7) [of msg] unfolding keeps_txns_def by metis
  next
    case (3 s1 x)
    then show ?thesis using assms unfolding keeps_txns_def by metis
  qed
qed

lemma keeps_wal: "keeps_txns (append_wal env r)"
  unfolding append_wal_def by (intro keeps_ignore keeps_leaf)

lemma keeps_rows:
  "keeps_txns (insert_row env rel vals)" "keeps_txns (update_rows env rel v flt)" "keeps_txns (delete_rows env rel flt)"
  unfolding insert_row_def update_rows_def delete_rows_def by (intro keeps_or_send_error keeps_leaf)+

lemma keeps_on_table:
  assumes "\<And>rel. keeps_txns (body rel)"
  shows "keeps_txns (on_table env nm body)"
  unfolding on_table_alt by (rule keeps_at) (auto intro!: assms keeps_leaf split: option.split)

lemma keeps_ctes: "keeps_txns (register_ctes cs)" "keeps_txns (drop_ctes oids)"
proof -
  show "keeps_txns (register_ctes cs)"
  proof (induction cs)
    case (Cons c cs)
    then show ?case
      by (auto intro!: keeps_then keeps_leaf) (auto simp: keeps_txns_def txn_part_def split: prod.splits)
  qed (simp add: keeps_leaf del: run_simps(3))
  show "keeps_txns (drop_ctes oids)"
    by (induction oids) (auto intro!: keeps_then keeps_leaf simp del: run_simps(3))
qed

lemma in_transaction_closes:
  assumes "keeps_txns body" "in_transaction env body s = Some (s', Ok ())"
    "active (sess_txns s) (next_xid (sess_txns s)) = None"
  shows "sess_xid s' = sess_xid s \<and> active (sess_txns s') = active (sess_txns s) \<and>
    next_xid (sess_txns s') = next_xid (sess_txns s) + (if sess_xid s = None then 1 else 0)"
proof -
  obtain s1 s2 implicit where start: "begin_implicit env s = Some (s1, Ok implicit)" and "body s1 = Some (s2, Ok ())"
    and fin: "end_implicit env implicit s2 = Some (s', Ok ())"
    using assms(2) unfolding in_transaction_def by (auto elim!: run_then_cases)
  then have mid: "sess_txns s2 = sess_txns s1" "sess_xid s2 = sess_xid s1"
    using assms(1) unfolding keeps_txns_def txn_part_def by blast+
  show ?thesis
  proof (cases "sess_xid s")
    case (Some x)
    then have "s1 = s" "\<not> implicit" using start by (auto simp: begin_implicit_def run_ret_def)
    then show ?thesis using Some mid fin by (auto simp: end_implicit_def ready_def write_all_def)
  next
    case None
    let ?x = "next_xid (sess_txns s)"
    obtain s0 where s0: "txn_begin env IsolationLevel.ReadCommitted s = Some (s0, Ok ?x)"
      and "append_wal env (WALRecord.Begin (ucast ?x)) s0 = Some (s1, Ok ())" and implicit
      using start None by (auto simp: begin_implicit_def run_ret_def txn_begin_def tm_begin_def Let_def elim!: run_then_cases)
    then have s1: "sess_txns s1 = sess_txns s0" "sess_xid s1 = sess_xid s0"
      using keeps_wal unfolding keeps_txns_def txn_part_def by blast+
    have txn: "sess_xid s0 = Some ?x" "next_xid (sess_txns s0) = ?x + 1"
      "\<exists>t. active (sess_txns s0) = (active (sess_txns s))(?x \<mapsto> t)"
      using s0 by (auto simp: txn_begin_def tm_begin_def Let_def)
    obtain s3 where "append_wal env (WALRecord.Commit (ucast ?x)) s2 = Some (s3, Ok ())"
      and s': "sess_xid s' = None" "sess_txns s' = fst (tm_commit ?x (sess_txns s3))"
      using fin \<open>implicit\<close> mid s1 txn(1)
      by (auto simp: end_implicit_def ready_def write_all_def clear_xid_def flush_wal_def txn_commit_def elim!: run_then_cases)
    then have "sess_txns s3 = sess_txns s2" using keeps_wal unfolding keeps_txns_def txn_part_def by blast
    then show ?thesis using None s' txn mid s1 assms(3) by (auto simp: tm_commit_def fun_eq_iff)
  qed
qed

text \<open>
  A query or a row statement leaves the transactions as they were: outside a transaction it runs in one of its own,
  which is gone afterwards, inside one it leaves it open. This holds whether the statement succeeds or fails.
\<close>

theorem statement_transaction_closed:
  assumes "stmt \<in> {Statement.Select q, Statement.Insert i, Statement.Update u, Statement.Delete d}"
    and "handle_statement env stmt s = Some (s', Ok ())" "active (sess_txns s) (next_xid (sess_txns s)) = None"
  shows "sess_xid s' = sess_xid s \<and> active (sess_txns s') = active (sess_txns s) \<and>
    next_xid (sess_txns s') = next_xid (sess_txns s) + (if sess_xid s = None then 1 else 0)"
proof -
  have select: "keeps_txns (run_select env snap q)" for snap
    unfolding run_select_def by (rule keeps_at) (rule keeps_leaf)
  note closes = in_transaction_closes [OF _ _ assms(3)]
  have "keeps_txns (\<lambda>s. run_then (register_ctes (case sel_with q of Some w \<Rightarrow> ctes w | None \<Rightarrow> [])) (\<lambda>oids.
      run_then (or_send_error (run_select env (statement_snapshot env s) q) (\<lambda>r. write_all (build_select_messages r))) (\<lambda>_.
      drop_ctes oids)) s)"
    by (rule keeps_at) (intro keeps_then keeps_ctes keeps_or_send_error keeps_leaf select)
  note select_closes = closes [OF this, of env]
  have "keeps_txns (on_table env (ins_table i) (\<lambda>rel. case ins_source i of
         Values rows \<Rightarrow> (case rows of [] \<Rightarrow> run_ret () | row # _ \<Rightarrow> insert_row env (relid rel) (map (expr_bytes env) row))
       | InsertSelect _ \<Rightarrow> send_error ''INSERT...SELECT not yet supported''))"
    by (auto intro!: keeps_on_table keeps_rows keeps_leaf simp del: run_simps(3) split: InsertSource.split list.split)
  note insert_closes = closes [OF this, of env]
  have "keeps_txns (on_table env (upd_table u) (\<lambda>rel. case set_clauses u of
         [] \<Rightarrow> run_ret ()
       | c # _ \<Rightarrow> update_rows env (relid rel) (expr_bytes env (set_value c)) None))"
    by (auto intro!: keeps_on_table keeps_rows keeps_leaf simp del: run_simps(3) split: list.split)
  note update_closes = closes [OF this, of env]
  have "keeps_txns (on_table env (del_table d) (\<lambda>rel. delete_rows env (relid rel) None))"
    by (intro keeps_on_table keeps_rows)
  note delete_closes = closes [OF this, of env]
  from assms(1) consider "stmt = Statement.Select q" | "stmt = Statement.Insert i" | "stmt = Statement.Update u"
    | "stmt = Statement.Delete d" by blast
  then show ?thesis
  proof cases
    case 1
    then show ?thesis using select_closes assms(2) by (simp add: handle_statement_def handle_select_statement_def Let_def)
  next
    case 2
    then show ?thesis using insert_closes assms(2) by (simp add: handle_statement_def handle_insert_statement_def)
  next
    case 3
    then show ?thesis using update_closes assms(2) by (simp add: handle_statement_def handle_update_statement_def)
  next
    case 4
    then show ?thesis using delete_closes assms(2) by (simp add: handle_statement_def handle_delete_statement_def)
  qed
qed

section \<open>What the handlers ignore\<close>

text \<open>
  \<open>DELETE\<close> and \<open>UPDATE\<close> do not look at their condition: a \<open>DELETE\<close> with any \<open>WHERE\<close> clause is a \<open>DELETE\<close> of all rows, an
  \<open>UPDATE\<close> assigns its first value to the first column of all rows, whichever column it names. \<open>INSERT\<close> stores the first
  of its rows, in the order of the table's columns.
\<close>

theorem conditions_are_ignored:
  "handle_statement env (Statement.Delete (DeleteStatement t us w rtn)) =
     handle_statement env (Statement.Delete (DeleteStatement t None None []))"
  "handle_statement env (Statement.Update (UpdateStatement t fr (SetClause col e # cs) w rtn)) =
     handle_statement env (Statement.Update (UpdateStatement t None [SetClause col' e] None []))"
  "handle_statement env (Statement.Insert (InsertStatement t cols (Values (row # rows)) oc rtn2)) =
     handle_statement env (Statement.Insert (InsertStatement t None (Values [row]) None []))"
  by (simp_all add: handle_statement_def handle_delete_statement_def handle_update_statement_def handle_insert_statement_def)

text \<open>
  An error inside a transaction is answered with two \<open>ReadyForQuery\<close> messages, the first of which says that there is
  no transaction.
\<close>

theorem error_answered_twice:
  assumes "sess_xid s = Some x" "find_table (query_env env (sess_catalog s)) t = None"
  shows "handle_statement env (Statement.Delete (DeleteStatement t us w rtn)) s =
    Some (s\<lparr>sess_out := sess_out s @
      [ErrorResponse [\<lparr>ef_field_type = 0x4D, ef_value = bytes_of_text (''relation \"'' @ join_name t @ ''\" does not exist'')\<rparr>],
       ReadyForQuery Idle, ReadyForQuery InTransaction]\<rparr>, Ok ())"
  using assms
  by (simp add: handle_statement_def handle_delete_statement_def in_transaction_def begin_implicit_def end_implicit_def
      on_table_def send_error_def write_all_def ready_def tx_status_def run_then_def run_ret_def)

section \<open>Rollback and visibility\<close>

lemma append_wal_cache:
  assumes "append_wal env r s = Some (s', res)"
  shows "db_cache (sess_db s') = db_cache (sess_db s) \<and> sess_catalog s' = sess_catalog s"
  using assms
  by (auto simp: append_wal_def ignore_def on_db_def run_act_def log_append_def split: option.splits prod.splits sum.splits
      rust_error.splits)

text \<open>
  \<open>ROLLBACK\<close> leaves the storage, the cached pages and the relations as they are: what the transaction wrote stays, and
  later statements see it.
\<close>

theorem rollback_undoes_nothing:
  assumes "handle_statement env Statement.Rollback s = Some (s', r)"
  shows "db_cache (sess_db s') = db_cache (sess_db s) \<and> sess_catalog s' = sess_catalog s"
proof -
  have cache: "db_cache (sess_db s2) = db_cache (sess_db s1) \<and> sess_catalog s2 = sess_catalog s1"
    if "append_wal env w s1 = Some (s2, q)" for w s1 s2 q
    using append_wal_cache [OF that] .
  show ?thesis
    using assms unfolding handle_statement_def handle_rollback_statement_def finish_transaction_def
    by (auto simp: txn_rollback_def flush_wal_def clear_xid_def completed_def write_all_def run_ret_def
        split: option.splits dest!: cache elim!: run_then_cases)
qed

text \<open>
  A transaction does not see the rows it inserts: rows are marked with the counter of the log, snapshots compare with the
  counter of the transaction manager, and a row is visible only when its mark is smaller. While the log's counter is not
  behind, as it is when each statement changes at most one row, no row of the transaction is visible to it.
\<close>

theorem own_rows_invisible:
  assumes "sess_xid s = Some x" "x \<le> ucast (WAL.current_xid (db_wal (sess_db s)))"
  shows "\<exists>snap. statement_snapshot env s = Some snap \<and> \<not> is_visible (new_tuple vals (WAL.current_xid (db_wal (sess_db s)))) snap"
  using assms
  by (auto simp: statement_snapshot_def get_snapshot_for_statement_def is_visible_def new_tuple_def Let_def)

section \<open>Every statement is answered\<close>

text \<open>
  \<open>settles env m\<close>: on a session whose index searches return, the step returns and the searches still return.
  \<open>answers env m\<close>: moreover it fails only with a panic.
\<close>

definition searchable :: "('s, 'f) server_env \<Rightarrow> 's session \<Rightarrow> bool" where
  "searchable env s \<longleftrightarrow> searches_return (query_env env (sess_catalog s))"

definition settles :: "('s, 'f) server_env \<Rightarrow> ('s session, 'a) run \<Rightarrow> bool" where
  "settles env m \<longleftrightarrow> (\<forall>s. searchable env s \<longrightarrow> (\<exists>s' r. m s = Some (s', r) \<and> searchable env s'))"

definition answers :: "('s, 'f) server_env \<Rightarrow> ('s session, 'a) run \<Rightarrow> bool" where
  "answers env m \<longleftrightarrow> settles env m \<and> (\<forall>s s' msg. m s \<noteq> Some (s', Err msg))"

lemma settlesI [intro]: "(\<And>s. searchable env s \<Longrightarrow> \<exists>s' r. m s = Some (s', r) \<and> searchable env s') \<Longrightarrow> settles env m"
  by (simp add: settles_def)

lemma searchable_catalog: "indexes (sess_catalog s') = indexes (sess_catalog s) \<Longrightarrow> searchable env s' = searchable env s"
  by (simp add: searchable_def searches_return_def query_env_def)

lemma settles_then:
  assumes "settles env m" "\<And>x. settles env (f x)"
  shows "settles env (run_then m f)"
proof
  fix s assume "searchable env s"
  then obtain s1 r where 1: "m s = Some (s1, r)" "searchable env s1" using assms(1) by (auto simp: settles_def)
  then show "\<exists>s' r. run_then m f s = Some (s', r) \<and> searchable env s'"
    using assms(2) by (cases r) (auto simp: run_then_def settles_def)
qed

lemma answers_settles: "answers env m \<Longrightarrow> settles env m"
  by (simp add: answers_def)

lemma answers_then: "answers env m \<Longrightarrow> (\<And>x. answers env (f x)) \<Longrightarrow> answers env (run_then m f)"
  unfolding answers_def by (auto intro!: settles_then elim!: run_then_cases)

lemma answers_at: "(\<And>s. answers env (g s)) \<Longrightarrow> answers env (\<lambda>s. g s s)"
  unfolding answers_def settles_def by blast

lemma answers_leaf:
  "answers env (run_ret x)" "answers env (write_all ms)" "answers env flush_wal" "answers env (txn_begin env' lvl)"
  "answers env (txn_commit x')" "answers env (txn_rollback x')" "answers env clear_xid" "answers env ready"
  "answers env (completed t st)"
  by (auto simp: answers_def settles_def searchable_def run_ret_def write_all_def flush_wal_def txn_begin_def txn_commit_def
      txn_rollback_def clear_xid_def ready_def completed_def split: prod.splits)

lemma answers_send_error: "answers env (send_error msg)"
  unfolding send_error_def by (intro answers_then answers_leaf)

lemma settles_on_db: "returns m \<Longrightarrow> settles env (on_db m)"
  by (fastforce simp: returns_def on_db_def searchable_def)

lemma settles_on_catalog:
  assumes "\<And>cc cc'. g cc = Ok cc' \<Longrightarrow> indexes (fst cc') = indexes (fst cc)"
  shows "settles env (on_catalog g)"
proof
  fix s assume s: "searchable env s"
  show "\<exists>s' r. on_catalog g s = Some (s', r) \<and> searchable env s'"
    using s assms [of "(sess_catalog s, db_cache (sess_db s))"]
    by (auto simp: on_catalog_def searchable_def searches_return_def query_env_def split: sum.split)
qed

lemma answers_ignore:
  assumes "settles env m"
  shows "answers env (ignore m)"
proof -
  have "\<exists>s' r. ignore m s = Some (s', r) \<and> searchable env s'" if "searchable env s" for s
    using assms that unfolding settles_def ignore_def by (fastforce split: sum.split rust_error.split)
  then show ?thesis
    by (auto simp: answers_def ignore_def split: option.splits sum.splits rust_error.splits)
qed

lemma answers_or_send_error:
  assumes "settles env m" "\<And>x. answers env (k x)"
  shows "answers env (or_send_error m k)"
proof -
  have "\<exists>s' r. or_send_error m k s = Some (s', r) \<and> searchable env s'" if "searchable env s" for s
  proof -
    from that obtain s1 r where "m s = Some (s1, r)" "searchable env s1" using assms(1) unfolding settles_def by blast
    then show ?thesis
      using assms(2) answers_send_error [of env] unfolding or_send_error_def answers_def settles_def
      by (auto split: sum.split rust_error.split)
  qed
  moreover have "or_send_error m k s \<noteq> Some (s', Err msg)" for s s' msg
    using assms(2) answers_send_error [of env] unfolding answers_def by (metis or_send_error_cases rust_error.distinct(1) sum.inject(1))
  ultimately show ?thesis unfolding answers_def settles_def by blast
qed

lemma answers_wal: "answers env (append_wal env' r)"
  unfolding append_wal_def by (intro answers_ignore settles_on_db returns_leaf)

lemma answers_begin_implicit: "answers env (begin_implicit env')"
  unfolding begin_implicit_alt
  by (rule answers_at) (auto intro!: answers_then answers_leaf answers_wal simp del: run_simps(3))

lemma answers_end_implicit: "answers env (end_implicit env' b)"
  unfolding end_implicit_alt
  by (rule answers_at) (auto intro!: answers_then answers_leaf answers_wal simp del: run_simps(3) split: option.split)

lemma answers_in_transaction: "answers env body \<Longrightarrow> answers env (in_transaction env' body)"
  unfolding in_transaction_def by (intro answers_then answers_begin_implicit answers_end_implicit)

lemma answers_on_table:
  assumes "\<And>rel. answers env (body rel)"
  shows "answers env (on_table env' nm body)"
  unfolding on_table_alt by (rule answers_at) (auto intro!: assms answers_send_error split: option.split)

lemma answers_finish:
  assumes "\<And>x. answers env (act x)"
  shows "answers env (finish_transaction env' act rec t)"
  unfolding finish_transaction_alt
  by (rule answers_at) (auto intro!: answers_then answers_leaf answers_wal assms simp del: run_simps(3) split: option.split)

lemma answers_set: "answers env (handle_set_statement S stmt)"
  unfolding handle_set_alt by (rule answers_at) (rule answers_leaf)

lemma answers_row_statements:
  "answers env (handle_insert_statement env i)" "answers env (handle_update_statement env u)"
  "answers env (handle_delete_statement env d)"
  unfolding handle_insert_statement_def handle_update_statement_def handle_delete_statement_def insert_row_def
    update_rows_def delete_rows_def
  by (auto intro!: answers_in_transaction answers_on_table answers_or_send_error settles_on_db returns_leaf answers_leaf
      answers_send_error simp del: run_simps(3) split: InsertSource.split list.split)

lemma answers_ctes: "answers env (register_ctes cs)" "answers env (drop_ctes oids)"
proof -
  show "answers env (register_ctes cs)"
  proof (induction cs)
    case (Cons c cs)
    then show ?case
      by (auto intro!: answers_then answers_leaf simp del: run_simps(3))
         (auto simp: answers_def settles_def allocate_oid_def create_relation_def Let_def
          searchable_def searches_return_def query_env_def split: prod.splits)
  qed (simp add: answers_leaf del: run_simps(3))
  have "settles env (on_catalog (\<lambda>cc. Ok (delete_relation oid cc)))" for oid
    by (rule settles_on_catalog) (auto simp: delete_relation_def Let_def)
  moreover have "on_catalog (\<lambda>cc. Ok (delete_relation oid cc)) s \<noteq> Some (s', Err msg)" for oid and s s' :: "'a session" and msg
    by (simp add: on_catalog_def split: prod.split)
  ultimately have "answers env (on_catalog (\<lambda>cc. Ok (delete_relation oid cc)))" for oid by (simp add: answers_def)
  then show "answers env (drop_ctes oids)"
    by (induction oids) (auto intro!: answers_then answers_leaf simp del: run_simps(3))
qed

lemma answers_select: "answers env (handle_select_statement env q)"
proof -
  have select: "settles env (run_select env snap q)" for snap
    by (rule settlesI) (use pipeline_returns(1) in \<open>fastforce simp: run_select_def on_db_def searchable_def returns_def\<close>)
  show ?thesis
    unfolding handle_select_statement_def Let_def
    by (rule answers_in_transaction, rule answers_at)
       (intro answers_then answers_ctes answers_or_send_error answers_leaf select)
qed

text \<open>
  A \<open>CREATE INDEX\<close> adds an index whose searches need not return; it is answered all the same.
\<close>

lemma create_index_answers:
  assumes "\<And>s. \<exists>s'. fin s = Some (s', Ok ())"
  shows "\<exists>s' r. or_send_error (run_create_index env tbl column) (\<lambda>_. fin) s = Some (s', r) \<and> (r = panic \<or> r = Ok ())"
  using assms [THEN exE]
  by (auto simp: or_send_error_def run_create_index_def on_catalog_def send_error_def write_all_def run_then_def
      split: sum.split rust_error.split prod.split) blast

lemma settles_tables: "settles env (run_create_table nm cols)" "settles env (run_drop_table env nm)"
  unfolding run_create_table_def run_drop_table_def
  by (intro settles_on_catalog; auto simp: execute_create_table_def execute_drop_table_def missing_relation_def
      delete_relation_def allocate_oid_def create_relation_def Let_def split: option.splits prod.splits)+

lemma answers_tables: "answers env (handle_create_table_statement c)" "answers env (handle_drop_table_statement env d)"
  unfolding handle_create_table_statement_def handle_drop_table_statement_def Let_def
  by (intro answers_or_send_error settles_tables answers_leaf)+

lemma settles_res: "settles env (run_res r)"
  by (auto simp: run_res_def)

lemma answers_query_rows:
  "answers env (in_transaction env (insert_row env rel vals))" "answers env (query_update env rel v w)"
  "answers env (query_delete env rel w)"
  unfolding insert_row_def query_update_def query_delete_def update_rows_def delete_rows_def
  by (auto intro!: answers_in_transaction answers_or_send_error settles_on_db settles_res returns_leaf answers_leaf)

lemma answers_query_select: "answers env (query_select env q)"
proof -
  have "settles env (send_rows rel rows)" for rel rows
    unfolding send_rows_def
    by (auto intro!: settles_then settles_on_db returns_leaf answers_settles [OF answers_leaf(2)])
  then have "settles env (execute_seq_scan env rel)" "settles env (execute_slow_scan env rel f)" for rel f
    unfolding execute_seq_scan_def execute_slow_scan_def
    by (auto intro!: settles_then settles_on_db settles_res returns_leaf)
  then show ?thesis
    unfolding query_select_def
    by (auto intro!: answers_in_transaction answers_or_send_error answers_leaf simp del: run_simps(3)
        split: Plan.split option.split)
qed

lemma answers_tables_query:
  "answers env (or_send_error (run_create_table nm cols) (\<lambda>_ s. completed t (tx_status s) s))"
  "answers env (or_send_error (run_drop_table env nm) (\<lambda>_ s. completed t (tx_status s) s))"
proof -
  have "answers env (\<lambda>s. completed t (tx_status s) s)" by (rule answers_at) (rule answers_leaf)
  then show "answers env (or_send_error (run_create_table nm cols) (\<lambda>_ s. completed t (tx_status s) s))"
    "answers env (or_send_error (run_drop_table env nm) (\<lambda>_ s. completed t (tx_status s) s))"
    by (intro answers_or_send_error settles_tables; simp)+
qed

lemma answers_statement: "\<nexists>c. stmt = CreateIndex c \<Longrightarrow> answers env (handle_statement env stmt)"
  unfolding handle_statement_def handle_begin_statement_def start_transaction_def handle_commit_statement_def
    handle_rollback_statement_def
  by (auto split: Statement.split intro!: answers_then answers_finish answers_set answers_select answers_row_statements
      answers_tables answers_send_error answers_leaf)

lemma query_returns_result:
  assumes "searchable env s"
  shows "\<exists>s' r. handle_query env q s = Some (s', r) \<and> (r = panic \<or> r = Ok ())"
proof -
  have general: ?thesis if ans: "answers env (handle_query env q)"
  proof -
    from ans assms obtain s' r where "handle_query env q s = Some (s', r)" "\<forall>msg. r \<noteq> Err msg"
      unfolding answers_def settles_def by blast
    then show ?thesis by (cases r) (metis (full_types) rust_error.exhaust unit.exhaust)+
  qed
  show ?thesis
  proof (cases q)
    case (QStatement stmt)
    show ?thesis
    proof (cases "\<exists>c. stmt = CreateIndex c")
      case True
      then obtain t tbl col where "handle_query env q = or_send_error (run_create_index env tbl col) (\<lambda>_. completed t Idle)"
        using QStatement by (auto simp: handle_query_def handle_statement_def handle_create_index_statement_def Let_def)
      then show ?thesis using create_index_answers [of "completed t Idle" env tbl col s] by (simp add: completed_def write_all_def)
    next
      case False
      then show ?thesis using QStatement answers_statement [of stmt env] by (intro general) (simp add: handle_query_def)
    qed
  next
    case (QCreateIndex nm tbl col)
    then show ?thesis
      using create_index_answers [of "\<lambda>s. completed (''CREATE INDEX '' @ nm) (tx_status s) s" env tbl col s]
      by (simp add: handle_query_def completed_def write_all_def)
  qed (rule general, simp add: handle_query_def start_transaction_def answers_tables_query answers_query_rows
       answers_query_select answers_then answers_finish answers_leaf)+
qed


section \<open>Examples\<close>

text \<open>A server on one empty table \<open>t\<close>, without a transaction.\<close>

definition sample_server :: "(EphemeralStorage, int) server_env" where
  "sample_server =
     \<lparr>srv_oc = True, srv_std = int_std, srv_storage = ephemeral, srv_bincode = sample_bincode, srv_oids = \<lambda>_. [9],
      srv_xids = \<lambda>_. [], srv_groups = \<lambda>_. [], srv_fuel = 1, srv_debug = \<lambda>_. []\<rparr>"

definition sample_session :: "xid option \<Rightarrow> EphemeralStorage session" where
  "sample_session x =
     \<lparr>sess_db = sample_db new_ephemeral (new_buffer_pool 4) [], sess_catalog = sample_catalog\<lparr>relations := [9 \<mapsto> sample_relation []]\<rparr>,
      sess_txns = new_transaction_manager, sess_xid = x, sess_out = []\<rparr>"

definition delete_from :: "string \<Rightarrow> Statement" where
  "delete_from t = Statement.Delete (DeleteStatement (single_name t) None None [])"

lemma sample_append:
  assumes "segment_size (db_wal (sess_db s)) = 64" "unat (current_lsn (db_wal (sess_db s))) \<le> 1000"
  obtains w where "append_wal sample_server r s = Some (s\<lparr>sess_db := (sess_db s)\<lparr>db_wal := w\<rparr>\<rparr>, Ok ())" "segment_size w = 64"
    "unat (current_lsn w) \<le> unat (current_lsn (db_wal (sess_db s))) + 65"
proof -
  have "ser_record sample_bincode r = Ok [9]" by (simp add: sample_bincode_def)
  moreover have "length [9 :: 8 word] \<le> unat (segment_size (db_wal (sess_db s)))" "0 < unat (segment_size (db_wal (sess_db s)))"
    "unat (current_lsn (db_wal (sess_db s))) + 2 * unat (segment_size (db_wal (sess_db s))) < 2 ^ 64"
    "2 + unat (current_lsn (db_wal (sess_db s))) div unat (segment_size (db_wal (sess_db s))) < 2 ^ 32"
    using assms by simp_all
  ultimately obtain w lsn where "wal_append True (ser_record sample_bincode) r (db_wal (sess_db s)) = (w, Ok lsn)"
    "segment_size w = segment_size (db_wal (sess_db s))" "unat (current_lsn w) = unat lsn + length [9 :: 8 word]"
    "unat lsn \<le> unat (current_lsn (db_wal (sess_db s))) + unat (segment_size (db_wal (sess_db s)))"
    by (rule append_ok [of _ _ _ _ True])
  then show ?thesis using assms(1)
    by (intro that [of w]) (simp_all add: append_wal_def ignore_def on_db_def run_act_def log_append_def sample_server_def)
qed

lemma sample_lookup: "find_table (query_env sample_server (sess_catalog (sample_session x))) (single_name ''u'') = None"
proof -
  have "to_ascii_uppercase ''t'' = ''T''" "to_ascii_uppercase ''u'' = ''U''" by code_simp+
  then show ?thesis
    by (simp add: find_table_def query_env_def sample_server_def sample_session_def sample_catalog_def list_relations_def
        map_filter_def sample_relation_def empty_relation_def join_name_def single_name_def int_std_def)
qed


theorem error_answered_twice_witness:
  "\<exists>s' msg. handle_statement sample_server (delete_from ''u'') (sample_session (Some 1)) = Some (s', Ok ()) \<and>
     sess_out s' = [ErrorResponse msg, ReadyForQuery Idle, ReadyForQuery InTransaction]"
  using error_answered_twice [OF _ sample_lookup, of "Some 1" 1 None None "[]"]
  by (simp add: delete_from_def sample_session_def)

theorem statement_transaction_closed_witness:
  "\<exists>s'. handle_statement sample_server (delete_from ''u'') (sample_session None) = Some (s', Ok ()) \<and>
     sess_xid s' = None \<and> active (sess_txns s') = Map.empty \<and> next_xid (sess_txns s') = 2"
proof -
  let ?s = "sample_session None" and ?env = sample_server
  obtain s1 where s1: "txn_begin ?env IsolationLevel.ReadCommitted ?s = Some (s1, Ok 1)" "sess_xid s1 = Some 1"
    "sess_db s1 = sess_db ?s" "sess_catalog s1 = sess_catalog ?s"
    by (simp add: txn_begin_def tm_begin_def sample_session_def new_transaction_manager_def Let_def)
  have fresh: "segment_size (db_wal (sess_db ?s)) = 64" "unat (current_lsn (db_wal (sess_db ?s))) = 0"
    by (simp_all add: sample_session_def sample_db_def new_wal_def)
  obtain w where w: "append_wal ?env (WALRecord.Begin (ucast (1 :: xid))) s1 = Some (s1\<lparr>sess_db := (sess_db s1)\<lparr>db_wal := w\<rparr>\<rparr>, Ok ())"
    "segment_size w = 64" "unat (current_lsn w) \<le> 65"
    using sample_append [of s1 "WALRecord.Begin (ucast (1 :: xid))"] s1 fresh by auto
  let ?s2 = "s1\<lparr>sess_db := (sess_db s1)\<lparr>db_wal := w\<rparr>\<rparr>"
  obtain s3 where s3: "send_error (''relation \"'' @ join_name (single_name ''u'') @ ''\" does not exist'') ?s2 = Some (s3, Ok ())"
    "sess_xid s3 = Some 1" "sess_db s3 = sess_db ?s2"
    using s1(2) by (simp add: send_error_def write_all_def run_then_def)
  obtain w' where "append_wal ?env (WALRecord.Commit (ucast (1 :: xid))) s3 = Some (s3\<lparr>sess_db := (sess_db s3)\<lparr>db_wal := w'\<rparr>\<rparr>, Ok ())"
    using sample_append [of s3 "WALRecord.Commit (ucast (1 :: xid))"] s3 w by auto
  then obtain s' where run: "handle_statement ?env (delete_from ''u'') ?s = Some (s', Ok ())"
    using s1 w(1) s3 sample_lookup [of None]
    by (simp add: handle_statement_def delete_from_def handle_delete_statement_def in_transaction_def begin_implicit_def
        end_implicit_def on_table_def run_then_def txn_commit_def flush_wal_def clear_xid_def ready_def write_all_def
        sample_session_def)
  then show ?thesis
    using statement_transaction_closed [of "delete_from ''u''" undefined undefined undefined
        "DeleteStatement (single_name ''u'') None None []", OF _ run]
    by (simp add: delete_from_def sample_session_def new_transaction_manager_def)
qed

theorem rollback_undoes_nothing_witness:
  "\<exists>s' r. handle_statement sample_server Statement.Rollback (sample_session (Some 1)) = Some (s', r) \<and>
     db_cache (sess_db s') = db_cache (sess_db (sample_session (Some 1))) \<and> sess_catalog s' = sess_catalog (sample_session (Some 1))"
proof -
  let ?s = "sample_session (Some 1)"
  have "answers sample_server (handle_statement sample_server Statement.Rollback)"
    by (auto simp: handle_statement_def handle_rollback_statement_def intro!: answers_finish answers_leaf)
  moreover have "searchable sample_server ?s"
    by (simp add: searchable_def searches_return_def query_env_def sample_session_def sample_catalog_def)
  ultimately obtain s' r where "handle_statement sample_server Statement.Rollback ?s = Some (s', r)"
    unfolding answers_def settles_def by blast
  then show ?thesis using rollback_undoes_nothing by blast
qed

theorem own_rows_invisible_witness:
  "\<exists>snap. statement_snapshot sample_server (sample_session (Some 1)) = Some snap \<and> \<not> is_visible (new_tuple [[65]] 1) snap"
  using own_rows_invisible [of "sample_session (Some 1)" 1 sample_server "[[65]]"]
  by (simp add: sample_session_def sample_db_def new_wal_def)

end
