(* ===== verification/Spec2Isabelle.thy ===== *)
theory Spec2Isabelle
  imports Locks Transaction Storage Visibility_Map Toast Heap_Page Types WAL Buffer_Pool Heap_Ops BTree Indexes Brin
    Protocol Auth Session Security Sql_Stmt Eval Join Select_Ops Group_By Window Parse_Print Server
begin

text \<open>
  \<^bold>\<open>A verification of postgress-rs.\<close>

  The program is a small relational database in Rust (\<open>src/src\<close>). A server speaks the PostgreSQL wire protocol
  (\<open>protocol\<close>), parses SQL (\<open>sql\<close>) and runs it with an executor (\<open>executor\<close>) over relations of heap pages
  (\<open>storage\<close>, \<open>buffer_cache\<close>, \<open>wal\<close>), with indexes (\<open>btree\<close>), transactions and locks (\<open>transaction\<close>) and
  access control (\<open>security\<close>). A statement goes through the tokenizer and the parser, the operators of a query
  work on lists of rows, and changes reach the heap pages through the log and the storage.

  \<^bold>\<open>Theories and the code they model.\<close>

  \<^item> \<open>Prelude\<close>: machine types, failure as a value (an error or a panic), state with failure, checked slices,
    little-endian bytes, hash maps of vectors. \<open>Codec\<close>: the contract of a fixed-size binary format (locale
    \<open>fixed_codec\<close>). \<open>Utf8\<close> and \<open>Rust_Str\<close>: the parts of Rust's strings that are used.
  \<^item> \<open>Storage\<close> (\<open>storage/mod.rs\<close>, \<open>ephemeral.rs\<close>, \<open>mmap.rs\<close>, \<open>fork.rs\<close>): the storage trait as a record of functions,
    its two implementations, the fork page numbers. Locale \<open>page_store\<close> is what the clients of a storage rely on;
    it is interpreted for both implementations.
  \<^item> \<open>Heap_Page\<close> (\<open>storage/heap_page.rs\<close>): slotted pages, their image, inserting, heap-only updates, pruning,
    compaction. \<open>Visibility_Map\<close> and \<open>Toast\<close>: \<open>storage/visibility_map.rs\<close> and \<open>storage/toast.rs\<close>.
  \<^item> \<open>Types\<close> (\<open>types/mod.rs\<close>): tuples and relations.
  \<^item> \<open>WAL\<close> (\<open>wal/mod.rs\<close>, \<open>wal/recovery.rs\<close>): record formats, checksum, append and flush, the replay loop.
  \<^item> \<open>Buffer_Pool\<close> (\<open>buffer_cache/mod.rs\<close>): clock sweep, fetch, pin, unpin, flush, the shared cache, checkpoints.
  \<^item> \<open>Heap_Ops\<close> (\<open>executor/heap.rs\<close>): insert, scans, update, delete and vacuum of a relation, composed from the
    page, storage, log and cache operations the way the code composes them.
  \<^item> \<open>BTree\<close> (\<open>btree/page.rs\<close>, \<open>insert.rs\<close>, \<open>search.rs\<close>, \<open>mod.rs\<close>, \<open>scan.rs\<close>): pages, format, single-page and
    multi-page insert, search, composite keys, scan helpers. The locale \<open>btree_store\<close> joins a page store with a
    binary search.
  \<^item> \<open>Indexes\<close> (\<open>btree/hash_index.rs\<close>, \<open>gin_index.rs\<close>) and \<open>Brin\<close> (\<open>btree/brin_index.rs\<close>): the in-memory indexes.
    The locale \<open>tid_index\<close> is the multimap contract of the first two.
  \<^item> \<open>Locks\<close> (\<open>transaction/locks.rs\<close>): table, row and advisory locks, deadlock detection. \<open>Transaction\<close>
    (\<open>transaction/mod.rs\<close>, \<open>clog.rs\<close>, \<open>timeouts.rs\<close>): snapshots, begin, commit and rollback, the commit log.
  \<^item> \<open>Protocol\<close> (\<open>protocol/frontend.rs\<close>, \<open>backend.rs\<close>): decoding of client messages with its panics, encoding of
    server messages. \<open>Auth\<close> (\<open>auth.rs\<close>): the password checks. \<open>Session\<close> (\<open>extended.rs\<close>, \<open>cursor.rs\<close>,
    \<open>connection_pool.rs\<close>, the line buffer of \<open>parser.rs\<close>): prepared statements, portals, cursors, connections.
  \<^item> \<open>Security\<close> (\<open>security/rbac.rs\<close>, \<open>rls.rs\<close>, \<open>auditing.rs\<close>): roles and grants, row policies, the audit log.
  \<^item> \<open>Sql_Ast\<close> and \<open>Sql_Stmt\<close> (\<open>sql/ast.rs\<close>): the syntax tree. The recursion of expressions through queries and of
    queries through statements is tied with type parameters.
  \<^item> \<open>Lexer\<close> (\<open>sql/parser/token.rs\<close>): the tokenizer. \<open>Parse_Base\<close> (\<open>sql/parser.rs\<close>): the parser state and its helpers.
    \<open>Parse_Type\<close>, \<open>Parse_Expr\<close>, \<open>Parse_Select\<close>, \<open>Parse_Stmt\<close> (\<open>sql/parser/data_type.rs\<close>, \<open>expr.rs\<close>, \<open>select.rs\<close>,
    \<open>dml.rs\<close>, \<open>ddl.rs\<close>, \<open>transaction.rs\<close>, \<open>sql/parser.rs\<close>): the recursive descent parser, one definition per method
    or branch. \<open>Parse_Print\<close>: a printer of expressions and queries and the round trip.
  \<^item> \<open>Eval\<close> (\<open>server/eval.rs\<close>): the evaluation of expressions on a row. \<open>Join\<close> (\<open>executor/select/algorithms.rs\<close>,
    \<open>joins.rs\<close>), \<open>Select_Ops\<close> (\<open>filter_limit.rs\<close>, \<open>set_ops.rs\<close>, \<open>materialize.rs\<close>), \<open>Group_By\<close> (\<open>group_by.rs\<close>) and
    \<open>Window\<close> (\<open>window.rs\<close>): the operators of a query on lists of rows.
  \<^item> \<open>Catalog\<close> (\<open>catalog/mod.rs\<close>, the table operations of \<open>server/utils.rs\<close>): relations, indexes and object identifiers,
    with the copy the buffer cache keeps. \<open>Index_Scan\<close> (\<open>executor/btree.rs\<close>): index entries and index-only scans.
  \<^item> \<open>Select\<close> (\<open>executor/select/mod.rs\<close>, \<open>context.rs\<close>): the pipeline of a query over the catalog, the heap and the indexes.
    A computation is a function on the database that may not return (the search in an index), fail or succeed.
  \<^item> \<open>Server\<close> (\<open>server/query.rs\<close>, \<open>server/utils.rs\<close>, \<open>executor/planner.rs\<close>, \<open>protocol/codes.rs\<close>): the dispatch of
    statements and what each does to the catalog, the database, the log, the transactions and the messages sent.

  \<^bold>\<open>How code becomes definitions.\<close> A struct is a record, an enum a datatype, an operation on \<open>&mut self\<close> a function
  from the old to the new state. \<open>Result\<close> and panics are the sum type \<open>res\<close>; the question mark operator is
  \<open>and_then\<close>. Machine integers are words; where a build with overflow checks panics and one without wraps,
  definitions take the flag \<open>oc\<close>. A \<open>HashMap\<close> is a partial function, and where the code iterates over one the
  order is an argument. A parser is a function from the tokens at the current position to an error or a value with
  the tokens left. Code outside the repository is a parameter: the \<open>bincode\<close> serialiser (record \<open>bincode\<close>
  with its round trip as hypothesis), the Unicode tables of \<open>to_lowercase\<close> and \<open>to_uppercase\<close>, floating-point
  arithmetic (record \<open>std\<close>). \<open>binary_search_by\<close>, whose result is not determined among equal keys, is a parameter
  with its documented contract.

  \<^bold>\<open>Fuel.\<close> Three searches carry fuel. The deadlock detector gets one unit more than the transactions of the graph,
  and \<open>deadlock_detector_exact\<close> includes that this is always enough. The B-tree descent follows stored page
  numbers, which may form a cycle; \<open>btree_search_terminates\<close> gives the fuel that is enough when the levels
  decrease. The parser calls itself on brackets and subqueries; the fuel bounds the depth of these calls. The
  locale \<open>halting_subparsers\<close> is the contract that the parsers called back return on shorter input, \<open>extended_subparsers\<close>
  that more fuel changes no result, both are interpreted on the knot \<open>parsers\<close>, and \<open>parser_returns\<close> shows that the
  number of tokens is enough. The loops of the parser are \<open>partial_function\<close>s, of which \<open>parser_returns\<close> includes that
  they end. All other loops are total functions.

  \<^bold>\<open>What the lemmas show.\<close>

  \<^item> Locks and transactions: compatible holders in every reachable state, an exact deadlock detector, release and
    counting of locks, unique identifiers under every interleaving of \<open>begin\<close>, exact snapshots of a lone \<open>begin\<close>.
  \<^item> Storage and pages: both storages are arrays of pages; page images round trip; adding, updating and pruning
    tuples keep the page invariant and do to the slots what they should, for tuples no longer than \<open>pd_upper\<close> (what
    a longer one does is stated as well).
  \<^item> Log and cache: appended records are readable at increasing positions; the checksum detects a changed byte;
    formats round trip; the pool is transparent over any page store while the pages in use fit, for the
    code's way of changing a page (data through the guard of \<open>lock_pool\<close>, then \<open>unpin_page\<close> with the dirty flag); a
    checkpoint puts the bytes of every dirty page into the storage, leaves none dirty and records the flushed position.
  \<^item> Heap: an inserted row is the next row of a scan of the storage (in a relation without freed slots); rows round
    trip through their encoding.
  \<^item> Indexes: the single-page B-tree, the hash, GIN and block range indexes answer lookups exactly; what is read back of
    a written B-tree page is given for every page (\<open>stored_form\<close>); composite keys round trip.
  \<^item> Protocol and sessions: message streams round trip; cursors return each row once; connections stay within the
    limit; privilege checks are exact for all roles but number zero.
  \<^item> Parser: tokens, expressions and queries round trip through their text, which fixes precedence and grouping; the
    parser returns on every text but the two kinds of statement on which it does not.
  \<^item> Queries: well-typed expressions have values; the three join algorithms compute the join; set operations,
    paging and grouping do to the rows what their definition says; \<open>ORDER BY\<close> returns the one stable order its items
    prescribe (\<open>stable_order\<close>), and window values are computed in that order.
  \<^item> Catalog and server: the relations of the catalog and of the cache agree after any sequence of table statements,
    which is what a query needs to find its pages; creating and dropping a table is undone; a query on a table returns
    its visible rows that satisfy the condition; every statement is answered with messages that end with
    \<open>ReadyForQuery\<close>; a statement leaves the transactions as it found them. \<open>query_answered\<close>, below, joins the
    tokenizer, the parser, the dispatch, the pipeline, the evaluator and the heap.
  \<^item> Defects, each proved on the same definitions: modes that do not conflict with themselves, a snapshot that
    sees a running transaction, a redirection lost in the page image, pages shared by relations, stale cache
    reads, rows lost by an update on a full page, zeros replayed as records, leaves lost by a B-tree split, nulls
    lost by the block range index, passwords that are not checked, a statement in brackets that is never parsed, text
    after a statement that is dropped, joins that differ on missing keys, ranks that are always one, conditions that
    \<open>DELETE\<close> and \<open>UPDATE\<close> ignore, a \<open>ROLLBACK\<close> that undoes nothing, an index that hides the rows of its table, and
    others listed with the theorems.

  \<^bold>\<open>Not modelled.\<close> The cost estimates of the planner and the optimizer (floating-point costs, which the executor
  does not ask for); the loop of the server over sockets, \<open>COPY\<close>, notifications; the
  full-text and JSON types; threads and timers of the server, of autovacuum and of the background writer; the GiST
  index, which computes with floating-point numbers; partitions; log archiving; reading and writing the control file in
  the file system; the registry of SQL functions, which the executor does not use. Locks that protect a structure are
  not modelled: an operation on it is one atomic step, except for \<open>begin\<close>, whose three separate critical sections are
  three steps.
\<close>

section \<open>From the text of a query to its answer\<close>

lemma simple_query_table: "simple_query es tbl c = table_query es (single_name tbl) c"
  by (simp add: simple_query_def table_query_def)

text \<open>A query inside a transaction: the messages are those of its result, and only the cached pages change.\<close>

lemma select_in_transaction:
  fixes s :: "'s session" and q :: select
  assumes "sess_xid s = Some x" "sel_with q = None"
    and "execute_select (query_env env (sess_catalog s)) (statement_snapshot env s) q (sess_db s) = Some (db', Ok res)"
  shows "handle_statement env (Statement.Select q) s =
    Some (s\<lparr>sess_db := db', sess_out := sess_out s @ build_select_messages res @ [ReadyForQuery InTransaction]\<rparr>, Ok ())"
  using assms
  by (simp add: handle_statement_def handle_select_statement_def in_transaction_def begin_implicit_def end_implicit_def
      or_send_error_def run_select_def on_db_def write_all_def ready_def tx_status_def run_then_def run_ret_def Let_def)

text \<open>
  C1: from the text of a query to its answer. The text of a query on a table that no index serves, sent inside a
  transaction, is parsed, and the server answers it with the rows of the table that are visible to the transaction and
  satisfy the condition, their number, and \<open>ReadyForQuery\<close>.
\<close>

theorem query_answered:
  fixes es :: "expr list" and c :: expr
  assumes "\<forall>x \<in> set es. printable x" "es \<noteq> []" "printable c"
    and "list_all lexable (print_query es tbl c)" "length (print_query es tbl c) < n"
    and "sess_xid s = Some x" "plain_list (srv_std env) es"
    and "find_table (query_env env (sess_catalog s)) (single_name tbl) = Some rel"
    and "usable_index (query_env env (sess_catalog s)) (relid rel) (Some c) = None"
    and "heap_scan_with_optional_snapshot (srv_oc env) (srv_storage env) (srv_bincode env) (relid rel)
      (statement_snapshot env s) (sess_db s) = (db', Ok rows)"
  shows "\<exists>stmt. parse_sql U n (show_tokens (print_query es tbl c)) = Some (Inr stmt) \<and>
    handle_statement env stmt s = Some (s\<lparr>sess_db := db', sess_out := sess_out s @
      build_select_messages \<lparr>columns = resolve_columns (Some (tuple_desc rel)) (map SelExpr es),
        result_rows = map snd (filter (\<lambda>tr. evaluate_where (srv_std env) c (snd tr) (Some (tuple_desc rel))) (text_rows rows))\<rparr> @
      [ReadyForQuery InTransaction]\<rparr>, Ok ())"
proof -
  let ?q = "table_query es (single_name tbl) c" and ?env = "query_env env (sess_catalog s)"
  have env: "env_std ?env = srv_std env" "env_oc ?env = srv_oc env" "env_storage ?env = srv_storage env"
    "env_bincode ?env = srv_bincode env" by (simp_all add: query_env_def)
  have "execute_select ?env (statement_snapshot env s) ?q (sess_db s) = Some (db', and_then (Ok rows) (\<lambda>rows. Ok
      \<lparr>columns = resolve_columns (Some (tuple_desc rel)) (map SelExpr es),
       result_rows = map snd (filter (\<lambda>tr. evaluate_where (srv_std env) c (snd tr) (Some (tuple_desc rel))) (text_rows rows))\<rparr>))"
    unfolding env(1) [symmetric] using assms(7-10) by (intro table_query_scans) (simp_all add: env)
  then have "execute_select ?env (statement_snapshot env s) ?q (sess_db s) = Some (db', Ok
      \<lparr>columns = resolve_columns (Some (tuple_desc rel)) (map SelExpr es),
       result_rows = map snd (filter (\<lambda>tr. evaluate_where (srv_std env) c (snd tr) (Some (tuple_desc rel))) (text_rows rows))\<rparr>)"
    by simp
  moreover have "sel_with ?q = None" by (simp add: table_query_def)
  ultimately have "handle_statement env (Statement.Select ?q) s = Some (s\<lparr>sess_db := db', sess_out := sess_out s @
      build_select_messages \<lparr>columns = resolve_columns (Some (tuple_desc rel)) (map SelExpr es),
        result_rows = map snd (filter (\<lambda>tr. evaluate_where (srv_std env) c (snd tr) (Some (tuple_desc rel))) (text_rows rows))\<rparr> @
      [ReadyForQuery InTransaction]\<rparr>, Ok ())"
    using select_in_transaction [OF assms(6)] by blast
  then show ?thesis
    using query_text_parses [OF assms(1-5), of U] simple_query_table [of es tbl c] by (intro exI conjI) simp_all
qed

theorem query_answered_witness:
  "\<exists>img db' stmt.
     (let s = (sample_session (Some 7))\<lparr>sess_db := cached_db img, sess_catalog := sample_catalog\<rparr>
      in parse_sql id 20 ''SELECT \"c\" FROM \"t\" WHERE \"c\" = 'A' '' = Some (Inr stmt) \<and>
         handle_statement sample_server stmt s = Some (s\<lparr>sess_db := db', sess_out :=
           [RowDescription [select_field 0 ''c''], data_row [''A''], select_tag 1, ReadyForQuery InTransaction]\<rparr>, Ok ()))"
proof -
  let ?es = "[Identifier ''c''] :: expr list" and ?c = "BinaryOp (Identifier ''c'') Equals (Lit (LString ''A'')) :: expr"
  let ?rel = "sample_relation [5]" and ?env = sample_server
  obtain img pg where img: "page_deserialize True img = Ok pg" "tuples pg = [[1, 2, 3]]" using one_row_image by blast
  let ?s = "(sample_session (Some 7))\<lparr>sess_db := cached_db img, sess_catalog := sample_catalog\<rparr>"
  let ?snap = "Some \<lparr>snap_xid = 7, active_xids = []\<rparr>" and ?row = "(\<lparr>ip_page_id = 5, ip_offset = 0\<rparr>, [[65]])"
  have snap: "statement_snapshot ?env ?s = ?snap"
    by (simp add: statement_snapshot_def get_snapshot_for_statement_def sample_session_def sample_server_def)
  obtain db' where scan: "heap_scan_with_optional_snapshot True ephemeral sample_bincode 9 ?snap (cached_db img) = (db', Ok [?row])"
    using cached_scan [OF img, of ?snap] by (auto simp: is_visible_def new_tuple_def)
  have tokens: "print_query ?es ''t'' ?c = [TKeyword ''SELECT'', TIdent ''c'', TKeyword ''FROM'', TIdent ''t'', TKeyword ''WHERE'',
      TIdent ''c'', TEq, TString ''A'']"
    by (simp add: print_query_def print_expr_raw wrap_def)
  then have "show_tokens (print_query ?es ''t'' ?c) = ''SELECT \"c\" FROM \"t\" WHERE \"c\" = 'A' ''" by (simp add: show_tokens_def)
  moreover have lex: "list_all lexable (print_query ?es ''t'' ?c)" unfolding tokens by code_simp
  have len: "length (print_query ?es ''t'' ?c) < 20" unfolding tokens by simp
  have env: "query_env ?env (sess_catalog ?s) = (sample_env sample_catalog)"
    by (simp add: query_env_def sample_server_def sample_env_def)
  have "\<exists>stmt. parse_sql id 20 (show_tokens (print_query ?es ''t'' ?c)) = Some (Inr stmt) \<and>
    handle_statement ?env stmt ?s = Some (?s\<lparr>sess_db := db', sess_out := sess_out ?s @
      build_select_messages \<lparr>columns = resolve_columns (Some (tuple_desc ?rel)) (map SelExpr ?es),
        result_rows = map snd (filter (\<lambda>tr. evaluate_where (srv_std ?env) ?c (snd tr) (Some (tuple_desc ?rel))) (text_rows [?row]))\<rparr> @
      [ReadyForQuery InTransaction]\<rparr>, Ok ())"
  proof (rule query_answered [OF _ _ _ lex len, where x = 7])
    show "plain_list (srv_std ?env) ?es" unfolding sample_server_def by code_simp
    show "heap_scan_with_optional_snapshot (srv_oc ?env) (srv_storage ?env) (srv_bincode ?env) (relid ?rel)
        (statement_snapshot ?env ?s) (sess_db ?s) = (db', Ok [?row])"
      using scan unfolding snap by (simp add: sample_server_def sample_relation_def empty_relation_def)
    show "find_table (query_env ?env (sess_catalog ?s)) (single_name ''t'') = Some ?rel"
      unfolding env using sample_table by blast
    show "usable_index (query_env ?env (sess_catalog ?s)) (relid ?rel) (Some ?c) = None"
      unfolding env by (simp add: usable_index_def find_index_def sample_env_def sample_catalog_def)
  qed (simp_all add: parsed_operator_def sample_session_def)
  moreover have "evaluate_where int_std ?c [''A''] (Some (tuple_desc ?rel))" "text_of [65] = ''A''" by code_simp+
  ultimately show ?thesis
    unfolding Let_def
    by (intro exI [of _ img] exI [of _ db']) (simp add: text_rows_def resolve_columns_def item_columns_def sample_server_def sample_session_def
        build_select_messages_def)
qed

end
